(* ===== verification/Prelude.thy ===== *)
theory Prelude
  imports Main "HOL-Library.Multiset"
begin

text \<open>
  The prelude of the development: the result of a comparison and the laws a
  comparison has to obey (a locale, with sorting and maximum search proved once for
  every comparison that obeys them), and the list lemmas the components share.

  The Rust sources compare with \<open>std::cmp::Ordering\<close>, sort with the stable
  \<open>slice::sort_by\<close> and search with \<open>Iterator::max\<close>.
\<close>

named_theorems cmp_simps \<open>equations of the comparison functions\<close>

section \<open>Orderings\<close>

datatype ordering = Less | Equal | Greater

text \<open>\<open>Ordering::reverse\<close> and \<open>Ordering::then_with\<close>.\<close>

fun reverse_ordering :: "ordering \<Rightarrow> ordering" where
  "reverse_ordering Less = Greater"
| "reverse_ordering Equal = Equal"
| "reverse_ordering Greater = Less"

fun then_with :: "ordering \<Rightarrow> ordering \<Rightarrow> ordering" where
  "then_with Equal b = b"
| "then_with a b = a"

definition cmp_nat :: "nat \<Rightarrow> nat \<Rightarrow> ordering" where
  "cmp_nat a b = (if a < b then Less else if a = b then Equal else Greater)"

text \<open>Lexicographic comparison of slices and strings: a proper prefix is less.\<close>

fun cmp_list :: "('a \<Rightarrow> 'a \<Rightarrow> ordering) \<Rightarrow> 'a list \<Rightarrow> 'a list \<Rightarrow> ordering" where
  "cmp_list c [] [] = Equal"
| "cmp_list c [] (y # ys) = Less"
| "cmp_list c (x # xs) [] = Greater"
| "cmp_list c (x # xs) (y # ys) = then_with (c x y) (cmp_list c xs ys)"

lemma reverse_ordering_reverse [simp]: "reverse_ordering (reverse_ordering a) = a"
  by (cases a) auto

lemma reverse_ordering_eq_iff [simp]:
  "reverse_ordering a = Equal \<longleftrightarrow> a = Equal"
  "reverse_ordering a = Less \<longleftrightarrow> a = Greater"
  "reverse_ordering a = Greater \<longleftrightarrow> a = Less"
  by (cases a; simp)+

lemma then_with_eq_Equal [simp]: "then_with a b = Equal \<longleftrightarrow> a = Equal \<and> b = Equal"
  by (cases a) auto

lemma then_with_Equal_right [simp]: "then_with a Equal = a"
  by (cases a) auto

lemma reverse_then_with:
  "reverse_ordering (then_with a b) = then_with (reverse_ordering a) (reverse_ordering b)"
  by (cases a) auto

lemma then_with_eq_Greater:
  "then_with a b = Greater \<longleftrightarrow> a = Greater \<or> (a = Equal \<and> b = Greater)"
  by (cases a) auto

lemma cmp_nat_eq_iff [simp]:
  "cmp_nat a b = Equal \<longleftrightarrow> a = b"
  "cmp_nat a b = Less \<longleftrightarrow> a < b"
  "cmp_nat a b = Greater \<longleftrightarrow> b < a"
  by (auto simp: cmp_nat_def)

lemma cmp_nat_refl [simp]: "cmp_nat a a = Equal"
  by simp

section \<open>The laws of a comparison\<close>

text \<open>
  What \<open>Ord::cmp\<close> promises, and what \<open>sort_by\<close> and \<open>max\<close> rely on: comparing a value with
  itself is \<open>Equal\<close>, swapping the arguments reverses the answer, and "not greater" is
  transitive. Two values that compare \<open>Equal\<close> need not be the same value.
\<close>

locale total_cmp =
  fixes cmp :: "'a \<Rightarrow> 'a \<Rightarrow> ordering"
  assumes cmp_refl: "cmp a a = Equal"
    and cmp_flip: "cmp b a = reverse_ordering (cmp a b)"
    and cmp_trans: "cmp a b \<noteq> Greater \<Longrightarrow> cmp b c \<noteq> Greater \<Longrightarrow> cmp a c \<noteq> Greater"
begin

lemma cmp_less_flip: "cmp a b = Less \<longleftrightarrow> cmp b a = Greater"
  using cmp_flip [of a b] by simp

lemma cmp_equal_sym: "cmp a b = Equal \<Longrightarrow> cmp b a = Equal"
  using cmp_flip [of b a] by simp

lemma cmp_not_greater_total: "cmp a b \<noteq> Greater \<or> cmp b a \<noteq> Greater"
  using cmp_flip [of a b] by (cases "cmp a b") auto

lemma cmp_antisym: "cmp a b \<noteq> Greater \<Longrightarrow> cmp b a \<noteq> Greater \<Longrightarrow> cmp a b = Equal"
  using cmp_less_flip [of a b] by (cases "cmp a b") auto

lemma cmp_equal_trans: "cmp a b = Equal \<Longrightarrow> cmp b c = Equal \<Longrightarrow> cmp a c = Equal"
proof -
  assume ab: "cmp a b = Equal" and bc: "cmp b c = Equal"
  have "cmp a c \<noteq> Greater" using ab bc cmp_trans [of a b c] by simp
  moreover have "cmp c a \<noteq> Greater"
    using cmp_equal_sym [OF ab] cmp_equal_sym [OF bc] cmp_trans [of c b a] by simp
  ultimately show ?thesis by (rule cmp_antisym)
qed

lemma cmp_equal_left: "cmp a b = Equal \<Longrightarrow> cmp a c = cmp b c"
proof -
  assume ab: "cmp a b = Equal"
  have le: "cmp x c \<noteq> Greater" if "cmp x y = Equal" "cmp y c \<noteq> Greater" for x y
    using that cmp_trans [of x y c] by simp
  have ge: "cmp c x \<noteq> Greater" if "cmp x y = Equal" "cmp c y \<noteq> Greater" for x y
    using that cmp_equal_sym [of x y] cmp_trans [of c y x] by simp
  have g: "cmp a c = Greater \<longleftrightarrow> cmp b c = Greater"
    using le ab cmp_equal_sym [OF ab] by blast
  have l: "cmp c a = Greater \<longleftrightarrow> cmp c b = Greater"
    using ge ab cmp_equal_sym [OF ab] by blast
  then have "cmp a c = Less \<longleftrightarrow> cmp b c = Less"
    by (simp add: cmp_less_flip)
  with g show ?thesis by (cases "cmp a c"; cases "cmp b c") auto
qed

lemma cmp_equal_right: "cmp a b = Equal \<Longrightarrow> cmp c a = cmp c b"
  by (metis cmp_flip cmp_equal_left)

lemma then_with_trans:
  assumes ab: "then_with (cmp a b) p \<noteq> Greater" and be: "then_with (cmp b e) q \<noteq> Greater"
    and pq: "p \<noteq> Greater \<Longrightarrow> q \<noteq> Greater \<Longrightarrow> r \<noteq> Greater"
  shows "then_with (cmp a e) r \<noteq> Greater"
proof (cases "cmp a e = Equal")
  case False
  from ab be have "cmp a b \<noteq> Greater" "cmp b e \<noteq> Greater" by (auto simp: then_with_eq_Greater)
  then have "cmp a e \<noteq> Greater" by (rule cmp_trans)
  with False show ?thesis by (simp add: then_with_eq_Greater)
next
  case True
  from ab be have ab': "cmp a b \<noteq> Greater" and be': "cmp b e \<noteq> Greater"
    by (auto simp: then_with_eq_Greater)
  have "cmp e a \<noteq> Greater" using cmp_equal_sym [OF True] by simp
  with be' have "cmp b a \<noteq> Greater" by (rule cmp_trans)
  with ab' have eq: "cmp a b = Equal" by (rule cmp_antisym)
  with True have "cmp b e = Equal" using cmp_equal_left [OF eq, of e] by simp
  with eq ab be True pq show ?thesis by simp
qed

end

lemma total_cmp_nat: "total_cmp cmp_nat"
  by unfold_locales (auto simp: cmp_nat_def split: if_splits)

lemma total_cmp_key:
  assumes "total_cmp c"
  shows "total_cmp (\<lambda>a b. c (f a) (f b))"
proof unfold_locales
  fix a b d
  show "c (f a) (f a) = Equal" by (rule total_cmp.cmp_refl [OF assms])
  show "c (f b) (f a) = reverse_ordering (c (f a) (f b))" by (rule total_cmp.cmp_flip [OF assms])
  assume "c (f a) (f b) \<noteq> Greater" "c (f b) (f d) \<noteq> Greater"
  then show "c (f a) (f d) \<noteq> Greater" by (rule total_cmp.cmp_trans [OF assms])
qed

lemma total_cmp_then:
  assumes "total_cmp c" "total_cmp d"
  shows "total_cmp (\<lambda>a b. then_with (c a b) (d a b))"
proof unfold_locales
  fix a b e
  show "then_with (c a a) (d a a) = Equal"
    using assms by (simp add: total_cmp.cmp_refl)
  show "then_with (c b a) (d b a) = reverse_ordering (then_with (c a b) (d a b))"
    using total_cmp.cmp_flip [OF assms(1), of b a] total_cmp.cmp_flip [OF assms(2), of b a]
    by (simp only: reverse_then_with)
  assume "then_with (c a b) (d a b) \<noteq> Greater" "then_with (c b e) (d b e) \<noteq> Greater"
  then show "then_with (c a e) (d a e) \<noteq> Greater"
    by (rule total_cmp.then_with_trans [OF assms(1)]) (rule total_cmp.cmp_trans [OF assms(2)])
qed

lemma total_cmp_list:
  assumes "total_cmp c"
  shows "total_cmp (cmp_list c)"
proof unfold_locales
  fix xs ys zs :: "'a list"
  show "cmp_list c xs xs = Equal"
    by (induction xs) (simp_all add: total_cmp.cmp_refl [OF assms])
  show "cmp_list c ys xs = reverse_ordering (cmp_list c xs ys)"
  proof (induction xs arbitrary: ys)
    case (Cons x xs)
    show ?case
    proof (cases ys)
      case (Cons y zs)
      then show ?thesis
        using Cons.IH [of zs] total_cmp.cmp_flip [OF assms, of y x]
        by (simp add: reverse_then_with)
    qed simp
  next
    case Nil
    then show ?case by (cases ys) auto
  qed
  assume "cmp_list c xs ys \<noteq> Greater" "cmp_list c ys zs \<noteq> Greater"
  then show "cmp_list c xs zs \<noteq> Greater"
  proof (induction xs arbitrary: ys zs)
    case Nil
    then show ?case by (cases zs) auto
  next
    case (Cons x xs)
    from Cons.prems obtain y ys' z zs' where eqs: "ys = y # ys'" "zs = z # zs'"
      by (cases ys; cases zs) auto
    show ?case
      using Cons.prems unfolding eqs cmp_list.simps
      by (rule total_cmp.then_with_trans [OF assms]) (rule Cons.IH)
  qed
qed

text \<open>Comparison of a tagged union: every left value is less than every right one.\<close>

fun cmp_sum ::
  "('a \<Rightarrow> 'a \<Rightarrow> ordering) \<Rightarrow> ('b \<Rightarrow> 'b \<Rightarrow> ordering) \<Rightarrow> 'a + 'b \<Rightarrow> 'a + 'b \<Rightarrow> ordering" where
  "cmp_sum c d (Inl a) (Inl b) = c a b"
| "cmp_sum c d (Inl a) (Inr b) = Less"
| "cmp_sum c d (Inr a) (Inl b) = Greater"
| "cmp_sum c d (Inr a) (Inr b) = d a b"

lemma total_cmp_sum:
  assumes "total_cmp c" "total_cmp d"
  shows "total_cmp (cmp_sum c d)"
proof unfold_locales
  fix a b e
  show "cmp_sum c d a a = Equal"
    by (cases a) (simp_all add: assms total_cmp.cmp_refl)
  show "cmp_sum c d b a = reverse_ordering (cmp_sum c d a b)"
    by (cases a; cases b)
      (simp_all, (rule total_cmp.cmp_flip [OF assms(1)] total_cmp.cmp_flip [OF assms(2)])+)
  assume "cmp_sum c d a b \<noteq> Greater" "cmp_sum c d b e \<noteq> Greater"
  then show "cmp_sum c d a e \<noteq> Greater"
    by (cases a; cases b; cases e)
      (simp_all add: total_cmp.cmp_trans [OF assms(1)] total_cmp.cmp_trans [OF assms(2)])
qed

lemma total_cmp_unit: "total_cmp (\<lambda>(a :: unit) b. Equal)"
  by unfold_locales auto

lemma cmp_list_cong_map:
  "cmp_list c (map f xs) (map f ys) = cmp_list (\<lambda>a b. c (f a) (f b)) xs ys"
  by (induction "\<lambda>a b. c (f a) (f b)" xs ys rule: cmp_list.induct) auto

lemma cmp_list_eq_Equal:
  "cmp_list c xs ys = Equal \<longleftrightarrow> list_all2 (\<lambda>x y. c x y = Equal) xs ys"
  by (induction c xs ys rule: cmp_list.induct) auto

section \<open>Sorting and maximum search\<close>

text \<open>
  \<open>slice::sort_by\<close> is stable: elements that compare \<open>Equal\<close> keep their order.
  Inserting each element in front of the first one that is not less, from the right,
  is that sort. \<open>Iterator::max_by\<close> returns the last of the greatest elements.
\<close>

fun insert_by :: "('a \<Rightarrow> 'a \<Rightarrow> ordering) \<Rightarrow> 'a \<Rightarrow> 'a list \<Rightarrow> 'a list" where
  "insert_by c x [] = [x]"
| "insert_by c x (y # ys) = (if c x y = Greater then y # insert_by c x ys else x # y # ys)"

definition sort_by :: "('a \<Rightarrow> 'a \<Rightarrow> ordering) \<Rightarrow> 'a list \<Rightarrow> 'a list" where
  "sort_by c xs = foldr (insert_by c) xs []"

fun max_by :: "('a \<Rightarrow> 'a \<Rightarrow> ordering) \<Rightarrow> 'a list \<Rightarrow> 'a option" where
  "max_by c [] = None"
| "max_by c (x # xs) =
     (case max_by c xs of
        None \<Rightarrow> Some x
      | Some m \<Rightarrow> (if c x m = Greater then Some x else Some m))"

text \<open>\<open>Iterator::min_by\<close> returns the first of the least elements.\<close>

fun min_by :: "('a \<Rightarrow> 'a \<Rightarrow> ordering) \<Rightarrow> 'a list \<Rightarrow> 'a option" where
  "min_by c [] = None"
| "min_by c (x # xs) =
     (case min_by c xs of
        None \<Rightarrow> Some x
      | Some m \<Rightarrow> (if c x m = Greater then Some m else Some x))"

lemma min_by_eq_None [simp]: "min_by c xs = None \<longleftrightarrow> xs = []"
  by (cases xs) (auto split: option.splits)

lemma min_by_in_set: "min_by c xs = Some m \<Longrightarrow> m \<in> set xs"
  by (induction xs arbitrary: m) (auto split: option.splits if_splits)

lemma sort_by_Nil [simp]: "sort_by c [] = []"
  by (simp add: sort_by_def)

lemma sort_by_Cons [simp]: "sort_by c (x # xs) = insert_by c x (sort_by c xs)"
  by (simp add: sort_by_def)

lemma mset_insert_by [simp]: "mset (insert_by c x xs) = add_mset x (mset xs)"
  by (induction xs) auto

lemma mset_sort_by [simp]: "mset (sort_by c xs) = mset xs"
  by (induction xs) auto

lemma set_sort_by [simp]: "set (sort_by c xs) = set xs"
  using mset_sort_by [of c xs] by (metis set_mset_mset)

lemma length_sort_by [simp]: "length (sort_by c xs) = length xs"
  using mset_sort_by [of c xs] by (metis size_mset)

lemma max_by_eq_None [simp]: "max_by c xs = None \<longleftrightarrow> xs = []"
  by (cases xs) (auto split: option.splits)

lemma max_by_in_set: "max_by c xs = Some m \<Longrightarrow> m \<in> set xs"
  by (induction xs arbitrary: m) (auto split: option.splits if_splits)

context total_cmp
begin

lemma set_insert_by: "set (insert_by cmp x xs) = insert x (set xs)"
  using mset_insert_by [of cmp x xs] by (metis set_mset_add_mset_insert set_mset_mset)

lemma sorted_insert_by:
  "sorted_wrt (\<lambda>a b. cmp a b \<noteq> Greater) xs \<Longrightarrow>
   sorted_wrt (\<lambda>a b. cmp a b \<noteq> Greater) (insert_by cmp x xs)"
proof (induction xs)
  case (Cons y ys)
  show ?case
  proof (cases "cmp x y = Greater")
    case True
    then have "cmp y x \<noteq> Greater" using cmp_not_greater_total by blast
    with Cons True show ?thesis by (auto simp: set_insert_by)
  next
    case False
    with Cons.prems show ?thesis using cmp_trans [of x y] by auto
  qed
qed simp

lemma sorted_sort_by: "sorted_wrt (\<lambda>a b. cmp a b \<noteq> Greater) (sort_by cmp xs)"
  by (induction xs) (simp_all add: sorted_insert_by)

text \<open>Stability: restricted to one class of equal elements, sorting changes nothing.\<close>

lemma filter_insert_by:
  assumes "sorted_wrt (\<lambda>a b. cmp a b \<noteq> Greater) xs"
  shows "filter (\<lambda>y. cmp y z = Equal) (insert_by cmp x xs) =
         filter (\<lambda>y. cmp y z = Equal) (x # xs)"
  using assms
proof (induction xs)
  case (Cons y ys)
  show ?case
  proof (cases "cmp x y = Greater \<and> cmp x z = Equal \<and> cmp y z = Equal")
    case True
    then have "cmp x y = Equal"
      using cmp_equal_sym cmp_equal_trans by blast
    with True show ?thesis by simp
  next
    case False
    with Cons show ?thesis by auto
  qed
qed simp

lemma sort_by_stable:
  "filter (\<lambda>y. cmp y z = Equal) (sort_by cmp xs) = filter (\<lambda>y. cmp y z = Equal) xs"
  by (induction xs) (simp_all add: filter_insert_by [OF sorted_sort_by])

lemma max_by_upper:
  "max_by cmp xs = Some m \<Longrightarrow> x \<in> set xs \<Longrightarrow> cmp x m \<noteq> Greater"
proof (induction xs arbitrary: m)
  case (Cons y ys)
  show ?case
  proof (cases "max_by cmp ys")
    case None
    with Cons.prems show ?thesis by (auto simp: cmp_refl)
  next
    case (Some m')
    show ?thesis
    proof (cases "cmp y m' = Greater")
      case True
      then have le: "cmp m' y \<noteq> Greater" using cmp_not_greater_total by blast
      from True Some Cons.prems have m: "m = y" by simp
      show ?thesis
      proof (cases "x = y")
        case False
        with Cons.prems have "x \<in> set ys" by simp
        then have "cmp x m' \<noteq> Greater" by (rule Cons.IH [OF Some])
        with le m show ?thesis using cmp_trans by blast
      qed (simp add: m cmp_refl)
    next
      case False
      with Some Cons.prems have "m = m'" by simp
      with False Cons.prems Cons.IH [OF Some] show ?thesis by auto
    qed
  qed
qed simp

lemma min_by_lower:
  "min_by cmp xs = Some m \<Longrightarrow> x \<in> set xs \<Longrightarrow> cmp m x \<noteq> Greater"
proof (induction xs arbitrary: m)
  case (Cons y ys)
  show ?case
  proof (cases "min_by cmp ys")
    case None
    with Cons.prems show ?thesis by (auto simp: cmp_refl)
  next
    case (Some m')
    show ?thesis
    proof (cases "cmp y m' = Greater")
      case True
      then have le: "cmp m' y \<noteq> Greater" using cmp_not_greater_total by blast
      from True Some Cons.prems have "m = m'" by simp
      with le Cons.prems Cons.IH [OF Some] show ?thesis by auto
    next
      case False
      with Some Cons.prems have m: "m = y" by simp
      show ?thesis
      proof (cases "x = y")
        case False
        with Cons.prems have "x \<in> set ys" by simp
        then have "cmp m' x \<noteq> Greater" by (rule Cons.IH [OF Some])
        with \<open>cmp y m' \<noteq> Greater\<close> m show ?thesis using cmp_trans by blast
      qed (simp add: m cmp_refl)
    qed
  qed
qed simp

end

end
