(* ===== verification/Rust_Text.thy ===== *)
theory Rust_Text
  imports Prelude
begin

text \<open>
  The part of Rust's \<open>str\<close> and \<open>u8\<close> the components use. A \<open>String\<close> is its UTF-8 bytes,
  one \<open>char\<close> of HOL per byte, so \<open>length\<close> is \<open>str::len\<close> and the byte-wise order of
  two strings is their order in Rust. Numbers of type \<open>u64\<close> that are only compared and
  printed are \<open>nat\<close> with their bound written where the code checks it.
\<close>

named_theorems text_simps \<open>how the text functions act on their characters\<close>

section \<open>Bytes\<close>

abbreviation byte :: "char \<Rightarrow> nat" where
  "byte c \<equiv> of_char c"

definition is_ascii_digit :: "char \<Rightarrow> bool" where
  "is_ascii_digit c \<longleftrightarrow> 48 \<le> byte c \<and> byte c \<le> 57"

definition is_ascii_uppercase :: "char \<Rightarrow> bool" where
  "is_ascii_uppercase c \<longleftrightarrow> 65 \<le> byte c \<and> byte c \<le> 90"

definition is_ascii_lowercase :: "char \<Rightarrow> bool" where
  "is_ascii_lowercase c \<longleftrightarrow> 97 \<le> byte c \<and> byte c \<le> 122"

definition is_ascii_alphanumeric :: "char \<Rightarrow> bool" where
  "is_ascii_alphanumeric c \<longleftrightarrow> is_ascii_digit c \<or> is_ascii_uppercase c \<or> is_ascii_lowercase c"

definition ascii_lower :: "char \<Rightarrow> char" where
  "ascii_lower c = (if is_ascii_uppercase c then char_of (byte c + 32) else c)"

definition to_ascii_lowercase :: "string \<Rightarrow> string" where
  "to_ascii_lowercase s = map ascii_lower s"

definition eq_ignore_ascii_case :: "string \<Rightarrow> string \<Rightarrow> bool" where
  "eq_ignore_ascii_case a b \<longleftrightarrow> to_ascii_lowercase a = to_ascii_lowercase b"

definition cmp_byte :: "char \<Rightarrow> char \<Rightarrow> ordering" where
  "cmp_byte a b = cmp_nat (byte a) (byte b)"

definition cmp_str :: "string \<Rightarrow> string \<Rightarrow> ordering" where
  "cmp_str = cmp_list cmp_byte"

lemma byte_eq_iff: "byte a = byte b \<longleftrightarrow> a = b"
  by (metis char_of_char)

lemma byte_less_256 [simp]: "byte c < 256"
  by simp

lemma byte_char_of: "n < 256 \<Longrightarrow> byte (char_of n) = n"
  by simp

lemma byte_ascii_lower:
  "byte (ascii_lower c) = (if is_ascii_uppercase c then byte c + 32 else byte c)"
  by (auto simp: ascii_lower_def is_ascii_uppercase_def)

lemma ascii_lower_not_upper [simp]: "\<not> is_ascii_uppercase (ascii_lower c)"
  by (auto simp: is_ascii_uppercase_def byte_ascii_lower)

lemma ascii_lower_idem [simp]: "ascii_lower (ascii_lower c) = ascii_lower c"
  by (subst ascii_lower_def) simp

lemma is_ascii_digit_lower [simp]: "is_ascii_digit (ascii_lower c) = is_ascii_digit c"
  by (auto simp: is_ascii_digit_def byte_ascii_lower is_ascii_uppercase_def)

lemma is_ascii_alphanumeric_lower [simp]:
  "is_ascii_alphanumeric (ascii_lower c) = is_ascii_alphanumeric c"
  by (auto simp: is_ascii_alphanumeric_def is_ascii_digit_def byte_ascii_lower
      is_ascii_uppercase_def is_ascii_lowercase_def)

lemma ascii_lower_digit: "is_ascii_digit c \<Longrightarrow> ascii_lower c = c"
  by (auto simp: ascii_lower_def is_ascii_digit_def is_ascii_uppercase_def)

lemma ascii_lower_eq_nonletter:
  assumes "\<not> is_ascii_alphanumeric d"
  shows "ascii_lower c = d \<longleftrightarrow> c = d"
proof
  assume "ascii_lower c = d"
  with assms have "\<not> is_ascii_alphanumeric c" by auto
  with \<open>ascii_lower c = d\<close> show "c = d"
    by (auto simp: ascii_lower_def is_ascii_alphanumeric_def)
next
  assume "c = d"
  with assms show "ascii_lower c = d" by (auto simp: ascii_lower_def is_ascii_alphanumeric_def)
qed

lemma to_ascii_lowercase_simps [simp]:
  "to_ascii_lowercase [] = []"
  "to_ascii_lowercase (c # s) = ascii_lower c # to_ascii_lowercase s"
  "to_ascii_lowercase (s @ t) = to_ascii_lowercase s @ to_ascii_lowercase t"
  "length (to_ascii_lowercase s) = length s"
  "to_ascii_lowercase s = [] \<longleftrightarrow> s = []"
  by (simp_all add: to_ascii_lowercase_def)

lemma to_ascii_lowercase_idem [simp]:
  "to_ascii_lowercase (to_ascii_lowercase s) = to_ascii_lowercase s"
  by (induction s) auto

lemma list_all_digit_lower [simp]:
  "list_all is_ascii_digit (to_ascii_lowercase s) = list_all is_ascii_digit s"
  by (induction s) auto

lemma list_all_alphanumeric_lower [simp]:
  "list_all is_ascii_alphanumeric (to_ascii_lowercase s) = list_all is_ascii_alphanumeric s"
  by (induction s) auto

lemma to_ascii_lowercase_digits:
  "list_all is_ascii_digit s \<Longrightarrow> to_ascii_lowercase s = s"
  by (induction s) (auto simp: ascii_lower_digit)

lemma cmp_byte_eq [simp]: "cmp_byte a b = Equal \<longleftrightarrow> a = b"
  by (auto simp: cmp_byte_def byte_eq_iff)

lemma total_cmp_str: "total_cmp cmp_str"
  unfolding cmp_str_def
  by (rule total_cmp_list) (simp add: cmp_byte_def [abs_def] total_cmp_key [OF total_cmp_nat])

lemma cmp_str_eq [simp]: "cmp_str a b = Equal \<longleftrightarrow> a = b"
  by (auto simp: cmp_str_def cmp_list_eq_Equal list_all2_eq)

section \<open>Splitting and joining\<close>

text \<open>\<open>str::split_once\<close> and \<open>str::split\<close> at a character, \<open>[String]::join\<close>.\<close>

fun split_once :: "char \<Rightarrow> string \<Rightarrow> (string \<times> string) option" where
  "split_once d [] = None"
| "split_once d (c # s) =
     (if c = d then Some ([], s)
      else map_option (\<lambda>(a, b). (c # a, b)) (split_once d s))"

fun split :: "char \<Rightarrow> string \<Rightarrow> string list" where
  "split d [] = [[]]"
| "split d (c # s) =
     (if c = d then [] # split d s
      else (case split d s of [] \<Rightarrow> [[c]] | p # ps \<Rightarrow> (c # p) # ps))"

fun join :: "char \<Rightarrow> string list \<Rightarrow> string" where
  "join d [] = []"
| "join d [p] = p"
| "join d (p # q # ps) = p @ d # join d (q # ps)"

lemma split_once_None [simp]: "split_once d s = None \<longleftrightarrow> d \<notin> set s"
  by (induction s) auto

lemma split_once_no_delim [simp]: "d \<notin> set s \<Longrightarrow> split_once d s = None"
  by simp

lemma split_once_Some:
  "split_once d s = Some (a, b) \<longleftrightarrow> s = a @ d # b \<and> d \<notin> set a"
proof (induction s arbitrary: a)
  case (Cons c s)
  then show ?case by (cases a) auto
qed simp

lemma split_once_append: "d \<notin> set a \<Longrightarrow> split_once d (a @ d # b) = Some (a, b)"
  by (simp add: split_once_Some)

lemma split_not_Nil [simp]: "split d s \<noteq> []"
  by (induction s) (auto split: list.splits)

lemma split_Cons_ex: "\<exists>p ps. split d s = p # ps"
  by (cases "split d s") auto

lemma split_no_delim: "d \<notin> set s \<Longrightarrow> split d s = [s]"
  by (induction s) auto

lemma split_append_delim: "d \<notin> set a \<Longrightarrow> split d (a @ d # b) = a # split d b"
  by (induction a) auto

lemma join_split [simp]: "join d (split d s) = s"
proof (induction s)
  case (Cons c s)
  obtain p ps where "split d s = p # ps" using split_Cons_ex by blast
  with Cons show ?case by (cases ps) auto
qed simp

lemma split_join:
  "ps \<noteq> [] \<Longrightarrow> list_all (\<lambda>p. d \<notin> set p) ps \<Longrightarrow> split d (join d ps) = ps"
  by (induction d ps rule: join.induct) (simp_all add: split_no_delim split_append_delim)

lemma split_delim_free: "p \<in> set (split d s) \<Longrightarrow> d \<notin> set p"
  by (induction s arbitrary: p) (auto split: list.splits if_splits)

lemma set_split_subset: "p \<in> set (split d s) \<Longrightarrow> set p \<subseteq> set s"
proof (induction s arbitrary: p)
  case (Cons c s)
  obtain q qs where q: "split d s = q # qs" using split_Cons_ex by blast
  show ?case
  proof (cases "c = d")
    case True
    with Cons show ?thesis by auto
  next
    case False
    with Cons.prems q have "p = c # q \<or> p \<in> set qs" by auto
    with Cons.IH q show ?thesis by (metis insert_mono list.set(2) list.set_intros(1,2)
      subset_insertI2)
  qed
qed simp

lemma set_join: "set (join d ps) \<subseteq> insert d (\<Union> (set ` set ps))"
  by (induction d ps rule: join.induct) auto

lemma join_eq_Nil: "join d ps = [] \<longleftrightarrow> ps = [] \<or> ps = [[]]"
  by (induction d ps rule: join.induct) auto

lemma to_ascii_lowercase_join:
  "to_ascii_lowercase (join d ps) = join (ascii_lower d) (map to_ascii_lowercase ps)"
  by (induction d ps rule: join.induct) auto

section \<open>Trimming\<close>

text \<open>
  \<open>str::trim\<close> removes the characters with the Unicode property White\_Space on both
  sides; on UTF-8 these are the byte sequences below, and no other character's encoding
  ends or starts with one of them.
\<close>

definition whitespace_encodings :: "nat list list" where
  "whitespace_encodings =
     [[9], [10], [11], [12], [13], [32], [194, 133], [194, 160], [225, 154, 128],
      [226, 128, 128], [226, 128, 129], [226, 128, 130], [226, 128, 131], [226, 128, 132],
      [226, 128, 133], [226, 128, 134], [226, 128, 135], [226, 128, 136], [226, 128, 137],
      [226, 128, 138], [226, 128, 168], [226, 128, 169], [226, 128, 175], [226, 129, 159],
      [227, 128, 128]]"

definition leading_match :: "nat list list \<Rightarrow> string \<Rightarrow> nat" where
  "leading_match es s =
     (case find (\<lambda>e. e = take (length e) (map byte s)) es of None \<Rightarrow> 0 | Some e \<Rightarrow> length e)"

function trim_leading :: "nat list list \<Rightarrow> string \<Rightarrow> string" where
  "trim_leading es s =
     (let n = leading_match es s
      in if n = 0 \<or> s = [] then s else trim_leading es (drop n s))"
  by pat_completeness auto
termination by (relation "measure (\<lambda>(_, s). length s)") (auto simp: Let_def)

declare trim_leading.simps [simp del]

definition trim_start :: "string \<Rightarrow> string" where
  "trim_start s = trim_leading whitespace_encodings s"

definition trim_end :: "string \<Rightarrow> string" where
  "trim_end s = rev (trim_leading (map rev whitespace_encodings) (rev s))"

definition trim :: "string \<Rightarrow> string" where
  "trim s = trim_end (trim_start s)"

text \<open>A visible ASCII character neither starts nor ends a white-space encoding.\<close>

definition is_graphic :: "char \<Rightarrow> bool" where
  "is_graphic c \<longleftrightarrow> 33 \<le> byte c \<and> byte c < 127"

lemma leading_match_graphic:
  assumes "\<forall>e \<in> set es. e \<noteq> [] \<and> (hd e < 33 \<or> 127 \<le> hd e)" "is_graphic c"
  shows "leading_match es (c # s) = 0"
proof -
  have "e \<noteq> take (length e) (map byte (c # s))" if "e \<in> set es" for e
  proof -
    from that assms(1) obtain n r where e: "e = n # r" and n: "n < 33 \<or> 127 \<le> n"
      by (metis list.collapse)
    from n assms(2) have "n \<noteq> byte c" by (auto simp: is_graphic_def)
    with e show ?thesis by simp
  qed
  then have "find (\<lambda>e. e = take (length e) (map byte (c # s))) es = None"
    by (simp add: find_None_iff)
  then show ?thesis by (simp add: leading_match_def)
qed

lemma trim_leading_graphic:
  "\<forall>e \<in> set es. e \<noteq> [] \<and> (hd e < 33 \<or> 127 \<le> hd e) \<Longrightarrow> is_graphic c \<Longrightarrow>
   trim_leading es (c # s) = c # s"
  by (subst trim_leading.simps) (simp add: leading_match_graphic)

lemma trim_leading_Nil [simp]: "trim_leading es [] = []"
  by (subst trim_leading.simps) simp

lemma trim_start_graphic: "s = [] \<or> is_graphic (hd s) \<Longrightarrow> trim_start s = s"
  unfolding trim_start_def
  by (cases s) (simp_all add: trim_leading_graphic whitespace_encodings_def)

lemma trim_end_graphic:
  assumes "s = [] \<or> is_graphic (last s)"
  shows "trim_end s = s"
proof (cases s rule: rev_cases)
  case (snoc t c)
  with assms have "trim_leading (map rev whitespace_encodings) (rev s) = rev s"
    by (simp add: trim_leading_graphic whitespace_encodings_def)
  then show ?thesis by (simp add: trim_end_def)
qed (simp add: trim_end_def)

lemma trim_graphic: "list_all is_graphic s \<Longrightarrow> trim s = s"
  by (cases "s = []") (simp_all add: trim_def trim_start_graphic trim_end_graphic list_all_iff)

lemma trim_ends: "s = [] \<or> is_graphic (hd s) \<and> is_graphic (last s) \<Longrightarrow> trim s = s"
  by (cases "s = []") (simp_all add: trim_def trim_start_graphic trim_end_graphic)

lemma trim_space [simp]: "trim (CHR '' '' # s) = trim s"
proof -
  have "leading_match whitespace_encodings (CHR '' '' # s) = 1"
    by (simp add: leading_match_def whitespace_encodings_def)
  then have "trim_start (CHR '' '' # s) = trim_start s"
    unfolding trim_start_def by (subst trim_leading.simps) simp
  then show ?thesis by (simp add: trim_def)
qed

lemma trim_Nil [simp]: "trim [] = []"
  by (simp add: trim_ends)

text \<open>What is left has no white space on either side, so trimming again changes nothing.\<close>

lemma leading_match_0:
  assumes "[] \<notin> set es"
  shows "leading_match es s = 0 \<longleftrightarrow> (\<forall>e \<in> set es. e \<noteq> take (length e) (map byte s))"
proof (cases "find (\<lambda>e. e = take (length e) (map byte s)) es")
  case None
  then have "leading_match es s = 0" by (simp add: leading_match_def)
  with None show ?thesis by (auto simp: find_None_iff)
next
  case (Some e)
  then have "e \<in> set es" "e = take (length e) (map byte s)" by (auto simp: find_Some_iff)
  with Some assms show ?thesis by (auto simp: leading_match_def)
qed

lemma leading_match_prefix:
  assumes "[] \<notin> set es" "leading_match es (s @ t) = 0"
  shows "leading_match es s = 0"
  unfolding leading_match_0 [OF assms(1)]
proof
  fix e assume e: "e \<in> set es"
  show "e \<noteq> take (length e) (map byte s)"
  proof
    assume eq: "e = take (length e) (map byte s)"
    then have "length e \<le> length s" by (metis length_map length_take min.cobounded1)
    with eq have "e = take (length e) (map byte (s @ t))" by simp
    with e assms leading_match_0 show False by blast
  qed
qed

lemma trim_leading_stop: "[] \<notin> set es \<Longrightarrow> leading_match es (trim_leading es s) = 0"
proof (induction es s rule: trim_leading.induct)
  case (1 es s)
  then show ?case
    by (subst trim_leading.simps) (auto simp: Let_def leading_match_0)
qed

lemma trim_leading_done: "leading_match es s = 0 \<Longrightarrow> trim_leading es s = s"
  by (subst trim_leading.simps) simp

lemma trim_leading_suffix: "\<exists>p. s = p @ trim_leading es s"
proof (induction es s rule: trim_leading.induct)
  case (1 es s)
  show ?case
  proof (cases "leading_match es s = 0 \<or> s = []")
    case True
    then show ?thesis by (subst trim_leading.simps) (auto simp: Let_def)
  next
    case False
    let ?n = "leading_match es s"
    obtain p where "drop ?n s = p @ trim_leading es (drop ?n s)" using 1 False by auto
    then have "s = (take ?n s @ p) @ trim_leading es (drop ?n s)" by (metis append.assoc append_take_drop_id)
    moreover have "trim_leading es s = trim_leading es (drop ?n s)"
      using False by (subst trim_leading.simps) (simp add: Let_def)
    ultimately show ?thesis by metis
  qed
qed

lemma trim_trim [simp]: "trim (trim s) = trim s"
proof -
  have ne: "[] \<notin> set whitespace_encodings" "[] \<notin> set (map rev whitespace_encodings)"
    by (simp_all add: whitespace_encodings_def)
  let ?t = "trim_start s"
  obtain p where "rev ?t = p @ rev (trim s)"
    using trim_leading_suffix unfolding trim_def trim_end_def by (metis rev_rev_ident)
  then have "?t = trim s @ rev p" by (metis rev_append rev_rev_ident)
  moreover have "leading_match whitespace_encodings ?t = 0"
    unfolding trim_start_def by (rule trim_leading_stop [OF ne(1)])
  ultimately have "leading_match whitespace_encodings (trim s) = 0"
    by (metis leading_match_prefix [OF ne(1)])
  then have "trim_start (trim s) = trim s" by (simp add: trim_start_def trim_leading_done)
  moreover have "trim_end (trim s) = trim s"
    unfolding trim_def trim_end_def using trim_leading_stop [OF ne(2)] by (simp add: trim_leading_done)
  ultimately show ?thesis by (simp add: trim_def)
qed

lemma graphic_alphanumeric: "is_ascii_alphanumeric c \<Longrightarrow> is_graphic c"
  by (auto simp: is_ascii_alphanumeric_def is_ascii_digit_def is_ascii_uppercase_def
      is_ascii_lowercase_def is_graphic_def)

section \<open>Decimal numbers\<close>

definition digit_val :: "char \<Rightarrow> nat" where
  "digit_val c = byte c - 48"

definition digit_char :: "nat \<Rightarrow> char" where
  "digit_char d = char_of (d + 48)"

text \<open>\<open>Display\<close> of an unsigned integer.\<close>

fun show_nat :: "nat \<Rightarrow> string" where
  "show_nat n = (if n < 10 then [digit_char n] else show_nat (n div 10) @ [digit_char (n mod 10)])"

declare show_nat.simps [simp del]

definition read_digits :: "string \<Rightarrow> nat" where
  "read_digits s = foldl (\<lambda>acc c. 10 * acc + digit_val c) 0 s"

text \<open>
  \<open>str::parse::<u64>\<close> and its siblings: an optional leading plus sign, then at least one
  digit, and a value that fits.
\<close>

definition parse_uint :: "nat \<Rightarrow> string \<Rightarrow> nat option" where
  "parse_uint w s =
     (let d = (case s of c # t \<Rightarrow> if c = CHR ''+'' then t else s | [] \<Rightarrow> s)
      in if d = [] \<or> \<not> list_all is_ascii_digit d then None
         else if read_digits d < 2 ^ w then Some (read_digits d) else None)"

abbreviation parse_u64 :: "string \<Rightarrow> nat option" where
  "parse_u64 \<equiv> parse_uint 64"

definition u64_max :: nat where
  "u64_max = 2 ^ 64 - 1"

definition i32_max :: nat where
  "i32_max = 2147483647"

lemma digit_val_char [simp]: "d < 10 \<Longrightarrow> digit_val (digit_char d) = d"
  by (simp add: digit_val_def digit_char_def)

lemma is_digit_char [simp]: "d < 10 \<Longrightarrow> is_ascii_digit (digit_char d)"
  by (simp add: is_ascii_digit_def digit_char_def)

lemma digit_char_0 [simp]: "digit_char 0 = CHR ''0''"
  by code_simp

lemma digit_val_less: "is_ascii_digit c \<Longrightarrow> digit_val c < 10"
  by (auto simp: digit_val_def is_ascii_digit_def)

lemma digit_char_val: "is_ascii_digit c \<Longrightarrow> digit_char (digit_val c) = c"
  by (auto simp: digit_val_def digit_char_def is_ascii_digit_def)

lemma digit_val_zero: "is_ascii_digit c \<Longrightarrow> digit_val c = 0 \<longleftrightarrow> c = CHR ''0''"
proof -
  assume d: "is_ascii_digit c"
  have "c = CHR ''0''" if "digit_val c = 0"
  proof -
    have "digit_char (digit_val c) = c" using d by (rule digit_char_val)
    with that show ?thesis by simp
  qed
  then show ?thesis by (auto simp: digit_val_def)
qed

lemma read_digits_snoc [simp]: "read_digits (s @ [c]) = 10 * read_digits s + digit_val c"
  by (simp add: read_digits_def)

lemma read_digits_Nil [simp]: "read_digits [] = 0"
  by (simp add: read_digits_def)

lemma show_nat_digits [simp]: "list_all is_ascii_digit (show_nat n)"
  by (induction n rule: show_nat.induct) (subst show_nat.simps, simp)

lemma set_show_nat: "c \<in> set (show_nat n) \<Longrightarrow> is_ascii_digit c"
  using show_nat_digits [of n] by (auto simp: list_all_iff)

lemma show_nat_not_Nil [simp]: "show_nat n \<noteq> []"
  by (subst show_nat.simps) simp

lemma read_show_nat [simp]: "read_digits (show_nat n) = n"
proof (induction n rule: show_nat.induct)
  case (1 n)
  then show ?case
    by (cases "n < 10") (simp_all add: show_nat.simps [of n] read_digits_def)
qed

lemma show_nat_inject [simp]: "show_nat m = show_nat n \<longleftrightarrow> m = n"
  by (metis read_show_nat)

lemma digit_not_delim:
  "is_ascii_digit c \<Longrightarrow> c \<noteq> CHR ''.''" "is_ascii_digit c \<Longrightarrow> c \<noteq> CHR ''-''"
  "is_ascii_digit c \<Longrightarrow> c \<noteq> CHR ''+''"
  by (auto simp: is_ascii_digit_def)

lemma parse_uint_digits:
  assumes "s \<noteq> []" "list_all is_ascii_digit s"
  shows "parse_uint w s = (if read_digits s < 2 ^ w then Some (read_digits s) else None)"
  using assms by (cases s) (auto simp: parse_uint_def digit_not_delim)

text \<open>
  A digit string without a leading zero is the canonical print of its value, so two such
  strings with one value are one string.
\<close>

definition canonical_digits :: "string \<Rightarrow> bool" where
  "canonical_digits s \<longleftrightarrow>
     s \<noteq> [] \<and> list_all is_ascii_digit s \<and> (hd s = CHR ''0'' \<longrightarrow> s = ''0'')"

lemma read_digits_pos:
  "s \<noteq> [] \<Longrightarrow> list_all is_ascii_digit s \<Longrightarrow> hd s \<noteq> CHR ''0'' \<Longrightarrow> 0 < read_digits s"
proof (induction s rule: rev_induct)
  case (snoc c s)
  then show ?case
    by (cases "s = []") (auto simp: read_digits_def digit_val_zero intro: gr0I)
qed simp

lemma show_read_digits: "canonical_digits s \<Longrightarrow> show_nat (read_digits s) = s"
proof (induction s rule: rev_induct)
  case (snoc c s)
  from snoc.prems have dig: "list_all is_ascii_digit s" "is_ascii_digit c"
    by (auto simp: canonical_digits_def)
  note lt = digit_val_less [OF dig(2)]
  show ?case
  proof (cases "s = []")
    case True
    with dig lt show ?thesis
      by (simp add: read_digits_def show_nat.simps digit_char_val)
  next
    case False
    with snoc.prems have hd: "hd s \<noteq> CHR ''0''" and can: "canonical_digits s"
      by (auto simp: canonical_digits_def hd_append)
    have pos: "0 < read_digits s" using False dig(1) hd by (rule read_digits_pos)
    with lt have big: "\<not> 10 * read_digits s + digit_val c < 10" by simp
    have "(10 * read_digits s + digit_val c) div 10 = read_digits s"
      "(10 * read_digits s + digit_val c) mod 10 = digit_val c" using lt by simp_all
    with big snoc.IH [OF can] dig(2) show ?thesis
      by (subst show_nat.simps) (simp add: digit_char_val)
  qed
qed (simp add: canonical_digits_def)

lemma canonical_digits_eq:
  "canonical_digits a \<Longrightarrow> canonical_digits b \<Longrightarrow> read_digits a = read_digits b \<Longrightarrow> a = b"
  by (metis show_read_digits)

lemma canonical_show_nat [simp]: "canonical_digits (show_nat n)"
proof (cases "n = 0")
  case False
  have "hd (show_nat n) \<noteq> CHR ''0''" using False
  proof (induction n rule: show_nat.induct)
    case (1 n)
    show ?case
    proof (cases "n < 10")
      case True
      with 1(2) have "digit_char n \<noteq> CHR ''0''"
        using digit_val_char [OF True] by (auto simp: digit_val_def)
      with True show ?thesis by (simp add: show_nat.simps)
    next
      case False
      with 1 show ?thesis by (simp add: show_nat.simps [of n])
    qed
  qed
  then show ?thesis by (simp add: canonical_digits_def)
qed (simp add: canonical_digits_def show_nat.simps is_ascii_digit_def)

text \<open>Evaluation of closed text: the character classes and the functions on digits.\<close>

lemma ascii_lower_eval:
  "ascii_lower CHR ''A'' = CHR ''a''" "ascii_lower CHR ''B'' = CHR ''b''"
  "ascii_lower CHR ''C'' = CHR ''c''" "ascii_lower CHR ''D'' = CHR ''d''"
  "ascii_lower CHR ''E'' = CHR ''e''" "ascii_lower CHR ''F'' = CHR ''f''"
  "ascii_lower CHR ''G'' = CHR ''g''" "ascii_lower CHR ''H'' = CHR ''h''"
  "ascii_lower CHR ''I'' = CHR ''i''" "ascii_lower CHR ''J'' = CHR ''j''"
  "ascii_lower CHR ''K'' = CHR ''k''" "ascii_lower CHR ''L'' = CHR ''l''"
  "ascii_lower CHR ''M'' = CHR ''m''" "ascii_lower CHR ''N'' = CHR ''n''"
  "ascii_lower CHR ''O'' = CHR ''o''" "ascii_lower CHR ''P'' = CHR ''p''"
  "ascii_lower CHR ''Q'' = CHR ''q''" "ascii_lower CHR ''R'' = CHR ''r''"
  "ascii_lower CHR ''S'' = CHR ''s''" "ascii_lower CHR ''T'' = CHR ''t''"
  "ascii_lower CHR ''U'' = CHR ''u''" "ascii_lower CHR ''V'' = CHR ''v''"
  "ascii_lower CHR ''W'' = CHR ''w''" "ascii_lower CHR ''X'' = CHR ''x''"
  "ascii_lower CHR ''Y'' = CHR ''y''" "ascii_lower CHR ''Z'' = CHR ''z''"
  "ascii_lower CHR ''a'' = CHR ''a''" "ascii_lower CHR ''b'' = CHR ''b''"
  "ascii_lower CHR ''c'' = CHR ''c''" "ascii_lower CHR ''d'' = CHR ''d''"
  "ascii_lower CHR ''e'' = CHR ''e''" "ascii_lower CHR ''f'' = CHR ''f''"
  "ascii_lower CHR ''g'' = CHR ''g''" "ascii_lower CHR ''h'' = CHR ''h''"
  "ascii_lower CHR ''i'' = CHR ''i''" "ascii_lower CHR ''j'' = CHR ''j''"
  "ascii_lower CHR ''k'' = CHR ''k''" "ascii_lower CHR ''l'' = CHR ''l''"
  "ascii_lower CHR ''m'' = CHR ''m''" "ascii_lower CHR ''n'' = CHR ''n''"
  "ascii_lower CHR ''o'' = CHR ''o''" "ascii_lower CHR ''p'' = CHR ''p''"
  "ascii_lower CHR ''q'' = CHR ''q''" "ascii_lower CHR ''r'' = CHR ''r''"
  "ascii_lower CHR ''s'' = CHR ''s''" "ascii_lower CHR ''t'' = CHR ''t''"
  "ascii_lower CHR ''u'' = CHR ''u''" "ascii_lower CHR ''v'' = CHR ''v''"
  "ascii_lower CHR ''w'' = CHR ''w''" "ascii_lower CHR ''x'' = CHR ''x''"
  "ascii_lower CHR ''y'' = CHR ''y''" "ascii_lower CHR ''z'' = CHR ''z''"
  "ascii_lower CHR ''0'' = CHR ''0''" "ascii_lower CHR ''1'' = CHR ''1''"
  "ascii_lower CHR ''2'' = CHR ''2''" "ascii_lower CHR ''3'' = CHR ''3''"
  "ascii_lower CHR ''4'' = CHR ''4''" "ascii_lower CHR ''5'' = CHR ''5''"
  "ascii_lower CHR ''6'' = CHR ''6''" "ascii_lower CHR ''7'' = CHR ''7''"
  "ascii_lower CHR ''8'' = CHR ''8''" "ascii_lower CHR ''9'' = CHR ''9''"
  "ascii_lower CHR ''-'' = CHR ''-''" "ascii_lower CHR ''_'' = CHR ''_''"
  by code_simp+

lemma digit_char_eval:
  "digit_char 0 = CHR ''0''"
  "digit_char (Suc 0) = CHR ''1''"
  "digit_char 2 = CHR ''2''"
  "digit_char 3 = CHR ''3''"
  "digit_char 4 = CHR ''4''"
  "digit_char 5 = CHR ''5''"
  "digit_char 6 = CHR ''6''"
  "digit_char 7 = CHR ''7''"
  "digit_char 8 = CHR ''8''"
  "digit_char 9 = CHR ''9''"
  by code_simp+

lemmas char_eval =
  is_ascii_digit_def is_ascii_uppercase_def is_ascii_lowercase_def is_ascii_alphanumeric_def
  is_graphic_def ascii_lower_eval digit_val_def digit_char_eval

lemma show_nat_eval:
  "n < 10 \<Longrightarrow> show_nat n = [digit_char n]"
  "10 \<le> n \<Longrightarrow> show_nat n = show_nat (n div 10) @ [digit_char (n mod 10)]"
  by (subst show_nat.simps, simp)+

lemmas number_eval = parse_uint_def read_digits_def show_nat_eval i32_max_def u64_max_def

section \<open>Prefixes, suffixes and words\<close>

definition starts_with :: "string \<Rightarrow> string \<Rightarrow> bool" where
  "starts_with s p \<longleftrightarrow> take (length p) s = p"

definition ends_with :: "string \<Rightarrow> string \<Rightarrow> bool" where
  "ends_with s p \<longleftrightarrow> length p \<le> length s \<and> drop (length s - length p) s = p"

definition strip_suffix :: "string \<Rightarrow> string \<Rightarrow> string option" where
  "strip_suffix p s = (if ends_with s p then Some (take (length s - length p) s) else None)"

text \<open>\<open>split\<close> at any of some encodings, and \<open>split_whitespace\<close>.\<close>

function split_any :: "nat list list \<Rightarrow> string \<Rightarrow> string list" where
  "split_any es [] = [[]]"
| "split_any es (c # s) =
     (let n = leading_match es (c # s)
      in if n = 0 then (case split_any es s of f # fs \<Rightarrow> (c # f) # fs | [] \<Rightarrow> [[c]])
         else [] # split_any es (drop n (c # s)))"
  by pat_completeness auto
termination by (relation "measure (\<lambda>(_, s). length s)") auto

definition split_whitespace :: "string \<Rightarrow> string list" where
  "split_whitespace s = filter (\<lambda>w. w \<noteq> []) (split_any whitespace_encodings s)"

lemma strip_suffix_append [simp]: "strip_suffix p (s @ p) = Some s"
  by (simp add: strip_suffix_def ends_with_def)

lemma strip_suffix_Some: "strip_suffix p s = Some t \<longleftrightarrow> s = t @ p"
  by (auto simp: strip_suffix_def ends_with_def split: if_splits)
    (metis append_take_drop_id)

text \<open>Words of visible characters survive being joined by spaces.\<close>

definition word_chars :: "nat list list \<Rightarrow> string \<Rightarrow> bool" where
  "word_chars es w \<longleftrightarrow> (\<forall>c \<in> set w. \<forall>s. leading_match es (c # s) = 0)"

lemma split_any_word: "word_chars es w \<Longrightarrow> split_any es w = [w]"
  by (induction w) (simp_all add: word_chars_def)

lemma split_any_append:
  assumes "word_chars es w" "leading_match es (d # s) = Suc 0"
  shows "split_any es (w @ d # s) = w # split_any es s"
  using assms by (induction w) (simp_all add: word_chars_def)

lemma split_any_join:
  assumes "\<And>s. leading_match es (d # s) = Suc 0" "ws \<noteq> []" "\<forall>w \<in> set ws. word_chars es w"
  shows "split_any es (join d ws) = ws"
  using assms(2,3)
proof (induction ws rule: induct_list012)
  case (3 w v ws)
  then show ?case by (simp add: split_any_append assms(1))
qed (simp_all add: split_any_word)

end
