(* ===== verification/Version.thy ===== *)
theory Version
  imports Rust_Text
begin

text \<open>
  \<open>crates/yanuget-pkg/src/version.rs\<close>: parsing, normalization, ordering and hashing of
  NuGet versions. A parse error carries the trimmed input, as \<open>VersionParseError\<close> does.
  Components are \<open>u64\<close> in the source; they are read with a bound check and only compared
  and printed, so they are \<open>nat\<close> here.
\<close>

section \<open>Data\<close>

record nuget_version =
  v_major :: nat
  v_minor :: nat
  v_patch :: nat
  v_revision :: nat
  v_pre :: "string list"
  v_metadata :: "string option"
  v_original :: string

definition max_version_chars :: nat where
  "max_version_chars = 64"

definition max_input_chars :: nat where
  "max_input_chars = 256"

definition is_prerelease :: "nuget_version \<Rightarrow> bool" where
  "is_prerelease v \<longleftrightarrow> v_pre v \<noteq> []"

definition is_semver2 :: "nuget_version \<Rightarrow> bool" where
  "is_semver2 v \<longleftrightarrow> v_metadata v \<noteq> None \<or> 1 < length (v_pre v)"

definition core :: "nuget_version \<Rightarrow> nat \<times> nat \<times> nat \<times> nat" where
  "core v = (v_major v, v_minor v, v_patch v, v_revision v)"

section \<open>Printing\<close>

definition core_string :: "nuget_version \<Rightarrow> string" where
  "core_string v =
     (if 0 < v_revision v
      then join CHR ''.'' [show_nat (v_major v), show_nat (v_minor v), show_nat (v_patch v),
                           show_nat (v_revision v)]
      else join CHR ''.'' [show_nat (v_major v), show_nat (v_minor v), show_nat (v_patch v)])"

definition normalized :: "nuget_version \<Rightarrow> string" where
  "normalized v =
     core_string v @
     (if v_pre v = [] then [] else CHR ''-'' # to_ascii_lowercase (join CHR ''.'' (v_pre v)))"

definition to_full_string :: "nuget_version \<Rightarrow> string" where
  "to_full_string v =
     core_string v @
     (if v_pre v = [] then [] else CHR ''-'' # join CHR ''.'' (v_pre v)) @
     (case v_metadata v of None \<Rightarrow> [] | Some m \<Rightarrow> CHR ''+'' # m)"

section \<open>Parsing\<close>

definition is_pre_char :: "char \<Rightarrow> bool" where
  "is_pre_char c \<longleftrightarrow> is_ascii_alphanumeric c \<or> c = CHR ''-''"

definition valid_identifier :: "bool \<Rightarrow> string \<Rightarrow> bool" where
  "valid_identifier allow_leading_zeros ident \<longleftrightarrow>
     (let numeric = list_all is_ascii_digit ident
      in ident \<noteq> [] \<and> list_all is_pre_char ident \<and>
         (allow_leading_zeros \<or> \<not> numeric \<or> ident = ''0'' \<or> hd ident \<noteq> CHR ''0''))"

definition valid_identifiers :: "string \<Rightarrow> bool \<Rightarrow> bool" where
  "valid_identifiers s allow_leading_zeros =
     list_all (valid_identifier allow_leading_zeros) (split CHR ''.'' s)"

definition parse_component :: "string \<Rightarrow> nat option" where
  "parse_component part =
     (if part = [] \<or> \<not> list_all is_ascii_digit part then None
      else let digits = dropWhile (\<lambda>c. c = CHR ''0'') part
           in if digits = [] then Some 0
              else case parse_u64 digits of
                     None \<Rightarrow> None
                   | Some value \<Rightarrow> if value \<le> i32_max then Some value else None)"

text \<open>
  The three optional components after the first: a slot without a part keeps 0, a part
  that does not parse fails the whole version, and a fourth part is left over.
\<close>

fun parse_slots ::
  "(string \<Rightarrow> nat option) \<Rightarrow> nat \<Rightarrow> string list \<Rightarrow> (nat list \<times> string list) option" where
  "parse_slots f 0 parts = Some ([], parts)"
| "parse_slots f (Suc n) [] = map_option (\<lambda>(vs, r). (0 # vs, r)) (parse_slots f n [])"
| "parse_slots f (Suc n) (p # ps) =
     (case f p of
        None \<Rightarrow> None
      | Some x \<Rightarrow> map_option (\<lambda>(vs, r). (x # vs, r)) (parse_slots f n ps))"

definition parse_core :: "(string \<Rightarrow> nat option) \<Rightarrow> string \<Rightarrow> (nat \<times> nat \<times> nat \<times> nat) option" where
  "parse_core f s =
     (let parts = split CHR ''.'' s
      in case f (hd parts) of
           None \<Rightarrow> None
         | Some major \<Rightarrow>
             (case parse_slots f 3 (tl parts) of
                Some ([minor, patch, revision], []) \<Rightarrow> Some (major, minor, patch, revision)
              | _ \<Rightarrow> None))"

definition split_pre :: "string \<Rightarrow> string \<times> string option" where
  "split_pre s = (case split_once CHR ''-'' s of
                    Some (v, p) \<Rightarrow> (v, Some p)
                  | None \<Rightarrow> (s, None))"

definition parse_version :: "string \<Rightarrow> string + nuget_version" where
  "parse_version input =
     (let original = trim input
      in if original = [] \<or> length original > max_input_chars then Inl original
         else case (case split_once CHR ''+'' original of
                      Some (v, m) \<Rightarrow> if valid_identifiers m True then Some (v, Some m) else None
                    | None \<Rightarrow> Some (original, None)) of
           None \<Rightarrow> Inl original
         | Some (s, metadata) \<Rightarrow>
             (case parse_core parse_component (fst (split_pre s)) of
                None \<Rightarrow> Inl original
              | Some (major, minor, patch, revision) \<Rightarrow>
                  (case (case snd (split_pre s) of
                           None \<Rightarrow> Some []
                         | Some p \<Rightarrow> if valid_identifiers p False then Some (split CHR ''.'' p)
                                   else None) of
                     None \<Rightarrow> Inl original
                   | Some pre \<Rightarrow>
                       (let version = \<lparr>v_major = major, v_minor = minor, v_patch = patch,
                              v_revision = revision, v_pre = pre, v_metadata = metadata,
                              v_original = original\<rparr>
                        in if length (to_full_string version) > max_version_chars
                           then Inl original else Inr version))))"

definition strip_v :: "string \<Rightarrow> string" where
  "strip_v s = (case s of c # t \<Rightarrow> if c = CHR ''v'' \<or> c = CHR ''V'' then t else s | [] \<Rightarrow> s)"

text \<open>The part of \<open>parse_stored\<close> behind the strict attempt: the rules of older releases.\<close>

definition parse_lenient :: "string \<Rightarrow> string + nuget_version" where
  "parse_lenient input =
     (let original = trim input; s = strip_v original
      in if s = [] then Inl original
         else case (case split_once CHR ''+'' s of
                      Some (v, m) \<Rightarrow> if m = [] then None else Some (v, Some m)
                    | None \<Rightarrow> Some (s, None)) of
           None \<Rightarrow> Inl original
         | Some (s, metadata) \<Rightarrow>
             (case parse_core parse_u64 (fst (split_pre s)) of
                None \<Rightarrow> Inl original
              | Some (major, minor, patch, revision) \<Rightarrow>
                  (case (case snd (split_pre s) of
                           None \<Rightarrow> Some []
                         | Some p \<Rightarrow>
                             (let ids = split CHR ''.'' p
                              in if list_ex (\<lambda>i. i = [] \<or> \<not> list_all is_pre_char i) ids then None
                                 else Some ids)) of
                     None \<Rightarrow> Inl original
                   | Some pre \<Rightarrow>
                       Inr \<lparr>v_major = major, v_minor = minor, v_patch = patch,
                            v_revision = revision, v_pre = pre, v_metadata = metadata,
                            v_original = original\<rparr>)))"

definition parse_stored :: "string \<Rightarrow> string + nuget_version" where
  "parse_stored input =
     (case parse_version input of Inr v \<Rightarrow> Inr v | Inl _ \<Rightarrow> parse_lenient input)"

section \<open>Ordering and hashing\<close>

definition compare_identifier :: "string \<Rightarrow> string \<Rightarrow> ordering" where
  "compare_identifier a b =
     (case (parse_u64 a, parse_u64 b) of
        (Some na, Some nb) \<Rightarrow> cmp_nat na nb
      | (Some _, None) \<Rightarrow> Less
      | (None, Some _) \<Rightarrow> Greater
      | (None, None) \<Rightarrow> cmp_str (to_ascii_lowercase a) (to_ascii_lowercase b))"

definition compare_pre_identifiers :: "string list \<Rightarrow> string list \<Rightarrow> ordering" where
  "compare_pre_identifiers a b =
     (case find (\<lambda>(x, y). compare_identifier x y \<noteq> Equal) (zip a b) of
        Some (x, y) \<Rightarrow> compare_identifier x y
      | None \<Rightarrow> cmp_nat (length a) (length b))"

definition cmp_core :: "nuget_version \<Rightarrow> nuget_version \<Rightarrow> ordering" where
  "cmp_core v w =
     then_with (cmp_nat (v_major v) (v_major w))
       (then_with (cmp_nat (v_minor v) (v_minor w))
          (then_with (cmp_nat (v_patch v) (v_patch w))
             (cmp_nat (v_revision v) (v_revision w))))"

definition cmp_pre :: "nuget_version \<Rightarrow> nuget_version \<Rightarrow> ordering" where
  "cmp_pre v w =
     (case (v_pre v = [], v_pre w = []) of
        (True, True) \<Rightarrow> Equal
      | (True, False) \<Rightarrow> Greater
      | (False, True) \<Rightarrow> Less
      | (False, False) \<Rightarrow> compare_pre_identifiers (v_pre v) (v_pre w))"

definition cmp_version :: "nuget_version \<Rightarrow> nuget_version \<Rightarrow> ordering" where
  "cmp_version v w = then_with (cmp_core v w) (cmp_pre v w)"

definition eq_version :: "nuget_version \<Rightarrow> nuget_version \<Rightarrow> bool" where
  "eq_version v w \<longleftrightarrow> cmp_version v w = Equal"

text \<open>What \<open>Hash::hash\<close> feeds to the hasher, value by value.\<close>

datatype hash_token = H_u64 nat | H_usize nat | H_u8 nat | H_str string

definition hash_version :: "nuget_version \<Rightarrow> hash_token list" where
  "hash_version v =
     [H_u64 (v_major v), H_u64 (v_minor v), H_u64 (v_patch v), H_u64 (v_revision v),
      H_usize (length (v_pre v))] @
     concat (map (\<lambda>ident. case parse_u64 ident of
                          Some n \<Rightarrow> [H_u8 0, H_u64 n]
                        | None \<Rightarrow> [H_u8 1, H_str (to_ascii_lowercase ident)]) (v_pre v))"

section \<open>Characters and shape of the printed forms\<close>

lemma pre_char_not_delim:
  "is_pre_char c \<Longrightarrow> c \<noteq> CHR ''.''" "is_pre_char c \<Longrightarrow> c \<noteq> CHR ''+''"
  by (auto simp: is_pre_char_def is_ascii_alphanumeric_def is_ascii_digit_def
      is_ascii_uppercase_def is_ascii_lowercase_def)

lemma is_pre_char_lower [simp]: "is_pre_char (ascii_lower c) = is_pre_char c"
proof -
  have "ascii_lower c = CHR ''-'' \<longleftrightarrow> c = CHR ''-''"
    by (rule ascii_lower_eq_nonletter)
      (simp add: is_ascii_alphanumeric_def is_ascii_digit_def is_ascii_uppercase_def
        is_ascii_lowercase_def)
  then show ?thesis by (simp add: is_pre_char_def)
qed

lemma list_all_pre_char_lower [simp]:
  "list_all is_pre_char (to_ascii_lowercase s) = list_all is_pre_char s"
  by (induction s) auto

lemma graphic_pre_char: "is_pre_char c \<Longrightarrow> is_graphic c"
  using graphic_alphanumeric by (auto simp: is_pre_char_def is_graphic_def)

lemma ascii_lower_dot [simp]: "ascii_lower CHR ''.'' = CHR ''.''"
  by (simp add: ascii_lower_def is_ascii_uppercase_def)

lemma to_ascii_lowercase_join_dot [simp]:
  "to_ascii_lowercase (join CHR ''.'' ps) = join CHR ''.'' (map to_ascii_lowercase ps)"
  by (simp add: to_ascii_lowercase_join)

lemma hd_lower_zero:
  "s \<noteq> [] \<Longrightarrow> hd (to_ascii_lowercase s) = CHR ''0'' \<longleftrightarrow> hd s = CHR ''0''"
proof (cases s)
  case (Cons c t)
  have "is_ascii_digit CHR ''0''" by (simp add: is_ascii_digit_def)
  then have "ascii_lower c = CHR ''0'' \<longleftrightarrow> c = CHR ''0''"
    by (metis ascii_lower_digit is_ascii_digit_lower)
  with Cons show ?thesis by simp
qed simp

text \<open>What every identifier of a stored version is made of, and of an accepted one.\<close>

definition weak_identifier :: "string \<Rightarrow> bool" where
  "weak_identifier i \<longleftrightarrow> i \<noteq> [] \<and> list_all is_pre_char i"

lemma valid_identifier_weak: "valid_identifier z i \<Longrightarrow> weak_identifier i"
  by (simp add: valid_identifier_def weak_identifier_def Let_def)

lemma weak_identifier_lower [simp]: "weak_identifier (to_ascii_lowercase i) = weak_identifier i"
  by (simp add: weak_identifier_def)

lemma valid_identifier_lower:
  "valid_identifier z i \<Longrightarrow> valid_identifier z (to_ascii_lowercase i)"
  using hd_lower_zero [of i] to_ascii_lowercase_digits [of i]
  by (auto simp: valid_identifier_def Let_def)

lemma weak_identifier_delims:
  "weak_identifier i \<Longrightarrow> CHR ''.'' \<notin> set i" "weak_identifier i \<Longrightarrow> CHR ''+'' \<notin> set i"
  using pre_char_not_delim by (auto simp: weak_identifier_def list_all_iff)

lemma split_join_weak:
  "ps \<noteq> [] \<Longrightarrow> list_all weak_identifier ps \<Longrightarrow> split CHR ''.'' (join CHR ''.'' ps) = ps"
  by (rule split_join) (auto simp: list_all_iff weak_identifier_delims)

lemma set_join_weak:
  assumes "list_all weak_identifier ps" "c \<in> set (join CHR ''.'' ps)"
  shows "c = CHR ''.'' \<or> is_pre_char c"
  using assms set_join [of "CHR ''.''" ps] by (auto simp: list_all_iff weak_identifier_def)

lemma set_core_string: "c \<in> set (core_string v) \<Longrightarrow> c = CHR ''.'' \<or> is_ascii_digit c"
  by (auto simp: core_string_def dest: set_show_nat split: if_splits)

lemma core_string_delims [simp]:
  "CHR ''-'' \<notin> set (core_string v)" "CHR ''+'' \<notin> set (core_string v)"
  using set_core_string digit_not_delim by fastforce+

lemma core_string_first: "\<exists>c t. core_string v = c # t \<and> is_ascii_digit c"
  using show_nat_digits [of "v_major v"]
  by (cases "show_nat (v_major v)") (auto simp: core_string_def)

lemma parse_core_core_string:
  assumes "\<And>n. n \<in> {v_major v, v_minor v, v_patch v, v_revision v} \<Longrightarrow> f (show_nat n) = Some n"
  shows "parse_core f (core_string v) = Some (core v)"
proof -
  have nodot: "CHR ''.'' \<notin> set (show_nat n)" for n
    using show_nat_digits [of n] digit_not_delim(1) by (auto simp: list_all_iff)
  have sp: "split CHR ''.'' (join CHR ''.'' (map show_nat ns)) = map show_nat ns" if "ns \<noteq> []" for ns
    by (rule split_join) (use that nodot in \<open>auto simp: list_all_iff\<close>)
  have three: "split CHR ''.'' (join CHR ''.'' [show_nat a, show_nat b, show_nat c]) =
      [show_nat a, show_nat b, show_nat c]" for a b c
    using sp [of "[a, b, c]"] by simp
  have four: "split CHR ''.'' (join CHR ''.'' [show_nat a, show_nat b, show_nat c, show_nat d]) =
      [show_nat a, show_nat b, show_nat c, show_nat d]" for a b c d
    using sp [of "[a, b, c, d]"] by simp
  show ?thesis
    using assms
    by (cases "0 < v_revision v")
      (simp_all add: parse_core_def core_string_def three four core_def numeral_3_eq_3
        del: join.simps)
qed

lemma parse_slots_mono:
  assumes "\<And>p n. f p = Some n \<Longrightarrow> g p = Some n"
  shows "parse_slots f k ps = Some x \<Longrightarrow> parse_slots g k ps = Some x"
proof (induction k arbitrary: ps x)
  case (Suc k)
  then show ?case by (cases ps) (auto split: option.splits dest: assms)
qed simp

lemma parse_slots_bounded:
  assumes "\<And>p n. f p = Some n \<Longrightarrow> n \<le> (m :: nat)"
  shows "parse_slots f k ps = Some (vs, r) \<Longrightarrow> list_all (\<lambda>n. n \<le> m) vs"
proof (induction k arbitrary: ps vs r)
  case (Suc k)
  then show ?case by (cases ps) (auto split: option.splits dest: assms)
qed simp

lemma parse_core_mono:
  assumes "\<And>p n. f p = Some n \<Longrightarrow> g p = Some n" "parse_core f s = Some r"
  shows "parse_core g s = Some r"
proof -
  from assms(2) obtain m x where m: "f (hd (split CHR ''.'' s)) = Some m"
    and x: "parse_slots f 3 (tl (split CHR ''.'' s)) = Some x"
    by (auto simp: parse_core_def Let_def split: option.splits)
  have "g (hd (split CHR ''.'' s)) = Some m" by (rule assms(1) [OF m])
  moreover have "parse_slots g 3 (tl (split CHR ''.'' s)) = Some x"
    by (rule parse_slots_mono [OF assms(1) x])
  ultimately show ?thesis using assms(2) m x by (simp add: parse_core_def Let_def)
qed

lemma parse_core_range:
  assumes "parse_core f s = Some (a, b, c, d)"
    and "\<And>p n. f p = Some n \<Longrightarrow> n \<le> m"
  shows "a \<le> m \<and> b \<le> m \<and> c \<le> m \<and> d \<le> m"
proof -
  from assms(1) obtain vs r where p: "parse_slots f 3 (tl (split CHR ''.'' s)) = Some (vs, r)"
    and a: "f (hd (split CHR ''.'' s)) = Some a" and vs: "vs = [b, c, d]"
    by (auto simp: parse_core_def Let_def split: option.splits list.splits)
  have "list_all (\<lambda>n. n \<le> m) vs" by (rule parse_slots_bounded [OF assms(2) p])
  with vs assms(2) [OF a] show ?thesis by simp
qed

lemma parse_core_starts_digit:
  assumes "parse_core f s = Some r" "\<And>p n. f p = Some n \<Longrightarrow> p \<noteq> [] \<and> list_all is_ascii_digit p"
  shows "\<exists>c t. s = c # t \<and> is_ascii_digit c"
proof -
  obtain p ps where p: "split CHR ''.'' s = p # ps" using split_Cons_ex by blast
  with assms have "p \<noteq> []" "list_all is_ascii_digit p"
    by (auto simp: parse_core_def split: option.splits)
  moreover have "s = join CHR ''.'' (p # ps)" using p by (metis join_split)
  ultimately show ?thesis by (cases p; cases ps) auto
qed

section \<open>Components\<close>

lemma read_digits_foldl:
  "foldl (\<lambda>acc c. 10 * acc + digit_val c) 0 (dropWhile (\<lambda>c. c = CHR ''0'') s) =
   foldl (\<lambda>acc c. 10 * acc + digit_val c) 0 s"
  by (induction s) (auto simp: digit_val_def)

lemma read_digits_dropWhile: "read_digits (dropWhile (\<lambda>c. c = CHR ''0'') s) = read_digits s"
  by (simp add: read_digits_def read_digits_foldl)

lemma parse_component_eq:
  "parse_component p = Some n \<longleftrightarrow>
     p \<noteq> [] \<and> list_all is_ascii_digit p \<and> n = read_digits p \<and> n \<le> i32_max"
proof (cases "p \<noteq> [] \<and> list_all is_ascii_digit p")
  case True
  define d where "d = dropWhile (\<lambda>c. c = CHR ''0'') p"
  have rd: "read_digits d = read_digits p" by (simp add: d_def read_digits_dropWhile)
  have dd: "list_all is_ascii_digit d"
    using True set_dropWhileD [of _ "\<lambda>c. c = CHR ''0''" p] by (auto simp: d_def list_all_iff)
  have big: "read_digits p \<le> i32_max \<Longrightarrow> read_digits p < 2 ^ 64" by (simp add: i32_max_def)
  show ?thesis
  proof (cases "d = []")
    case True
    with rd have "read_digits p = 0" by simp
    with True \<open>p \<noteq> [] \<and> list_all is_ascii_digit p\<close> show ?thesis
      by (auto simp: parse_component_def d_def [symmetric])
  next
    case False
    with True dd rd big show ?thesis
      by (auto simp: parse_component_def d_def [symmetric] parse_uint_digits simp del: power_numeral)
  qed
qed (auto simp: parse_component_def)

lemma parse_component_show_nat: "n \<le> i32_max \<Longrightarrow> parse_component (show_nat n) = Some n"
  by (simp add: parse_component_eq)

lemma parse_u64_show_nat: "n < 2 ^ 64 \<Longrightarrow> parse_u64 (show_nat n) = Some n"
  by (simp add: parse_uint_digits)

lemma parse_component_u64: "parse_component p = Some n \<Longrightarrow> parse_u64 p = Some n"
  by (auto simp: parse_component_eq parse_uint_digits i32_max_def)

lemma parse_u64_less: "parse_u64 p = Some n \<Longrightarrow> n \<le> u64_max"
  by (auto simp: parse_uint_def Let_def u64_max_def split: if_splits)

lemma parse_u64_pre_char:
  "list_all is_pre_char p \<Longrightarrow> parse_u64 p = Some n \<longleftrightarrow>
     p \<noteq> [] \<and> list_all is_ascii_digit p \<and> n = read_digits p \<and> n < 2 ^ 64"
  using pre_char_not_delim(2)
  by (cases p) (auto simp: parse_uint_def Let_def)

section \<open>Well-formed versions\<close>

text \<open>
  \<open>version_ok\<close> is what the strict parser accepts, \<open>weak_ok\<close> what the lenient one does.
  \<open>canonical\<close> is the version the normalized string denotes.
\<close>

definition version_ok :: "nuget_version \<Rightarrow> bool" where
  "version_ok v \<longleftrightarrow>
     v_major v \<le> i32_max \<and> v_minor v \<le> i32_max \<and> v_patch v \<le> i32_max \<and>
     v_revision v \<le> i32_max \<and> list_all (valid_identifier False) (v_pre v) \<and>
     (case v_metadata v of None \<Rightarrow> True | Some m \<Rightarrow> valid_identifiers m True) \<and>
     length (to_full_string v) \<le> max_version_chars"

definition weak_ok :: "nuget_version \<Rightarrow> bool" where
  "weak_ok v \<longleftrightarrow>
     v_major v \<le> u64_max \<and> v_minor v \<le> u64_max \<and> v_patch v \<le> u64_max \<and>
     v_revision v \<le> u64_max \<and> list_all weak_identifier (v_pre v) \<and> v_metadata v \<noteq> Some []"

definition canonical :: "nuget_version \<Rightarrow> nuget_version" where
  "canonical v = v\<lparr>v_pre := map to_ascii_lowercase (v_pre v), v_metadata := None\<rparr>"

lemma core_string_update [simp]:
  "core_string (v\<lparr>v_original := x\<rparr>) = core_string v"
  "core_string (v\<lparr>v_metadata := m\<rparr>) = core_string v"
  "core_string (v\<lparr>v_pre := p\<rparr>) = core_string v"
  "core_string (canonical v) = core_string v"
  by (simp_all add: core_string_def canonical_def)

lemma to_full_string_original [simp]: "to_full_string (v\<lparr>v_original := x\<rparr>) = to_full_string v"
  by (simp add: to_full_string_def)

lemma normalized_original [simp]: "normalized (v\<lparr>v_original := x\<rparr>) = normalized v"
  by (simp add: normalized_def)

lemma normalized_eq_full: "normalized v = to_full_string (canonical v)"
  by (simp add: normalized_def to_full_string_def) (simp add: canonical_def)

lemma version_ok_weak_ids: "version_ok v \<Longrightarrow> list_all weak_identifier (v_pre v)"
  by (auto simp: version_ok_def list_all_iff intro: valid_identifier_weak)

lemma length_join_lower: "length (join d (map to_ascii_lowercase ps)) = length (join d ps)"
  by (induction d ps rule: join.induct) auto

lemma version_ok_canonical: "version_ok v \<Longrightarrow> version_ok (canonical v)"
  unfolding version_ok_def to_full_string_def core_string_update
  by (auto simp: canonical_def list_all_iff length_join_lower
      intro: valid_identifier_lower split: if_splits)

lemma weak_ok_canonical: "weak_ok v \<Longrightarrow> weak_ok (canonical v)"
  by (auto simp: weak_ok_def canonical_def list_all_iff)

lemma version_ok_weak: "version_ok v \<Longrightarrow> weak_ok v"
proof -
  assume v: "version_ok v"
  have "v_metadata v \<noteq> Some []"
    using v by (auto simp: version_ok_def valid_identifiers_def valid_identifier_def Let_def)
  with v show ?thesis
    using version_ok_weak_ids [OF v]
    by (auto simp: version_ok_def weak_ok_def i32_max_def u64_max_def)
qed

section \<open>Parsing what was printed\<close>

lemma full_string_plus:
  assumes "list_all weak_identifier (v_pre v)"
  shows "split_once CHR ''+'' (to_full_string v) =
         map_option (\<lambda>m. (to_full_string (v\<lparr>v_metadata := None\<rparr>), m)) (v_metadata v)"
proof -
  have "CHR ''+'' \<notin> set (join CHR ''.'' (v_pre v))"
    using set_join_weak [OF assms] pre_char_not_delim(2) by fastforce
  then have none: "CHR ''+'' \<notin> set (to_full_string (v\<lparr>v_metadata := None\<rparr>))"
    by (simp add: to_full_string_def)
  show ?thesis
  proof (cases "v_metadata v")
    case None
    then have "to_full_string v = to_full_string (v\<lparr>v_metadata := None\<rparr>)"
      by (simp add: to_full_string_def)
    with none None show ?thesis by simp
  next
    case (Some m)
    then have "to_full_string v = to_full_string (v\<lparr>v_metadata := None\<rparr>) @ CHR ''+'' # m"
      by (simp add: to_full_string_def)
    with none Some show ?thesis by (simp add: split_once_append)
  qed
qed

lemma full_string_pre:
  "split_pre (to_full_string (v\<lparr>v_metadata := None\<rparr>)) =
     (core_string v, if v_pre v = [] then None else Some (join CHR ''.'' (v_pre v)))"
proof (cases "v_pre v = []")
  case True
  then show ?thesis by (simp add: split_pre_def to_full_string_def)
next
  case False
  then show ?thesis by (simp add: split_pre_def to_full_string_def split_once_append)
qed

lemma full_string_graphic: "version_ok v \<Longrightarrow> list_all is_graphic (to_full_string v)"
proof -
  assume v: "version_ok v"
  have dot: "is_graphic CHR ''.''" "is_graphic CHR ''-''" "is_graphic CHR ''+''"
    by (simp_all add: is_graphic_def)
  have core: "list_all is_graphic (core_string v)"
    using dot graphic_alphanumeric set_core_string
    by (fastforce simp: list_all_iff is_ascii_alphanumeric_def)
  have pre: "list_all is_graphic (join CHR ''.'' (v_pre v))"
    using set_join_weak [OF version_ok_weak_ids [OF v]] graphic_pre_char dot
    by (fastforce simp: list_all_iff)
  have meta: "list_all is_graphic m" if "v_metadata v = Some m" for m
  proof -
    from v that have "list_all weak_identifier (split CHR ''.'' m)"
      by (auto simp: version_ok_def valid_identifiers_def list_all_iff intro: valid_identifier_weak)
    from set_join_weak [OF this] show ?thesis
      using graphic_pre_char dot by (fastforce simp: list_all_iff)
  qed
  show ?thesis using core pre meta dot
    by (auto simp: to_full_string_def split: option.splits)
qed

lemma core_string_not_Nil [simp]: "core_string v \<noteq> []"
  using core_string_first [of v] by auto

lemma parse_version_full_string:
  assumes v: "version_ok v"
  shows "parse_version (to_full_string v) = Inr (v\<lparr>v_original := to_full_string v\<rparr>)"
proof -
  let ?s = "to_full_string v"
  have trim: "trim ?s = ?s" by (rule trim_graphic [OF full_string_graphic [OF v]])
  have len: "?s \<noteq> []" "length ?s \<le> max_version_chars" "length ?s \<le> max_input_chars"
    using v by (auto simp: version_ok_def to_full_string_def max_version_chars_def
        max_input_chars_def)
  have ids: "list_all weak_identifier (v_pre v)" by (rule version_ok_weak_ids [OF v])
  have core: "parse_core parse_component (core_string v) = Some (core v)"
    by (rule parse_core_core_string) (use v in \<open>auto simp: version_ok_def parse_component_show_nat\<close>)
  have pre: "(case (if v_pre v = [] then None else Some (join CHR ''.'' (v_pre v))) of
      None \<Rightarrow> Some []
    | Some p \<Rightarrow> if valid_identifiers p False then Some (split CHR ''.'' p) else None) = Some (v_pre v)"
    using v ids by (auto simp: valid_identifiers_def split_join_weak version_ok_def)
  have meta: "(case split_once CHR ''+'' ?s of
      Some (a, m) \<Rightarrow> if valid_identifiers m True then Some (a, Some m) else None
    | None \<Rightarrow> Some (?s, None)) = Some (to_full_string (v\<lparr>v_metadata := None\<rparr>), v_metadata v)"
    using v by (cases "v_metadata v")
      (simp_all add: full_string_plus [OF ids] version_ok_def, simp add: to_full_string_def)
  have rec: "\<lparr>v_major = v_major v, v_minor = v_minor v, v_patch = v_patch v,
      v_revision = v_revision v, v_pre = v_pre v, v_metadata = v_metadata v, v_original = ?s\<rparr> =
      v\<lparr>v_original := ?s\<rparr>" by (cases v) simp
  show ?thesis
    using len by (simp add: parse_version_def trim meta full_string_pre core core_def pre Let_def rec)
qed

lemma parse_lenient_normalized:
  assumes v: "weak_ok v"
  shows "parse_lenient (normalized v) = Inr ((canonical v)\<lparr>v_original := normalized v\<rparr>)"
proof -
  let ?c = "canonical v" and ?s = "normalized v"
  have ids: "list_all weak_identifier (v_pre ?c)" and meta: "v_metadata ?c = None"
    using weak_ok_canonical [OF v] by (simp_all add: weak_ok_def canonical_def)
  have graphic: "list_all is_graphic ?s"
  proof -
    have g: "is_graphic CHR ''.''" "is_graphic CHR ''-''" by (simp_all add: is_graphic_def)
    have "list_all is_graphic (core_string v)"
      using g graphic_alphanumeric set_core_string
      by (fastforce simp: list_all_iff is_ascii_alphanumeric_def)
    moreover have "list_all is_graphic (join CHR ''.'' (v_pre ?c))"
      using set_join_weak [OF ids] graphic_pre_char g by (fastforce simp: list_all_iff)
    ultimately show ?thesis using g by (simp add: normalized_eq_full to_full_string_def meta)
  qed
  have strip: "strip_v ?s = ?s" and ne: "?s \<noteq> []"
    using core_string_first [of v]
    by (auto simp: normalized_def strip_v_def is_ascii_digit_def)
  have full: "to_full_string (?c\<lparr>v_metadata := None\<rparr>) = ?s"
    by (simp add: normalized_eq_full) (simp add: canonical_def)
  have plus: "split_once CHR ''+'' ?s = None"
    using full_string_plus [OF ids] meta by (simp add: normalized_eq_full)
  have pre: "split_pre ?s =
      (core_string v, if v_pre ?c = [] then None else Some (join CHR ''.'' (v_pre ?c)))"
    using full_string_pre [of ?c] full by simp
  have core: "parse_core parse_u64 (core_string v) = Some (core v)"
    by (rule parse_core_core_string) (use v in \<open>auto simp: weak_ok_def u64_max_def parse_u64_show_nat\<close>)
  have idl: "\<not> list_ex (\<lambda>i. i = [] \<or> \<not> list_all is_pre_char i) (v_pre ?c)"
    using ids by (auto simp: list_ex_iff list_all_iff weak_identifier_def)
  have same: "v_major ?c = v_major v" "v_minor ?c = v_minor v" "v_patch ?c = v_patch v"
    "v_revision ?c = v_revision v" by (simp_all add: canonical_def)
  show ?thesis
    using ne idl
    by (auto simp: parse_lenient_def trim_graphic [OF graphic] strip plus pre core core_def Let_def
        split_join_weak [OF _ ids] same meta)
qed

section \<open>What the parsers accept\<close>

lemma parse_version_ok: "parse_version s = Inr v \<Longrightarrow> version_ok v \<and> v_original v = trim s"
  unfolding parse_version_def Let_def
  by (auto split: if_splits option.splits prod.splits
      simp: version_ok_def valid_identifiers_def parse_component_eq
      dest!: parse_core_range [where m = i32_max])

lemma parse_lenient_ok: "parse_lenient s = Inr v \<Longrightarrow> weak_ok v \<and> v_original v = trim s"
  unfolding parse_lenient_def Let_def
  by (auto split: if_splits option.splits prod.splits
      simp: weak_ok_def list_all_iff list_ex_iff weak_identifier_def
      dest!: parse_core_range [where m = u64_max] dest: parse_u64_less)

lemma parse_version_parts:
  assumes "parse_version s = Inr v"
  obtains b m where "split_once CHR ''+'' (trim s) = Some (b, m) \<and> v_metadata v = Some m \<and>
        valid_identifiers m True \<or>
      split_once CHR ''+'' (trim s) = None \<and> b = trim s \<and> v_metadata v = None"
    and "parse_core parse_component (fst (split_pre b)) = Some (core v)"
    and "snd (split_pre b) = None \<and> v_pre v = [] \<or>
      (\<exists>p. snd (split_pre b) = Some p \<and> valid_identifiers p False \<and> v_pre v = split CHR ''.'' p)"
    and "v = \<lparr>v_major = v_major v, v_minor = v_minor v, v_patch = v_patch v,
      v_revision = v_revision v, v_pre = v_pre v, v_metadata = v_metadata v, v_original = trim s\<rparr>"
  using assms unfolding parse_version_def Let_def core_def
  by (auto split: if_splits option.splits prod.splits)

lemma parse_version_lenient:
  assumes "parse_version s = Inr v"
  shows "parse_lenient s = Inr v"
proof (rule parse_version_parts [OF assms])
  fix b m
  assume plus: "split_once CHR ''+'' (trim s) = Some (b, m) \<and> v_metadata v = Some m \<and>
        valid_identifiers m True \<or>
      split_once CHR ''+'' (trim s) = None \<and> b = trim s \<and> v_metadata v = None"
    and core: "parse_core parse_component (fst (split_pre b)) = Some (core v)"
    and pre: "snd (split_pre b) = None \<and> v_pre v = [] \<or>
      (\<exists>p. snd (split_pre b) = Some p \<and> valid_identifiers p False \<and> v_pre v = split CHR ''.'' p)"
    and rec: "v = \<lparr>v_major = v_major v, v_minor = v_minor v, v_patch = v_patch v,
      v_revision = v_revision v, v_pre = v_pre v, v_metadata = v_metadata v, v_original = trim s\<rparr>"
  obtain c t where "fst (split_pre b) = c # t" and c: "is_ascii_digit c"
    using parse_core_starts_digit [OF core] parse_component_eq by blast
  moreover have "\<exists>r. b = fst (split_pre b) @ r"
    by (auto simp: split_pre_def split_once_Some split: option.splits)
  moreover have "\<exists>r. trim s = b @ r" using plus by (auto simp: split_once_Some)
  ultimately obtain r where "trim s = c # r" by (metis append_Cons)
  with c have strip: "strip_v (trim s) = trim s" and ne: "trim s \<noteq> []"
    by (auto simp: strip_v_def is_ascii_digit_def)
  have core': "parse_core parse_u64 (fst (split_pre b)) = Some (core v)"
    by (rule parse_core_mono [OF parse_component_u64 core])
  have m: "\<not> valid_identifiers [] True" by (simp add: valid_identifiers_def valid_identifier_def)
  have ids: "\<not> list_ex (\<lambda>i. i = [] \<or> \<not> list_all is_pre_char i) (split CHR ''.'' p)"
    if "valid_identifiers p False" for p
    using that valid_identifier_weak
    by (fastforce simp: valid_identifiers_def weak_identifier_def list_all_iff list_ex_iff)
  show ?thesis
    using plus ne core' pre ids m rec
    by (auto simp: parse_lenient_def strip Let_def core_def)
qed

lemma parse_stored_eq_lenient: "parse_stored s = parse_lenient s"
  by (auto simp: parse_stored_def parse_version_lenient split: sum.splits)

text \<open>A parsed version is read back from its original string.\<close>

lemma parse_trim [simp]:
  "parse_version (trim s) = parse_version s" "parse_lenient (trim s) = parse_lenient s"
  by (simp_all add: parse_version_def parse_lenient_def)

lemma parse_stored_original: "parse_stored s = Inr v \<Longrightarrow> parse_stored (v_original v) = Inr v"
  using parse_lenient_ok [of s v] by (simp add: parse_stored_eq_lenient)

lemma parse_version_original: "parse_version s = Inr v \<Longrightarrow> parse_stored (v_original v) = Inr v"
  by (rule parse_stored_original [of s]) (simp add: parse_stored_def)

section \<open>The order\<close>

definition ident_key :: "string \<Rightarrow> nat + string" where
  "ident_key a = (case parse_u64 a of Some n \<Rightarrow> Inl n | None \<Rightarrow> Inr (to_ascii_lowercase a))"

lemma compare_identifier_key:
  "compare_identifier = (\<lambda>a b. cmp_sum cmp_nat cmp_str (ident_key a) (ident_key b))"
  by (intro ext) (simp add: compare_identifier_def ident_key_def split: option.split)

lemma total_cmp_identifier: "total_cmp compare_identifier"
  unfolding compare_identifier_key
  by (rule total_cmp_key [OF total_cmp_sum [OF total_cmp_nat total_cmp_str]])

lemma compare_pre_identifiers_lex: "compare_pre_identifiers = cmp_list compare_identifier"
proof (intro ext)
  fix a b
  show "compare_pre_identifiers a b = cmp_list compare_identifier a b"
  proof (induction compare_identifier a b rule: cmp_list.induct)
    case (4 x xs y ys)
    then show ?case
      by (cases "compare_identifier x y")
        (auto simp: compare_pre_identifiers_def cmp_nat_def split: option.splits)
  qed (simp_all add: compare_pre_identifiers_def cmp_nat_def)
qed

definition pre_key :: "nuget_version \<Rightarrow> string list + unit" where
  "pre_key v = (if v_pre v = [] then Inr () else Inl (v_pre v))"

lemma cmp_pre_key:
  "cmp_pre = (\<lambda>v w. cmp_sum (cmp_list compare_identifier) (\<lambda>_ _. Equal) (pre_key v) (pre_key w))"
  by (intro ext) (simp add: cmp_pre_def pre_key_def compare_pre_identifiers_lex)

lemma total_cmp_version: "total_cmp cmp_version"
  unfolding cmp_version_def [abs_def] cmp_core_def [abs_def] cmp_pre_key
  by (intro total_cmp_then total_cmp_key [OF total_cmp_nat, of v_major]
      total_cmp_key [OF total_cmp_nat, of v_minor] total_cmp_key [OF total_cmp_nat, of v_patch]
      total_cmp_key [OF total_cmp_nat, of v_revision]
      total_cmp_key [OF total_cmp_sum [OF total_cmp_list [OF total_cmp_identifier] total_cmp_unit]])

interpretation version_order: total_cmp cmp_version
  by (rule total_cmp_version)

lemma cmp_core_eq [simp]: "cmp_core v w = Equal \<longleftrightarrow> core v = core w"
  by (auto simp: cmp_core_def core_def)

lemma cmp_pre_eq: "cmp_pre v w = Equal \<longleftrightarrow> map ident_key (v_pre v) = map ident_key (v_pre w)"
proof -
  have e: "compare_identifier a b = Equal \<longleftrightarrow> ident_key a = ident_key b" for a b
    by (cases "ident_key a"; cases "ident_key b") (auto simp: compare_identifier_key)
  have "list_all2 (\<lambda>a b. ident_key a = ident_key b) xs ys \<longleftrightarrow> map ident_key xs = map ident_key ys"
    for xs ys by (induction xs arbitrary: ys) (auto simp: list_all2_Cons1 Cons_eq_map_conv)
  then show ?thesis
    by (cases "v_pre v = []"; cases "v_pre w = []")
      (auto simp: cmp_pre_def compare_pre_identifiers_lex cmp_list_eq_Equal e)
qed

lemma eq_version_iff:
  "eq_version v w \<longleftrightarrow> core v = core w \<and> map ident_key (v_pre v) = map ident_key (v_pre w)"
  by (simp add: eq_version_def cmp_version_def cmp_pre_eq)

lemma ident_key_lower:
  "list_all is_pre_char i \<Longrightarrow> ident_key (to_ascii_lowercase i) = ident_key i"
proof -
  assume i: "list_all is_pre_char i"
  then have i': "list_all is_pre_char (to_ascii_lowercase i)" by simp
  have "parse_u64 (to_ascii_lowercase i) = parse_u64 i"
  proof (cases "list_all is_ascii_digit i")
    case False
    with i i' parse_u64_pre_char have "parse_u64 i = None" "parse_u64 (to_ascii_lowercase i) = None"
      by (metis list_all_digit_lower not_None_eq)+
    then show ?thesis by simp
  qed (simp add: to_ascii_lowercase_digits)
  then show ?thesis by (simp add: ident_key_def split: option.split)
qed

lemma ident_key_inject:
  assumes a: "valid_identifier False a" and b: "valid_identifier False b"
    and eq: "ident_key a = ident_key b"
  shows "to_ascii_lowercase a = to_ascii_lowercase b"
proof (cases "parse_u64 a")
  case None
  with eq show ?thesis by (auto simp: ident_key_def split: option.splits)
next
  case (Some n)
  with eq have nb: "parse_u64 b = Some n" by (auto simp: ident_key_def split: option.splits)
  have can: "canonical_digits i \<and> read_digits i = n"
    if "valid_identifier False i" "parse_u64 i = Some n" for i
    using that parse_u64_pre_char [of i n] valid_identifier_weak [OF that(1)]
    by (auto simp: valid_identifier_def canonical_digits_def weak_identifier_def Let_def)
  have "a = b"
    using can [OF a Some] can [OF b nb] by (intro canonical_digits_eq) auto
  then show ?thesis by simp
qed

lemma map_ident_key_inject:
  "map ident_key xs = map ident_key ys \<Longrightarrow> list_all (valid_identifier False) xs \<Longrightarrow>
   list_all (valid_identifier False) ys \<Longrightarrow> map to_ascii_lowercase xs = map to_ascii_lowercase ys"
proof (induction xs arbitrary: ys)
  case (Cons x xs)
  then obtain y zs where "ys = y # zs" by (cases ys) auto
  with Cons show ?case using ident_key_inject [of x y] by simp
qed simp

lemma eq_version_canonical: "weak_ok v \<Longrightarrow> eq_version v (canonical v)"
  by (auto simp: eq_version_iff core_def canonical_def weak_ok_def list_all_iff
      weak_identifier_def ident_key_lower)

lemma eq_version_original [simp]:
  "eq_version (v\<lparr>v_original := x\<rparr>) w = eq_version v w"
  "eq_version v (w\<lparr>v_original := x\<rparr>) = eq_version v w"
  by (simp_all add: eq_version_iff core_def)

lemma normalized_cong:
  "core v = core w \<Longrightarrow> map to_ascii_lowercase (v_pre v) = map to_ascii_lowercase (v_pre w) \<Longrightarrow>
   normalized v = normalized w"
  by (auto simp: normalized_def core_string_def core_def)

lemma normalized_eq_lenient:
  assumes "weak_ok v" "weak_ok w" "normalized v = normalized w"
  shows "core v = core w \<and> map to_ascii_lowercase (v_pre v) = map to_ascii_lowercase (v_pre w)"
proof -
  have "(canonical v)\<lparr>v_original := normalized v\<rparr> = (canonical w)\<lparr>v_original := normalized w\<rparr>"
    using parse_lenient_normalized [OF assms(1)] parse_lenient_normalized [OF assms(2)] assms(3)
    by simp
  then show ?thesis
    by (cases v; cases w) (simp add: canonical_def core_def)
qed

lemma eq_version_lower:
  assumes "weak_ok v" "weak_ok w" "core v = core w"
    "map to_ascii_lowercase (v_pre v) = map to_ascii_lowercase (v_pre w)"
  shows "eq_version v w"
proof -
  have k: "map ident_key (v_pre u) = map ident_key (map to_ascii_lowercase (v_pre u))"
    if "weak_ok u" for u
    using that by (auto simp: weak_ok_def weak_identifier_def list_all_iff ident_key_lower)
  show ?thesis using assms(3,4) k [OF assms(1)] k [OF assms(2)] by (simp add: eq_version_iff)
qed

text \<open>The version the normalized string parses to, and what it keeps.\<close>

lemma eq_version_normalized:
  assumes v: "version_ok v" and w: "version_ok w"
  shows "eq_version v w \<longleftrightarrow> normalized v = normalized w"
proof
  assume eq: "eq_version v w"
  have ids: "list_all (valid_identifier False) (v_pre v)" "list_all (valid_identifier False) (v_pre w)"
    using v w by (simp_all add: version_ok_def)
  from eq have c: "core v = core w" and k: "map ident_key (v_pre v) = map ident_key (v_pre w)"
    by (simp_all add: eq_version_iff)
  show "normalized v = normalized w"
    by (rule normalized_cong [OF c map_ident_key_inject [OF k ids]])
next
  assume "normalized v = normalized w"
  with v w show "eq_version v w"
    by (meson normalized_eq_lenient eq_version_lower version_ok_weak)
qed

lemma lower_normalized [simp]: "to_ascii_lowercase (normalized v) = normalized v"
  by (simp add: normalized_def to_ascii_lowercase_digits char_eval core_string_def comp_def)

definition reparsed :: "nuget_version \<Rightarrow> nuget_version" where
  "reparsed v = (canonical v)\<lparr>v_original := normalized v\<rparr>"

lemma parse_version_normalized: "version_ok v \<Longrightarrow> parse_version (normalized v) = Inr (reparsed v)"
  using parse_version_full_string [OF version_ok_canonical]
  by (simp add: normalized_eq_full reparsed_def)

lemma normalized_canonical [simp]: "normalized (canonical v) = normalized v"
  by (rule normalized_cong) (auto simp: core_def canonical_def)

lemma normalized_reparsed [simp]: "normalized (reparsed v) = normalized v"
  by (simp add: reparsed_def)

lemma eq_version_reparsed: "weak_ok v \<Longrightarrow> eq_version v (reparsed v)"
  by (simp add: reparsed_def eq_version_canonical)

lemma set_normalized:
  assumes "weak_ok v" "c \<in> set (normalized v)"
  shows "c = CHR ''.'' \<or> is_pre_char c"
proof -
  have "list_all weak_identifier (map to_ascii_lowercase (v_pre v))"
    using assms(1) by (auto simp: weak_ok_def list_all_iff)
  from set_join_weak [OF this] show ?thesis
    using assms(2) set_core_string [of c v]
    by (auto simp: normalized_def is_pre_char_def is_ascii_alphanumeric_def split: if_splits)
qed

lemma normalized_first: "\<exists>c t. normalized v = c # t \<and> is_ascii_digit c"
  using core_string_first [of v] by (auto simp: normalized_def)

lemma length_normalized: "version_ok v \<Longrightarrow> length (normalized v) \<le> max_version_chars"
  using version_ok_canonical [of v] by (simp add: normalized_eq_full version_ok_def)

lemma trim_normalized: "weak_ok v \<Longrightarrow> trim (normalized v) = normalized v"
proof (rule trim_graphic)
  assume v: "weak_ok v"
  have "is_graphic CHR ''.''" by (simp add: is_graphic_def)
  then show "list_all is_graphic (normalized v)"
    by (auto simp: list_all_iff graphic_pre_char dest!: set_normalized [OF v])
qed

lemma cmp_eq_version_left: "eq_version a b \<Longrightarrow> cmp_version a c = cmp_version b c"
  using version_order.cmp_equal_left by (simp add: eq_version_def)

lemma cmp_eq_version_right: "eq_version a b \<Longrightarrow> cmp_version c a = cmp_version c b"
  using version_order.cmp_equal_right by (simp add: eq_version_def)

lemma eq_version_sym: "eq_version a b \<Longrightarrow> eq_version b a"
  by (simp add: eq_version_iff)

lemma eq_version_trans: "eq_version a b \<Longrightarrow> eq_version b c \<Longrightarrow> eq_version a c"
  by (simp add: eq_version_iff)

lemma eq_version_refl [simp]: "eq_version a a"
  by (simp add: eq_version_iff)

section \<open>Properties\<close>

lemma parse_slots_3: "parse_slots f 3 ps = parse_slots f (Suc (Suc (Suc 0))) ps"
  by (simp add: numeral_3_eq_3)

lemmas version_eval =
  parse_version_def parse_lenient_def parse_stored_def parse_core_def parse_component_def
  split_pre_def valid_identifiers_def valid_identifier_def is_pre_char_def strip_v_def
  to_full_string_def normalized_def core_string_def max_input_chars_def max_version_chars_def
  parse_slots_3 char_eval number_eval

definition sample_upper :: nuget_version where
  "sample_upper = \<lparr>v_major = 1, v_minor = 2, v_patch = 0, v_revision = 0, v_pre = [''Rc'', ''1''],
     v_metadata = Some ''b7'', v_original = ''1.2.0-Rc.1+b7''\<rparr>"

definition sample_lower :: nuget_version where
  "sample_lower = \<lparr>v_major = 1, v_minor = 2, v_patch = 0, v_revision = 0, v_pre = [''rc'', ''1''],
     v_metadata = None, v_original = ''1.2.0-rc.1''\<rparr>"

lemma full_sample_upper: "to_full_string sample_upper = ''1.2.0-Rc.1+b7''"
  by (simp add: version_eval sample_upper_def)

lemma version_ok_sample_upper: "version_ok sample_upper"
  unfolding version_ok_def full_sample_upper
  by (simp add: sample_upper_def i32_max_def max_version_chars_def)
    (simp add: valid_identifiers_def valid_identifier_def is_pre_char_def char_eval)

lemma parse_sample_upper: "parse_version ''1.2.0-Rc.1+b7'' = Inr sample_upper"
  using parse_version_full_string [OF version_ok_sample_upper]
  unfolding full_sample_upper by (simp add: sample_upper_def)

lemma full_sample_lower: "to_full_string sample_lower = ''1.2.0-rc.1''"
  by (simp add: version_eval sample_lower_def)

lemma version_ok_sample_lower: "version_ok sample_lower"
  unfolding version_ok_def full_sample_lower
  by (simp add: sample_lower_def i32_max_def max_version_chars_def)
    (simp add: valid_identifiers_def valid_identifier_def is_pre_char_def char_eval)

lemma parse_sample_lower: "parse_version ''1.2.0-rc.1'' = Inr sample_lower"
  using parse_version_full_string [OF version_ok_sample_lower]
  unfolding full_sample_lower by (simp add: sample_lower_def)

text \<open>
  C16: the normalized string is the identity of a version. Two accepted versions compare
  equal exactly when they normalize to the same string, so one database key, one storage
  path and one URL name one version.
\<close>

theorem normalized_identity:
  assumes "parse_version s = Inr v" and "parse_version t = Inr w"
  shows "eq_version v w \<longleftrightarrow> normalized v = normalized w"
  using assms eq_version_normalized parse_version_ok by blast

theorem normalized_identity_witness:
  "eq_version sample_upper sample_lower \<and> normalized sample_upper = ''1.2.0-rc.1''"
  using normalized_identity [OF parse_sample_upper parse_sample_lower]
  by (simp add: version_eval sample_upper_def sample_lower_def)

text \<open>
  C18: round trip. Printing an accepted version in full and parsing it gives the version
  back (only the kept original text differs), and parsing its normalized string gives an
  equal version with the same normalized string.
\<close>

theorem parse_print_roundtrip:
  assumes "parse_version s = Inr v"
  shows "parse_version (to_full_string v) = Inr (v\<lparr>v_original := to_full_string v\<rparr>) \<and>
         (\<exists>w. parse_version (normalized v) = Inr w \<and> eq_version v w \<and>
              normalized w = normalized v)"
proof -
  have v: "version_ok v" using assms parse_version_ok by blast
  let ?c = "canonical v"
  have c: "parse_version (normalized v) = Inr (?c\<lparr>v_original := normalized v\<rparr>)"
    using parse_version_full_string [OF version_ok_canonical [OF v]] by (simp add: normalized_eq_full)
  have "normalized ?c = normalized v" by (rule normalized_cong) (auto simp: core_def canonical_def)
  then show ?thesis
    using parse_version_full_string [OF v] c eq_version_canonical [OF version_ok_weak [OF v]] by simp
qed

definition sample_padded :: nuget_version where
  "sample_padded = \<lparr>v_major = 1, v_minor = 2, v_patch = 0, v_revision = 0, v_pre = [],
     v_metadata = None, v_original = ''1.02''\<rparr>"

theorem parse_print_roundtrip_witness:
  "parse_version ''1.2.0'' = Inr (sample_padded\<lparr>v_original := ''1.2.0''\<rparr>)"
proof -
  have p: "parse_version ''1.02'' = Inr sample_padded"
    by (simp add: version_eval trim_graphic sample_padded_def)
  show ?thesis using parse_print_roundtrip [OF p] by (simp add: version_eval sample_padded_def)
qed

text \<open>
  C19: a version read back from the store keeps the key it was stored under. Whatever
  either parser accepts, the normalized string of the result is accepted by
  \<open>parse_stored\<close> again and names an equal version with the same normalized string; and
  the strict attempt that \<open>parse_stored\<close> makes first never changes its answer.
\<close>

theorem stored_key_stable:
  assumes "parse_stored s = Inr v"
  shows "parse_stored s = parse_lenient s \<and>
         (\<exists>w. parse_stored (normalized v) = Inr w \<and> eq_version v w \<and> normalized w = normalized v)"
proof -
  have v: "weak_ok v" using assms parse_lenient_ok by (simp add: parse_stored_eq_lenient)
  have "normalized (canonical v) = normalized v"
    by (rule normalized_cong) (auto simp: core_def canonical_def)
  then show ?thesis
    using parse_lenient_normalized [OF v] eq_version_canonical [OF v]
    by (simp add: parse_stored_eq_lenient)
qed

definition sample_legacy :: nuget_version where
  "sample_legacy = \<lparr>v_major = 4294967296, v_minor = 0, v_patch = 0, v_revision = 0,
     v_pre = [''01''], v_metadata = None, v_original = ''v4294967296.0-01''\<rparr>"

lemma parse_sample_legacy: "parse_stored ''v4294967296.0-01'' = Inr sample_legacy"
  by (simp add: version_eval trim_graphic sample_legacy_def)

theorem stored_key_stable_witness:
  "\<exists>w. parse_stored ''4294967296.0.0-01'' = Inr w \<and> normalized w = ''4294967296.0.0-01''"
proof -
  have n: "normalized sample_legacy = ''4294967296.0.0-01''"
    by (simp add: version_eval sample_legacy_def)
  show ?thesis using stored_key_stable [OF parse_sample_legacy] by (auto simp: n)
qed

text \<open>
  C17: the order is total and agrees with hashing. \<open>cmp\<close> is reflexive, reverses when the
  arguments are swapped and its "not greater" is transitive, for every version, also the
  ones an older release stored; versions are \<open>Eq\<close> exactly when they feed the same values
  to the hasher.
\<close>

theorem version_order_and_hash:
  "cmp_version a a = Equal \<and>
   cmp_version b a = reverse_ordering (cmp_version a b) \<and>
   (cmp_version a b \<noteq> Greater \<longrightarrow> cmp_version b c \<noteq> Greater \<longrightarrow> cmp_version a c \<noteq> Greater) \<and>
   (eq_version a b \<longleftrightarrow> hash_version a = hash_version b)"
proof -
  define tok where "tok = (\<lambda>i. case parse_u64 i of Some n \<Rightarrow> [H_u8 0, H_u64 n]
      | None \<Rightarrow> [H_u8 1, H_str (to_ascii_lowercase i)])"
  have tok: "tok i = tok j \<longleftrightarrow> ident_key i = ident_key j" and len: "length (tok i) = 2" for i j
    by (auto simp: tok_def ident_key_def split: option.splits)
  have "concat (map tok xs) = concat (map tok ys) \<longleftrightarrow> map ident_key xs = map ident_key ys"
    if "length xs = length ys" for xs ys
    using that by (induction xs ys rule: list_induct2) (auto simp: tok len)
  moreover have "map ident_key xs = map ident_key ys \<Longrightarrow> length xs = length ys" for xs ys
    by (metis length_map)
  ultimately have toks: "length xs = length ys \<and> concat (map tok xs) = concat (map tok ys) \<longleftrightarrow>
      map ident_key xs = map ident_key ys" for xs ys by blast
  have hash: "hash_version v = [H_u64 (v_major v), H_u64 (v_minor v), H_u64 (v_patch v),
      H_u64 (v_revision v), H_usize (length (v_pre v))] @ concat (map tok (v_pre v))" for v
    by (simp only: hash_version_def tok_def)
  have "eq_version a b \<longleftrightarrow> hash_version a = hash_version b"
    unfolding eq_version_iff hash core_def using toks [of "v_pre a" "v_pre b"] by auto
  then show ?thesis
    using version_order.cmp_refl version_order.cmp_flip version_order.cmp_trans by blast
qed

theorem version_order_and_hash_witness:
  "cmp_version sample_lower sample_legacy = Less \<and> cmp_version sample_legacy sample_lower = Greater"
proof -
  have "cmp_core sample_lower sample_legacy = Less"
    by (simp add: cmp_core_def sample_lower_def sample_legacy_def cmp_nat_def)
  then have "cmp_version sample_lower sample_legacy = Less" by (simp add: cmp_version_def)
  with version_order_and_hash [of sample_lower sample_legacy sample_lower] show ?thesis by simp
qed

end
