(* ===== verification/Version_Range.thy ===== *)
theory Version_Range
  imports Version
begin

text \<open>
  \<open>crates/yanuget-pkg/src/range.rs\<close>: NuGet's interval notation, membership, the version a
  dependency resolves to, and the normalized form; with \<open>crates/yanuget-pkg/src/models.rs\<close>,
  the dependencies that make a package SemVer 2.0.0.
\<close>

section \<open>Data\<close>

record bound =
  b_version :: nuget_version
  b_inclusive :: bool

record version_range =
  r_min :: "bound option"
  r_max :: "bound option"

text \<open>\<open>RangeParseError\<close>: the input and the reason.\<close>

datatype range_parse_error = Range_Parse_Error string string

definition max_range_chars :: nat where
  "max_range_chars = 2 * 256 + 8"

definition range_any :: version_range where
  "range_any = \<lparr>r_min = None, r_max = None\<rparr>"

definition range_exact :: "nuget_version \<Rightarrow> version_range" where
  "range_exact v =
     (let b = \<lparr>b_version = v, b_inclusive = True\<rparr> in \<lparr>r_min = Some b, r_max = Some b\<rparr>)"

definition range_at_least :: "nuget_version \<Rightarrow> version_range" where
  "range_at_least v = \<lparr>r_min = Some \<lparr>b_version = v, b_inclusive = True\<rparr>, r_max = None\<rparr>"

section \<open>Operations\<close>

definition range_is_empty :: "version_range \<Rightarrow> bool" where
  "range_is_empty r =
     (case (r_min r, r_max r) of
        (Some lo, Some hi) \<Rightarrow>
          (case cmp_version (b_version lo) (b_version hi) of
             Greater \<Rightarrow> True
           | Equal \<Rightarrow> \<not> (b_inclusive lo \<and> b_inclusive hi)
           | Less \<Rightarrow> False)
      | _ \<Rightarrow> False)"

definition range_contains :: "version_range \<Rightarrow> nuget_version \<Rightarrow> bool" where
  "range_contains r v =
     (let above_min = (case r_min r of
            None \<Rightarrow> True
          | Some b \<Rightarrow> if b_inclusive b then cmp_version v (b_version b) \<noteq> Less
                       else cmp_version v (b_version b) = Greater);
          below_max = (case r_max r of
            None \<Rightarrow> True
          | Some b \<Rightarrow> if b_inclusive b then cmp_version v (b_version b) \<noteq> Greater
                       else cmp_version v (b_version b) = Less)
      in above_min \<and> below_max)"

definition has_prerelease_bound :: "version_range \<Rightarrow> bool" where
  "has_prerelease_bound r \<longleftrightarrow>
     (case r_min r of None \<Rightarrow> False | Some b \<Rightarrow> is_prerelease (b_version b)) \<or>
     (case r_max r of None \<Rightarrow> False | Some b \<Rightarrow> is_prerelease (b_version b))"

definition best_match :: "version_range \<Rightarrow> nuget_version list \<Rightarrow> bool \<Rightarrow> nuget_version option" where
  "best_match r available allow_prerelease =
     (let prerelease = allow_prerelease \<or> has_prerelease_bound r;
          candidates = filter (\<lambda>v. range_contains r v \<and> (prerelease \<or> \<not> is_prerelease v)) available
      in if r_min r \<noteq> None then min_by cmp_version candidates
         else max_by cmp_version candidates)"

definition has_any_of :: "string \<Rightarrow> string \<Rightarrow> bool" where
  "has_any_of cs s = list_ex (\<lambda>c. c \<in> set cs) s"

definition parse_bound ::
  "string \<Rightarrow> string \<Rightarrow> bool \<Rightarrow> range_parse_error + bound option" where
  "parse_bound input side inclusive =
     (if side = [] then Inr None
      else case parse_version (trim side) of
             Inl _ \<Rightarrow> Inl (Range_Parse_Error input ''not a valid version inside it'')
           | Inr v \<Rightarrow> Inr (Some \<lparr>b_version = v, b_inclusive = inclusive\<rparr>))"

definition parse_interval ::
  "string \<Rightarrow> string \<Rightarrow> bool \<Rightarrow> bool \<Rightarrow> range_parse_error + version_range" where
  "parse_interval input inner min_inclusive max_inclusive =
     (case split_once CHR '','' inner of
        None \<Rightarrow>
          (if \<not> (min_inclusive \<and> max_inclusive)
           then Inl (Range_Parse_Error input ''a single version must be written [x]'')
           else case parse_version (trim inner) of
                  Inl _ \<Rightarrow> Inl (Range_Parse_Error input ''not a valid version inside it'')
                | Inr v \<Rightarrow> Inr (range_exact v))
      | Some (lo0, hi0) \<Rightarrow>
          (if CHR '','' \<in> set hi0 then Inl (Range_Parse_Error input ''more than two versions'')
           else let lo = trim lo0; hi = trim hi0
                in if lo = [] \<and> hi = []
                   then Inl (Range_Parse_Error input ''no version on either side'')
                   else case parse_bound input lo min_inclusive of
                          Inl e \<Rightarrow> Inl e
                        | Inr mn \<Rightarrow>
                            (case parse_bound input hi max_inclusive of
                               Inl e \<Rightarrow> Inl e
                             | Inr mx \<Rightarrow>
                                 (if mn = None \<and> min_inclusive \<or> mx = None \<and> max_inclusive
                                  then Inl (Range_Parse_Error input
                                              ''an open end must use a parenthesis'')
                                  else Inr \<lparr>r_min = mn, r_max = mx\<rparr>))))"

definition parse_range :: "string \<Rightarrow> range_parse_error + version_range" where
  "parse_range input =
     (let s = trim input
      in if length s > max_range_chars then Inl (Range_Parse_Error input ''too long'')
         else if s = [] then Inr range_any
         else if hd s \<noteq> CHR ''['' \<and> hd s \<noteq> CHR ''(''
         then (if has_any_of ''*,[]()'' s
               then Inl (Range_Parse_Error input
                           ''floating versions and stray brackets are not ranges'')
               else case parse_version (trim s) of
                      Inl _ \<Rightarrow> Inl (Range_Parse_Error input ''not a valid version inside it'')
                    | Inr v \<Rightarrow> Inr (range_at_least v))
         else if length s < 2 \<or> (last s \<noteq> CHR '']'' \<and> last s \<noteq> CHR '')'')
         then Inl (Range_Parse_Error input ''an opening bracket needs a closing one'')
         else let inner = butlast (tl s)
              in if has_any_of ''[]()*'' inner
                 then Inl (Range_Parse_Error input
                             ''brackets or a floating version inside the range'')
                 else case parse_interval input inner (hd s = CHR ''['') (last s = CHR '']'') of
                        Inl e \<Rightarrow> Inl e
                      | Inr r \<Rightarrow> if range_is_empty r
                                 then Inl (Range_Parse_Error input ''no version satisfies it'')
                                 else Inr r)"

definition side_string :: "bound option \<Rightarrow> string" where
  "side_string b = (case b of None \<Rightarrow> [] | Some b \<Rightarrow> normalized (b_version b))"

definition side_inclusive :: "bound option \<Rightarrow> bool" where
  "side_inclusive b = (case b of None \<Rightarrow> False | Some b \<Rightarrow> b_inclusive b)"

definition range_normalized :: "version_range \<Rightarrow> string" where
  "range_normalized r =
     (let general = [if side_inclusive (r_min r) then CHR ''['' else CHR ''(''] @
            side_string (r_min r) @ '', '' @ side_string (r_max r) @
            [if side_inclusive (r_max r) then CHR '']'' else CHR '')'']
      in case (r_min r, r_max r) of
           (None, None) \<Rightarrow> []
         | (Some lo, Some hi) \<Rightarrow>
             if b_inclusive lo \<and> b_inclusive hi \<and> eq_version (b_version lo) (b_version hi)
             then CHR ''['' # normalized (b_version lo) @ '']'' else general
         | _ \<Rightarrow> general)"

section \<open>Dependencies\<close>

record dependency =
  dep_id :: string
  dep_version_range :: "string option"
  dep_include :: "string option"
  dep_exclude :: "string option"

record dependency_group =
  dg_target_framework :: "string option"
  dg_dependencies :: "dependency list"

definition dependency_is_semver2 :: "dependency \<Rightarrow> bool" where
  "dependency_is_semver2 d =
     (case dep_version_range d of
        None \<Rightarrow> False
      | Some s \<Rightarrow>
          (case parse_range s of
             Inl _ \<Rightarrow> False
           | Inr r \<Rightarrow> (case r_min r of None \<Rightarrow> False | Some b \<Rightarrow> is_semver2 (b_version b)) \<or>
                      (case r_max r of None \<Rightarrow> False | Some b \<Rightarrow> is_semver2 (b_version b))))"

definition depends_on_semver2 :: "dependency_group list \<Rightarrow> bool" where
  "depends_on_semver2 groups =
     list_ex dependency_is_semver2 (concat (map dg_dependencies groups))"

section \<open>Parsed ranges\<close>

definition bound_ok :: "bound option \<Rightarrow> bool" where
  "bound_ok b = (case b of None \<Rightarrow> True | Some b \<Rightarrow> version_ok (b_version b))"

definition range_ok :: "version_range \<Rightarrow> bool" where
  "range_ok r \<longleftrightarrow> bound_ok (r_min r) \<and> bound_ok (r_max r) \<and> \<not> range_is_empty r"

lemma parse_bound_ok: "parse_bound input side i = Inr b \<Longrightarrow> bound_ok b"
  by (auto simp: parse_bound_def bound_ok_def dest: parse_version_ok split: if_splits sum.splits)

lemma parse_interval_ok:
  "parse_interval input inner i j = Inr r \<Longrightarrow> bound_ok (r_min r) \<and> bound_ok (r_max r)"
  by (auto simp: parse_interval_def range_exact_def Let_def bound_ok_def [of "Some _"]
      dest: parse_version_ok parse_bound_ok split: if_splits sum.splits option.splits prod.splits)

lemma range_ok_any: "range_ok range_any"
  by (simp add: range_ok_def range_any_def bound_ok_def range_is_empty_def)

lemma range_ok_at_least: "parse_version s = Inr v \<Longrightarrow> range_ok (range_at_least v)"
  by (auto simp: range_ok_def range_at_least_def bound_ok_def range_is_empty_def
      dest: parse_version_ok)

lemma range_ok_interval:
  "parse_interval s inner i j = Inr r \<Longrightarrow> \<not> range_is_empty r \<Longrightarrow> range_ok r"
  using parse_interval_ok by (auto simp: range_ok_def)

lemma parse_range_ok:
  assumes h: "parse_range s = Inr r"
  shows "range_ok r"
proof -
  let ?t = "trim s"
  have len: "\<not> length ?t > max_range_chars"
  proof
    assume "length ?t > max_range_chars"
    with h show False by (simp only: parse_range_def Let_def if_True sum.distinct)
  qed
  note h1 = h [unfolded parse_range_def Let_def if_not_P [OF len]]
  show ?thesis
  proof (cases "?t = []")
    case True
    with h1 show ?thesis by (simp add: range_ok_any)
  next
    case False
    note h2 = h1 [unfolded if_not_P [OF False]]
    show ?thesis
    proof (cases "hd ?t \<noteq> CHR ''['' \<and> hd ?t \<noteq> CHR ''(''")
      case True
      show ?thesis
      proof (cases "parse_version (trim ?t)")
        case (Inl e)
        with h2 [unfolded if_P [OF True]] show ?thesis by (simp split: if_split_asm)
      next
        case (Inr v)
        with h2 [unfolded if_P [OF True]] have "r = range_at_least v" by (simp split: if_split_asm)
        with Inr show ?thesis using range_ok_at_least by simp
      qed
    next
      case False
      note h3 = h2 [unfolded if_not_P [OF False]]
      show ?thesis
      proof (cases "parse_interval s (butlast (tl ?t)) (hd ?t = CHR ''['') (last ?t = CHR '']'')")
        case (Inl e)
        with h3 show ?thesis by (simp split: if_split_asm)
      next
        case (Inr q)
        with h3 have "r = q" "\<not> range_is_empty q" by (simp_all split: if_split_asm)
        with Inr show ?thesis using range_ok_interval by blast
      qed
    qed
  qed
qed

definition reparsed_bound :: "bound option \<Rightarrow> bound option" where
  "reparsed_bound = map_option (\<lambda>b. b\<lparr>b_version := reparsed (b_version b)\<rparr>)"

lemma version_ok_normalized_delims:
  assumes "version_ok v" "\<not> is_pre_char c" "c \<noteq> CHR ''.''"
  shows "c \<notin> set (normalized v)"
  using set_normalized [OF version_ok_weak [OF assms(1)]] assms(2,3) by blast

lemma punctuation_not_pre:
  "\<not> is_pre_char CHR '',''" "\<not> is_pre_char CHR ''[''" "\<not> is_pre_char CHR '']''"
  "\<not> is_pre_char CHR ''(''" "\<not> is_pre_char CHR '')''" "\<not> is_pre_char CHR ''*''"
  "\<not> is_pre_char CHR '' ''"
  by (simp_all add: is_pre_char_def is_ascii_alphanumeric_def is_ascii_digit_def
      is_ascii_uppercase_def is_ascii_lowercase_def)

lemma side_string_facts:
  assumes "bound_ok b"
  shows "length (side_string b) \<le> max_version_chars"
    and "trim (side_string b) = side_string b"
    and "c \<in> set '',[]()*'' \<Longrightarrow> c \<notin> set (side_string b)"
    and "parse_bound input (side_string b) i =
           Inr (map_option (\<lambda>b. b\<lparr>b_inclusive := i\<rparr>) (reparsed_bound b))"
proof -
  show "length (side_string b) \<le> max_version_chars"
    using assms by (auto simp: side_string_def bound_ok_def length_normalized split: option.splits)
  show t: "trim (side_string b) = side_string b"
    using assms
    by (auto simp: side_string_def bound_ok_def trim_normalized version_ok_weak split: option.splits)
  show "c \<in> set '',[]()*'' \<Longrightarrow> c \<notin> set (side_string b)"
    using assms version_ok_normalized_delims punctuation_not_pre
    by (auto simp: side_string_def bound_ok_def split: option.splits)
  show "parse_bound input (side_string b) i =
      Inr (map_option (\<lambda>b. b\<lparr>b_inclusive := i\<rparr>) (reparsed_bound b))"
  proof (cases b)
    case (Some d)
    with assms have ok: "version_ok (b_version d)" by (simp add: bound_ok_def)
    have "normalized (b_version d) \<noteq> []" using normalized_first [of "b_version d"] by auto
    then show ?thesis
      using Some parse_version_normalized [OF ok] trim_normalized [OF version_ok_weak [OF ok]]
      by (simp add: parse_bound_def side_string_def reparsed_bound_def)
  qed (simp add: parse_bound_def side_string_def reparsed_bound_def)
qed

lemma reparsed_bound_inclusive:
  "map_option (\<lambda>b. b\<lparr>b_inclusive := side_inclusive b0\<rparr>) (reparsed_bound b0) = reparsed_bound b0"
  by (cases b0) (simp_all add: reparsed_bound_def side_inclusive_def)

definition reparsed_range :: "version_range \<Rightarrow> version_range" where
  "reparsed_range r = \<lparr>r_min = reparsed_bound (r_min r), r_max = reparsed_bound (r_max r)\<rparr>"

lemma bound_ok_eq:
  "bound_ok (Some b) \<Longrightarrow> eq_version (b_version b) (reparsed (b_version b))"
  by (simp add: bound_ok_def eq_version_reparsed version_ok_weak)

lemma cmp_reparsed:
  assumes "bound_ok (Some b)"
  shows "cmp_version v (reparsed (b_version b)) = cmp_version v (b_version b)"
    and "cmp_version (reparsed (b_version b)) v = cmp_version (b_version b) v"
  using bound_ok_eq [OF assms] cmp_eq_version_left cmp_eq_version_right by metis+

lemma reparsed_range_empty: "range_ok r \<Longrightarrow> \<not> range_is_empty (reparsed_range r)"
  by (cases "r_min r"; cases "r_max r")
    (auto simp: range_ok_def range_is_empty_def reparsed_range_def reparsed_bound_def cmp_reparsed
      split: ordering.splits)

lemma reparsed_range_contains:
  "range_ok r \<Longrightarrow> range_contains (reparsed_range r) v = range_contains r v"
  by (cases "r_min r"; cases "r_max r")
    (auto simp: range_ok_def range_contains_def reparsed_range_def reparsed_bound_def cmp_reparsed)

lemma reparsed_range_normalized:
  "range_ok r \<Longrightarrow> range_normalized (reparsed_range r) = range_normalized r"
  by (cases "r_min r"; cases "r_max r")
    (auto simp: range_ok_def range_normalized_def reparsed_range_def reparsed_bound_def
      eq_version_def cmp_reparsed side_string_def side_inclusive_def)

lemma is_graphic_brackets:
  "is_graphic CHR ''[''" "is_graphic CHR '']''" "is_graphic CHR ''(''" "is_graphic CHR '')''"
  by (simp_all add: is_graphic_def)

lemma parse_range_general:
  assumes r: "range_ok r" and some: "r_min r \<noteq> None \<or> r_max r \<noteq> None"
  defines "s \<equiv> [if side_inclusive (r_min r) then CHR ''['' else CHR ''(''] @
      side_string (r_min r) @ '', '' @ side_string (r_max r) @
      [if side_inclusive (r_max r) then CHR '']'' else CHR '')'']"
  shows "parse_range s = Inr (reparsed_range r)"
proof -
  note lo = side_string_facts [of "r_min r"] and hi = side_string_facts [of "r_max r"]
  have ok: "bound_ok (r_min r)" "bound_ok (r_max r)" using r by (simp_all add: range_ok_def)
  have trim: "trim s = s"
    by (rule trim_ends) (simp add: s_def is_graphic_brackets)
  have inner: "butlast (tl s) = side_string (r_min r) @ CHR '','' # CHR '' '' # side_string (r_max r)"
    by (simp add: s_def butlast_append)
  have len: "length s \<le> max_range_chars" "2 \<le> length s" "s \<noteq> []"
    using lo(1) [OF ok(1)] hi(1) [OF ok(2)]
    by (simp_all add: s_def max_range_chars_def max_version_chars_def)
  have clean: "\<not> has_any_of ''[]()*'' (butlast (tl s))"
    using lo(3) [OF ok(1)] hi(3) [OF ok(2)] by (auto simp: inner has_any_of_def list_ex_iff)
  have once: "split_once CHR '','' (butlast (tl s)) =
      Some (side_string (r_min r), CHR '' '' # side_string (r_max r))"
    unfolding inner using lo(3) [OF ok(1)] by (intro split_once_append) simp
  have sides: "side_string b = [] \<longleftrightarrow> b = None" for b
  proof (cases b)
    case (Some d)
    then show ?thesis using normalized_first [of "b_version d"] by (auto simp: side_string_def)
  qed (simp add: side_string_def)
  have incl: "reparsed_bound b = None \<Longrightarrow> \<not> side_inclusive b" for b
    by (cases b) (simp_all add: side_inclusive_def reparsed_bound_def)
  have none: "side_inclusive b \<Longrightarrow> b \<noteq> None" for b
    by (cases b) (simp_all add: side_inclusive_def)
  have comma: "CHR '','' \<notin> set (side_string (r_max r))" using hi(3) [OF ok(2)] by simp
  have nonempty: "\<not> (side_string (r_min r) = [] \<and> side_string (r_max r) = [])"
    using sides some by simp
  have interval: "parse_interval s (butlast (tl s)) (side_inclusive (r_min r))
      (side_inclusive (r_max r)) = Inr (reparsed_range r)"
    unfolding parse_interval_def once
    using comma nonempty incl
    by (auto simp: lo(2) [OF ok(1)] hi(2) [OF ok(2)] lo(4) [OF ok(1)] hi(4) [OF ok(2)]
        reparsed_bound_inclusive reparsed_range_def)
  have flags: "(hd s = CHR ''['') = side_inclusive (r_min r)"
    "(last s = CHR '']'') = side_inclusive (r_max r)"
    "\<not> (hd s \<noteq> CHR ''['' \<and> hd s \<noteq> CHR ''('')" "\<not> (last s \<noteq> CHR '']'' \<and> last s \<noteq> CHR '')'')"
    by (auto simp: s_def)
  have short: "\<not> length s > max_range_chars" "\<not> length s < 2" using len by auto
  have close: "\<not> (length s < 2 \<or> last s \<noteq> CHR '']'' \<and> last s \<noteq> CHR '')'')"
    using flags(4) short by blast
  have interval': "parse_interval s (butlast (tl s)) (hd s = CHR ''['') (last s = CHR '']'') =
      Inr (reparsed_range r)"
    using interval flags(1,2) by simp
  show ?thesis
    unfolding parse_range_def Let_def trim
    by (simp only: short(1) len(3) flags(3) close clean interval' reparsed_range_empty [OF r]
        if_False sum.case)
qed

lemma parse_range_exact:
  assumes "version_ok v"
  shows "parse_range (CHR ''['' # normalized v @ '']'') = Inr (range_exact (reparsed v))"
proof -
  let ?s = "CHR ''['' # normalized v @ '']''"
  have trim: "trim ?s = ?s" by (rule trim_ends) (simp add: is_graphic_brackets)
  note d = version_ok_normalized_delims [OF assms]
  have clean: "\<not> has_any_of ''[]()*'' (normalized v)" and comma: "CHR '','' \<notin> set (normalized v)"
    using d punctuation_not_pre by (auto simp: has_any_of_def list_ex_iff)
  have len: "\<not> length ?s > max_range_chars"
    using length_normalized [OF assms] by (simp add: max_range_chars_def max_version_chars_def)
  have ne: "\<not> range_is_empty (range_exact w)" for w
    by (simp add: range_is_empty_def range_exact_def Let_def version_order.cmp_refl)
  show ?thesis
    using len clean comma ne parse_version_normalized [OF assms]
    by (simp add: parse_range_def trim Let_def parse_interval_def butlast_append
        trim_normalized version_ok_weak assms)
qed

section \<open>Properties\<close>

definition is_candidate :: "version_range \<Rightarrow> bool \<Rightarrow> nuget_version \<Rightarrow> bool" where
  "is_candidate r allow_prerelease v \<longleftrightarrow>
     range_contains r v \<and> (allow_prerelease \<or> has_prerelease_bound r \<or> \<not> is_prerelease v)"

lemma best_match_candidates:
  "best_match r vs p =
     (if r_min r \<noteq> None then min_by cmp_version (filter (is_candidate r p) vs)
      else max_by cmp_version (filter (is_candidate r p) vs))"
  by (simp add: best_match_def is_candidate_def [abs_def] Let_def disj_assoc)

text \<open>
  C34: round trip of ranges. The normalized form of an accepted range is accepted, has the
  same normalized form, and contains exactly the same versions.
\<close>

theorem range_roundtrip:
  assumes "parse_range s = Inr r"
  shows "\<exists>r'. parse_range (range_normalized r) = Inr r' \<and>
              range_normalized r' = range_normalized r \<and>
              range_contains r' = range_contains r"
proof -
  have r: "range_ok r" by (rule parse_range_ok [OF assms])
  show ?thesis
  proof (cases "r_min r = None \<and> r_max r = None")
    case True
    then have "range_normalized r = []" "range_contains r = range_contains range_any"
      by (auto simp: range_normalized_def range_contains_def [abs_def] range_any_def)
    moreover have "parse_range [] = Inr range_any" "range_normalized range_any = []"
      by (simp_all add: parse_range_def range_normalized_def range_any_def max_range_chars_def)
    ultimately show ?thesis by simp
  next
    case some: False
    show ?thesis
    proof (cases "\<exists>lo hi. r_min r = Some lo \<and> r_max r = Some hi \<and> b_inclusive lo \<and>
        b_inclusive hi \<and> eq_version (b_version lo) (b_version hi)")
      case True
      then obtain lo hi where b: "r_min r = Some lo" "r_max r = Some hi" "b_inclusive lo"
        "b_inclusive hi" and eq: "eq_version (b_version lo) (b_version hi)" by blast
      have ok: "version_ok (b_version lo)" using r b by (simp add: range_ok_def bound_ok_def)
      let ?q = "range_exact (reparsed (b_version lo))"
      have n: "range_normalized r = CHR ''['' # normalized (b_version lo) @ '']''"
        using b eq by (simp add: range_normalized_def)
      have "eq_version (reparsed (b_version lo)) (b_version lo)"
        by (rule eq_version_sym [OF eq_version_reparsed [OF version_ok_weak [OF ok]]])
      then have "cmp_version v (reparsed (b_version lo)) = cmp_version v (b_version lo)"
        "cmp_version v (b_version hi) = cmp_version v (b_version lo)" for v
        using cmp_eq_version_right eq eq_version_sym by metis+
      then have "range_contains ?q = range_contains r"
        using b by (auto simp: range_contains_def [abs_def] range_exact_def Let_def)
      then show ?thesis
        using parse_range_exact [OF ok] n
        by (auto simp: range_normalized_def range_exact_def Let_def)
    next
      case False
      then have "range_normalized r =
          [if side_inclusive (r_min r) then CHR ''['' else CHR ''(''] @
          side_string (r_min r) @ '', '' @ side_string (r_max r) @
          [if side_inclusive (r_max r) then CHR '']'' else CHR '')'']"
        using some by (auto simp: range_normalized_def Let_def split: option.splits)
      then have "parse_range (range_normalized r) = Inr (reparsed_range r)"
        using parse_range_general [OF r] some by auto
      then show ?thesis
        using reparsed_range_normalized [OF r] reparsed_range_contains [OF r] by auto
    qed
  qed
qed

theorem range_roundtrip_witness:
  "range_normalized (range_exact (reparsed sample_lower)) = ''[1.2.0-rc.1]'' \<and>
   range_contains (range_exact (reparsed sample_lower)) sample_upper"
proof -
  have n: "normalized sample_lower = ''1.2.0-rc.1''"
    by (simp add: version_eval sample_lower_def)
  have p: "parse_range ''[1.2.0-rc.1]'' = Inr (range_exact (reparsed sample_lower))"
    using parse_range_exact [OF version_ok_sample_lower] by (simp add: n)
  have r: "range_normalized (range_exact (reparsed sample_lower)) = ''[1.2.0-rc.1]''"
    by (simp add: range_normalized_def range_exact_def Let_def n)
  have "eq_version sample_upper (reparsed sample_lower)"
    using eq_version_reparsed [OF version_ok_weak [OF version_ok_sample_lower]]
    by (simp add: eq_version_iff core_def sample_lower_def sample_upper_def ident_key_def version_eval)
  then have "range_contains (range_exact (reparsed sample_lower)) sample_upper"
    by (simp add: range_contains_def range_exact_def eq_version_def Let_def)
  with range_roundtrip [OF p] r show ?thesis by simp
qed

text \<open>
  C35: what a dependency resolves to. \<open>best_match\<close> answers \<open>None\<close> exactly when no available
  version is a candidate; otherwise it is a candidate, the lowest one when the range has a
  lower bound and the highest one when it has none.
\<close>

theorem best_match_correct:
  "case best_match r vs p of
     None \<Rightarrow> filter (is_candidate r p) vs = []
   | Some v \<Rightarrow> v \<in> set (filter (is_candidate r p) vs) \<and>
       list_all (\<lambda>w. if r_min r \<noteq> None then cmp_version v w \<noteq> Greater
                     else cmp_version w v \<noteq> Greater) (filter (is_candidate r p) vs)"
proof (cases "best_match r vs p")
  case None
  then show ?thesis
    unfolding best_match_candidates by (simp split: if_splits)
next
  case (Some v)
  then show ?thesis
    using min_by_in_set [of cmp_version "filter (is_candidate r p) vs" v]
      max_by_in_set [of cmp_version "filter (is_candidate r p) vs" v]
      version_order.min_by_lower [of "filter (is_candidate r p) vs" v]
      version_order.max_by_upper [of "filter (is_candidate r p) vs" v]
    unfolding best_match_candidates by (auto simp: list_all_iff split: if_splits)
qed

text \<open>
  The parser accepts no range that holds nothing. A range whose bounds cross, or meet
  with an exclusive end, contains no version, and no accepted range is of that kind; every
  bound of an accepted range is an accepted version.
\<close>

theorem empty_ranges_refused:
  assumes "range_is_empty r"
  shows "\<not> range_contains r v \<and> parse_range s \<noteq> Inr r"
proof -
  from assms obtain lo hi where b: "r_min r = Some lo" "r_max r = Some hi"
    and c: "cmp_version (b_version lo) (b_version hi) = Greater \<or>
      cmp_version (b_version lo) (b_version hi) = Equal \<and> \<not> (b_inclusive lo \<and> b_inclusive hi)"
    by (auto simp: range_is_empty_def split: option.splits ordering.splits)
  have "\<not> range_contains r v"
  proof
    assume "range_contains r v"
    then have lo: "cmp_version v (b_version lo) \<noteq> Less" "\<not> b_inclusive lo \<Longrightarrow> cmp_version v (b_version lo) = Greater"
      and hi: "cmp_version v (b_version hi) \<noteq> Greater" "\<not> b_inclusive hi \<Longrightarrow> cmp_version v (b_version hi) = Less"
      by (auto simp: range_contains_def b Let_def split: if_splits)
    have "cmp_version (b_version lo) v \<noteq> Greater"
      using lo(1) version_order.cmp_less_flip by blast
    then have "cmp_version (b_version lo) (b_version hi) \<noteq> Greater"
      using hi(1) version_order.cmp_trans by blast
    with c have eq: "cmp_version (b_version lo) (b_version hi) = Equal"
      and ex: "\<not> b_inclusive lo \<or> \<not> b_inclusive hi" by auto
    have "cmp_version v (b_version lo) = cmp_version v (b_version hi)"
      by (rule version_order.cmp_equal_right [OF eq])
    with lo hi ex show False by auto
  qed
  moreover have "parse_range s \<noteq> Inr r" using parse_range_ok assms by (auto simp: range_ok_def)
  ultimately show ?thesis by simp
qed

theorem empty_ranges_refused_witness:
  "\<not> range_contains \<lparr>r_min = Some \<lparr>b_version = sample_lower, b_inclusive = True\<rparr>,
       r_max = Some \<lparr>b_version = sample_lower, b_inclusive = False\<rparr>\<rparr> sample_lower"
proof -
  have "range_is_empty \<lparr>r_min = Some \<lparr>b_version = sample_lower, b_inclusive = True\<rparr>,
       r_max = Some \<lparr>b_version = sample_lower, b_inclusive = False\<rparr>\<rparr>"
    by (simp add: range_is_empty_def version_order.cmp_refl)
  from empty_ranges_refused [OF this] show ?thesis by simp
qed

end
