(* ===== verification/Errors.thy ===== *)
theory Errors
  imports Rust_Text
begin

text \<open>
  \<open>src/src/error.rs\<close>: the error type every operation returns, its HTTP status and the
  response a handler sends for it. A formatted message is kept as its format string with
  its arguments, so which error is returned and what it names is visible, while the
  rendering of \<open>std::fmt\<close> is left out; where the rendered text matters (the response) it
  is an argument, as the list of its Unicode scalar values.
\<close>

datatype message = Msg string "string list"

text \<open>The error kinds of \<open>std::io\<close> the code distinguishes, and those of \<open>sqlx\<close>.\<close>

datatype io_kind = Io_NotFound | Io_CrossesDevices | Io_OtherKind

datatype sqlx_error = RowNotFound | Sqlx_Failed

datatype error =
    PackageNotFound
  | PackageAlreadyExists
  | VersionExists message
  | InvalidPackage message
  | PayloadTooLarge message
  | Unauthorized
  | AdminUnauthorized
  | BadRequest message
  | PolicyViolation message
  | InvalidVersion message
  | UploadTimeout message
  | InsufficientStorage message
  | Conflict message
  | Forbidden message
  | TooManyUploads message
  | Storage message
  | Database sqlx_error
  | Io io_kind
  | Other message

type_synonym 'a result = "error + 'a"

text \<open>The \<open>?\<close> operator, \<open>map_err\<close> and \<open>Result::is_ok\<close>.\<close>

definition bind_result :: "'e + 'a \<Rightarrow> ('a \<Rightarrow> 'e + 'b) \<Rightarrow> 'e + 'b" where
  "bind_result r f = (case r of Inl e \<Rightarrow> Inl e | Inr a \<Rightarrow> f a)"

definition map_result :: "('a \<Rightarrow> 'b) \<Rightarrow> 'e + 'a \<Rightarrow> 'e + 'b" where
  "map_result f r = (case r of Inl e \<Rightarrow> Inl e | Inr a \<Rightarrow> Inr (f a))"

definition map_err :: "('e \<Rightarrow> 'f) \<Rightarrow> 'e + 'a \<Rightarrow> 'f + 'a" where
  "map_err f r = (case r of Inl e \<Rightarrow> Inl (f e) | Inr a \<Rightarrow> Inr a)"

definition is_ok :: "'e + 'a \<Rightarrow> bool" where
  "is_ok r = (case r of Inl _ \<Rightarrow> False | Inr _ \<Rightarrow> True)"

lemma bind_result_simps [simp]:
  "bind_result (Inl e) f = Inl e" "bind_result (Inr a) f = f a"
  by (simp_all add: bind_result_def)

lemma map_result_simps [simp]:
  "map_result g (Inl e) = Inl e" "map_result g (Inr a) = Inr (g a)"
  by (simp_all add: map_result_def)

lemma map_err_simps [simp]:
  "map_err g (Inl e) = Inl (g e)" "map_err g (Inr a) = Inr a"
  by (simp_all add: map_err_def)

lemma is_ok_simps [simp]: "is_ok (Inl e) = False" "is_ok (Inr a) = True"
  by (simp_all add: is_ok_def)

lemma is_ok_iff: "is_ok r \<longleftrightarrow> (\<exists>a. r = Inr a)"
  by (cases r) auto

lemma bind_result_Inr:
  "bind_result r f = Inr b \<longleftrightarrow> (\<exists>a. r = Inr a \<and> f a = Inr b)"
  by (cases r) auto

lemma map_result_Inr:
  "map_result f r = Inr b \<longleftrightarrow> (\<exists>a. r = Inr a \<and> b = f a)"
  by (cases r) auto

lemma map_err_Inr: "map_err f r = Inr b \<longleftrightarrow> r = Inr b"
  by (cases r) auto

lemmas result_ok = bind_result_Inr map_result_Inr map_err_Inr

section \<open>Errors of the package crate\<close>

datatype pkg_error =
    Pkg_InvalidPackage message
  | Pkg_Io io_kind
  | Pkg_Task message
  | Pkg_InvalidRewrite message

fun from_pkg_error :: "pkg_error \<Rightarrow> error" where
  "from_pkg_error (Pkg_InvalidPackage why) = InvalidPackage why"
| "from_pkg_error (Pkg_Io e) = Io e"
| "from_pkg_error (Pkg_Task why) = Other why"
| "from_pkg_error (Pkg_InvalidRewrite why) = Other why"

section \<open>Status codes and responses\<close>

fun error_status :: "error \<Rightarrow> nat" where
  "error_status PackageNotFound = 404"
| "error_status PackageAlreadyExists = 409"
| "error_status (VersionExists _) = 409"
| "error_status (InvalidPackage _) = 400"
| "error_status (PayloadTooLarge _) = 413"
| "error_status Unauthorized = 401"
| "error_status AdminUnauthorized = 401"
| "error_status (BadRequest _) = 400"
| "error_status (PolicyViolation _) = 403"
| "error_status (InvalidVersion _) = 400"
| "error_status (UploadTimeout _) = 408"
| "error_status (InsufficientStorage _) = 507"
| "error_status (Conflict _) = 409"
| "error_status (Forbidden _) = 403"
| "error_status (TooManyUploads _) = 429"
| "error_status (Database RowNotFound) = 404"
| "error_status _ = 500"

definition is_server_error :: "nat \<Rightarrow> bool" where
  "is_server_error s \<longleftrightarrow> 500 \<le> s \<and> s < 600"

definition is_client_error :: "nat \<Rightarrow> bool" where
  "is_client_error s \<longleftrightarrow> 400 \<le> s \<and> s < 500"

definition max_reason :: nat where
  "max_reason = 400"

text \<open>The mapping of one character of the message, by its scalar value.\<close>

definition reason_char :: "nat \<Rightarrow> char" where
  "reason_char c =
     (if 32 \<le> c \<and> c \<le> 126 then char_of c
      else if c = 0x2014 \<or> c = 0x2013 then CHR ''-''
      else if c = 0x201C \<or> c = 0x201D then CHR 0x22
      else if c = 0x2018 \<or> c = 0x2019 then CHR 0x27
      else CHR ''?'')"

text \<open>
  \<open>accepts\<close> stands for \<open>hyper::ext::ReasonPhrase::try_from\<close>, of the HTTP library: whether
  it takes the bytes.
\<close>

definition reason_phrase :: "(string \<Rightarrow> bool) \<Rightarrow> nat list \<Rightarrow> string option" where
  "reason_phrase accepts message =
     (let text = trim (take max_reason (map reason_char message))
      in if text = [] then None else if accepts text then Some text else None)"

record response =
  rsp_status :: nat
  rsp_message :: "nat list"
  rsp_reason :: "string option"
  rsp_challenge :: "string option"

definition generic_message :: "nat list" where
  "generic_message = map byte ''internal server error''"

definition into_response :: "(string \<Rightarrow> bool) \<Rightarrow> error \<Rightarrow> nat list \<Rightarrow> response" where
  "into_response accepts e shown =
     (let status = error_status e;
          message = (if is_server_error status then generic_message else shown);
          challenge = (e = AdminUnauthorized \<or> e = Unauthorized);
          reason = (if is_client_error status then reason_phrase accepts message else None)
      in \<lparr>rsp_status = status, rsp_message = message, rsp_reason = reason,
          rsp_challenge =
            (if challenge
             then Some (if e = AdminUnauthorized then ''Basic realm=\"YANuget Admin\"''
                        else ''Basic realm=\"YANuget\"'')
             else None)\<rparr>)"

lemma error_status_classes:
  "is_client_error (error_status e) \<or> is_server_error (error_status e)"
  by (cases e rule: error_status.cases) (auto simp: is_client_error_def is_server_error_def)

lemma set_trim_leading: "set (trim_leading es s) \<subseteq> set s"
proof (induction es s rule: trim_leading.induct)
  case (1 es s)
  show ?case
  proof (cases "leading_match es s = 0 \<or> s = []")
    case True
    then show ?thesis by (subst trim_leading.simps) (simp add: Let_def)
  next
    case False
    with 1 [OF refl] have "set (trim_leading es (drop (leading_match es s) s)) \<subseteq> set s"
      by (meson order_trans set_drop_subset)
    with False show ?thesis by (subst trim_leading.simps) (simp add: Let_def)
  qed
qed

lemma length_trim_leading: "length (trim_leading es s) \<le> length s"
proof (induction es s rule: trim_leading.induct)
  case (1 es s)
  show ?case
  proof (cases "leading_match es s = 0 \<or> s = []")
    case True
    then show ?thesis by (subst trim_leading.simps) (simp add: Let_def)
  next
    case False
    have "length (trim_leading es (drop (leading_match es s) s)) \<le> length s"
      using le_trans [OF 1 [OF refl False]] by simp
    with False show ?thesis by (subst trim_leading.simps) (simp add: Let_def)
  qed
qed

lemma set_trim: "set (trim s) \<subseteq> set s"
proof -
  have "set (trim s) \<subseteq> set (trim_start s)"
    unfolding trim_def trim_end_def
    using set_trim_leading [of "map rev whitespace_encodings" "rev (trim_start s)"] by simp
  also have "\<dots> \<subseteq> set s" unfolding trim_start_def by (rule set_trim_leading)
  finally show ?thesis .
qed

lemma length_trim: "length (trim s) \<le> length s"
proof -
  have "length (trim s) \<le> length (trim_start s)"
    unfolding trim_def trim_end_def
    using length_trim_leading [of "map rev whitespace_encodings" "rev (trim_start s)"] by simp
  also have "\<dots> \<le> length s" unfolding trim_start_def by (rule length_trim_leading)
  finally show ?thesis .
qed

lemma reason_char_printable: "32 \<le> byte (reason_char c) \<and> byte (reason_char c) \<le> 126"
  by (auto simp: reason_char_def)

lemma reason_phrase_printable:
  assumes "reason_phrase accepts m = Some r"
  shows "r \<noteq> []" "length r \<le> max_reason" "\<forall>c \<in> set r. 32 \<le> byte c \<and> byte c \<le> 126"
proof -
  let ?t = "take max_reason (map reason_char m)"
  from assms have r: "r = trim ?t" "r \<noteq> []"
    by (auto simp: reason_phrase_def Let_def split: if_splits)
  show "r \<noteq> []" by fact
  show "length r \<le> max_reason"
    unfolding r(1) by (rule le_trans [OF length_trim]) simp
  have "set r \<subseteq> set (map reason_char m)"
    using set_trim [of ?t] set_take_subset [of max_reason "map reason_char m"] r(1) by blast
  then show "\<forall>c \<in> set r. 32 \<le> byte c \<and> byte c \<le> 126"
    using reason_char_printable by auto
qed

text \<open>
  C40: what a failed request tells the client. A server fault answers the generic message
  and no reason phrase whatever the error's text is, so nothing of that text reaches the
  client; any other error answers its own text; a reason phrase holds 1 to 400 printable
  ASCII bytes, so no line break can end the status line; and exactly the two credential
  errors carry a Basic challenge.
\<close>
theorem error_response_safe:
  fixes accepts :: "string \<Rightarrow> bool" and e :: error and shown shown' :: "nat list"
  defines "r \<equiv> into_response accepts e shown"
  shows "(if is_server_error (error_status e)
          then r = into_response accepts e shown' \<and> rsp_message r = generic_message
               \<and> rsp_reason r = None
          else rsp_message r = shown)
    \<and> (\<forall>p \<in> set_option (rsp_reason r).
         p \<noteq> [] \<and> length p \<le> 400 \<and> (\<forall>c \<in> set p. 32 \<le> byte c \<and> byte c \<le> 126))
    \<and> (rsp_challenge r \<noteq> None \<longleftrightarrow> error_status e = 401)"
proof (intro conjI)
  show "if is_server_error (error_status e)
          then r = into_response accepts e shown' \<and> rsp_message r = generic_message
               \<and> rsp_reason r = None
          else rsp_message r = shown"
    by (auto simp: r_def into_response_def Let_def is_server_error_def is_client_error_def)
  show "\<forall>p \<in> set_option (rsp_reason r).
         p \<noteq> [] \<and> length p \<le> 400 \<and> (\<forall>c \<in> set p. 32 \<le> byte c \<and> byte c \<le> 126)"
  proof
    fix p assume "p \<in> set_option (rsp_reason r)"
    then obtain m where "reason_phrase accepts m = Some p"
      by (auto simp: r_def into_response_def Let_def split: if_splits)
    from reason_phrase_printable [OF this]
    show "p \<noteq> [] \<and> length p \<le> 400 \<and> (\<forall>c \<in> set p. 32 \<le> byte c \<and> byte c \<le> 126)"
      by (simp add: max_reason_def)
  qed
  show "rsp_challenge r \<noteq> None \<longleftrightarrow> error_status e = 401"
    by (cases e rule: error_status.cases) (auto simp: r_def into_response_def Let_def)
qed

theorem error_response_safe_witness:
  "rsp_message (into_response (\<lambda>_. True) (Io Io_OtherKind) [47, 115]) = generic_message
   \<and> rsp_message (into_response (\<lambda>_. True) PackageNotFound [47, 115]) = [47, 115]"
  using error_response_safe [of "Io Io_OtherKind" "\<lambda>_. True" "[47, 115]" "[47, 115]"]
    error_response_safe [of PackageNotFound "\<lambda>_. True" "[47, 115]" "[]"]
  by (simp add: is_server_error_def)

end
