(* ===== verification/Package_Names.thy ===== *)
theory Package_Names
  imports Errors Version
begin

text \<open>
  Package ids, attached file names and the paths of the store:
  \<open>src/src/validation.rs\<close>, \<open>src/crates/yanuget-pkg/src/files.rs\<close>, the path functions of
  \<open>src/src/storage/filesystem.rs\<close>, \<open>canonical_id\<close> of \<open>src/src/database/mod.rs\<close> and the
  reserved prefixes of \<open>src/src/config/feeds.rs\<close>. A path is the list of its segments below
  the root of the store, which is what \<open>PathBuf::join\<close> of single segments builds.
\<close>

section \<open>Text helpers of the name checks\<close>

definition ascii_upper :: "char \<Rightarrow> char" where
  "ascii_upper c = (if is_ascii_lowercase c then char_of (byte c - 32) else c)"

definition to_ascii_uppercase :: "string \<Rightarrow> string" where
  "to_ascii_uppercase s = map ascii_upper s"

text \<open>\<open>str::rsplit_once\<close>, \<open>trim_start_matches\<close>, \<open>ends_with\<close> a character.\<close>

definition rsplit_once :: "char \<Rightarrow> string \<Rightarrow> (string \<times> string) option" where
  "rsplit_once d s = map_option (\<lambda>(b, a). (rev a, rev b)) (split_once d (rev s))"

definition trim_start_matches :: "char \<Rightarrow> string \<Rightarrow> string" where
  "trim_start_matches d s = dropWhile (\<lambda>c. c = d) s"

definition ends_with_any :: "string \<Rightarrow> char list \<Rightarrow> bool" where
  "ends_with_any s cs \<longleftrightarrow> s \<noteq> [] \<and> last s \<in> set cs"

text \<open>
  \<open>char::is_control\<close> of some character: C0, DEL, or C1, whose UTF-8 encodings are the
  byte 194 followed by one of 128 to 159.
\<close>

fun has_control :: "string \<Rightarrow> bool" where
  "has_control [] = False"
| "has_control (c # s) =
     (byte c < 32 \<or> byte c = 127
      \<or> (byte c = 194 \<and> (case s of d # _ \<Rightarrow> 128 \<le> byte d \<and> byte d \<le> 159 | [] \<Rightarrow> False))
      \<or> has_control s)"

lemma rsplit_once_Some:
  "rsplit_once d s = Some (a, b) \<longleftrightarrow> s = a @ d # b \<and> d \<notin> set b"
proof -
  have "rsplit_once d s = Some (a, b) \<longleftrightarrow> split_once d (rev s) = Some (rev b, rev a)"
    unfolding rsplit_once_def by (cases "split_once d (rev s)") (auto simp: rev_swap)
  also have "\<dots> \<longleftrightarrow> rev s = rev b @ d # rev a \<and> d \<notin> set b"
    by (simp add: split_once_Some)
  also have "rev s = rev b @ d # rev a \<longleftrightarrow> s = a @ d # b"
    using rev_is_rev_conv [of s "a @ d # b"] by simp
  finally show ?thesis .
qed

lemma has_control_ascii:
  "list_all is_graphic s \<Longrightarrow> \<not> has_control s"
  by (induction s) (auto simp: is_graphic_def split: list.splits)

section \<open>Windows device names and file names\<close>

definition max_file_name_length :: nat where
  "max_file_name_length = 128"

definition is_windows_device_name :: "string \<Rightarrow> bool" where
  "is_windows_device_name segment =
     (let stem = to_ascii_uppercase (trim_end (hd (split CHR ''.'' segment)))
      in stem \<in> set [''CON'', ''PRN'', ''AUX'', ''NUL'']
         \<or> (starts_with stem ''COM'' \<or> starts_with stem ''LPT'') \<and> length stem = 4
            \<and> 49 \<le> byte (stem ! 3) \<and> byte (stem ! 3) \<le> 57)"

definition extension_allowed :: "string list \<Rightarrow> string \<Rightarrow> bool" where
  "extension_allowed allowed ext =
     list_ex (\<lambda>a. eq_ignore_ascii_case (trim_start_matches CHR ''.'' a) ext) allowed"

definition file_name_char :: "char \<Rightarrow> bool" where
  "file_name_char c \<longleftrightarrow> is_ascii_alphanumeric c \<or> c \<in> {CHR ''.'', CHR ''_'', CHR ''-''}"

definition file_name_problem :: "string \<Rightarrow> string list \<Rightarrow> message option" where
  "file_name_problem name allowed =
     (if name = [] \<or> max_file_name_length < length name
      then Some (Msg ''use 1 to {MAX_FILE_NAME_LENGTH} characters'' [])
      else if \<not> list_all file_name_char name
      then Some (Msg ''use only letters, digits, '.', '_' and '-' '' [])
      else if \<not> is_ascii_alphanumeric (hd name) \<or> ends_with_any name [CHR ''.'', CHR ''-'']
      then Some (Msg ''start with a letter or digit, and do not end in '.' or '-' '' [])
      else if is_windows_device_name name
      then Some (Msg ''that is a Windows device name'' [])
      else if eq_ignore_ascii_case name ''index.json''
      then Some (Msg ''that name lists a version's files'' [])
      else (case rsplit_once CHR ''.'' name of
              Some (_, ext) \<Rightarrow>
                if extension_allowed allowed ext then None
                else Some (Msg ''the extension must be one of {}'' allowed)
            | None \<Rightarrow> Some (Msg ''the extension must be one of {}'' allowed)))"

section \<open>Package ids\<close>

definition max_id_length :: nat where
  "max_id_length = 100"

definition is_word :: "char \<Rightarrow> bool" where
  "is_word c \<longleftrightarrow> is_ascii_alphanumeric c \<or> c = CHR ''_''"

definition is_sep :: "char \<Rightarrow> bool" where
  "is_sep c \<longleftrightarrow> c = CHR ''.'' \<or> c = CHR ''-''"

text \<open>
  The scanning loop: \<open>None\<close> where it returns the error, else the final \<open>prev_sep\<close>. The
  first argument is \<open>i == 0\<close>.
\<close>

fun id_scan :: "bool \<Rightarrow> bool \<Rightarrow> string \<Rightarrow> bool option" where
  "id_scan at_start prev_sep [] = Some prev_sep"
| "id_scan at_start prev_sep (b # bs) =
     (if is_word b then id_scan False False bs
      else if is_sep b then (if at_start \<or> prev_sep then None else id_scan False True bs)
      else None)"

definition invalid_id :: "string \<Rightarrow> error" where
  "invalid_id i = InvalidPackage (Msg ''invalid package id: {id:?}'' [i])"

definition validate_package_id :: "string \<Rightarrow> unit result" where
  "validate_package_id i =
     (if i = [] then Inl (InvalidPackage (Msg ''package id is empty'' []))
      else if max_id_length < length i
      then Inl (InvalidPackage (Msg ''package id exceeds {MAX_ID_LENGTH} characters'' []))
      else case id_scan True False i of
             None \<Rightarrow> Inl (invalid_id i)
           | Some True \<Rightarrow> Inl (invalid_id i)
           | Some False \<Rightarrow>
               if is_windows_device_name i
               then Inl (InvalidPackage
                      (Msg ''invalid package id: {id:?} starts with {device:?}, a Windows device name, which cannot be stored''
                        [i, hd (split CHR ''.'' i)]))
               else Inr ())"

definition validate_file_name :: "string \<Rightarrow> string list \<Rightarrow> unit result" where
  "validate_file_name name allowed =
     (case file_name_problem name allowed of
        None \<Rightarrow> Inr ()
      | Some (Msg why args) \<Rightarrow>
          Inl (BadRequest (Msg ''invalid file name {name:?}: {why}'' (name # why # args))))"

definition canonical_id :: "string \<Rightarrow> string" where
  "canonical_id i = to_ascii_lowercase i"

text \<open>Whether an id falls under a prefix of \<open>reserved_id_prefixes\<close>.\<close>

definition id_has_prefix :: "string \<Rightarrow> string \<Rightarrow> bool" where
  "id_has_prefix i prefix \<longleftrightarrow>
     (length prefix \<le> length i \<and> eq_ignore_ascii_case (take (length prefix) i) prefix)
     \<or> (prefix \<noteq> [] \<and> last prefix = CHR ''.'' \<and> eq_ignore_ascii_case i (butlast prefix))"

section \<open>Paths of the store\<close>

type_synonym path = "string list"

datatype aux_file = Nuspec | Readme | Icon

fun aux_file_name :: "aux_file \<Rightarrow> string" where
  "aux_file_name Nuspec = ''manifest.nuspec''"
| "aux_file_name Readme = ''readme''"
| "aux_file_name Icon = ''icon''"

definition safe_segment :: "string \<Rightarrow> string result" where
  "safe_segment segment =
     (if segment = [] \<or> segment = ''.'' \<or> segment = ''..''
         \<or> list_ex (\<lambda>c. c \<in> {CHR ''/'', CHR 0x5C, CHR '':''}) segment \<or> has_control segment
         \<or> ends_with_any segment [CHR ''.'', CHR '' '']
         \<or> is_windows_device_name segment
      then Inl (BadRequest (Msg ''invalid storage path segment: {segment:?}'' [segment]))
      else Inr segment)"

definition version_dir :: "string \<Rightarrow> string \<Rightarrow> path result" where
  "version_dir i version =
     bind_result (map_result to_ascii_lowercase (safe_segment i)) (\<lambda>i.
     bind_result (map_result to_ascii_lowercase (safe_segment version)) (\<lambda>version.
     Inr [i, version]))"

definition versioned_name :: "string \<Rightarrow> string \<Rightarrow> string \<Rightarrow> string" where
  "versioned_name i version ext =
     to_ascii_lowercase i @ ''.'' @ to_ascii_lowercase version @ ext"

definition package_path :: "string \<Rightarrow> string \<Rightarrow> path result" where
  "package_path i version =
     bind_result (version_dir i version) (\<lambda>dir.
     Inr (dir @ [versioned_name i version ''.nupkg'']))"

definition symbol_package_path :: "string \<Rightarrow> string \<Rightarrow> path result" where
  "symbol_package_path i version =
     bind_result (version_dir i version) (\<lambda>dir.
     Inr (dir @ [versioned_name i version ''.snupkg'']))"

definition aux_path :: "string \<Rightarrow> string \<Rightarrow> aux_file \<Rightarrow> path result" where
  "aux_path i version kind =
     map_result (\<lambda>dir. dir @ [aux_file_name kind]) (version_dir i version)"

definition symbol_path :: "string \<Rightarrow> string \<Rightarrow> path result" where
  "symbol_path key filename =
     bind_result (map_result to_ascii_lowercase (safe_segment key)) (\<lambda>key.
     bind_result (map_result to_ascii_lowercase (safe_segment filename)) (\<lambda>filename.
     Inr [''.symbols'', key, filename]))"

definition is_hex_lower :: "char \<Rightarrow> bool" where
  "is_hex_lower c \<longleftrightarrow> is_ascii_digit c \<or> 97 \<le> byte c \<and> byte c \<le> 102"

definition is_blob_name :: "string \<Rightarrow> bool" where
  "is_blob_name s \<longleftrightarrow> length s = 64 \<and> list_all is_hex_lower s"

definition blob_path :: "string \<Rightarrow> path result" where
  "blob_path sha256 =
     (if \<not> is_blob_name sha256
      then Inl (BadRequest (Msg ''not a SHA-256 blob name: {sha256_hex:?}'' [sha256]))
      else Inr [''.blobs'', ''sha256'', take 2 sha256, sha256])"


section \<open>What accepted names look like\<close>

lemma graphic_word_sep: "is_word c \<or> is_sep c \<Longrightarrow> is_graphic c"
  by (auto simp: is_word_def is_sep_def graphic_alphanumeric) (auto simp: is_graphic_def)

lemma word_not_sep: "is_word c \<Longrightarrow> \<not> is_sep c"
  by (auto simp: is_word_def is_sep_def is_ascii_alphanumeric_def is_ascii_digit_def
      is_ascii_uppercase_def is_ascii_lowercase_def)

lemma id_scan_Some:
  "id_scan st p xs = Some q \<Longrightarrow>
     list_all (\<lambda>c. is_word c \<or> is_sep c) xs \<and> (xs \<noteq> [] \<longrightarrow> q = is_sep (last xs))
     \<and> (xs \<noteq> [] \<longrightarrow> st \<longrightarrow> is_word (hd xs))"
proof (induction st p xs rule: id_scan.induct)
  case (2 st p b bs)
  then show ?case by (cases "bs = []") (auto simp: word_not_sep split: if_splits)
qed simp

definition plain_name :: "string \<Rightarrow> bool" where
  "plain_name s \<longleftrightarrow> s \<noteq> [] \<and> list_all is_graphic s
     \<and> CHR ''/'' \<notin> set s \<and> CHR 0x5C \<notin> set s \<and> CHR '':'' \<notin> set s
     \<and> hd s \<noteq> CHR ''.'' \<and> last s \<noteq> CHR ''.'' \<and> \<not> is_windows_device_name s"

lemma safe_segment_plain: "plain_name s \<Longrightarrow> safe_segment s = Inr s"
proof -
  assume p: "plain_name s"
  then have "is_graphic (last s)" by (simp add: plain_name_def list_all_iff)
  then have "last s \<noteq> CHR '' ''" by (auto simp: is_graphic_def)
  with p show ?thesis
    by (auto simp: plain_name_def safe_segment_def ends_with_any_def list_ex_iff has_control_ascii)
qed

lemma validate_package_id_plain:
  assumes "validate_package_id i = Inr ()"
  shows "plain_name i" "list_all (\<lambda>c. is_word c \<or> is_sep c) i" "is_word (hd i)"
    "length i \<le> max_id_length"
proof -
  from assms have ne: "i \<noteq> []" and scan: "id_scan True False i = Some False"
    and dev: "\<not> is_windows_device_name i" and len: "length i \<le> max_id_length"
    by (auto simp: validate_package_id_def split: if_splits option.splits bool.splits)
  show "length i \<le> max_id_length" by fact
  from id_scan_Some [OF scan] ne
  have chars: "list_all (\<lambda>c. is_word c \<or> is_sep c) i" and h: "is_word (hd i)"
    and l: "\<not> is_sep (last i)" by auto
  then show "list_all (\<lambda>c. is_word c \<or> is_sep c) i" "is_word (hd i)" by auto
  have bad: "\<not> (is_word c \<or> is_sep c)" if "c \<in> {CHR ''/'', CHR 0x5C, CHR '':''}" for c
    using that by (auto simp: is_word_def is_sep_def char_eval)
  have "hd i \<noteq> CHR ''.''" using word_not_sep [OF h] by (auto simp: is_sep_def)
  moreover have "last i \<noteq> CHR ''.''" using l by (auto simp: is_sep_def)
  ultimately show "plain_name i"
    using ne chars dev bad by (auto simp: plain_name_def list_all_iff graphic_word_sep)
qed

lemma device_name_starts_letter:
  assumes "is_windows_device_name s"
  shows "\<not> is_ascii_digit (hd (to_ascii_uppercase (trim_end (hd (split CHR ''.'' s)))))"
proof -
  define u where "u = to_ascii_uppercase (trim_end (hd (split CHR ''.'' s)))"
  have h: "hd u = hd (take 3 u)" by (cases u) auto
  have "u \<in> set [''CON'', ''PRN'', ''AUX'', ''NUL''] \<or> take 3 u = ''COM'' \<or> take 3 u = ''LPT''"
    using assms unfolding is_windows_device_name_def Let_def starts_with_def u_def [symmetric]
    by (auto simp: numeral_3_eq_3)
  then have "hd u \<in> {CHR ''C'', CHR ''P'', CHR ''A'', CHR ''N'', CHR ''L''}"
    unfolding h by (elim disjE) auto
  then show ?thesis unfolding u_def [symmetric] by (auto simp: is_ascii_digit_def)
qed

lemma digit_start_no_device:
  assumes "is_ascii_digit c" "list_all is_graphic (c # t)"
  shows "\<not> is_windows_device_name (c # t)"
proof -
  have dot: "c \<noteq> CHR ''.''" using assms(1) by (auto simp: is_ascii_digit_def)
  obtain p ps where p: "split CHR ''.'' t = p # ps" using split_Cons_ex by blast
  then have sub: "set p \<subseteq> set t" using set_split_subset [of p "CHR ''.''" t] by simp
  have "split CHR ''.'' (c # t) = (c # p) # ps" using dot p by simp
  moreover have "trim_end (c # p) = c # p"
    using assms(2) sub last_in_set [of "c # p"]
    by (intro trim_end_graphic disjI2) (auto simp: list_all_iff)
  moreover have "ascii_upper c = c"
    using assms(1) by (auto simp: ascii_upper_def is_ascii_digit_def is_ascii_lowercase_def)
  ultimately show ?thesis
    using device_name_starts_letter [of "c # t"] assms(1) by (auto simp: to_ascii_uppercase_def)
qed

lemma last_join: "ps \<noteq> [] \<Longrightarrow> last ps \<noteq> [] \<Longrightarrow> last (join d ps) = last (last ps)"
  by (induction d ps rule: join.induct) (auto simp: join_eq_Nil)

lemma weak_identifier_last: "weak_identifier i \<Longrightarrow> i \<noteq> [] \<and> is_pre_char (last i)"
  by (auto simp: weak_identifier_def list_all_iff)

lemma last_normalized:
  assumes "weak_ok v"
  shows "last (normalized v) \<noteq> CHR ''.''"
proof (cases "v_pre v = []")
  case True
  have num: "show_nat n \<noteq> [] \<and> last (show_nat n) \<noteq> CHR ''.''" for n
  proof -
    have c: "canonical_digits (show_nat n)" by simp
    then have "is_ascii_digit (last (show_nat n))"
      by (auto simp: canonical_digits_def list_all_iff)
    with c show ?thesis by (auto simp: canonical_digits_def is_ascii_digit_def)
  qed
  have "last (core_string v) \<noteq> CHR ''.''"
    unfolding core_string_def by (auto simp: num join_eq_Nil)
  with True show ?thesis by (simp add: normalized_def)
next
  case False
  have "list_all weak_identifier (map to_ascii_lowercase (v_pre v))"
    using assms by (auto simp: weak_ok_def list_all_iff)
  then have "weak_identifier (last (map to_ascii_lowercase (v_pre v)))"
    using False by (simp only: list_all_iff) (metis last_in_set map_is_Nil_conv)
  then have l: "last (map to_ascii_lowercase (v_pre v)) \<noteq> []"
    "is_pre_char (last (last (map to_ascii_lowercase (v_pre v))))"
    using weak_identifier_last by blast+
  have "last (normalized v) = last (join CHR ''.'' (map to_ascii_lowercase (v_pre v)))"
    using False l by (auto simp: normalized_def join_eq_Nil)
  also have "\<dots> = last (last (map to_ascii_lowercase (v_pre v)))"
    using False l by (intro last_join) auto
  finally show ?thesis using l(2) by (auto simp: is_pre_char_def char_eval)
qed

lemma normalized_plain:
  assumes "weak_ok v"
  shows "plain_name (normalized v)"
proof -
  obtain c t where ct: "normalized v = c # t" "is_ascii_digit c" using normalized_first by blast
  have dot: "is_graphic CHR ''.''" by (simp add: is_graphic_def)
  have bad: "\<not> (c = CHR ''.'' \<or> is_pre_char c)" if "c \<in> {CHR ''/'', CHR 0x5C, CHR '':''}" for c
    using that by (auto simp: is_pre_char_def char_eval)
  have chars: "c' = CHR ''.'' \<or> is_pre_char c'" if "c' \<in> set (c # t)" for c'
    using set_normalized [OF assms, of c'] that by (simp add: ct)
  then have g: "list_all is_graphic (c # t)"
    unfolding list_all_iff using dot graphic_pre_char by metis
  have "c \<noteq> CHR ''.''" using ct(2) by (auto simp: is_ascii_digit_def)
  moreover have "last (c # t) \<noteq> CHR ''.''" using last_normalized [OF assms] by (simp add: ct)
  moreover have "CHR ''/'' \<notin> set (c # t) \<and> CHR 0x5C \<notin> set (c # t) \<and> CHR '':'' \<notin> set (c # t)"
    using chars bad by blast
  moreover have "\<not> is_windows_device_name (c # t)" using ct(2) g by (rule digit_start_no_device)
  ultimately show ?thesis
    using g unfolding plain_name_def ct(1) by simp
qed


text \<open>A path segment that stays inside its directory.\<close>

definition confined :: "string \<Rightarrow> bool" where
  "confined s \<longleftrightarrow> s \<noteq> [] \<and> s \<noteq> ''.'' \<and> s \<noteq> ''..'' \<and> CHR ''/'' \<notin> set s \<and> CHR 0x5C \<notin> set s
     \<and> CHR '':'' \<notin> set s \<and> \<not> has_control s"

lemma byte_lower_range:
  "byte (ascii_lower c) < 32 \<longleftrightarrow> byte c < 32"
  "byte (ascii_lower c) = 127 \<longleftrightarrow> byte c = 127"
  "byte (ascii_lower c) = 194 \<longleftrightarrow> byte c = 194"
  "128 \<le> byte (ascii_lower c) \<and> byte (ascii_lower c) \<le> 159 \<longleftrightarrow> 128 \<le> byte c \<and> byte c \<le> 159"
  by (auto simp: byte_ascii_lower is_ascii_uppercase_def)

lemma has_control_lower [simp]: "has_control (to_ascii_lowercase s) = has_control s"
proof (induction s)
  case (Cons c s)
  then show ?case by (cases s) (simp_all add: byte_lower_range)
qed simp

lemma mem_lower_nonletter:
  assumes "\<not> is_ascii_alphanumeric d"
  shows "d \<in> set (to_ascii_lowercase s) \<longleftrightarrow> d \<in> set s"
proof -
  have "d = ascii_lower c \<longleftrightarrow> c = d" for c using ascii_lower_eq_nonletter [OF assms] by metis
  then show ?thesis by (auto simp: to_ascii_lowercase_def image_iff)
qed

lemma lower_eq_dots:
  "to_ascii_lowercase s = ''.'' \<longleftrightarrow> s = ''.''" "to_ascii_lowercase s = ''..'' \<longleftrightarrow> s = ''..''"
  by (auto simp: to_ascii_lowercase_def ascii_lower_eq_nonletter char_eval)

lemma confined_lower [simp]: "confined (to_ascii_lowercase s) = confined s"
  by (simp add: confined_def lower_eq_dots mem_lower_nonletter char_eval)

lemma safe_segment_Inr:
  "safe_segment s = Inr t \<Longrightarrow> t = s \<and> confined s \<and> \<not> is_windows_device_name s"
  by (auto simp: safe_segment_def confined_def list_ex_iff split: if_splits)

lemma has_control_append:
  "has_control (s @ d # t) \<Longrightarrow> byte d < 128 \<Longrightarrow> has_control s \<or> has_control (d # t)"
proof (induction s)
  case (Cons c s)
  then show ?case by (cases s) auto
qed simp

lemma confined_versioned_name:
  assumes "confined i" "confined v" "ext = ''.nupkg'' \<or> ext = ''.snupkg''"
  shows "confined (versioned_name i v ext)"
proof -
  let ?l = "to_ascii_lowercase"
  have e: "\<not> has_control ext" "CHR ''/'' \<notin> set ext" "CHR 0x5C \<notin> set ext" "CHR '':'' \<notin> set ext"
    using assms(3) by auto
  obtain r where r: "ext = CHR ''.'' # r" using assms(3) by auto
  have "\<not> has_control (?l v @ ext)"
    using has_control_append [of "?l v" "CHR ''.''" r] assms(2) e(1) unfolding r confined_def
    by fastforce
  then have "\<not> has_control (?l i @ CHR ''.'' # ?l v @ ext)"
    using has_control_append [of "?l i" "CHR ''.''" "?l v @ ext"] assms(1)
    by (fastforce simp: confined_def)
  moreover have "length (?l i @ CHR ''.'' # ?l v @ ext) > 2" using assms by auto
  ultimately show ?thesis
    using assms e by (auto simp: confined_def versioned_name_def mem_lower_nonletter char_eval)
qed

lemma confined_aux [simp]: "confined (aux_file_name k)"
  by (cases k) (simp_all add: confined_def)

lemma version_dir_Inr:
  "version_dir i v = Inr d \<Longrightarrow>
     d = [to_ascii_lowercase i, to_ascii_lowercase v] \<and> confined i \<and> confined v"
  by (auto simp: version_dir_def result_ok dest!: safe_segment_Inr)

lemma blob_path_Inr: "blob_path s = Inr p \<Longrightarrow> list_all confined p"
proof -
  assume b: "blob_path s = Inr p"
  then have l: "length s = 64" "list_all is_hex_lower s"
    and p: "p = [''.blobs'', ''sha256'', take 2 s, s]"
    by (auto simp: blob_path_def is_blob_name_def split: if_splits)
  have g: "is_graphic c" "c \<notin> {CHR ''/'', CHR 0x5C, CHR '':'', CHR ''.''}" if "is_hex_lower c" for c
    using that by (auto simp: is_hex_lower_def is_graphic_def is_ascii_digit_def)
  have "confined t" if t: "t \<noteq> []" "set t \<subseteq> set s" for t
  proof -
    have h: "list_all is_hex_lower t" using t l by (auto simp: list_all_iff)
    then have "\<not> has_control t" using g(1) by (intro has_control_ascii) (auto simp: list_all_iff)
    moreover have n: "CHR ''/'' \<notin> set t" "CHR 0x5C \<notin> set t" "CHR '':'' \<notin> set t" "CHR ''.'' \<notin> set t"
      using h g(2) by (fastforce simp: list_all_iff)+
    moreover have "t \<noteq> ''.''" "t \<noteq> ''..''" using n(4) by auto
    ultimately show ?thesis using t(1) by (simp add: confined_def)
  qed
  moreover have "take 2 s \<noteq> []" "s \<noteq> []" using l(1) by auto
  moreover have "set (take 2 s) \<subseteq> set s" by (rule set_take_subset)
  moreover have "confined ''.blobs''" "confined ''sha256''" by (simp_all add: confined_def)
  ultimately show ?thesis by (simp add: p)
qed

lemma paths_confined:
  "package_path i v = Inr p \<Longrightarrow> p \<noteq> [] \<and> list_all confined p"
  "symbol_package_path i v = Inr p \<Longrightarrow> p \<noteq> [] \<and> list_all confined p"
  "symbol_path i v = Inr p \<Longrightarrow> p \<noteq> [] \<and> list_all confined p"
  "version_dir i v = Inr p \<Longrightarrow> p \<noteq> [] \<and> list_all confined p"
  "aux_path i v k = Inr p \<Longrightarrow> p \<noteq> [] \<and> list_all confined p"
  "blob_path i = Inr p \<Longrightarrow> p \<noteq> [] \<and> list_all confined p"
proof -
  have syms: "confined ''.symbols''" by (simp add: confined_def)
  show "symbol_path i v = Inr p \<Longrightarrow> p \<noteq> [] \<and> list_all confined p"
    by (auto simp: symbol_path_def result_ok syms dest!: safe_segment_Inr)
  show "blob_path i = Inr p \<Longrightarrow> p \<noteq> [] \<and> list_all confined p"
    using blob_path_Inr [of i p] by (auto simp: blob_path_def split: if_splits)
qed (auto simp: package_path_def symbol_package_path_def aux_path_def result_ok
    confined_versioned_name dest!: version_dir_Inr)

section \<open>The properties\<close>

text \<open>
  C29: no request makes the store leave its root. Whatever id, version, key, file name or
  hash a path function is given, either it refuses it with a bad-request error or every
  segment of the path it builds is non-empty, is not a relative-path token, and holds no
  separator, drive colon or control character.
\<close>
theorem store_paths_confined:
  assumes "r \<in> {package_path i v, symbol_package_path i v, aux_path i v k, symbol_path i v,
                 version_dir i v, blob_path i}"
  shows "case r of Inr p \<Rightarrow> p \<noteq> [] \<and> list_all confined p | Inl e \<Rightarrow> error_status e = 400"
proof (cases r)
  case (Inl e)
  with assms have "\<exists>m. e = BadRequest m"
    by (auto simp: package_path_def symbol_package_path_def aux_path_def symbol_path_def
        version_dir_def blob_path_def safe_segment_def bind_result_def map_result_def
        split: sum.splits if_splits)
  with Inl show ?thesis by auto
next
  case (Inr p)
  with assms have "p \<noteq> [] \<and> list_all confined p"
    using paths_confined(1-4) [of i v p] paths_confined(5) [of i v k p] paths_confined(6) [of i p]
    by (elim insertE) simp_all
  with Inr show ?thesis by simp
qed

theorem store_paths_confined_witness:
  "case package_path ''..'' ''1.0.0'' of Inr p \<Rightarrow> p \<noteq> [] \<and> list_all confined p
   | Inl e \<Rightarrow> error_status e = 400"
  using store_paths_confined [of "package_path ''..'' ''1.0.0''" "''..''" "''1.0.0''" Icon] by simp

text \<open>
  C28: an accepted push always has a place in the store, and its own. For an accepted id
  and an accepted version the package path exists and is the documented layout; two such
  pairs share a path exactly when they are the same id up to ASCII case and equal versions;
  and no package directory is one of the store's own (symbols, blobs, staging).
\<close>
theorem accepted_push_has_own_path:
  assumes "validate_package_id i = Inr ()" "parse_version s = Inr v"
    and "validate_package_id j = Inr ()" "parse_version t = Inr w"
  shows "package_path i (normalized v) =
           Inr [canonical_id i, normalized v, canonical_id i @ ''.'' @ normalized v @ ''.nupkg'']
    \<and> (package_path i (normalized v) = package_path j (normalized w) \<longleftrightarrow>
         canonical_id i = canonical_id j \<and> eq_version v w)
    \<and> canonical_id i \<notin> {''.symbols'', ''.blobs'', ''.uploads''}"
proof -
  have path: "package_path i (normalized v) =
      Inr [canonical_id i, normalized v, canonical_id i @ ''.'' @ normalized v @ ''.nupkg'']"
    if "validate_package_id i = Inr ()" "weak_ok v" for i v
  proof -
    show ?thesis
      using safe_segment_plain [OF validate_package_id_plain(1) [OF that(1)]]
        safe_segment_plain [OF normalized_plain [OF that(2)]]
      by (simp add: package_path_def version_dir_def versioned_name_def canonical_id_def)
  qed
  have ok: "version_ok v" "version_ok w" using assms parse_version_ok by blast+
  have eq: "normalized v = normalized w \<longleftrightarrow> eq_version v w"
    using eq_version_normalized ok version_ok_weak by blast
  have "is_word (hd i)" "i \<noteq> []"
    using validate_package_id_plain [OF assms(1)] by (auto simp: plain_name_def)
  then have "hd (canonical_id i) \<noteq> CHR ''.''"
    by (cases i) (auto simp: canonical_id_def ascii_lower_eq_nonletter char_eval is_word_def)
  then have "canonical_id i \<notin> {''.symbols'', ''.blobs'', ''.uploads''}" by auto
  with path [OF assms(1) version_ok_weak [OF ok(1)]] path [OF assms(3) version_ok_weak [OF ok(2)]]
  show ?thesis by (auto simp: eq)
qed


lemma trim_end_alphanumeric: "list_all is_ascii_alphanumeric s \<Longrightarrow> trim_end s = s"
  by (cases "s = []") (simp_all add: trim_end_graphic list_all_iff graphic_alphanumeric)

lemma valid_sample_ids:
  "validate_package_id ''Ab.c'' = Inr ()" "validate_package_id ''aB.C'' = Inr ()"
  by (simp_all add: validate_package_id_def max_id_length_def is_word_def is_sep_def
      is_windows_device_name_def trim_end_alphanumeric to_ascii_uppercase_def starts_with_def
      char_eval ascii_upper_def)

theorem accepted_push_has_own_path_witness:
  "package_path ''Ab.c'' ''1.2.0-rc.1'' = package_path ''aB.C'' ''1.2.0-rc.1''
   \<and> canonical_id ''Ab.c'' \<notin> {''.symbols'', ''.blobs'', ''.uploads''}"
proof -
  have n: "normalized sample_upper = ''1.2.0-rc.1''" "normalized sample_lower = ''1.2.0-rc.1''"
    by (simp_all add: sample_upper_def sample_lower_def version_eval char_eval number_eval)
  then have "eq_version sample_upper sample_lower"
    using eq_version_normalized [OF version_ok_sample_upper version_ok_sample_lower] by simp
  then show ?thesis
    using accepted_push_has_own_path
        [OF valid_sample_ids(1) parse_sample_upper valid_sample_ids(2) parse_sample_lower]
    by (simp add: n canonical_id_def ascii_lower_eval, metis)
qed

end
