(* ===== verification/Ip_Address.thy ===== *)
theory Ip_Address
  imports Package_Names "HOL-Library.Word"
begin

text \<open>
  Internet addresses and which of them a fetch must not reach:
  \<open>src/crates/yanuget-pkg/src/address.rs\<close>, and the CIDR blocks and the trust set of
  \<open>src/src/proxy.rs\<close>. An \<open>IpAddr\<close> is its family with its bits as a word, network order
  first. The text form is read as \<open>core::net\<close> reads it.
\<close>

unbundle bit_operations_syntax

datatype ip_addr = V4 "32 word" | V6 "128 word"

section \<open>Octets, segments and the predicates of the standard library\<close>

definition octets4 :: "32 word \<Rightarrow> 8 word list" where
  "octets4 a = map (\<lambda>i. ucast (drop_bit (8 * (3 - i)) a)) [0..<4]"

definition octets6 :: "128 word \<Rightarrow> 8 word list" where
  "octets6 a = map (\<lambda>i. ucast (drop_bit (8 * (15 - i)) a)) [0..<16]"

definition segments :: "128 word \<Rightarrow> 16 word list" where
  "segments a = map (\<lambda>i. ucast (drop_bit (16 * (7 - i)) a)) [0..<8]"

definition from_octets4 :: "8 word list \<Rightarrow> 32 word" where
  "from_octets4 os = foldl (\<lambda>acc w. push_bit 8 acc OR ucast w) 0 os"

definition from_segments :: "16 word list \<Rightarrow> 128 word" where
  "from_segments ss = foldl (\<lambda>acc w. push_bit 16 acc OR ucast w) 0 ss"

definition to_ipv4_mapped :: "128 word \<Rightarrow> 32 word option" where
  "to_ipv4_mapped a = (if drop_bit 32 a = 0xffff then Some (ucast a) else None)"

definition v4_is_loopback :: "32 word \<Rightarrow> bool" where
  "v4_is_loopback a \<longleftrightarrow> octets4 a ! 0 = 127"

definition v4_is_private :: "32 word \<Rightarrow> bool" where
  "v4_is_private a \<longleftrightarrow>
     octets4 a ! 0 = 10
     \<or> octets4 a ! 0 = 172 \<and> 16 \<le> octets4 a ! 1 \<and> octets4 a ! 1 \<le> 31
     \<or> octets4 a ! 0 = 192 \<and> octets4 a ! 1 = 168"

definition v4_is_link_local :: "32 word \<Rightarrow> bool" where
  "v4_is_link_local a \<longleftrightarrow> octets4 a ! 0 = 169 \<and> octets4 a ! 1 = 254"

definition is_ipv4 :: "ip_addr \<Rightarrow> bool" where
  "is_ipv4 ip = (case ip of V4 _ \<Rightarrow> True | V6 _ \<Rightarrow> False)"

section \<open>Text form\<close>

text \<open>
  The parser of \<open>core::net\<close>: each reader takes the rest of the input and returns its value
  with what is left. \<open>read_number\<close> takes the radix, the longest digit count (if any),
  whether a zero may lead, and the bound the type sets.
\<close>

type_synonym 'a reader = "string \<Rightarrow> ('a \<times> string) option"

definition to_digit :: "nat \<Rightarrow> char \<Rightarrow> nat option" where
  "to_digit radix c =
     (let d = (if is_ascii_digit c then Some (byte c - 48)
               else if 97 \<le> byte c \<and> byte c \<le> 102 then Some (byte c - 87)
               else if 65 \<le> byte c \<and> byte c \<le> 70 then Some (byte c - 55)
               else None)
      in case d of Some n \<Rightarrow> if n < radix then Some n else None | None \<Rightarrow> None)"

definition read_char :: "char \<Rightarrow> unit reader" where
  "read_char c s = (case s of d # t \<Rightarrow> if d = c then Some ((), t) else None | [] \<Rightarrow> None)"

definition read_number :: "nat \<Rightarrow> nat option \<Rightarrow> bool \<Rightarrow> nat \<Rightarrow> nat reader" where
  "read_number radix max_digits zero_prefix bound s =
     (let ds = takeWhile (\<lambda>c. to_digit radix c \<noteq> None) s;
          n = foldl (\<lambda>acc c. radix * acc + the (to_digit radix c)) 0 ds
      in if ds = [] \<or> (case max_digits of Some m \<Rightarrow> m < length ds | None \<Rightarrow> False)
            \<or> bound < n \<or> (\<not> zero_prefix \<and> hd ds = CHR ''0'' \<and> 1 < length ds)
         then None else Some (n, drop (length ds) s))"

definition read_sep :: "char \<Rightarrow> nat \<Rightarrow> 'a reader \<Rightarrow> 'a reader" where
  "read_sep c index r s =
     (if 0 < index then (case read_char c s of Some (_, t) \<Rightarrow> r t | None \<Rightarrow> None) else r s)"

fun read_octets :: "nat \<Rightarrow> nat \<Rightarrow> 8 word list reader" where
  "read_octets i 0 s = Some ([], s)"
| "read_octets i (Suc k) s =
     (case read_sep CHR ''.'' i (read_number 10 (Some 3) False 255) s of
        None \<Rightarrow> None
      | Some (n, t) \<Rightarrow>
          (case read_octets (Suc i) k t of
             None \<Rightarrow> None
           | Some (os, u) \<Rightarrow> Some (of_nat n # os, u)))"

definition read_ipv4 :: "32 word reader" where
  "read_ipv4 s = map_option (\<lambda>(os, t). (from_octets4 os, t)) (read_octets 0 4 s)"

text \<open>
  \<open>read_groups\<close>: the groups read before the first that is none, whether an embedded IPv4
  address ended them, and the rest. The counter \<open>k\<close> is what is left of the limit.
\<close>

fun read_groups :: "nat \<Rightarrow> nat \<Rightarrow> string \<Rightarrow> 16 word list \<times> bool \<times> string" where
  "read_groups i 0 s = ([], False, s)"
| "read_groups i (Suc k) s =
     (case (if 0 < k then read_sep CHR '':'' i read_ipv4 s else None) of
        Some (a, t) \<Rightarrow> ([ucast (drop_bit 16 a), ucast a], True, t)
      | None \<Rightarrow>
          (case read_sep CHR '':'' i (read_number 16 (Some 4) True 65535) s of
             None \<Rightarrow> ([], False, s)
           | Some (g, t) \<Rightarrow>
               (let (gs, v4, u) = read_groups (Suc i) k t in (of_nat g # gs, v4, u))))"

definition read_ipv6 :: "128 word reader" where
  "read_ipv6 s =
     (let (hd, v4, t) = read_groups 0 8 s
      in if length hd = 8 then Some (from_segments hd, t)
         else if v4 then None
         else case t of
           c # d # u \<Rightarrow>
             if c = CHR '':'' \<and> d = CHR '':''
             then let (tl, _, w) = read_groups 0 (8 - (length hd + 1)) u
                  in Some (from_segments
                       (hd @ replicate (8 - length hd - length tl) 0 @ tl), w)
             else None
         | _ \<Rightarrow> None)"

definition read_ip :: "ip_addr reader" where
  "read_ip s =
     (case read_ipv4 s of
        Some (a, t) \<Rightarrow> Some (V4 a, t)
      | None \<Rightarrow> map_option (\<lambda>(a, t). (V6 a, t)) (read_ipv6 s))"

definition whole :: "'a reader \<Rightarrow> string \<Rightarrow> 'a option" where
  "whole r s = (case r s of Some (a, []) \<Rightarrow> Some a | _ \<Rightarrow> None)"

definition parse_ip :: "string \<Rightarrow> ip_addr option" where
  "parse_ip s = whole read_ip s"

text \<open>\<open>SocketAddr\<close>: the address part only, which is what its user takes.\<close>

definition read_port :: "nat reader" where
  "read_port s =
     (case read_char CHR '':'' s of
        Some (_, t) \<Rightarrow> read_number 10 None True 65535 t | None \<Rightarrow> None)"

definition read_scope :: "nat reader" where
  "read_scope s =
     (case read_char CHR ''%'' s of
        Some (_, t) \<Rightarrow> read_number 10 None True 4294967295 t | None \<Rightarrow> None)"

definition read_socket_v4 :: "32 word reader" where
  "read_socket_v4 s =
     (case read_ipv4 s of
        Some (a, t) \<Rightarrow> map_option (\<lambda>(_, u). (a, u)) (read_port t)
      | None \<Rightarrow> None)"

definition read_socket_v6 :: "128 word reader" where
  "read_socket_v6 s =
     (case read_char CHR ''['' s of
        None \<Rightarrow> None
      | Some (_, t) \<Rightarrow>
          (case read_ipv6 t of
             None \<Rightarrow> None
           | Some (a, u) \<Rightarrow>
               (let v = (case read_scope u of Some (_, v) \<Rightarrow> v | None \<Rightarrow> u)
                in case read_char CHR '']'' v of
                     None \<Rightarrow> None
                   | Some (_, w) \<Rightarrow> map_option (\<lambda>(_, x). (a, x)) (read_port w))))"

definition parse_socket_ip :: "string \<Rightarrow> ip_addr option" where
  "parse_socket_ip s =
     whole (\<lambda>s. case read_socket_v4 s of
                  Some (a, t) \<Rightarrow> Some (V4 a, t)
                | None \<Rightarrow> map_option (\<lambda>(a, t). (V6 a, t)) (read_socket_v6 s)) s"

section \<open>Prefixes and private addresses\<close>

definition prefix_eq :: "8 word list \<Rightarrow> 8 word list \<Rightarrow> nat \<Rightarrow> bool" where
  "prefix_eq a b bits =
     (let full = bits div 8
      in if take full a \<noteq> take full b then False
         else let rem = bits mod 8
              in if rem = 0 then True
                 else let mask = push_bit (8 - rem) 0xff
                      in a ! full AND mask = b ! full AND mask)"

definition unmap :: "ip_addr \<Rightarrow> ip_addr" where
  "unmap ip =
     (case ip of
        V6 v6 \<Rightarrow> (case to_ipv4_mapped v6 of Some v4 \<Rightarrow> V4 v4 | None \<Rightarrow> V6 v6)
      | V4 a \<Rightarrow> V4 a)"

definition private_v4 :: "(8 word list \<times> nat) list" where
  "private_v4 =
     [([0, 0, 0, 0], 8), ([100, 64, 0, 0], 10), ([192, 0, 0, 0], 24),
      ([198, 18, 0, 0], 15), ([224, 0, 0, 0], 4), ([240, 0, 0, 0], 4)]"

definition private_v6 :: "(16 word list \<times> nat) list" where
  "private_v6 =
     [([0xfc00, 0, 0], 7), ([0xfe80, 0, 0], 10), ([0xfec0, 0, 0], 10), ([0xff00, 0, 0], 8),
      ([0x0064, 0xff9b, 0x0001], 48)]"

definition in_v4 :: "32 word \<Rightarrow> 8 word list \<times> nat \<Rightarrow> bool" where
  "in_v4 ip net = prefix_eq (fst net) (octets4 ip) (snd net)"

definition in_v6 :: "128 word \<Rightarrow> 16 word list \<times> nat \<Rightarrow> bool" where
  "in_v6 ip net =
     prefix_eq (octets6 (from_segments (fst net @ [0, 0, 0, 0, 0]))) (octets6 ip) (snd net)"

definition embedded_v4 :: "128 word \<Rightarrow> 32 word option" where
  "embedded_v4 v6 =
     (let s = segments v6; o' = octets6 v6; tail = from_octets4 (drop 12 o')
      in case to_ipv4_mapped v6 of
           Some v4 \<Rightarrow> Some v4
         | None \<Rightarrow>
             if take 6 s = [0, 0, 0, 0, 0, 0] \<and> (s ! 6 \<noteq> 0 \<or> 1 < s ! 7) then Some tail
             else if take 6 s = [0x64, 0xff9b, 0, 0, 0, 0] then Some tail
             else if s ! 0 = 0x2002 then Some (from_octets4 (take 4 (drop 2 o')))
             else None)"

definition is_private_v4 :: "32 word \<Rightarrow> bool" where
  "is_private_v4 v4 \<longleftrightarrow>
     v4_is_loopback v4 \<or> v4_is_private v4 \<or> v4_is_link_local v4 \<or> v4 = 0 \<or> v4 = 0xffffffff
     \<or> list_ex (in_v4 v4) private_v4"

definition is_private_ip :: "ip_addr \<Rightarrow> bool" where
  "is_private_ip ip =
     (case ip of
        V4 v4 \<Rightarrow> is_private_v4 v4
      | V6 v6 \<Rightarrow>
          (case embedded_v4 v6 of
             Some v4 \<Rightarrow> is_private_v4 v4
           | None \<Rightarrow> v6 = 1 \<or> v6 = 0 \<or> list_ex (in_v6 v6) private_v6))"

definition is_private_ip_addr :: "ip_addr \<Rightarrow> bool" where
  "is_private_ip_addr ip = is_private_ip (unmap ip)"

text \<open>\<open>strip_prefix\<close> of a character and \<open>trim_end_matches\<close>.\<close>

definition trim_end_matches :: "char \<Rightarrow> string \<Rightarrow> string" where
  "trim_end_matches d s = rev (dropWhile (\<lambda>c. c = d) (rev s))"

definition bare_host :: "string \<Rightarrow> string" where
  "bare_host host =
     (case host of
        c # rest \<Rightarrow>
          if c = CHR ''['' then hd (split CHR '']'' rest)
          else (case rsplit_once CHR '':'' host of
                  Some (h, _) \<Rightarrow> if CHR '':'' \<in> set h then host else h
                | None \<Rightarrow> host)
      | [] \<Rightarrow> host)"

definition is_private_host :: "string \<Rightarrow> bool" where
  "is_private_host host0 =
     (let host = trim host0;
          lower = trim_end_matches CHR ''.'' (to_ascii_lowercase (bare_host host))
      in if lower = ''localhost'' \<or> ends_with lower ''.localhost'' \<or> ends_with lower ''.local''
         then True
         else case parse_ip lower of
                Some ip \<Rightarrow> is_private_ip (unmap ip)
              | None \<Rightarrow> False)"

section \<open>Resolving a host\<close>

text \<open>
  \<open>GuardedResolver\<close> and \<open>check_resolved\<close>. The system's resolver is a parameter \<open>lookup\<close>:
  the addresses of a name, or its error.
\<close>

record guarded_resolver =
  gr_proxy_host :: "string option"
  gr_fixed :: "(string \<times> ip_addr) list"
  gr_hint :: "string option"

datatype 'e resolve_error =
    Lookup_Failed 'e
  | Private_Address string ip_addr "string option"

definition lookup_fixed :: "(string \<times> ip_addr) list \<Rightarrow> string \<Rightarrow> ip_addr option" where
  "lookup_fixed fixed host =
     map_option snd (find (\<lambda>(name, _). eq_ignore_ascii_case name host) fixed)"

definition host_addrs ::
    "(string \<times> ip_addr) list \<Rightarrow> (string \<Rightarrow> 'e + ip_addr list) \<Rightarrow> string \<Rightarrow> 'e + ip_addr list" where
  "host_addrs fixed lookup host =
     (case lookup_fixed fixed host of Some ip \<Rightarrow> Inr [ip] | None \<Rightarrow> lookup host)"

definition guarded_resolve ::
    "guarded_resolver \<Rightarrow> (string \<Rightarrow> 'e + ip_addr list) \<Rightarrow> string \<Rightarrow>
     'e resolve_error + ip_addr list" where
  "guarded_resolve g lookup host =
     (let exempt = (case gr_proxy_host g of
                      Some p \<Rightarrow> eq_ignore_ascii_case p host | None \<Rightarrow> False)
      in bind_result (map_err Lookup_Failed (host_addrs (gr_fixed g) lookup host)) (\<lambda>addrs.
         if exempt then Inr addrs
         else let public = filter (\<lambda>a. \<not> is_private_ip_addr a) addrs
              in case (public, addrs) of
                   ([], first # _) \<Rightarrow> Inl (Private_Address host first (gr_hint g))
                 | _ \<Rightarrow> Inr public))"

datatype 'e unsafe_host = Unresolvable 'e | Private_Host ip_addr

definition check_resolved ::
    "(string \<Rightarrow> 'e + ip_addr list) \<Rightarrow> string \<Rightarrow> (string \<times> ip_addr) list \<Rightarrow>
     'e unsafe_host + unit" where
  "check_resolved lookup host fixed =
     (let bare = trim_end_matches CHR '']'' (trim_start_matches CHR ''['' host)
      in if parse_ip bare \<noteq> None then Inr ()
         else bind_result (map_err Unresolvable (host_addrs fixed lookup bare)) (\<lambda>addrs.
              case find is_private_ip_addr addrs of
                Some ip \<Rightarrow> Inl (Private_Host ip)
              | None \<Rightarrow> Inr ()))"

section \<open>What a prefix comparison means\<close>

text \<open>The bits of an octet list in network order, and the comparison bit by bit.\<close>

definition bit_at :: "8 word list \<Rightarrow> nat \<Rightarrow> bool" where
  "bit_at os k = bit (os ! (k div 8)) (7 - k mod 8)"

lemma word8_eq_bits: "(x = y) \<longleftrightarrow> (\<forall>j<8. bit x (7 - j) = bit (y :: 8 word) (7 - j))"
proof
  assume h: "\<forall>j<8. bit x (7 - j) = bit y (7 - j)"
  show "x = y"
  proof (rule bit_word_eqI)
    fix n assume "n < LENGTH(8)"
    then show "bit x n = bit y n" using h [rule_format, of "7 - n"] by simp
  qed
qed simp

lemma mask_eq_bits:
  assumes "r < 8"
  shows "x AND push_bit (8 - r) 0xff = y AND push_bit (8 - r) (0xff :: 8 word)
    \<longleftrightarrow> (\<forall>j<r. bit x (7 - j) = bit y (7 - j))"
proof -
  have m: "bit (push_bit (8 - r) (0xff :: 8 word)) n \<longleftrightarrow> 8 - r \<le> n \<and> n < 8" for n
  proof -
    have e: "(0xff :: 8 word) = - 1" by simp
    show ?thesis unfolding e by (auto simp: bit_not_iff bit_mask_iff)
  qed
  show ?thesis
  proof
    assume e: "x AND push_bit (8 - r) 0xff = y AND push_bit (8 - r) 0xff"
    show "\<forall>j<r. bit x (7 - j) = bit y (7 - j)"
    proof (intro allI impI)
      fix j assume "j < r"
      with assms have "8 - r \<le> 7 - j" by linarith
      then have "bit (push_bit (8 - r) (0xff :: 8 word)) (7 - j)" unfolding m by simp
      with arg_cong [OF e, of "\<lambda>w. bit w (7 - j)"] show "bit x (7 - j) = bit y (7 - j)"
        by (simp only: bit_and_iff simp_thms)
    qed
  next
    assume h: "\<forall>j<r. bit x (7 - j) = bit y (7 - j)"
    show "x AND push_bit (8 - r) 0xff = y AND push_bit (8 - r) 0xff"
    proof (rule bit_word_eqI)
      fix n assume "n < LENGTH(8)"
      with h [rule_format, of "7 - n"] m [of n]
      show "bit (x AND push_bit (8 - r) 0xff) n = bit (y AND push_bit (8 - r) 0xff) n"
        by (auto simp: bit_and_iff)
    qed
  qed
qed

lemma all_less_mult8:
  "(\<forall>k < 8 * f + r. P k) \<longleftrightarrow> (\<forall>i<f. \<forall>j<8. P (8 * i + j)) \<and> (\<forall>j<r. P (8 * f + j))"
  for f r :: nat
proof
  assume l: "(\<forall>i<f. \<forall>j<8. P (8 * i + j)) \<and> (\<forall>j<r. P (8 * f + j))"
  show "\<forall>k < 8 * f + r. P k"
  proof (intro allI impI)
    fix k assume k: "k < 8 * f + r"
    show "P k"
    proof (cases "k < 8 * f")
      case True
      then have "k div 8 < f" by (simp add: less_mult_imp_div_less mult.commute)
      with l have "P (8 * (k div 8) + k mod 8)" by (metis mod_less_divisor zero_less_numeral)
      then show ?thesis by simp
    next
      case False
      with k l have "P (8 * f + (k - 8 * f))" by (metis add_diff_inverse_nat nat_add_left_cancel_less)
      with False show ?thesis by simp
    qed
  qed
qed auto

lemma prefix_eq_bits:
  assumes "length xs = length ys" "n \<le> 8 * length xs"
  shows "prefix_eq xs ys n \<longleftrightarrow> (\<forall>k<n. bit_at xs k = bit_at ys k)"
proof -
  let ?f = "n div 8" and ?r = "n mod 8"
  have f: "?f \<le> length xs" using assms(2) by linarith
  have take: "take ?f xs = take ?f ys \<longleftrightarrow> (\<forall>i<?f. \<forall>j<8. bit_at xs (8 * i + j) = bit_at ys (8 * i + j))"
  proof -
    have "take ?f xs = take ?f ys \<longleftrightarrow> (\<forall>i<?f. xs ! i = ys ! i)"
      using f assms(1) by (auto simp: list_eq_iff_nth_eq)
    then show ?thesis by (simp add: word8_eq_bits bit_at_def)
  qed
  have mask: "xs ! ?f AND push_bit (8 - ?r) 0xff = ys ! ?f AND push_bit (8 - ?r) 0xff
      \<longleftrightarrow> (\<forall>j<?r. bit_at xs (8 * ?f + j) = bit_at ys (8 * ?f + j))"
    using mask_eq_bits [of ?r "xs ! ?f" "ys ! ?f"] by (simp add: bit_at_def)
  have "prefix_eq xs ys n \<longleftrightarrow> take ?f xs = take ?f ys \<and>
      (?r = 0 \<or> xs ! ?f AND push_bit (8 - ?r) 0xff = ys ! ?f AND push_bit (8 - ?r) 0xff)"
    by (simp add: prefix_eq_def Let_def)
  also have "\<dots> \<longleftrightarrow> (\<forall>k < 8 * ?f + ?r. bit_at xs k = bit_at ys k)"
    unfolding all_less_mult8 take mask by auto
  finally show ?thesis by simp
qed

lemma length_octets [simp]: "length (octets4 a) = 4" "length (octets6 b) = 16"
  "length (segments b) = 8"
  by (simp_all add: octets4_def octets6_def segments_def)

lemma bit_at_octets4: "k < 32 \<Longrightarrow> bit_at (octets4 a) k = bit a (31 - k)"
proof -
  assume k: "k < 32"
  then have d: "k div 8 < 4" by simp
  have "7 - k mod 8 + 8 * (3 - k div 8) = 31 - k" "7 - k mod 8 < 8" using d k by presburger+
  with d show ?thesis
    by (simp add: bit_at_def octets4_def bit_ucast_iff bit_drop_bit_eq ac_simps del: add_diff_assoc add_diff_assoc2)
qed

lemma bit_at_octets6: "k < 128 \<Longrightarrow> bit_at (octets6 a) k = bit a (127 - k)"
proof -
  assume k: "k < 128"
  then have d: "k div 8 < 16" by simp
  have "7 - k mod 8 + 8 * (15 - k div 8) = 127 - k" "7 - k mod 8 < 8" using d k by presburger+
  with d show ?thesis
    by (simp add: bit_at_def octets6_def bit_ucast_iff bit_drop_bit_eq ac_simps del: add_diff_assoc add_diff_assoc2)
qed

lemma drop_bit_eq_bits:
  fixes a b :: "'a::len word"
  assumes "n \<le> LENGTH('a)"
  shows "drop_bit (LENGTH('a) - n) a = drop_bit (LENGTH('a) - n) b
    \<longleftrightarrow> (\<forall>k<n. bit a (LENGTH('a) - 1 - k) = bit b (LENGTH('a) - 1 - k))"
proof
  assume e: "drop_bit (LENGTH('a) - n) a = drop_bit (LENGTH('a) - n) b"
  show "\<forall>k<n. bit a (LENGTH('a) - 1 - k) = bit b (LENGTH('a) - 1 - k)"
  proof (intro allI impI)
    fix k assume k: "k < n"
    have "bit (drop_bit (LENGTH('a) - n) a) (n - 1 - k) = bit (drop_bit (LENGTH('a) - n) b) (n - 1 - k)"
      using e by simp
    moreover have "LENGTH('a) - n + (n - 1 - k) = LENGTH('a) - 1 - k" using k assms by linarith
    ultimately show "bit a (LENGTH('a) - 1 - k) = bit b (LENGTH('a) - 1 - k)"
      by (simp add: bit_drop_bit_eq)
  qed
next
  assume h: "\<forall>k<n. bit a (LENGTH('a) - 1 - k) = bit b (LENGTH('a) - 1 - k)"
  show "drop_bit (LENGTH('a) - n) a = drop_bit (LENGTH('a) - n) b"
  proof (rule bit_word_eqI)
    fix m assume "m < LENGTH('a)"
    show "bit (drop_bit (LENGTH('a) - n) a) m = bit (drop_bit (LENGTH('a) - n) b) m"
    proof (cases "m < n")
      case True
      then have "n - 1 - m < n" "LENGTH('a) - 1 - (n - 1 - m) = LENGTH('a) - n + m"
        using assms by linarith+
      with h [rule_format, of "n - 1 - m"] show ?thesis by (simp only: bit_drop_bit_eq o_def)
    next
      case False
      then have "LENGTH('a) \<le> LENGTH('a) - n + m" by linarith
      then show ?thesis by (simp only: bit_drop_bit_eq o_def) (metis bit_imp_le_length not_le)
    qed
  qed
qed

lemma prefix_eq_octets4:
  "n \<le> 32 \<Longrightarrow> prefix_eq (octets4 a) (octets4 b) n \<longleftrightarrow> drop_bit (32 - n) a = drop_bit (32 - n) b"
  using drop_bit_eq_bits [of n a b] by (simp add: prefix_eq_bits bit_at_octets4)

lemma prefix_eq_octets6:
  "n \<le> 128 \<Longrightarrow> prefix_eq (octets6 a) (octets6 b) n \<longleftrightarrow> drop_bit (128 - n) a = drop_bit (128 - n) b"
  using drop_bit_eq_bits [of n a b] by (simp add: prefix_eq_bits bit_at_octets6)

section \<open>Which addresses are private\<close>

lemma from_octets4_slice:
  fixes v :: "'a::len word"
  assumes "os = map (\<lambda>i. ucast (drop_bit (s + 8 * (3 - i)) v)) [0..<4]"
  shows "from_octets4 os = ucast (drop_bit s v)"
proof (rule bit_word_eqI)
  fix n :: nat
  assume n: "n < LENGTH(32)"
  have os: "os = [ucast (drop_bit (s + 24) v), ucast (drop_bit (s + 16) v),
                  ucast (drop_bit (s + 8) v), ucast (drop_bit s v)]"
    unfolding assms by (simp add: upt_conv_Cons)
  have "n < 8 \<or> 8 \<le> n \<and> n < 16 \<or> 16 \<le> n \<and> n < 24 \<or> 24 \<le> n" by linarith
  then show "bit (from_octets4 os) n = bit (ucast (drop_bit s v) :: 32 word) n"
    using n unfolding os from_octets4_def
    by (elim disjE) (auto simp: bit_or_iff bit_push_bit_iff bit_ucast_iff bit_drop_bit_eq)
qed

lemma from_octets4_low: "from_octets4 (drop 12 (octets6 v)) = ucast v"
  using from_octets4_slice [where s = 0 and v = v, OF refl]
  by (simp add: octets6_def upt_conv_Cons)

lemma from_octets4_6to4: "from_octets4 (take 4 (drop 2 (octets6 v))) = ucast (drop_bit 80 v)"
  using from_octets4_slice [where s = 80 and v = v, OF refl]
  by (simp add: octets6_def upt_conv_Cons)

text \<open>The private IPv4 networks, as network and prefix length.\<close>

definition private_networks :: "(32 word \<times> nat) list" where
  "private_networks =
     [(0x00000000, 8), (0x0a000000, 8), (0x64400000, 10), (0x7f000000, 8), (0xa9fe0000, 16),
      (0xac100000, 12), (0xc0000000, 24), (0xc0a80000, 16), (0xc6120000, 15), (0xe0000000, 4),
      (0xf0000000, 4)]"

definition in_network :: "'a::len word \<Rightarrow> 'a word \<times> nat \<Rightarrow> bool" where
  "in_network a net \<longleftrightarrow>
     drop_bit (LENGTH('a) - snd net) a = drop_bit (LENGTH('a) - snd net) (fst net)"

lemma unat_octets4:
  "i < 4 \<Longrightarrow> unat (octets4 a ! i) = unat a div 2 ^ (8 * (3 - i)) mod 256"
  by (simp only: octets4_def nth_map length_upt nth_upt unsigned_ucast_eq unat_drop_bit_eq, simp only: drop_bit_eq_div take_bit_eq_mod) simp

lemma in_network_unat:
  "in_network a (net, n) \<longleftrightarrow> unat a div 2 ^ (32 - n) = unat net div 2 ^ (32 - n)"
  for a :: "32 word"
  by (simp only: in_network_def word_unat_eq_iff unat_drop_bit_eq fst_conv snd_conv)
     (simp add: drop_bit_eq_div)

lemma octet_eq: "octets4 a ! i = w \<longleftrightarrow> unat (octets4 a ! i) = unat w"
  by (simp add: word_unat_eq_iff)

lemma private_predicates:
  "v4_is_loopback a \<longleftrightarrow> in_network a (0x7f000000, 8)"
  "v4_is_link_local a \<longleftrightarrow> in_network a (0xa9fe0000, 16)"
  "v4_is_private a \<longleftrightarrow> in_network a (0x0a000000, 8) \<or> in_network a (0xac100000, 12)
     \<or> in_network a (0xc0a80000, 16)"
proof -
  define N where "N = unat a"
  have N: "N < 4294967296" using unsigned_less [of a, where 'a = nat] by (simp add: N_def)
  have o: "unat (octets4 a ! 0) = N div 16777216" "unat (octets4 a ! Suc 0) = N div 65536 mod 256"
    using N by (simp_all add: unat_octets4 N_def [symmetric])
  have two: "N div 16777216 = p \<and> N div 65536 mod 256 = q \<longleftrightarrow> N div 65536 = 256 * p + q"
    if "q < 256" for p q
    using that by (auto simp: div_mult2_eq [of N 65536 256, simplified])
  show "v4_is_loopback a \<longleftrightarrow> in_network a (0x7f000000, 8)"
    by (simp add: v4_is_loopback_def octet_eq o in_network_unat N_def [symmetric])
  show "v4_is_link_local a \<longleftrightarrow> in_network a (0xa9fe0000, 16)"
    using two [of 254 169]
    by (simp add: v4_is_link_local_def octet_eq o in_network_unat N_def [symmetric])
  have "N div 16777216 = 172 \<and> 16 \<le> N div 65536 mod 256 \<and> N div 65536 mod 256 \<le> 31
      \<longleftrightarrow> N div 1048576 = 2753"
  proof -
    define M where "M = N div 65536"
    have "N div 16777216 = M div 256" "N div 1048576 = M div 16"
      by (simp_all add: M_def div_mult2_eq [symmetric])
    moreover have "M div 256 = 172 \<and> 16 \<le> M mod 256 \<and> M mod 256 \<le> 31 \<longleftrightarrow> M div 16 = 2753"
    proof
      assume "M div 256 = 172 \<and> 16 \<le> M mod 256 \<and> M mod 256 \<le> 31"
      moreover have "M = 256 * (M div 256) + M mod 256" by simp
      ultimately have "44048 \<le> M" "M < 44064" by linarith+
      then show "M div 16 = 2753" by (intro div_nat_eqI) simp_all
    next
      assume "M div 16 = 2753"
      then have "44048 \<le> M" "M < 44064" by linarith+
      then have q: "M div 256 = 172" by (intro div_nat_eqI) simp_all
      have "M = 256 * (M div 256) + M mod 256" by simp
      with q \<open>44048 \<le> M\<close> \<open>M < 44064\<close>
      have "16 \<le> M mod 256" "M mod 256 \<le> 31" by linarith+
      with q show "M div 256 = 172 \<and> 16 \<le> M mod 256 \<and> M mod 256 \<le> 31" by blast
    qed
    ultimately show ?thesis by (simp add: M_def [symmetric])
  qed
  then show "v4_is_private a \<longleftrightarrow> in_network a (0x0a000000, 8) \<or> in_network a (0xac100000, 12)
     \<or> in_network a (0xc0a80000, 16)"
    using two [of 168 192]
    by (simp add: v4_is_private_def octet_eq o word_le_nat_alt in_network_unat N_def [symmetric])
qed

lemma in_v4_network:
  assumes "octets4 net = os" "n \<le> 32"
  shows "in_v4 a (os, n) \<longleftrightarrow> in_network a (net, n)"
  using assms(2) prefix_eq_octets4 [of n net a] by (auto simp: in_v4_def in_network_def assms(1) [symmetric])

lemma private_v4_networks:
  "list_ex (in_v4 a) private_v4 \<longleftrightarrow>
     list_ex (in_network a)
       [(0x00000000, 8), (0x64400000, 10), (0xc0000000, 24), (0xc6120000, 15), (0xe0000000, 4),
        (0xf0000000, 4)]"
proof -
  have "octets4 0 = [0, 0, 0, 0]" "octets4 0x64400000 = [100, 64, 0, 0]"
    "octets4 0xc0000000 = [192, 0, 0, 0]" "octets4 0xc6120000 = [198, 18, 0, 0]"
    "octets4 0xe0000000 = [224, 0, 0, 0]" "octets4 0xf0000000 = [240, 0, 0, 0]"
    by (simp_all add: octets4_def upt_conv_Cons drop_bit_eq_div)
  from this [THEN in_v4_network] show ?thesis by (simp add: private_v4_def)
qed

lemma is_private_v4_networks: "is_private_v4 a \<longleftrightarrow> list_ex (in_network a) private_networks"
proof -
  have "in_network 0 ((0x00000000, 8) :: 32 word \<times> nat)"
    "in_network 0xffffffff ((0xf0000000, 4) :: 32 word \<times> nat)"
    by (simp_all add: in_network_unat)
  then show ?thesis
    by (auto simp: is_private_v4_def private_predicates private_v4_networks private_networks_def)
qed


text \<open>
  The IPv4 address an IPv6 address carries, by the bits: IPv4-mapped, IPv4-compatible
  (but for the unspecified and the loopback address), NAT64's well-known prefix, 6to4.
\<close>

definition carried_v4 :: "128 word \<Rightarrow> 32 word option" where
  "carried_v4 v =
     (if drop_bit 32 v = 0xffff \<or> drop_bit 32 v = 0 \<and> v \<noteq> 0 \<and> v \<noteq> 1
         \<or> drop_bit 32 v = push_bit 64 0x64ff9b
      then Some (ucast v)
      else if drop_bit 112 v = 0x2002 then Some (ucast (drop_bit 80 v))
      else None)"

definition private_networks6 :: "(128 word \<times> nat) list" where
  "private_networks6 =
     [(push_bit 112 0xfc00, 7), (push_bit 112 0xfe80, 10), (push_bit 112 0xfec0, 10),
      (push_bit 112 0xff00, 8), (push_bit 80 0x64ff9b0001, 48)]"

lemma unat_segments:
  "i < 8 \<Longrightarrow> unat (segments a ! i) = unat a div 2 ^ (16 * (7 - i)) mod 65536"
  by (simp only: segments_def nth_map length_upt nth_upt unsigned_ucast_eq unat_drop_bit_eq,
      simp only: drop_bit_eq_div take_bit_eq_mod) simp

lemma digit_step: "q < (65536::nat) \<Longrightarrow> x mod 65536 = q \<and> x div 65536 = p \<longleftrightarrow> x = 65536 * p + q"
  by auto

lemma take_6: "length xs = 8 \<Longrightarrow> take 6 xs = [xs ! 0, xs ! 1, xs ! 2, xs ! 3, xs ! 4, xs ! 5]"
  by (auto simp: list_eq_iff_nth_eq less_Suc_eq numeral_eq_Suc)

lemma segments_prefix:
  "take 6 (segments v) = [a, b, 0, 0, 0, 0] \<longleftrightarrow>
     unat (drop_bit 32 v) = (unat a * 65536 + unat b) * 2 ^ 64"
proof -
  let ?N = "unat v"
  define x where "x = ?N div 2 ^ 32"
  have x: "x < 2 ^ 96"
    using unsigned_less [of v, where 'a = nat] by (simp add: x_def less_mult_imp_div_less)
  have d: "?N div 2 ^ (16 * (7 - i)) = x div 65536 ^ (5 - i)" if "i < 6" for i
  proof -
    have "16 * (7 - i) = 32 + 16 * (5 - i)" using that by simp
    then show ?thesis
      by (simp only: x_def div_mult2_eq [symmetric] power_add power_mult) simp
  qed
  have s: "segments v ! i = w \<longleftrightarrow> x div 65536 ^ (5 - i) mod 65536 = unat w" if "i < 6" for i w
    using that d [OF that] by (simp only: word_unat_eq_iff unat_segments)
  have lt: "unat w < 65536" for w :: "16 word" using unsigned_less [of w, where 'a = nat] by simp
  have "take 6 (segments v) = [a, b, 0, 0, 0, 0] \<longleftrightarrow>
      x mod 65536 = 0 \<and> x div 65536 mod 65536 = 0 \<and> x div 65536 ^ 2 mod 65536 = 0 \<and>
      x div 65536 ^ 3 mod 65536 = 0 \<and> x div 65536 ^ 4 mod 65536 = unat b \<and>
      x div 65536 ^ 5 mod 65536 = unat a"
    by (simp add: take_6 s) blast
  also have "\<dots> \<longleftrightarrow> x mod 2 ^ 64 = 0 \<and> x div 2 ^ 64 = unat a * 65536 + unat b"
  proof -
    have hi: "x div 65536 ^ 5 < 65536" using x by (simp add: less_mult_imp_div_less)
    have A: "x mod 2 ^ 64 = 0 \<longleftrightarrow> x mod 65536 = 0 \<and> x div 65536 mod 65536 = 0
        \<and> x div 65536 ^ 2 mod 65536 = 0 \<and> x div 65536 ^ 3 mod 65536 = 0"
      using mod_mult2_eq [of x "65536" "281474976710656"]
        mod_mult2_eq [of "x div 65536" "65536" "4294967296"]
        mod_mult2_eq [of "x div 65536 ^ 2" "65536" "65536"]
      by (simp add: div_mult2_eq [symmetric]) blast
    have B: "x div 2 ^ 64 = unat a * 65536 + unat b \<longleftrightarrow>
        x div 65536 ^ 4 mod 65536 = unat b \<and> x div 65536 ^ 5 mod 65536 = unat a"
      using digit_step [OF lt [of b], of "x div 65536 ^ 4" "unat a"] hi
      by (simp add: div_mult2_eq [symmetric] mult.commute)
    show ?thesis unfolding A B by (simp only: conj_assoc)
  qed
  also have "\<dots> \<longleftrightarrow> x = (unat a * 65536 + unat b) * 2 ^ 64"
    by auto
  finally show ?thesis
    by (simp only: x_def unat_drop_bit_eq) (simp only: drop_bit_eq_div)
qed


lemma from_segments_private:
  "from_segments ([0xfc00, 0, 0] @ [0, 0, 0, 0, 0]) = push_bit 112 0xfc00"
  "from_segments ([0xfe80, 0, 0] @ [0, 0, 0, 0, 0]) = push_bit 112 0xfe80"
  "from_segments ([0xfec0, 0, 0] @ [0, 0, 0, 0, 0]) = push_bit 112 0xfec0"
  "from_segments ([0xff00, 0, 0] @ [0, 0, 0, 0, 0]) = push_bit 112 0xff00"
  "from_segments ([0x0064, 0xff9b, 0x0001] @ [0, 0, 0, 0, 0]) = push_bit 80 0x64ff9b0001"
  by (simp_all add: from_segments_def)

lemma in_v6_network:
  assumes "from_segments (ss @ [0, 0, 0, 0, 0]) = net" "n \<le> 128"
  shows "in_v6 a (ss, n) \<longleftrightarrow> in_network a (net, n)"
  using assms(2) prefix_eq_octets6 [of n net a]
  by (auto simp: in_v6_def in_network_def assms(1) [symmetric])

lemma private_v6_networks: "list_ex (in_v6 a) private_v6 \<longleftrightarrow> list_ex (in_network a) private_networks6"
  using from_segments_private [THEN in_v6_network, where a = a]
  by (simp add: private_v6_def private_networks6_def)

lemma embedded_v4_carried: "embedded_v4 v = carried_v4 v"
proof -
  have z: "take 6 (segments v) = [0, 0, 0, 0, 0, 0] \<longleftrightarrow> drop_bit 32 v = 0"
    unfolding segments_prefix by (simp add: word_unat_eq_iff)
  have n: "take 6 (segments v) = [0x64, 0xff9b, 0, 0, 0, 0] \<longleftrightarrow> drop_bit 32 v = push_bit 64 0x64ff9b"
    unfolding segments_prefix by (simp add: word_unat_eq_iff)
  have f: "segments v ! 0 = 0x2002 \<longleftrightarrow> drop_bit 112 v = 0x2002"
  proof -
    have "unat v div 2 ^ 112 < 65536"
      using unsigned_less [of v, where 'a = nat] by (simp add: less_mult_imp_div_less)
    then show ?thesis
      by (simp add: word_unat_eq_iff unat_segments drop_bit_eq_div unat_div_distrib)
  qed
  have low: "(segments v ! 6 \<noteq> 0 \<or> 1 < segments v ! 7) \<longleftrightarrow> v \<noteq> 0 \<and> v \<noteq> 1" if "drop_bit 32 v = 0"
  proof -
    from that have "unat v div 2 ^ 32 = 0"
      using unat_drop_bit_eq [of 32 v] by (simp only: drop_bit_eq_div unat_0)
    then have lt: "unat v < 4294967296" by (simp add: div_eq_0_iff)
    have "segments v ! 6 = 0 \<longleftrightarrow> unat v div 65536 = 0"
      "1 < segments v ! 7 \<longleftrightarrow> 1 < unat v mod 65536"
      using lt by (simp_all add: word_unat_eq_iff word_less_nat_alt unat_segments less_mult_imp_div_less)
    moreover have "v = 0 \<longleftrightarrow> unat v = 0" "v = 1 \<longleftrightarrow> unat v = 1"
      by (simp_all add: word_unat_eq_iff)
    moreover have "(unat v div 65536 \<noteq> 0 \<or> 1 < unat v mod 65536) \<longleftrightarrow> unat v \<noteq> 0 \<and> unat v \<noteq> 1"
      by (metis One_nat_def div_eq_0_iff gr0I less_one mod_less not_less_less_Suc_eq
        not_less_eq zero_less_numeral div_less one_less_numeral_iff semiring_norm(76) linorder_neqE_nat less_Suc_eq Suc_lessI)
    ultimately show ?thesis by simp
  qed
  have c: "(take 6 (segments v) = [0, 0, 0, 0, 0, 0] \<and> (segments v ! 6 \<noteq> 0 \<or> 1 < segments v ! 7))
      \<longleftrightarrow> (drop_bit 32 v = 0 \<and> v \<noteq> 0 \<and> v \<noteq> 1)"
    using z low by blast
  have d: "drop_bit 112 v \<noteq> 0x2002" if "drop_bit 32 v = 0"
  proof -
    from that have "drop_bit 80 (drop_bit 32 v) = 0" by simp
    then show ?thesis by (simp only: drop_bit_drop_bit) simp
  qed
  show ?thesis
    unfolding embedded_v4_def carried_v4_def Let_def c n f from_octets4_low from_octets4_6to4
      to_ipv4_mapped_def
    using d by (cases "drop_bit 32 v = 0") (simp_all split: if_splits option.splits)
qed

text \<open>
  The address guard knows every way to name a private host. An IPv4 address is refused
  exactly when it lies in one of the eleven private, loopback, link-local, shared or
  reserved networks; an IPv6 address is refused exactly when the IPv4 address it carries
  (mapped, compatible, NAT64 or 6to4) is, or, carrying none, when it is unspecified,
  loopback, or in a private IPv6 network. The code's octet and mask comparisons are here
  stated on the bits of the whole address.
\<close>
theorem private_addresses:
  "is_private_ip_addr ip =
     (case ip of
        V4 a \<Rightarrow> list_ex (in_network a) private_networks
      | V6 v \<Rightarrow>
          (case carried_v4 v of
             Some a \<Rightarrow> list_ex (in_network a) private_networks
           | None \<Rightarrow> v \<in> {0, 1} \<or> list_ex (in_network v) private_networks6))"
proof (cases ip)
  case (V4 a)
  then show ?thesis
    by (simp add: is_private_ip_addr_def unmap_def is_private_ip_def is_private_v4_networks)
next
  case (V6 v)
  have "to_ipv4_mapped v = Some a \<Longrightarrow> embedded_v4 v = Some a" for a
    by (simp add: embedded_v4_def Let_def)
  then show ?thesis
    unfolding V6
    by (auto simp: is_private_ip_addr_def unmap_def is_private_ip_def is_private_v4_networks
        embedded_v4_carried private_v6_networks split: option.splits)
qed

text \<open>
  What a guarded resolver answers, exempted proxies apart: only public addresses, all the
  public ones of the lookup in their order, and a refusal only where the lookup found
  addresses and none of them is public.
\<close>

lemma guarded_resolve_public:
  assumes "case gr_proxy_host g of Some p \<Rightarrow> \<not> eq_ignore_ascii_case p host | None \<Rightarrow> True"
    and "host_addrs (gr_fixed g) lookup host = Inr addrs"
  shows "guarded_resolve g lookup host =
     (if addrs \<noteq> [] \<and> list_all is_private_ip_addr addrs
      then Inl (Private_Address host (hd addrs) (gr_hint g))
      else Inr (filter (\<lambda>a. \<not> is_private_ip_addr a) addrs))"
proof (cases "filter (\<lambda>a. \<not> is_private_ip_addr a) addrs")
  case Nil
  then have "list_all is_private_ip_addr addrs" by (auto simp: filter_empty_conv list_all_iff)
  with Nil assms show ?thesis
    by (cases addrs) (auto simp: guarded_resolve_def Let_def split: option.splits)
next
  case (Cons a as)
  then have "\<not> list_all is_private_ip_addr addrs"
    by (metis (no_types, lifting) filter_empty_conv list.distinct(1) list_all_iff)
  with Cons assms show ?thesis
    by (auto simp: guarded_resolve_def Let_def split: option.splits)
qed

text \<open>
  C36: name resolution cannot be used to reach a private host. Whatever the resolver
  answers, a guarded lookup of a host that is not the operator's proxy returns public
  addresses only, and the check made before a proxy fetches a name accepts it only if every
  one of its addresses is public (a literal address is classified before, by the host
  check).
\<close>
theorem resolution_guarded:
  fixes lookup :: "string \<Rightarrow> 'e + ip_addr list"
  shows "(case guarded_resolve g lookup host of
            Inr addrs \<Rightarrow>
              if case gr_proxy_host g of Some p \<Rightarrow> eq_ignore_ascii_case p host | None \<Rightarrow> False
              then True else list_all (\<lambda>a. \<not> is_private_ip_addr a) addrs
          | Inl _ \<Rightarrow> True)
    \<and> (let bare = trim_end_matches CHR '']'' (trim_start_matches CHR ''['' host)
         in check_resolved lookup host fixed = Inr () \<longleftrightarrow>
              (case parse_ip bare of
                 Some _ \<Rightarrow> True
               | None \<Rightarrow>
                   (case host_addrs fixed lookup bare of
                      Inr addrs \<Rightarrow> list_all (\<lambda>a. \<not> is_private_ip_addr a) addrs
                    | Inl _ \<Rightarrow> False)))"
proof
  show "case guarded_resolve g lookup host of
            Inr addrs \<Rightarrow>
              if case gr_proxy_host g of Some p \<Rightarrow> eq_ignore_ascii_case p host | None \<Rightarrow> False
              then True else list_all (\<lambda>a. \<not> is_private_ip_addr a) addrs
          | Inl _ \<Rightarrow> True"
  proof (cases "host_addrs (gr_fixed g) lookup host")
    case (Inl e)
    then show ?thesis by (simp add: guarded_resolve_def Let_def)
  next
    case (Inr addrs)
    show ?thesis
    proof (cases "case gr_proxy_host g of Some p \<Rightarrow> eq_ignore_ascii_case p host | None \<Rightarrow> False")
      case True
      with Inr show ?thesis by (auto simp: guarded_resolve_def Let_def split: option.splits)
    next
      case False
      then have "case gr_proxy_host g of Some p \<Rightarrow> \<not> eq_ignore_ascii_case p host | None \<Rightarrow> True"
        by (auto split: option.splits)
      from guarded_resolve_public [OF this Inr] show ?thesis by (simp add: list_all_iff)
    qed
  qed
  let ?b = "trim_end_matches CHR '']'' (trim_start_matches CHR ''['' host)"
  show "let bare = ?b
         in check_resolved lookup host fixed = Inr () \<longleftrightarrow>
              (case parse_ip bare of
                 Some _ \<Rightarrow> True
               | None \<Rightarrow>
                   (case host_addrs fixed lookup bare of
                      Inr addrs \<Rightarrow> list_all (\<lambda>a. \<not> is_private_ip_addr a) addrs
                    | Inl _ \<Rightarrow> False))"
    by (cases "host_addrs fixed lookup ?b")
       (auto simp: check_resolved_def Let_def list_all_iff find_None_iff find_Some_iff
          split: option.splits)
qed


text \<open>Evaluation of the text form of closed IPv4 addresses.\<close>

lemma read_octets_numeral:
  "read_octets i (numeral n) s =
     (case read_sep CHR ''.'' i (read_number 10 (Some 3) False 255) s of
        None \<Rightarrow> None
      | Some (m, t) \<Rightarrow>
          (case read_octets (Suc i) (pred_numeral n) t of
             None \<Rightarrow> None
           | Some (os, u) \<Rightarrow> Some (of_nat m # os, u)))"
  by (simp only: numeral_eq_Suc read_octets.simps)

lemmas ip_eval = parse_ip_def whole_def read_ip_def read_ipv4_def read_octets_numeral read_sep_def
  read_char_def read_number_def to_digit_def from_octets4_def char_eval

end
