(* ===== verification/Request_Guard.thy ===== *)
theory Request_Guard
  imports Ip_Address "HOL-Library.AList"
begin

text \<open>
  What stands in front of every handler: the trust set for forwarding headers
  (\<open>src/src/proxy.rs\<close>), the rate limiter (\<open>src/src/ratelimit.rs\<close>) and the request-level
  middleware of \<open>src/src/web/middleware.rs\<close> with the two helpers it uses. A header value
  is the option \<open>to_str().ok()\<close> gives, names are lower-case, and several lines of one
  name stay in order. Instants are natural numbers, so their subtraction saturates at zero
  as \<open>duration_since\<close> does. The counters are \<open>u32\<close> and never exceed the configured maximum.
\<close>

section \<open>Trusted proxies\<close>

record cidr =
  cidr_addr :: ip_addr
  cidr_bits :: nat

record trusted_proxies =
  tp_any :: bool
  tp_nets :: "cidr list"

definition private_ranges :: "string list" where
  "private_ranges =
     [''127.0.0.0/8'', ''::1/128'', ''10.0.0.0/8'', ''172.16.0.0/12'', ''192.168.0.0/16'',
      ''169.254.0.0/16'', ''fc00::/7'', ''fe80::/10'']"

definition cidr_parse :: "string \<Rightarrow> cidr option" where
  "cidr_parse spec0 =
     (let spec = trim spec0;
          (addr_s, bits_s) = (case split_once CHR ''/'' spec of
                                Some (a, b) \<Rightarrow> (a, Some b) | None \<Rightarrow> (spec, None))
      in case parse_ip addr_s of
           None \<Rightarrow> None
         | Some addr \<Rightarrow>
             (let max = (if is_ipv4 addr then 32 else 128)
              in case bits_s of
                   None \<Rightarrow> Some \<lparr>cidr_addr = addr, cidr_bits = max\<rparr>
                 | Some b \<Rightarrow>
                     (case parse_uint 8 (trim b) of
                        None \<Rightarrow> None
                      | Some n \<Rightarrow>
                          if max < n then None
                          else Some \<lparr>cidr_addr = addr, cidr_bits = n\<rparr>)))"

definition cidr_contains :: "cidr \<Rightarrow> ip_addr \<Rightarrow> bool" where
  "cidr_contains c ip =
     (case (cidr_addr c, ip) of
        (V4 net, V4 ip) \<Rightarrow> prefix_eq (octets4 net) (octets4 ip) (cidr_bits c)
      | (V6 net, V6 ip) \<Rightarrow> prefix_eq (octets6 net) (octets6 ip) (cidr_bits c)
      | _ \<Rightarrow> False)"

definition add_trusted :: "trusted_proxies \<Rightarrow> string \<Rightarrow> trusted_proxies" where
  "add_trusted out spec0 =
     (let spec = trim spec0; key = to_ascii_lowercase spec
      in if spec = [] then out
         else if key \<in> set [''*'', ''any'', ''all''] then out\<lparr>tp_any := True\<rparr>
         else if key \<in> set [''private'', ''local'']
         then out\<lparr>tp_nets := tp_nets out @ List.map_filter cidr_parse private_ranges\<rparr>
         else case cidr_parse spec of
                Some c \<Rightarrow> out\<lparr>tp_nets := tp_nets out @ [c]\<rparr>
              | None \<Rightarrow> out)"

definition trusted_new :: "string list \<Rightarrow> trusted_proxies" where
  "trusted_new specs = foldl add_trusted \<lparr>tp_any = False, tp_nets = []\<rparr> specs"

definition trusts_none :: "trusted_proxies \<Rightarrow> bool" where
  "trusts_none tp \<longleftrightarrow> \<not> tp_any tp \<and> tp_nets tp = []"

definition trusts :: "trusted_proxies \<Rightarrow> ip_addr \<Rightarrow> bool" where
  "trusts tp ip =
     (if tp_any tp then True else list_ex (\<lambda>n. cidr_contains n (unmap ip)) (tp_nets tp))"

section \<open>Requests and their headers\<close>

type_synonym headers = "(string \<times> string option) list"

definition header_get_all :: "headers \<Rightarrow> string \<Rightarrow> string option list" where
  "header_get_all hs name = map snd (filter (\<lambda>(n, _). n = name) hs)"

definition header_get :: "headers \<Rightarrow> string \<Rightarrow> string option" where
  "header_get hs name =
     (case header_get_all hs name of [] \<Rightarrow> None | v # _ \<Rightarrow> v)"

definition header_remove :: "string \<Rightarrow> headers \<Rightarrow> headers" where
  "header_remove name hs = filter (\<lambda>(n, _). n \<noteq> name) hs"

definition contains_key :: "headers \<Rightarrow> string \<Rightarrow> bool" where
  "contains_key hs name \<longleftrightarrow> header_get_all hs name \<noteq> []"

record request =
  rq_method :: string
  rq_path :: string
  rq_headers :: headers
  rq_peer :: "ip_addr option"
  rq_authority :: "string option"

text \<open>\<open>forwarded\<close>: the rightmost entry of the last line of a forwarding header.\<close>

definition forwarded :: "headers \<Rightarrow> string \<Rightarrow> string option" where
  "forwarded hs name =
     (case rev (header_get_all hs name) of
        Some s # _ \<Rightarrow>
          (let e = trim (last (split CHR '','' s)) in if e = [] then None else Some e)
      | _ \<Rightarrow> None)"

definition normalize_host :: "string \<Rightarrow> string" where
  "normalize_host value =
     (let v = trim value;
          host = (case v of
                    c # rest \<Rightarrow>
                      if c = CHR ''['' then hd (split CHR '']'' rest)
                      else (case rsplit_once CHR '':'' v of
                              Some (h, port) \<Rightarrow>
                                if CHR '':'' \<notin> set h \<and> list_all is_ascii_digit port then h else v
                            | None \<Rightarrow> v)
                  | [] \<Rightarrow> v)
      in to_ascii_lowercase (trim_end_matches CHR ''.'' host))"

section \<open>The fixed-window limiter\<close>

record bucket =
  window_start :: nat
  bucket_count :: nat

record rate_limiter =
  rl_buckets :: "(ip_addr \<times> bucket) list"
  rl_sweep_at :: nat
  rl_max :: nat
  rl_window :: nat

definition limiter_new :: "nat \<Rightarrow> nat \<Rightarrow> rate_limiter" where
  "limiter_new max_requests window =
     \<lparr>rl_buckets = [], rl_sweep_at = 0, rl_max = max max_requests 1, rl_window = window\<rparr>"

definition bucket_key :: "ip_addr \<Rightarrow> ip_addr" where
  "bucket_key ip =
     (case unmap ip of
        V6 v6 \<Rightarrow> V6 (from_segments (take 4 (segments v6) @ [0, 0, 0, 0]))
      | V4 v4 \<Rightarrow> V4 v4)"

definition is_exhausted :: "rate_limiter \<Rightarrow> ip_addr \<Rightarrow> nat \<Rightarrow> bool" where
  "is_exhausted l ip now =
     (case map_of (rl_buckets l) (bucket_key ip) of
        Some b \<Rightarrow> now - window_start b < rl_window l \<and> rl_max l \<le> bucket_count b
      | None \<Rightarrow> False)"

definition sweep_buckets :: "rate_limiter \<Rightarrow> nat \<Rightarrow> rate_limiter" where
  "sweep_buckets l now =
     (if rl_sweep_at l \<le> length (rl_buckets l)
      then let kept = filter (\<lambda>(_, b). now - window_start b < rl_window l) (rl_buckets l)
           in l\<lparr>rl_buckets := kept, rl_sweep_at := length kept * 2 + 64\<rparr>
      else l)"

definition check_at :: "rate_limiter \<Rightarrow> ip_addr \<Rightarrow> nat \<Rightarrow> bool \<times> rate_limiter" where
  "check_at l0 ip0 now =
     (let ip = bucket_key ip0; l = sweep_buckets l0 now;
          b0 = (case map_of (rl_buckets l) ip of
                  Some b \<Rightarrow> b | None \<Rightarrow> \<lparr>window_start = now, bucket_count = 0\<rparr>);
          b = (if rl_window l \<le> now - window_start b0
               then \<lparr>window_start = now, bucket_count = 0\<rparr> else b0)
      in if rl_max l \<le> bucket_count b
         then (False, l\<lparr>rl_buckets := AList.update ip b (rl_buckets l)\<rparr>)
         else (True, l\<lparr>rl_buckets :=
                 AList.update ip (b\<lparr>bucket_count := bucket_count b + 1\<rparr>) (rl_buckets l)\<rparr>))"

section \<open>Who the client is\<close>

definition forwarded_addr :: "string \<Rightarrow> ip_addr option" where
  "forwarded_addr entry0 =
     (let entry = trim entry0
      in map_option unmap
           (case parse_ip entry of Some ip \<Rightarrow> Some ip | None \<Rightarrow> parse_socket_ip entry))"

text \<open>The walk over the chain, given from the right.\<close>

fun walk_chain :: "trusted_proxies \<Rightarrow> ip_addr \<Rightarrow> string list \<Rightarrow> ip_addr" where
  "walk_chain tp client [] = client"
| "walk_chain tp client (entry # rest) =
     (case forwarded_addr entry of
        None \<Rightarrow> client
      | Some ip \<Rightarrow> if \<not> trusts tp ip then ip else walk_chain tp ip rest)"

definition forwarded_chain :: "headers \<Rightarrow> string list" where
  "forwarded_chain hs =
     filter (\<lambda>e. trim e \<noteq> [])
       (concat (map (split CHR '','')
         (List.map_filter id (header_get_all hs ''x-forwarded-for''))))"

definition client_ip :: "headers \<Rightarrow> ip_addr option \<Rightarrow> trusted_proxies \<Rightarrow> ip_addr option" where
  "client_ip hs peer0 tp =
     (case peer0 of
        None \<Rightarrow> None
      | Some p \<Rightarrow>
          (let peer = unmap p
           in if \<not> trusts tp peer then Some peer
              else let chain = forwarded_chain hs
                   in if chain \<noteq> [] then Some (walk_chain tp peer (rev chain))
                      else case Option.bind (header_get hs ''x-real-ip'') forwarded_addr of
                             Some ip \<Rightarrow> Some ip
                           | None \<Rightarrow> Some peer))"

section \<open>The middleware\<close>

record throttle =
  th_requests :: rate_limiter
  th_auth_failures :: "rate_limiter option"
  th_trusted :: trusted_proxies

definition carries_credential :: "headers \<Rightarrow> bool" where
  "carries_credential hs \<longleftrightarrow>
     contains_key hs ''authorization'' \<or> contains_key hs ''x-nuget-apikey''"

text \<open>
  What becomes of a request: a refusal with its status, or the answer of the handler behind.
  \<open>enforce\<close> takes the handler's status and the instants at which it reads the clock.
\<close>

datatype guard_outcome = Refused nat | Passed nat

definition enforce ::
    "throttle \<Rightarrow> request \<Rightarrow> nat \<Rightarrow> nat \<Rightarrow> nat \<Rightarrow> nat \<Rightarrow> guard_outcome \<times> throttle" where
  "enforce th rq now now' now'' handler_status =
     (case client_ip (rq_headers rq) (rq_peer rq) (th_trusted th) of
        None \<Rightarrow> (Passed handler_status, th)
      | Some ip \<Rightarrow>
          (let (ok, requests) = check_at (th_requests th) ip now;
               th = th\<lparr>th_requests := requests\<rparr>
           in if \<not> ok then (Refused 429, th)
              else case (if carries_credential (rq_headers rq) then th_auth_failures th else None) of
                     None \<Rightarrow> (Passed handler_status, th)
                   | Some failures \<Rightarrow>
                       if is_exhausted failures ip now' then (Refused 429, th)
                       else if handler_status = 401
                       then (Passed handler_status,
                             th\<lparr>th_auth_failures := Some (snd (check_at failures ip now''))\<rparr>)
                       else (Passed handler_status, th)))"

definition forwarded_headers :: "string list" where
  "forwarded_headers =
     [''x-forwarded-for'', ''x-forwarded-host'', ''x-forwarded-proto'', ''x-real-ip'',
      ''forwarded'']"

definition adopt_authority_as_host :: "request \<Rightarrow> request" where
  "adopt_authority_as_host rq =
     (if contains_key (rq_headers rq) ''host'' then rq
      else case rq_authority rq of
             None \<Rightarrow> rq
           | Some a \<Rightarrow> rq\<lparr>rq_headers := rq_headers rq @ [(''host'', Some a)]\<rparr>)"

definition filter_forwarded_headers :: "trusted_proxies \<Rightarrow> request \<Rightarrow> request" where
  "filter_forwarded_headers tp rq =
     (let trust = (case rq_peer rq of Some ip \<Rightarrow> trusts tp ip | None \<Rightarrow> False);
          rq = (if trust then rq
                else rq\<lparr>rq_headers := fold header_remove forwarded_headers (rq_headers rq)\<rparr>)
      in adopt_authority_as_host rq)"

definition request_guard :: "string list option \<Rightarrow> request \<Rightarrow> guard_outcome option" where
  "request_guard allowed rq =
     (let path = rq_path rq;
          exempt = (path = ''/health'' \<or> starts_with path ''/health/'' \<or> path = ''/metrics'');
          host = (case forwarded (rq_headers rq) ''x-forwarded-host'' of
                    Some h \<Rightarrow> Some h | None \<Rightarrow> header_get (rq_headers rq) ''host'');
          misdirected =
            (case allowed of
               None \<Rightarrow> False
             | Some hosts \<Rightarrow>
                 \<not> exempt \<and> (case host of
                               Some h \<Rightarrow> normalize_host h \<notin> set hosts | None \<Rightarrow> True));
          safe = rq_method rq \<in> set [''GET'', ''HEAD'', ''OPTIONS'', ''TRACE''];
          cross_site = (case header_get (rq_headers rq) ''sec-fetch-site'' of
                          Some v \<Rightarrow> eq_ignore_ascii_case (trim v) ''cross-site'' | None \<Rightarrow> False)
      in if misdirected then Some (Refused 421)
         else if \<not> safe \<and> cross_site then Some (Refused 403)
         else None)"

text \<open>The base URL's scheme and host, where no base URL is configured.\<close>

definition base_of_request :: "string \<Rightarrow> headers \<Rightarrow> string \<times> string" where
  "base_of_request own_scheme hs =
     (let scheme = (case map_option to_ascii_lowercase (forwarded hs ''x-forwarded-proto'') of
                      Some s \<Rightarrow> if s = ''http'' \<or> s = ''https'' then s else own_scheme
                    | None \<Rightarrow> own_scheme);
          host = (case forwarded hs ''x-forwarded-host'' of
                    Some h \<Rightarrow> h
                  | None \<Rightarrow> (case header_get hs ''host'' of Some h \<Rightarrow> h | None \<Rightarrow> ''localhost''))
      in (scheme, host))"


section \<open>The limiter against its windows\<close>

text \<open>
  What a limiter knows of a client at an instant: the start and count of its window, if
  one is running. Sweeping expired buckets does not change it.
\<close>

definition running :: "rate_limiter \<Rightarrow> nat \<Rightarrow> ip_addr \<Rightarrow> (nat \<times> nat) option" where
  "running l now k =
     (case map_of (rl_buckets l) k of
        Some b \<Rightarrow> if now - window_start b < rl_window l
                  then Some (window_start b, bucket_count b) else None
      | None \<Rightarrow> None)"

definition limiter_ok :: "rate_limiter \<Rightarrow> nat \<Rightarrow> bool" where
  "limiter_ok l now \<longleftrightarrow> 1 \<le> rl_max l \<and> distinct (map fst (rl_buckets l))
     \<and> (\<forall>(k, b) \<in> set (rl_buckets l). window_start b \<le> now \<and> bucket_count b \<le> rl_max l)"

text \<open>The ideal limiter of one client: a window that runs, is counted in, and ends.\<close>

definition expire :: "nat \<Rightarrow> nat \<Rightarrow> (nat \<times> nat) option \<Rightarrow> (nat \<times> nat) option" where
  "expire w now v = (case v of Some (s, c) \<Rightarrow> if now - s < w then v else None | None \<Rightarrow> None)"

definition admit :: "nat \<Rightarrow> nat \<Rightarrow> (nat \<times> nat) option \<Rightarrow> bool \<times> (nat \<times> nat)" where
  "admit m now v =
     (case v of None \<Rightarrow> (True, (now, 1))
      | Some (s, c) \<Rightarrow> if m \<le> c then (False, (s, c)) else (True, (s, c + 1)))"

lemma distinct_filter_keys: "distinct (map fst xs) \<Longrightarrow> distinct (map fst (filter P xs))"
  by (induction xs) auto

lemma map_of_filter_value:
  "distinct (map fst xs) \<Longrightarrow>
   map_of (filter (\<lambda>(k, b). P b) xs) k =
     (case map_of xs k of Some b \<Rightarrow> if P b then Some b else None | None \<Rightarrow> None)"
proof (induction xs)
  case (Cons x xs)
  then have "map_of xs (fst x) = None" by (simp add: map_of_eq_None_iff)
  with Cons show ?case by (cases x) (auto split: option.splits)
qed simp

lemma sweep_fields [simp]:
  "rl_max (sweep_buckets l now) = rl_max l" "rl_window (sweep_buckets l now) = rl_window l"
  by (simp_all add: sweep_buckets_def Let_def)

lemma running_sweep:
  "distinct (map fst (rl_buckets l)) \<Longrightarrow> running (sweep_buckets l now) now k = running l now k"
  by (simp add: running_def sweep_buckets_def Let_def map_of_filter_value split: option.splits)

lemma running_later:
  "limiter_ok l now \<Longrightarrow> now \<le> now' \<Longrightarrow> running l now' k = expire (rl_window l) now' (running l now k)"
  by (auto simp: running_def expire_def split: option.splits)

lemma limiter_ok_later: "limiter_ok l now \<Longrightarrow> now \<le> now' \<Longrightarrow> limiter_ok l now'"
  by (auto simp: limiter_ok_def)

lemma limiter_ok_sweep: "limiter_ok l now \<Longrightarrow> limiter_ok (sweep_buckets l now) now"
  by (auto simp: limiter_ok_def sweep_buckets_def Let_def distinct_filter_keys)

lemma limiter_ok_new: "limiter_ok (limiter_new m w) now"
  by (simp add: limiter_ok_def limiter_new_def)

lemma check_at_fields [simp]:
  "rl_max (snd (check_at l ip now)) = rl_max l"
  "rl_window (snd (check_at l ip now)) = rl_window l"
  by (simp_all add: check_at_def Let_def)

lemma running_update:
  "running (l\<lparr>rl_buckets := AList.update k' b (rl_buckets l)\<rparr>) now k =
     (if k = k' then (if now - window_start b < rl_window l
                      then Some (window_start b, bucket_count b) else None)
      else running l now k)"
  by (simp add: running_def update_conv' split: option.splits)

lemma limiter_ok_update:
  assumes "limiter_ok l now" "window_start b \<le> now" "bucket_count b \<le> rl_max l"
  shows "limiter_ok (l\<lparr>rl_buckets := AList.update k b (rl_buckets l)\<rparr>) now"
proof -
  have "set (AList.update k b xs) \<subseteq> insert (k, b) (set xs)" for xs
    by (induction xs) auto
  then show ?thesis
    using assms distinct_update [of "rl_buckets l" k b] by (fastforce simp: limiter_ok_def)
qed

text \<open>
  The limiter, its amortised sweep included, is the ideal limiter of the caller's bucket
  and leaves every other bucket's window as it was. (A zero window never runs; the
  configuration refuses it.)
\<close>

lemma check_at_ideal:
  assumes ok: "limiter_ok l now" and w: "0 < rl_window l"
  shows "fst (check_at l ip now) = fst (admit (rl_max l) now (running l now (bucket_key ip)))"
    and "running (snd (check_at l ip now)) now k =
      (if k = bucket_key ip then Some (snd (admit (rl_max l) now (running l now k)))
       else running l now k)"
    and "limiter_ok (snd (check_at l ip now)) now"
proof -
  define ip' where "ip' = bucket_key ip"
  define l' where "l' = sweep_buckets l now"
  define b0 where "b0 = (case map_of (rl_buckets l') ip' of
      Some b \<Rightarrow> b | None \<Rightarrow> \<lparr>window_start = now, bucket_count = 0\<rparr>)"
  define b where "b = (if rl_window l \<le> now - window_start b0
      then \<lparr>window_start = now, bucket_count = 0\<rparr> else b0)"
  define c where "c = (if rl_max l \<le> bucket_count b then b else b\<lparr>bucket_count := bucket_count b + 1\<rparr>)"
  have ok': "limiter_ok l' now" unfolding l'_def using ok by (rule limiter_ok_sweep)
  have run: "running l' now k = running l now k" for k
    unfolding l'_def using ok by (simp add: running_sweep limiter_ok_def)
  have w': "rl_window l' = rl_window l" by (simp add: l'_def)
  have check: "check_at l ip now =
      (bucket_count b < rl_max l, l'\<lparr>rl_buckets := AList.update ip' c (rl_buckets l')\<rparr>)"
    by (auto simp: check_at_def Let_def ip'_def l'_def b0_def b_def c_def)
  have b0: "window_start b0 \<le> now" "bucket_count b0 \<le> rl_max l"
    using ok' by (auto simp: b0_def l'_def limiter_ok_def split: option.splits dest!: map_of_SomeD)
  then have b: "window_start b \<le> now" "bucket_count b \<le> rl_max l" by (auto simp: b_def)
  have m: "1 \<le> rl_max l" using ok by (simp add: limiter_ok_def)
  have adm: "admit (rl_max l) now (running l now ip') =
      (bucket_count b < rl_max l, (window_start c, bucket_count c))"
  proof -
    have "running l now ip' =
        (case map_of (rl_buckets l') ip' of
           Some b \<Rightarrow> if now - window_start b < rl_window l
                     then Some (window_start b, bucket_count b) else None
         | None \<Rightarrow> None)"
      using run [of ip', unfolded running_def [of l'] w'] by simp
    then show ?thesis
      using m w by (auto simp: admit_def b_def b0_def c_def split: option.splits)
  qed
  have live: "now - window_start c < rl_window l"
    using w by (auto simp: c_def b_def)
  show "fst (check_at l ip now) = fst (admit (rl_max l) now (running l now (bucket_key ip)))"
    using adm check by (simp add: ip'_def)
  show "running (snd (check_at l ip now)) now k =
      (if k = bucket_key ip then Some (snd (admit (rl_max l) now (running l now k)))
       else running l now k)"
    using adm live by (auto simp: check running_update run ip'_def w')
  have "limiter_ok (l'\<lparr>rl_buckets := AList.update ip' c (rl_buckets l')\<rparr>) now"
    using ok' by (rule limiter_ok_update) (use b in \<open>auto simp: c_def l'_def\<close>)
  then show "limiter_ok (snd (check_at l ip now)) now" by (simp add: check)
qed

text \<open>The instants at which a bucket's requests were accepted, over a sequence of calls.\<close>

fun accepted :: "rate_limiter \<Rightarrow> (ip_addr \<times> nat) list \<Rightarrow> ip_addr \<Rightarrow> nat list" where
  "accepted l [] k = []"
| "accepted l ((ip, now) # calls) k =
     (let (ok, l') = check_at l ip now
      in (if ok \<and> bucket_key ip = k then [now] else []) @ accepted l' calls k)"

fun limiter_after :: "rate_limiter \<Rightarrow> (ip_addr \<times> nat) list \<Rightarrow> rate_limiter" where
  "limiter_after l [] = l"
| "limiter_after l ((ip, now) # calls) = limiter_after (snd (check_at l ip now)) calls"

text \<open>How many more requests a bucket can have accepted in the interval of a window's length from t.\<close>

definition budget :: "nat \<Rightarrow> nat \<Rightarrow> nat \<Rightarrow> nat \<Rightarrow> (nat \<times> nat) option \<Rightarrow> nat" where
  "budget m w t now v =
     (case v of
        None \<Rightarrow> if t + w \<le> now then 0 else if t \<le> now then m else 2 * m
      | Some (s, c) \<Rightarrow>
          if t + w \<le> s then 0 else if t \<le> s then m - c
          else if t \<le> now then 2 * m - c else 2 * m)"

lemma budget_later:
  assumes "now \<le> now'" "\<forall>(s, c) \<in> set_option v. s \<le> now \<and> c \<le> m"
  shows "budget m w t now' (expire w now' v) \<le> budget m w t now v"
  using assms by (cases v) (auto simp: budget_def expire_def)

lemma budget_admit:
  assumes "admit m now v = (ok, v')" "\<forall>(s, c) \<in> set_option v. s \<le> now \<and> c \<le> m \<and> now < s + w"
    and "1 \<le> m"
  shows "(if ok \<and> t \<le> now \<and> now < t + w then 1 else 0) + budget m w t now (Some v')
     \<le> budget m w t now v"
  using assms by (cases v) (auto simp: admit_def budget_def split: if_splits)

lemma running_bounds:
  assumes "limiter_ok l now" "running l now k = Some (s, c)"
  shows "s \<le> now \<and> c \<le> rl_max l \<and> now < s + rl_window l"
  using assms
  by (fastforce simp: running_def limiter_ok_def split: option.splits if_splits dest!: map_of_SomeD)

lemma accepted_budget:
  assumes "limiter_ok l now" "0 < rl_window l" "sorted (map snd calls)"
    "\<forall>(ip, x) \<in> set calls. now \<le> x"
  shows "length (filter (\<lambda>x. t \<le> x \<and> x < t + rl_window l) (accepted l calls k))
     \<le> budget (rl_max l) (rl_window l) t now (running l now k)"
  using assms
proof (induction calls arbitrary: l now)
  case (Cons call calls)
  obtain ip x where call: "call = (ip, x)" by (cases call)
  let ?l = "snd (check_at l ip x)" and ?m = "rl_max l" and ?w = "rl_window l"
  let ?n = "\<lambda>xs. length (filter (\<lambda>x. t \<le> x \<and> x < t + ?w) xs)"
  from Cons.prems call have le: "now \<le> x" by auto
  have rest: "\<forall>(ip, y) \<in> set calls. x \<le> y" using Cons.prems(3) call by auto
  have ok: "limiter_ok l x" using Cons.prems(1) le by (rule limiter_ok_later)
  note ideal = check_at_ideal [OF ok Cons.prems(2), of ip]
  have IH: "?n (accepted ?l calls k) \<le> budget ?m ?w t x (running ?l x k)"
    using Cons.IH [OF ideal(3)] Cons.prems(2,3) call rest by simp
  have later: "budget ?m ?w t x (running l x k) \<le> budget ?m ?w t now (running l now k)"
    unfolding running_later [OF Cons.prems(1) le]
    by (rule budget_later [OF le]) (auto dest!: running_bounds [OF Cons.prems(1)])
  show ?case
  proof (cases "bucket_key ip = k")
    case False
    then have "?n (accepted l (call # calls) k) = ?n (accepted ?l calls k)"
      by (simp add: call split_beta)
    with IH later False show ?thesis by (simp add: ideal(2))
  next
    case True
    obtain a v' where adm: "admit ?m x (running l x k) = (a, v')"
      by (cases "admit ?m x (running l x k)")
    have fst: "fst (check_at l ip x) = a" using ideal(1) adm True by simp
    have "?n (accepted l (call # calls) k) =
        (if a \<and> t \<le> x \<and> x < t + ?w then 1 else 0) + ?n (accepted ?l calls k)"
      using True fst by (simp add: call split_beta)
    moreover have "running ?l x k = Some v'" using ideal(2) [of k] adm True by simp
    moreover have "(if a \<and> t \<le> x \<and> x < t + ?w then 1 else 0) + budget ?m ?w t x (Some v')
        \<le> budget ?m ?w t x (running l x k)"
    proof (rule budget_admit [OF adm])
      show "1 \<le> ?m" using ok by (simp add: limiter_ok_def)
    qed (auto dest!: running_bounds [OF ok])
    ultimately show ?thesis using IH later by simp
  qed
qed simp

text \<open>A running window's count is of accepted requests since its start.\<close>

lemma accepted_running:
  assumes "limiter_ok l now" "0 < rl_window l" "sorted (map snd calls)"
    "\<forall>(ip, x) \<in> set calls. now \<le> x \<and> x \<le> end"
    and "running (limiter_after l calls) end k = Some (s, c)"
    and "now \<le> end"
  shows "c \<le> length (filter (\<lambda>x. s \<le> x) (accepted l calls k))
     + (case running l now k of Some (s', c') \<Rightarrow> if s' = s then c' else 0 | None \<Rightarrow> 0)"
  using assms
proof (induction calls arbitrary: l now)
  case Nil
  then show ?case
    using running_later [OF Nil(1) Nil(6), of k]
    by (auto simp: expire_def split: option.splits if_splits)
next
  case (Cons call calls)
  obtain ip x where call: "call = (ip, x)" by (cases call)
  let ?l = "snd (check_at l ip x)"
  from Cons.prems call have le: "now \<le> x" "x \<le> end" by auto
  have rest: "\<forall>(ip, y) \<in> set calls. x \<le> y \<and> y \<le> end" using Cons.prems(3,4) call by auto
  have ok: "limiter_ok l x" using Cons.prems(1) le(1) by (rule limiter_ok_later)
  note ideal = check_at_ideal [OF ok Cons.prems(2), of ip]
  have IH: "c \<le> length (filter (\<lambda>x. s \<le> x) (accepted ?l calls k))
     + (case running ?l x k of Some (s', c') \<Rightarrow> if s' = s then c' else 0 | None \<Rightarrow> 0)"
    using Cons.IH [OF ideal(3)] Cons.prems(2,3,5) call le rest by simp
  have exp: "running l x k = expire (rl_window l) x (running l now k)"
    using Cons.prems(1) le(1) by (rule running_later)
  show ?case
  proof (cases "bucket_key ip = k")
    case False
    then have "running ?l x k = running l x k" "accepted l (call # calls) k = accepted ?l calls k"
      by (auto simp: ideal(2) call split_beta)
    with IH exp show ?thesis by (auto simp: expire_def split: option.splits if_splits)
  next
    case True
    obtain a v' where adm: "admit (rl_max l) x (running l x k) = (a, v')"
      by (cases "admit (rl_max l) x (running l x k)")
    have "fst (check_at l ip x) = a" "running ?l x k = Some v'"
      using ideal(1) ideal(2) [of k] adm True by simp_all
    with IH True exp adm running_bounds [OF ok] show ?thesis
      by (auto simp: call split_beta admit_def expire_def split: option.splits if_splits)
  qed
qed


section \<open>The properties\<close>

lemma limiter_after_fields [simp]:
  "rl_max (limiter_after l calls) = rl_max l" "rl_window (limiter_after l calls) = rl_window l"
  by (induction l calls rule: limiter_after.induct) (auto simp: split_beta)

lemma limiter_ok_after:
  assumes "limiter_ok l x" "0 < rl_window l" "sorted (map snd calls)" "x \<le> end"
    "\<forall>(ip, y) \<in> set calls. x \<le> y \<and> y \<le> end"
  shows "limiter_ok (limiter_after l calls) end"
  using assms
proof (induction calls arbitrary: l x)
  case (Cons call calls)
  obtain ip y where call: "call = (ip, y)" by (cases call)
  from Cons.prems call have le: "x \<le> y" "y \<le> end" by auto
  have rest: "\<forall>(ip, z) \<in> set calls. y \<le> z \<and> z \<le> end" using Cons.prems(3,5) call by auto
  have "limiter_ok l y" using Cons.prems(1) le(1) by (rule limiter_ok_later)
  from Cons.IH [OF check_at_ideal(3) [OF this Cons.prems(2)] _ _ le(2) rest]
  show ?case using Cons.prems(2,3) call by simp
qed (auto intro: limiter_ok_later)

lemma length_filter_mono:
  "(\<And>x. P x \<Longrightarrow> Q x) \<Longrightarrow> length (filter P xs) \<le> length (filter Q xs)"
  by (induction xs) (auto simp: le_SucI)

lemma refused_exhausted:
  assumes "0 < w" "sorted (map snd calls)" "\<forall>(ip, x) \<in> set calls. x \<le> now"
    and refused: "\<not> fst (check_at (limiter_after (limiter_new n w) calls) ip now)"
  shows "max n 1 \<le> length (filter (\<lambda>x. now < x + w)
      (accepted (limiter_new n w) calls (bucket_key ip)))"
proof -
  let ?l = "limiter_new n w" and ?k = "bucket_key ip" and ?e = "limiter_after (limiter_new n w) calls"
  have new: "rl_max ?l = max n 1" "rl_window ?l = w" "running ?l 0 k = None" for k
    by (simp_all add: limiter_new_def running_def)
  have calls: "\<forall>(ip, x) \<in> set calls. 0 \<le> x \<and> x \<le> now" using assms(3) by auto
  have oke: "limiter_ok ?e now"
    using limiter_ok_after [OF limiter_ok_new _ assms(2) _ calls] assms(1) by (simp add: new)
  obtain s c where run: "running ?e now ?k = Some (s, c)" and c: "max n 1 \<le> c"
    using check_at_ideal(1) [OF oke, of ip] refused assms(1)
    by (auto simp: admit_def new split: option.splits if_splits)
  have "c \<le> length (filter (\<lambda>x. s \<le> x) (accepted ?l calls ?k))"
    using accepted_running [OF limiter_ok_new _ assms(2) calls run] assms(1) by (simp add: new)
  also have "\<dots> \<le> length (filter (\<lambda>x. now < x + w) (accepted ?l calls ?k))"
  proof -
    have "s \<le> x \<Longrightarrow> now < x + w" for x
      using running_bounds [OF oke run] by (simp add: new)
    then show ?thesis by (rule length_filter_mono)
  qed
  finally show ?thesis using c by simp
qed

text \<open>
  C37: the limiter bounds every client and refuses none early. Over any sequence of
  requests in the order of their instants, whatever the other clients do and whenever the
  table is swept: in any interval as long as the window, a bucket has at most twice the
  configured number accepted (a fixed window's bound), and a request is refused only if
  its bucket had the configured number accepted within the window's length before it.
\<close>
theorem rate_limit_bounds:
  assumes "0 < w" "sorted (map snd (calls @ [(ip, now)]))"
  shows "length (filter (\<lambda>x. t \<le> x \<and> x < t + w) (accepted (limiter_new n w) calls k)) \<le> 2 * max n 1
    \<and> (fst (check_at (limiter_after (limiter_new n w) calls) ip now)
       \<or> max n 1 \<le> length (filter (\<lambda>x. now < x + w)
           (accepted (limiter_new n w) calls (bucket_key ip))))"
proof -
  have new: "rl_max (limiter_new n w) = max n 1" "rl_window (limiter_new n w) = w"
    "running (limiter_new n w) 0 k = None"
    by (simp_all add: limiter_new_def running_def)
  have calls: "sorted (map snd calls)" "\<forall>(ip, x) \<in> set calls. x \<le> now"
    using assms(2) by (auto simp: sorted_append)
  have "length (filter (\<lambda>x. t \<le> x \<and> x < t + w) (accepted (limiter_new n w) calls k)) \<le> 2 * max n 1"
    using accepted_budget [OF limiter_ok_new, of n w calls 0 t k] calls(1) assms(1)
    by (simp add: new budget_def split: if_splits)
  then show ?thesis using refused_exhausted [OF assms(1) calls, of n ip] by blast
qed

theorem rate_limit_bounds_witness:
  "length (filter (\<lambda>x. (0::nat) \<le> x \<and> x < 60)
     (accepted (limiter_new 2 60) [(V4 1, 0), (V4 1, 1), (V4 1, 2)] (V4 1))) \<le> 4"
  using rate_limit_bounds [of 60 "[(V4 1, 0), (V4 1, 1), (V4 1, 2)]" "V4 1" 3 0 2 "V4 1"] by simp

text \<open>A list given by its end: what \<open>walk_chain\<close> does with trusted hops in front.\<close>

lemma walk_chain_hops:
  "\<forall>h \<in> set hops. \<exists>a. forwarded_addr h = Some a \<and> trusts tp a \<Longrightarrow>
   forwarded_addr e = Some ip \<Longrightarrow> \<not> trusts tp ip \<Longrightarrow>
   walk_chain tp c (hops @ e # rest) = ip"
  by (induction hops arbitrary: c) auto

text \<open>
  C38: a client cannot choose the address it is throttled as. From a peer that is not
  trusted, the address is the peer's own whatever the headers say. From a trusted peer, the
  address is the first one from the right that is not a trusted proxy's, so whatever
  entries stand to its left (which the client may have written) and whatever other headers
  there are do not matter.
\<close>
theorem client_not_spoofable:
  assumes "if trusts tp (unmap peer)
           then forwarded_chain hs = spoofed @ entry # hops \<and> forwarded_addr entry = Some ip
             \<and> \<not> trusts tp ip
             \<and> (\<forall>h \<in> set hops. \<exists>a. forwarded_addr h = Some a \<and> trusts tp a)
           else ip = unmap peer"
  shows "client_ip hs (Some peer) tp = Some ip"
  using assms walk_chain_hops [of "rev hops" tp entry ip "unmap peer" "rev spoofed"]
  by (auto simp: client_ip_def Let_def)

lemma fold_header_remove:
  "fold header_remove names hs = filter (\<lambda>(n, _). n \<notin> set names) hs"
  by (induction names arbitrary: hs)
     (auto simp: header_remove_def filter_filter split_beta intro!: filter_cong)

lemma header_get_all_filter:
  "header_get_all (filter (\<lambda>(n, _). n \<notin> set names) hs) n =
     (if n \<in> set names then [] else header_get_all hs n)"
  by (auto simp: header_get_all_def filter_empty_conv intro!: arg_cong [where f = "map snd"] filter_cong)

lemma header_get_all_append:
  "header_get_all (hs @ hs') n = header_get_all hs n @ header_get_all hs' n"
  by (simp add: header_get_all_def)

text \<open>
  C39: forwarding headers of a peer that is not trusted reach nothing. Two requests from
  the same untrusted (or unknown) peer that differ only in forwarding headers are the same
  request to everything behind the filter; and the base URL then comes from the host
  header, or its HTTP/2 form, under the server's own scheme.
\<close>
theorem untrusted_headers_ignored:
  assumes "case rq_peer rq of Some ip \<Rightarrow> \<not> trusts tp ip | None \<Rightarrow> True"
    and "rq' = rq\<lparr>rq_headers := hs\<rparr>"
    and "filter (\<lambda>(n, _). n \<notin> set forwarded_headers) hs =
         filter (\<lambda>(n, _). n \<notin> set forwarded_headers) (rq_headers rq)"
  shows "filter_forwarded_headers tp rq' = filter_forwarded_headers tp rq
    \<and> base_of_request scheme (rq_headers (filter_forwarded_headers tp rq)) =
        (scheme, case header_get (rq_headers rq) ''host'' of
                   Some h \<Rightarrow> h
                 | None \<Rightarrow> if contains_key (rq_headers rq) ''host'' then ''localhost''
                           else case rq_authority rq of Some a \<Rightarrow> a | None \<Rightarrow> ''localhost'')"
proof -
  let ?keep = "filter (\<lambda>(n, _). n \<notin> set forwarded_headers)"
  have strip: "filter_forwarded_headers tp r =
      adopt_authority_as_host (r\<lparr>rq_headers := ?keep (rq_headers r)\<rparr>)"
    if "rq_peer r = rq_peer rq" for r
    using assms(1) that by (auto simp: filter_forwarded_headers_def fold_header_remove split: option.splits)
  have same: "filter_forwarded_headers tp rq' = filter_forwarded_headers tp rq"
    using strip [of rq] strip [of rq'] assms(2,3) by simp
  let ?hs = "rq_headers (filter_forwarded_headers tp rq)"
  have nh: "''host'' \<notin> set forwarded_headers" by (simp add: forwarded_headers_def)
  have one: "header_get_all [(m, v)] n = (if m = n then [v] else [])" for m n v
    by (simp add: header_get_all_def)
  have none: "header_get_all ?hs n = []" if "n \<in> set forwarded_headers" for n
  proof -
    have "''host'' \<noteq> n" using nh that by blast
    then show ?thesis
      using that unfolding strip [OF refl]
      by (simp add: adopt_authority_as_host_def header_get_all_append header_get_all_filter one
          split: option.splits)
  qed
  have host: "header_get ?hs ''host'' =
      (if contains_key (rq_headers rq) ''host'' then header_get (rq_headers rq) ''host''
       else rq_authority rq)"
    unfolding strip [OF refl]
    by (simp add: adopt_authority_as_host_def contains_key_def header_get_def
        header_get_all_append header_get_all_filter one nh split: option.splits)
  have "header_get (rq_headers rq) ''host'' = None"
    if "\<not> contains_key (rq_headers rq) ''host''"
    using that by (simp add: contains_key_def header_get_def)
  with same none [of "''x-forwarded-host''"] none [of "''x-forwarded-proto''"] host
  show ?thesis
    by (auto simp: base_of_request_def forwarded_def Let_def forwarded_headers_def split: option.splits)
qed


lemma sample_proxies:
  "trusted_new [''10.0.0.0/8''] =
     \<lparr>tp_any = False, tp_nets = [\<lparr>cidr_addr = V4 0x0a000000, cidr_bits = 8\<rparr>]\<rparr>"
  by (simp add: trusted_new_def add_trusted_def cidr_parse_def trim_graphic ip_eval is_ipv4_def
      parse_uint_def read_digits_def)

lemma sample_trust:
  "trusts (trusted_new [''10.0.0.0/8'']) (V4 0x0a000001)"
  "trusts (trusted_new [''10.0.0.0/8'']) (V4 0x0a000002)"
  "\<not> trusts (trusted_new [''10.0.0.0/8'']) (V4 0x06060606)"
  by (simp_all add: sample_proxies trusts_def cidr_contains_def unmap_def prefix_eq_def octets4_def
      upt_conv_Cons drop_bit_eq_div)

lemma sample_entries:
  "forwarded_addr ''6.6.6.6'' = Some (V4 0x06060606)"
  "forwarded_addr ''10.0.0.2'' = Some (V4 0x0a000002)"
  by (simp_all add: forwarded_addr_def trim_graphic ip_eval unmap_def)

theorem client_not_spoofable_witness:
  "client_ip [(''x-forwarded-for'', Some ''1.1.1.1,6.6.6.6,10.0.0.2'')] (Some (V4 0x0a000001))
     (trusted_new [''10.0.0.0/8'']) = Some (V4 0x06060606)"
proof (rule client_not_spoofable [where spoofed = "[''1.1.1.1'']" and entry = "''6.6.6.6''"
      and hops = "[''10.0.0.2'']"])
  have chain: "forwarded_chain [(''x-forwarded-for'', Some ''1.1.1.1,6.6.6.6,10.0.0.2'')] =
      [''1.1.1.1'', ''6.6.6.6'', ''10.0.0.2'']"
    by (simp add: forwarded_chain_def header_get_all_def trim_graphic char_eval List.map_filter_def)
  show "if trusts (trusted_new [''10.0.0.0/8'']) (unmap (V4 0x0a000001))
     then forwarded_chain [(''x-forwarded-for'', Some ''1.1.1.1,6.6.6.6,10.0.0.2'')] =
            [''1.1.1.1''] @ ''6.6.6.6'' # [''10.0.0.2'']
        \<and> forwarded_addr ''6.6.6.6'' = Some (V4 0x06060606)
        \<and> \<not> trusts (trusted_new [''10.0.0.0/8'']) (V4 0x06060606)
        \<and> (\<forall>h \<in> set [''10.0.0.2'']. \<exists>a. forwarded_addr h = Some a
              \<and> trusts (trusted_new [''10.0.0.0/8'']) a)
     else V4 0x06060606 = unmap (V4 0x0a000001)"
    unfolding chain using sample_trust sample_entries by (simp add: unmap_def)
qed

theorem untrusted_headers_ignored_witness:
  "base_of_request ''https'' (rq_headers (filter_forwarded_headers (trusted_new [''10.0.0.0/8''])
     \<lparr>rq_method = ''GET'', rq_path = ''/v3/index.json'',
      rq_headers = [(''x-forwarded-host'', Some ''evil''), (''host'', Some ''feed'')],
      rq_peer = Some (V4 0x06060606), rq_authority = None\<rparr>)) = (''https'', ''feed'')"
proof -
  let ?rq = "\<lparr>rq_method = ''GET'', rq_path = ''/v3/index.json'',
      rq_headers = [(''x-forwarded-host'', Some ''evil''), (''host'', Some ''feed'')],
      rq_peer = Some (V4 0x06060606), rq_authority = None\<rparr>"
  show ?thesis
    using untrusted_headers_ignored [where rq = ?rq and tp = "trusted_new [''10.0.0.0/8'']" and
        rq' = ?rq and hs = "rq_headers ?rq" and scheme = "''https''"] sample_trust(3)
    by (simp add: header_get_def header_get_all_def)
qed

text \<open>
  What a trusted-proxies entry trusts. A block the parser accepts contains exactly the
  addresses of its own family that agree with it on its first bits, where the number of
  bits is at most the address's width; a bare address contains itself alone.
\<close>
theorem cidr_meaning:
  assumes "cidr_parse spec = Some c"
  shows "(case (cidr_addr c, ip) of
            (V4 net, V4 a) \<Rightarrow> cidr_bits c \<le> 32 \<and> cidr_contains c ip = in_network a (net, cidr_bits c)
          | (V6 net, V6 a) \<Rightarrow> cidr_bits c \<le> 128 \<and> cidr_contains c ip = in_network a (net, cidr_bits c)
          | _ \<Rightarrow> \<not> cidr_contains c ip)
    \<and> (split_once CHR ''/'' (trim spec) = None \<longrightarrow> cidr_contains c ip = (ip = cidr_addr c))"
proof -
  obtain addr_s bits_s where b: "(case split_once CHR ''/'' (trim spec) of
      Some (a, b) \<Rightarrow> (a, Some b) | None \<Rightarrow> (trim spec, None)) = (addr_s, bits_s)"
    by (cases "case split_once CHR ''/'' (trim spec) of
      Some (a, b) \<Rightarrow> (a, Some b) | None \<Rightarrow> (trim spec, None)")
  have bits: "cidr_bits c \<le> (if is_ipv4 (cidr_addr c) then 32 else 128)"
    and bare: "bits_s = None \<longrightarrow> cidr_bits c = (if is_ipv4 (cidr_addr c) then 32 else 128)"
    using assms by (auto simp: cidr_parse_def b Let_def split: option.splits if_splits)
  have "bits_s = None" if "split_once CHR ''/'' (trim spec) = None" using b that by auto
  with bits bare show ?thesis
    by (cases "cidr_addr c"; cases ip)
       (auto simp: cidr_contains_def is_ipv4_def prefix_eq_octets4 prefix_eq_octets6 in_network_def)
qed

theorem cidr_meaning_witness:
  "cidr_contains \<lparr>cidr_addr = V4 0x0a000000, cidr_bits = 8\<rparr> (V4 0x0a020003)"
proof -
  have "cidr_parse ''10.0.0.0/8'' = Some \<lparr>cidr_addr = V4 0x0a000000, cidr_bits = 8\<rparr>"
    by (simp add: cidr_parse_def trim_graphic ip_eval is_ipv4_def parse_uint_def read_digits_def)
  from cidr_meaning [OF this, of "V4 0x0a020003"] show ?thesis
    by (simp add: in_network_def drop_bit_eq_div)
qed

end
