(* ===== verification/Domain.thy ===== *)
theory Domain
  imports Package_Names Version_Range
begin

text \<open>
  The records the server stores and passes around: \<open>Package\<close> (\<open>src/src/models.rs\<close>),
  \<open>Membership\<close>, \<open>PackageFile\<close>, \<open>UploadSession\<close> and their kin (\<open>src/src/database/mod.rs\<close>).
  The fields of a package that no modelled code looks at are gathered in one record. An
  instant is an integer.
\<close>

type_synonym time = int

text \<open>The key every table uses: canonical id and normalized version.\<close>

type_synonym key = "string \<times> string"

record package_type =
  pt_name :: string
  pt_version :: "string option"

record manifest_text =
  mt_authors :: "string list"
  mt_description :: string
  mt_icon_url :: "string option"
  mt_project_url :: "string option"
  mt_repository_url :: "string option"
  mt_repository_type :: "string option"
  mt_min_client_version :: "string option"
  mt_release_notes :: "string option"
  mt_language :: "string option"
  mt_title :: "string option"
  mt_summary :: "string option"
  mt_development_dependency :: bool
  mt_require_license_acceptance :: bool
  mt_package_types :: "package_type list"

record package =
  p_id :: string
  p_version :: nuget_version
  p_listed :: bool
  p_enabled :: bool
  p_license_url :: "string option"
  p_license_expression :: "string option"
  p_tags :: "string list"
  p_has_readme :: bool
  p_has_embedded_icon :: bool
  p_is_semver2 :: bool
  p_package_size :: nat
  p_package_hash :: string
  p_package_hash_algorithm :: string
  p_published :: time
  p_downloads :: nat
  p_dependencies :: "dependency_group list"
  p_text :: manifest_text

definition lower_id :: "package \<Rightarrow> string" where
  "lower_id p = canonical_id (p_id p)"

definition normalized_version :: "package \<Rightarrow> string" where
  "normalized_version p = normalized (p_version p)"

definition package_is_prerelease :: "package \<Rightarrow> bool" where
  "package_is_prerelease p = is_prerelease (p_version p)"

definition package_key :: "package \<Rightarrow> key" where
  "package_key p = (lower_id p, normalized_version p)"

definition version_key :: "string \<Rightarrow> nuget_version \<Rightarrow> key" where
  "version_key i v = (canonical_id i, normalized v)"

record membership =
  m_feed :: string
  m_lower_id :: string
  m_normalized_version :: string
  m_listed :: bool
  m_listing_set :: bool
  m_enabled :: bool
  m_pending :: bool
  m_flagged :: bool
  m_flag_reason :: "string option"
  m_pinned :: bool

definition active_membership :: "string \<Rightarrow> package \<Rightarrow> membership" where
  "active_membership feed p =
     \<lparr>m_feed = feed, m_lower_id = lower_id p, m_normalized_version = normalized_version p,
      m_listed = True, m_listing_set = False, m_enabled = True, m_pending = False,
      m_flagged = False, m_flag_reason = None, m_pinned = False\<rparr>"

datatype membership_change = Set_Enabled bool | Set_Pinned bool | Approve

record feed_version =
  fv_package :: package
  fv_pending :: bool
  fv_flagged :: bool
  fv_flag_reason :: "string option"
  fv_pinned :: bool
  fv_added :: time

record package_file =
  f_lower_id :: string
  f_normalized_version :: string
  f_name :: string
  f_sha256 :: string
  f_size :: nat
  f_uploaded :: time
  f_downloads :: nat

record upload_session =
  u_id :: string
  u_feed :: string
  u_lower_id :: string
  u_normalized_version :: string
  u_name :: string
  u_length :: nat
  u_received :: nat
  u_expected_sha256 :: "string option"
  u_expires :: time
  u_held_since :: "time option"

record stored_feed =
  sf_name :: string
  sf_versions :: nat
  sf_exclusive :: nat
  sf_pending :: nat
  sf_disabled :: nat
  sf_tombstones :: nat

record version_footprint =
  vf_lower_id :: string
  vf_normalized_version :: string
  vf_feeds :: nat
  vf_file_bytes :: nat

record symbol_key =
  sk_key :: string
  sk_filename :: string

text \<open>The result of a policy check (\<open>src/src/policy.rs\<close>).\<close>

record policy_outcome =
  po_allowed :: bool
  po_violation :: "string option"

text \<open>The refusal for replacing an approved version.\<close>

definition approved_refusal :: "package \<Rightarrow> string list \<Rightarrow> message" where
  "approved_refusal p feeds =
     Msg ''{} {} is approved in {}, and allow_overwrite = pending-only replaces a version only while it is pending in every feed that holds it. Push it as a new version.''
       (p_id p # normalized_version p # feeds)"

text \<open>Whether one version headlines a package rather than another, and the headline of a group.\<close>

definition headline_beats :: "nuget_version \<Rightarrow> nuget_version \<Rightarrow> bool" where
  "headline_beats candidate current =
     (case (is_prerelease candidate, is_prerelease current) of
        (False, True) \<Rightarrow> True
      | (True, False) \<Rightarrow> False
      | _ \<Rightarrow> cmp_version candidate current = Greater)"

definition headline :: "package list \<Rightarrow> package option" where
  "headline ps =
     (case ps of
        [] \<Rightarrow> None
      | p # rest \<Rightarrow>
          Some (foldl (\<lambda>head p. if headline_beats (p_version p) (p_version head) then p else head)
                  p rest))"

lemma lower_canonical [simp]: "canonical_id (canonical_id i) = canonical_id i"
  by (simp add: canonical_id_def)

lemma lower_id_canonical [simp]: "canonical_id (lower_id p) = lower_id p"
  by (simp add: lower_id_def)

text \<open>A package for the examples.\<close>

definition sample_package :: "string \<Rightarrow> nuget_version \<Rightarrow> package" where
  "sample_package i v =
     \<lparr>p_id = i, p_version = v, p_listed = True, p_enabled = True, p_license_url = None,
      p_license_expression = Some ''MIT'', p_tags = [''json''], p_has_readme = False,
      p_has_embedded_icon = False, p_is_semver2 = False, p_package_size = 10,
      p_package_hash = ''hash'', p_package_hash_algorithm = ''SHA512'', p_published = 0,
      p_downloads = 0, p_dependencies = [],
      p_text = \<lparr>mt_authors = [], mt_description = '''', mt_icon_url = None, mt_project_url = None,
        mt_repository_url = None, mt_repository_type = None, mt_min_client_version = None,
        mt_release_notes = None, mt_language = None, mt_title = None, mt_summary = None,
        mt_development_dependency = False, mt_require_license_acceptance = False,
        mt_package_types = []\<rparr>\<rparr>"

end
