(* ===== verification/Database.thy ===== *)
theory Database
  imports Domain
begin

text \<open>
  The SQLite package index (\<open>src/src/database/sqlite/\<close>): its tables, and one function per
  operation. A table is the list of its rows. An operation is a function of the database
  that answers an error, with no change, or its result and the new database: a single
  statement and a transaction alike either happen or do not. The columns that hold JSON
  hold the value itself.
\<close>

section \<open>Tables\<close>

definition row_at :: "('r \<Rightarrow> 'k) \<Rightarrow> 'k \<Rightarrow> 'r list \<Rightarrow> 'r option" where
  "row_at kf k rows = find (\<lambda>r. kf r = k) rows"

definition has_row :: "('r \<Rightarrow> 'k) \<Rightarrow> 'k \<Rightarrow> 'r list \<Rightarrow> bool" where
  "has_row kf k rows \<longleftrightarrow> list_ex (\<lambda>r. kf r = k) rows"

definition update_rows :: "('r \<Rightarrow> bool) \<Rightarrow> ('r \<Rightarrow> 'r) \<Rightarrow> 'r list \<Rightarrow> 'r list" where
  "update_rows P f rows = map (\<lambda>r. if P r then f r else r) rows"

definition delete_rows :: "('r \<Rightarrow> bool) \<Rightarrow> 'r list \<Rightarrow> 'r list" where
  "delete_rows P rows = filter (\<lambda>r. \<not> P r) rows"

definition count_rows :: "('r \<Rightarrow> bool) \<Rightarrow> 'r list \<Rightarrow> nat" where
  "count_rows P rows = length (filter P rows)"

lemma has_row_iff: "has_row kf k rows \<longleftrightarrow> (\<exists>r \<in> set rows. kf r = k)"
  by (auto simp: has_row_def list_ex_iff)

lemma row_at_None: "row_at kf k rows = None \<longleftrightarrow> \<not> has_row kf k rows"
  by (auto simp: row_at_def find_None_iff has_row_iff)

lemma row_at_Some: "row_at kf k rows = Some r \<Longrightarrow> r \<in> set rows \<and> kf r = k"
  by (auto simp: row_at_def find_Some_iff)

lemma row_at_distinct:
  "distinct (map kf rows) \<Longrightarrow> r \<in> set rows \<Longrightarrow> row_at kf (kf r) rows = Some r"
  by (induction rows) (auto simp: row_at_def)

lemma row_at_append [simp]:
  "row_at kf k (rows @ [r]) =
     (case row_at kf k rows of Some x \<Rightarrow> Some x | None \<Rightarrow> if kf r = k then Some r else None)"
  by (induction rows) (auto simp: row_at_def)

lemma row_at_delete:
  "(\<forall>r \<in> set rows. kf r = k \<longrightarrow> \<not> P r) \<Longrightarrow> row_at kf k (delete_rows P rows) = row_at kf k rows"
  by (induction rows) (auto simp: row_at_def delete_rows_def)

lemma row_at_delete_all:
  "(\<forall>r \<in> set rows. kf r = k \<longrightarrow> P r) \<Longrightarrow> row_at kf k (delete_rows P rows) = None"
  by (auto simp: row_at_def delete_rows_def find_None_iff)

lemma row_at_update:
  "(\<forall>r. kf (f r) = kf r) \<Longrightarrow>
   row_at kf k (update_rows P f rows) = map_option (\<lambda>r. if P r then f r else r) (row_at kf k rows)"
  by (induction rows) (auto simp: row_at_def update_rows_def)

lemma map_update_rows [simp]:
  "(\<forall>r. kf (f r) = kf r) \<Longrightarrow> map kf (update_rows P f rows) = map kf rows"
  by (simp add: update_rows_def)

lemma set_update_rows: "set (update_rows P f rows) = (\<lambda>r. if P r then f r else r) ` set rows"
  by (simp add: update_rows_def)

lemma set_delete_rows [simp]: "set (delete_rows P rows) = {r \<in> set rows. \<not> P r}"
  by (auto simp: delete_rows_def)

lemma distinct_delete_rows: "distinct (map kf rows) \<Longrightarrow> distinct (map kf (delete_rows P rows))"
  by (induction rows) (auto simp: delete_rows_def)

lemma distinct_append_row:
  "distinct (map kf rows) \<Longrightarrow> \<not> has_row kf (kf r) rows \<Longrightarrow> distinct (map kf (rows @ [r]))"
  by (auto simp: has_row_iff)

lemma count_rows_pos: "0 < count_rows P rows \<longleftrightarrow> (\<exists>r \<in> set rows. P r)"
  by (induction rows) (auto simp: count_rows_def)

lemma count_rows_0: "count_rows P rows = 0 \<longleftrightarrow> (\<forall>r \<in> set rows. \<not> P r)"
  by (induction rows) (auto simp: count_rows_def)

section \<open>Rows\<close>

text \<open>
  A \<open>packages\<close> row: its key, the original version string, from which the version is read
  back, the pre-release flag, and the other columns as the package they came from.
\<close>

record package_row =
  r_key :: key
  r_original :: string
  r_prerelease :: bool
  r_package :: package

record member_row = membership +
  mr_added :: time
  mr_downloads :: nat

definition member_key :: "'a membership_scheme \<Rightarrow> string \<times> key" where
  "member_key m = (m_feed m, m_lower_id m, m_normalized_version m)"

definition member_version :: "'a membership_scheme \<Rightarrow> key" where
  "member_version m = (m_lower_id m, m_normalized_version m)"

record symbol_row =
  s_key :: string
  s_filename :: string
  s_version :: key

definition file_version :: "package_file \<Rightarrow> key" where
  "file_version f = (f_lower_id f, f_normalized_version f)"

definition file_key :: "package_file \<Rightarrow> key \<times> string" where
  "file_key f = (file_version f, to_ascii_lowercase (f_name f))"

definition symbol_row_key :: "symbol_row \<Rightarrow> string \<times> string" where
  "symbol_row_key s = (s_key s, s_filename s)"

record db =
  db_packages :: "package_row list"
  db_tags :: "(key \<times> string) list"
  db_members :: "member_row list"
  db_files :: "package_file list"
  db_symbols :: "symbol_row list"
  db_tombstones :: "(string \<times> key) list"
  db_uploads :: "upload_session list"

definition empty_db :: db where
  "empty_db = \<lparr>db_packages = [], db_tags = [], db_members = [], db_files = [],
     db_symbols = [], db_tombstones = [], db_uploads = []\<rparr>"

type_synonym 'a db_op = "db \<Rightarrow> error + 'a \<times> db"

section \<open>Global package data\<close>

text \<open>
  \<open>insert_tags\<close>: the first 64 tags, spaces trimmed, the empty ones left out, cut to 64
  characters and lower-cased; a tag already there is ignored. SQLite's \<open>trim\<close> removes
  spaces, its \<open>lower\<close> folds ASCII, its \<open>substr\<close> counts characters, whose continuation
  bytes are those from 128 to 191.
\<close>

definition trim_spaces :: "string \<Rightarrow> string" where
  "trim_spaces s =
     rev (dropWhile (\<lambda>c. c = CHR '' '') (rev (dropWhile (\<lambda>c. c = CHR '' '') s)))"

definition is_continuation :: "char \<Rightarrow> bool" where
  "is_continuation c \<longleftrightarrow> 128 \<le> byte c \<and> byte c < 192"

fun take_chars :: "nat \<Rightarrow> string \<Rightarrow> string" where
  "take_chars n [] = []"
| "take_chars n (c # s) =
     (if is_continuation c then c # take_chars n s
      else case n of 0 \<Rightarrow> [] | Suc m \<Rightarrow> c # take_chars m s)"

definition tags_of :: "package \<Rightarrow> string list" where
  "tags_of p =
     map (\<lambda>t. to_ascii_lowercase (take_chars 64 (trim_spaces t)))
       (filter (\<lambda>t. trim_spaces t \<noteq> []) (take 64 (p_tags p)))"

definition insert_tags :: "package \<Rightarrow> db \<Rightarrow> db" where
  "insert_tags p d =
     d\<lparr>db_tags := foldl (\<lambda>rows t. if (package_key p, t) \<in> set rows then rows
                                     else rows @ [(package_key p, t)])
                    (db_tags d) (tags_of p)\<rparr>"

text \<open>\<open>bind_package\<close> and, reading, \<open>build_package\<close>: the version comes from its original form.\<close>

definition bind_package :: "package \<Rightarrow> package_row" where
  "bind_package p =
     \<lparr>r_key = package_key p, r_original = v_original (p_version p),
      r_prerelease = package_is_prerelease p, r_package = p\<rparr>"

definition build_package :: "package_row \<Rightarrow> bool \<Rightarrow> bool \<Rightarrow> nat \<Rightarrow> package result" where
  "build_package r listed enabled downloads =
     (case parse_stored (r_original r) of
        Inl e \<Rightarrow> Inl (InvalidVersion (Msg ''{e}'' [e]))
      | Inr v \<Rightarrow> Inr ((r_package r)\<lparr>p_version := v, p_listed := listed, p_enabled := enabled,
                                  p_downloads := downloads\<rparr>))"

definition row_to_package :: "package_row \<Rightarrow> package result" where
  "row_to_package r = build_package r True True 0"

definition row_to_feed_package :: "package_row \<times> member_row \<Rightarrow> feed_version result" where
  "row_to_feed_package rm =
     (let (r, m) = rm
      in map_result (\<lambda>p. \<lparr>fv_package = p, fv_pending = m_pending m, fv_flagged = m_flagged m,
                          fv_flag_reason = m_flag_reason m, fv_pinned = m_pinned m,
                          fv_added = mr_added m\<rparr>)
           (build_package r (m_listed m) (m_enabled m) (mr_downloads m)))"

text \<open>\<open>collect\<close> of results: the first error, or every value.\<close>

fun collect_results :: "'a result list \<Rightarrow> 'a list result" where
  "collect_results [] = Inr []"
| "collect_results (Inl e # rs) = Inl e"
| "collect_results (Inr a # rs) = map_result (\<lambda>as. a # as) (collect_results rs)"

definition insert_package :: "package \<Rightarrow> db \<Rightarrow> bool \<times> db" where
  "insert_package p d =
     (if has_row r_key (package_key p) (db_packages d) then (False, d)
      else (True, insert_tags p (d\<lparr>db_packages := db_packages d @ [bind_package p]\<rparr>)))"

definition upsert_package_data :: "package \<Rightarrow> bool db_op" where
  "upsert_package_data p d = Inr (insert_package p d)"

definition member_row_of :: "time \<Rightarrow> membership \<Rightarrow> nat \<Rightarrow> member_row" where
  "member_row_of now m downloads =
     membership.extend (m\<lparr>m_lower_id := canonical_id (m_lower_id m)\<rparr>)
       \<lparr>mr_added = now, mr_downloads = downloads\<rparr>"

definition insert_membership :: "time \<Rightarrow> membership \<Rightarrow> unit db_op" where
  "insert_membership now m d =
     (let row = member_row_of now m 0
      in if has_row member_key (member_key row) (db_members d) then Inl PackageAlreadyExists
         else if \<not> has_row r_key (member_version row) (db_packages d) then Inl (Database Sqlx_Failed)
         else Inr ((), d\<lparr>db_members := db_members d @ [row]\<rparr>))"

definition add_version :: "time \<Rightarrow> package \<Rightarrow> membership \<Rightarrow> bool db_op" where
  "add_version now p m d =
     (let (inserted, d) = insert_package p d
      in bind_result (insert_membership now m d) (\<lambda>(_, d). Inr (inserted, d)))"

text \<open>The rows a replacement writes.\<close>

definition replace_rows :: "time \<Rightarrow> package \<Rightarrow> membership \<Rightarrow> db \<Rightarrow> db" where
  "replace_rows now p m d =
     (let new = bind_package p;
          packages = (if has_row r_key (package_key p) (db_packages d)
                      then update_rows (\<lambda>r. r_key r = package_key p)
                             (\<lambda>r. new\<lparr>r_key := r_key r, r_prerelease := r_prerelease r\<rparr>)
                             (db_packages d)
                      else db_packages d @ [new]);
          d = insert_tags p (d\<lparr>db_packages := packages,
                db_tags := delete_rows (\<lambda>(k, _). k = package_key p) (db_tags d)\<rparr>);
          row = member_row_of now m 0
      in d\<lparr>db_members :=
             (if has_row member_key (member_key row) (db_members d)
              then update_rows (\<lambda>r. member_key r = member_key row)
                     (\<lambda>r. row\<lparr>mr_downloads := mr_downloads r\<rparr>) (db_members d)
              else db_members d @ [row])\<rparr>)"

definition replace_version :: "time \<Rightarrow> package \<Rightarrow> membership \<Rightarrow> unit db_op" where
  "replace_version now p m d =
     (if has_row r_key (member_version (member_row_of now m 0)) (db_packages (replace_rows now p m d))
      then Inr ((), replace_rows now p m d)
      else Inl (Database Sqlx_Failed))"

definition sort_names :: "string list \<Rightarrow> string list" where
  "sort_names = sort_by cmp_str"

definition approved_in :: "string \<Rightarrow> nuget_version \<Rightarrow> db \<Rightarrow> string list" where
  "approved_in i v d =
     sort_names (map m_feed
       (filter (\<lambda>m. member_version m = version_key i v \<and> \<not> m_pending m) (db_members d)))"

definition holders :: "key \<Rightarrow> string \<Rightarrow> db \<Rightarrow> string list" where
  "holders k feed d =
     sort_names (map m_feed
       (filter (\<lambda>m. member_version m = k \<and> m_feed m \<noteq> feed) (db_members d)))"

definition set_flag :: "policy_outcome \<Rightarrow> member_row \<Rightarrow> member_row" where
  "set_flag o' m = m\<lparr>m_flagged := (po_violation o' \<noteq> None), m_flag_reason := po_violation o'\<rparr>"

definition replace_pending_version ::
    "time \<Rightarrow> package \<Rightarrow> membership \<Rightarrow> bool \<Rightarrow> (string \<times> policy_outcome) list \<Rightarrow>
     package_file list db_op" where
  "replace_pending_version now p m drop_files others d =
     (let k = package_key p;
          approved = approved_in (p_id p) (p_version p) d
      in if approved \<noteq> [] then Inl (VersionExists (approved_refusal p approved))
         else
           let verdicts = List.map_filter
                 (\<lambda>feed. find (\<lambda>(name, _). name = feed) others) (holders k (m_feed m) d)
           in case find (\<lambda>(_, o'). \<not> po_allowed o') verdicts of
                Some (feed, o') \<Rightarrow>
                  Inl (PolicyViolation (Msg ''{why} in feed '{feed}', which holds this version too''
                    [case po_violation o' of Some why \<Rightarrow> why | None \<Rightarrow> ''license policy'', feed]))
              | None \<Rightarrow>
                  bind_result (replace_version now p m d) (\<lambda>(_, d).
                  let d = foldl (\<lambda>d (feed, o').
                        d\<lparr>db_members := update_rows (\<lambda>r. member_key r = (feed, k))
                            (set_flag o') (db_members d)\<rparr>) d verdicts
                  in if drop_files
                     then Inr (filter (\<lambda>f. file_version f = k) (db_files d),
                               d\<lparr>db_files := delete_rows (\<lambda>f. file_version f = k) (db_files d)\<rparr>)
                     else Inr ([], d)))"

definition orphaned_versions :: "nat \<Rightarrow> db \<Rightarrow> package list result" where
  "orphaned_versions limit d =
     collect_results (map row_to_package
       (take limit (filter (\<lambda>r. \<not> has_row member_version (r_key r) (db_members d))
                      (db_packages d))))"

definition package_data_exists :: "string \<Rightarrow> nuget_version \<Rightarrow> db \<Rightarrow> bool" where
  "package_data_exists i v d = has_row r_key (version_key i v) (db_packages d)"

definition get_package_data :: "string \<Rightarrow> nuget_version \<Rightarrow> db \<Rightarrow> package option result" where
  "get_package_data i v d =
     (case row_at r_key (version_key i v) (db_packages d) of
        None \<Rightarrow> Inr None
      | Some r \<Rightarrow> map_result Some (row_to_package r))"

text \<open>One statement; the foreign keys take the version's other rows with it.\<close>

definition delete_package_data :: "string \<Rightarrow> nuget_version \<Rightarrow> bool db_op" where
  "delete_package_data i v d =
     (let k = version_key i v
      in Inr (has_row r_key k (db_packages d),
              if has_row r_key k (db_packages d)
              then d\<lparr>db_packages := delete_rows (\<lambda>r. r_key r = k) (db_packages d),
                     db_tags := delete_rows (\<lambda>(k', _). k' = k) (db_tags d),
                     db_members := delete_rows (\<lambda>m. member_version m = k) (db_members d),
                     db_files := delete_rows (\<lambda>f. file_version f = k) (db_files d),
                     db_symbols := delete_rows (\<lambda>s. s_version s = k) (db_symbols d)\<rparr>
              else d))"

definition feed_count :: "string \<Rightarrow> nuget_version \<Rightarrow> db \<Rightarrow> nat" where
  "feed_count i v d = count_rows (\<lambda>m. member_version m = version_key i v) (db_members d)"

end
