(* ===== verification/Memberships.thy ===== *)
theory Memberships
  imports Database
begin

text \<open>
  The operations on a feed's own rows: memberships (\<open>sqlite/memberships.rs\<close>) and
  tombstones (\<open>sqlite/tombstones.rs\<close>). A statement that changes rows answers whether it
  found any.
\<close>

definition member_at :: "string \<Rightarrow> string \<Rightarrow> nuget_version \<Rightarrow> 'a membership_scheme \<Rightarrow> bool" where
  "member_at feed i v m \<longleftrightarrow> member_key m = (feed, version_key i v)"

section \<open>Memberships\<close>

definition update_member ::
    "string \<Rightarrow> string \<Rightarrow> nuget_version \<Rightarrow> (member_row \<Rightarrow> bool) \<Rightarrow> (member_row \<Rightarrow> member_row) \<Rightarrow>
     bool db_op" where
  "update_member feed i v P f d =
     (let hit = (\<lambda>m. member_at feed i v m \<and> P m)
      in Inr (list_ex hit (db_members d),
              d\<lparr>db_members := update_rows hit f (db_members d)\<rparr>))"

definition add_membership :: "time \<Rightarrow> membership \<Rightarrow> unit db_op" where
  "add_membership now m d = insert_membership now m d"

definition remove_membership :: "string \<Rightarrow> string \<Rightarrow> nuget_version \<Rightarrow> bool db_op" where
  "remove_membership feed i v d =
     Inr (list_ex (member_at feed i v) (db_members d),
          d\<lparr>db_members := delete_rows (member_at feed i v) (db_members d)\<rparr>)"

definition insert_tombstone :: "string \<Rightarrow> string \<Rightarrow> nuget_version \<Rightarrow> db \<Rightarrow> db" where
  "insert_tombstone feed i v d =
     (let t = (feed, version_key i v)
      in if List.member (db_tombstones d) t then d
         else d\<lparr>db_tombstones := db_tombstones d @ [t]\<rparr>)"

text \<open>The removal and its tombstone are one transaction.\<close>

definition remove_membership_for_good :: "string \<Rightarrow> string \<Rightarrow> nuget_version \<Rightarrow> bool db_op" where
  "remove_membership_for_good feed i v d =
     bind_result (remove_membership feed i v d) (\<lambda>(removed, d).
       Inr (removed, if removed then insert_tombstone feed i v d else d))"

definition get_membership :: "string \<Rightarrow> string \<Rightarrow> nuget_version \<Rightarrow> db \<Rightarrow> membership option" where
  "get_membership feed i v d =
     map_option membership.truncate (row_at member_key (feed, version_key i v) (db_members d))"

definition approve_membership :: "string \<Rightarrow> string \<Rightarrow> nuget_version \<Rightarrow> bool db_op" where
  "approve_membership feed i v = update_member feed i v (\<lambda>_. True) (\<lambda>m. m\<lparr>m_pending := False\<rparr>)"

definition member_exists :: "string \<Rightarrow> string \<Rightarrow> nuget_version \<Rightarrow> db \<Rightarrow> bool" where
  "member_exists feed i v d = has_row member_key (feed, version_key i v) (db_members d)"

definition set_listed :: "string \<Rightarrow> string \<Rightarrow> nuget_version \<Rightarrow> bool \<Rightarrow> bool db_op" where
  "set_listed feed i v listed =
     update_member feed i v (\<lambda>_. True) (\<lambda>m. m\<lparr>m_listed := listed, m_listing_set := True\<rparr>)"

definition follow_upstream_listing ::
    "string \<Rightarrow> string \<Rightarrow> nuget_version \<Rightarrow> bool \<Rightarrow> bool db_op" where
  "follow_upstream_listing feed i v listed =
     update_member feed i v (\<lambda>m. \<not> m_listing_set m \<and> m_listed m \<noteq> listed)
       (\<lambda>m. m\<lparr>m_listed := listed\<rparr>)"

definition upstream_listed :: "string \<Rightarrow> string \<Rightarrow> db \<Rightarrow> (string \<times> bool) list" where
  "upstream_listed feed i d =
     map (\<lambda>m. (m_normalized_version m, m_listed m))
       (filter (\<lambda>m. m_feed m = feed \<and> m_lower_id m = canonical_id i \<and> \<not> m_listing_set m)
          (db_members d))"

definition set_enabled :: "string \<Rightarrow> string \<Rightarrow> nuget_version \<Rightarrow> bool \<Rightarrow> bool db_op" where
  "set_enabled feed i v on = update_member feed i v (\<lambda>_. True) (\<lambda>m. m\<lparr>m_enabled := on\<rparr>)"

definition set_pinned :: "string \<Rightarrow> string \<Rightarrow> nuget_version \<Rightarrow> bool \<Rightarrow> bool db_op" where
  "set_pinned feed i v on = update_member feed i v (\<lambda>_. True) (\<lambda>m. m\<lparr>m_pinned := on\<rparr>)"

fun apply_change :: "membership_change \<Rightarrow> member_row \<Rightarrow> member_row" where
  "apply_change (Set_Enabled on) m = m\<lparr>m_enabled := on\<rparr>"
| "apply_change (Set_Pinned on) m = m\<lparr>m_pinned := on\<rparr>"
| "apply_change Approve m = m\<lparr>m_pending := False\<rparr>"

text \<open>
  One transaction over every version: one that is missing drops it, and every row is as
  it was.
\<close>

fun update_each ::
    "string \<Rightarrow> string \<Rightarrow> nuget_version list \<Rightarrow> membership_change \<Rightarrow> nat \<Rightarrow> nat db_op" where
  "update_each feed i [] ch updated d = Inr (updated, d)"
| "update_each feed i (v # vs) ch updated d =
     bind_result (update_member feed i v (\<lambda>_. True) (apply_change ch) d) (\<lambda>(found, d').
       if \<not> found then Inl PackageNotFound
       else update_each feed i vs ch (updated + count_rows (member_at feed i v) (db_members d)) d')"

definition update_memberships ::
    "string \<Rightarrow> string \<Rightarrow> nuget_version list \<Rightarrow> membership_change \<Rightarrow> nat db_op" where
  "update_memberships feed i vs ch d = update_each feed i vs ch 0 d"

definition is_servable :: "string \<Rightarrow> string \<Rightarrow> nuget_version \<Rightarrow> db \<Rightarrow> bool" where
  "is_servable feed i v d \<longleftrightarrow>
     list_ex (\<lambda>m. member_at feed i v m \<and> m_enabled m \<and> \<not> m_pending m) (db_members d)"

definition increment_downloads :: "string \<Rightarrow> string \<Rightarrow> nuget_version \<Rightarrow> unit db_op" where
  "increment_downloads feed i v d =
     Inr ((), d\<lparr>db_members := update_rows (member_at feed i v)
                (\<lambda>m. m\<lparr>mr_downloads := mr_downloads m + 1\<rparr>) (db_members d)\<rparr>)"

section \<open>Tombstones\<close>

definition add_tombstone :: "string \<Rightarrow> string \<Rightarrow> nuget_version \<Rightarrow> unit db_op" where
  "add_tombstone feed i v d = Inr ((), insert_tombstone feed i v d)"

definition is_tombstoned :: "string \<Rightarrow> string \<Rightarrow> nuget_version \<Rightarrow> db \<Rightarrow> bool" where
  "is_tombstoned feed i v d = List.member (db_tombstones d) (feed, version_key i v)"

definition clear_tombstone :: "string \<Rightarrow> string \<Rightarrow> nuget_version \<Rightarrow> unit db_op" where
  "clear_tombstone feed i v d =
     Inr ((), d\<lparr>db_tombstones := delete_rows (\<lambda>t. t = (feed, version_key i v)) (db_tombstones d)\<rparr>)"

definition clear_tombstones :: "string \<Rightarrow> nat db_op" where
  "clear_tombstones feed d =
     Inr (count_rows (\<lambda>t. fst t = feed) (db_tombstones d),
          d\<lparr>db_tombstones := delete_rows (\<lambda>t. fst t = feed) (db_tombstones d)\<rparr>)"

section \<open>Feeds as stored\<close>

definition stored_feeds :: "db \<Rightarrow> stored_feed list" where
  "stored_feeds d =
     map (\<lambda>feed.
        let rows = filter (\<lambda>m. m_feed m = feed) (db_members d)
        in \<lparr>sf_name = feed, sf_versions = length rows,
            sf_exclusive = count_rows (\<lambda>m. \<not> list_ex (\<lambda>o'. member_version o' = member_version m \<and>
                                              m_feed o' \<noteq> m_feed m) (db_members d)) rows,
            sf_pending = count_rows m_pending rows,
            sf_disabled = count_rows (\<lambda>m. \<not> m_enabled m) rows,
            sf_tombstones = count_rows (\<lambda>t. fst t = feed) (db_tombstones d)\<rparr>)
       (sort_names (remdups (map m_feed (db_members d) @ map fst (db_tombstones d))))"

definition shared_versions :: "string \<Rightarrow> string \<Rightarrow> db \<Rightarrow> nat" where
  "shared_versions a b d =
     length (concat (map (\<lambda>x. filter (\<lambda>y. m_feed y = b \<and> member_version y = member_version x)
                              (db_members d))
                       (filter (\<lambda>x. m_feed x = a) (db_members d))))"

text \<open>
  \<open>UPDATE OR IGNORE\<close>: a row whose new key another row has stays as it is. The rows are
  taken in order, each against the others as they are by then.
\<close>

fun move_tombstones ::
    "string \<Rightarrow> string \<Rightarrow> (string \<times> key) list \<Rightarrow> (string \<times> key) list \<Rightarrow> (string \<times> key) list" where
  "move_tombstones from' to [] done' = done'"
| "move_tombstones from' to (t # rest) done' =
     (if fst t = from' \<and> \<not> List.member (done' @ rest) (to, snd t)
      then move_tombstones from' to rest (done' @ [(to, snd t)])
      else move_tombstones from' to rest (done' @ [t]))"

definition rename_members :: "string \<Rightarrow> string \<Rightarrow> bool \<Rightarrow> db \<Rightarrow> db" where
  "rename_members from' to hold d =
     d\<lparr>db_members := update_rows (\<lambda>m. m_feed m = from')
          (\<lambda>m. m\<lparr>m_feed := to, m_pending := m_pending m \<or> hold\<rparr>) (db_members d)\<rparr>"

definition rename_tombstones :: "string \<Rightarrow> string \<Rightarrow> db \<Rightarrow> db" where
  "rename_tombstones from' to d =
     (let moved = delete_rows (\<lambda>t. fst t = from') (move_tombstones from' to (db_tombstones d) [])
      in d\<lparr>db_tombstones :=
             delete_rows (\<lambda>t. fst t = to \<and> has_row member_key (to, snd t) (db_members d)) moved\<rparr>)"

definition rename_feed :: "string \<Rightarrow> string \<Rightarrow> bool \<Rightarrow> nat db_op" where
  "rename_feed from' to hold d =
     (let shared = shared_versions from' to d
      in if 0 < shared then
           Inl (BadRequest (Msg ''{shared} version(s) are in both {from:?} and {to:?}; remove them from one first''
                  [show_nat shared, from', to]))
         else
           let moved = count_rows (\<lambda>m. m_feed m = from') (db_members d);
               d = rename_tombstones from' to (rename_members from' to hold d)
           in Inr (moved, d\<lparr>db_uploads := update_rows (\<lambda>u. u_feed u = from')
                               (\<lambda>u. u\<lparr>u_feed := to\<rparr>) (db_uploads d)\<rparr>))"

definition feed_members :: "string \<Rightarrow> db \<Rightarrow> (string \<times> nuget_version) list result" where
  "feed_members feed d =
     collect_results (map (\<lambda>m.
         case parse_stored (m_normalized_version m) of
           Inl e \<Rightarrow> Inl (InvalidVersion (Msg ''{e}'' [e]))
         | Inr v \<Rightarrow> Inr (m_lower_id m, v))
       (sort_by (\<lambda>a b. then_with (cmp_str (m_lower_id a) (m_lower_id b))
                         (cmp_str (m_normalized_version a) (m_normalized_version b)))
          (filter (\<lambda>m. m_feed m = feed) (db_members d))))"

end
