(* ===== verification/File_Tables.thy ===== *)
theory File_Tables
  imports Memberships
begin

text \<open>
  The operations on the files attached to versions (\<open>sqlite/files.rs\<close>), the symbol claims
  (\<open>sqlite/symbols.rs\<close>) and the resumable uploads (\<open>sqlite/uploads.rs\<close>), and the digest
  of a version's files (\<open>files_fingerprint\<close>, \<open>database/mod.rs\<close>). Names are folded as ASCII.
\<close>

section \<open>Attached files\<close>

definition add_file :: "package_file \<Rightarrow> unit db_op" where
  "add_file f d =
     (let row = f\<lparr>f_lower_id := canonical_id (f_lower_id f), f_downloads := 0\<rparr>
      in if has_row file_key (file_key row) (db_files d) then Inl PackageAlreadyExists
         else if \<not> has_row r_key (file_version row) (db_packages d) then Inl (Database Sqlx_Failed)
         else Inr ((), d\<lparr>db_files := db_files d @ [row]\<rparr>))"

definition by_lower_name :: "package_file \<Rightarrow> package_file \<Rightarrow> ordering" where
  "by_lower_name a b = cmp_str (to_ascii_lowercase (f_name a)) (to_ascii_lowercase (f_name b))"

definition files_for :: "string \<Rightarrow> nuget_version \<Rightarrow> db \<Rightarrow> package_file list" where
  "files_for i v d =
     sort_by by_lower_name (filter (\<lambda>f. file_version f = version_key i v) (db_files d))"

definition files_for_id :: "string \<Rightarrow> db \<Rightarrow> package_file list" where
  "files_for_id i d =
     sort_by (\<lambda>a b. then_with (cmp_str (f_normalized_version a) (f_normalized_version b))
                      (by_lower_name a b))
       (filter (\<lambda>f. f_lower_id f = canonical_id i) (db_files d))"

definition file_at :: "string \<Rightarrow> nuget_version \<Rightarrow> string \<Rightarrow> package_file \<Rightarrow> bool" where
  "file_at i v name f \<longleftrightarrow> file_key f = (version_key i v, to_ascii_lowercase name)"

definition get_file :: "string \<Rightarrow> nuget_version \<Rightarrow> string \<Rightarrow> db \<Rightarrow> package_file option" where
  "get_file i v name d = row_at file_key (version_key i v, to_ascii_lowercase name) (db_files d)"

definition delete_file :: "string \<Rightarrow> nuget_version \<Rightarrow> string \<Rightarrow> package_file option db_op" where
  "delete_file i v name d =
     (case get_file i v name d of
        None \<Rightarrow> Inr (None, d)
      | Some f \<Rightarrow> Inr (Some f, d\<lparr>db_files := delete_rows (file_at i v name) (db_files d)\<rparr>))"

definition blob_references :: "string \<Rightarrow> db \<Rightarrow> nat" where
  "blob_references sha d = count_rows (\<lambda>f. f_sha256 f = sha) (db_files d)"

definition increment_file_downloads :: "string \<Rightarrow> nuget_version \<Rightarrow> string \<Rightarrow> unit db_op" where
  "increment_file_downloads i v name d =
     Inr ((), d\<lparr>db_files := update_rows (file_at i v name)
                (\<lambda>f. f\<lparr>f_downloads := f_downloads f + 1\<rparr>) (db_files d)\<rparr>)"

text \<open>
  The text hashed for a version's files: one line for each, in order of lower-cased name
  and hash. The hash itself is a parameter.
\<close>

definition fingerprint_entries :: "package_file list \<Rightarrow> (string \<times> string) list" where
  "fingerprint_entries fs =
     sort_by (\<lambda>a b. then_with (cmp_str (fst a) (fst b)) (cmp_str (snd a) (snd b)))
       (map (\<lambda>f. (to_ascii_lowercase (f_name f), f_sha256 f)) fs)"

definition fingerprint_text :: "package_file list \<Rightarrow> string" where
  "fingerprint_text fs =
     concat (map (\<lambda>(name, sha). name @ [CHR 0x00] @ sha @ [CHR 0x0A]) (fingerprint_entries fs))"

definition files_fingerprint :: "(string \<Rightarrow> string) \<Rightarrow> package_file list \<Rightarrow> string" where
  "files_fingerprint sha256_hex fs = sha256_hex (fingerprint_text fs)"

section \<open>Symbol claims\<close>

definition symbol_at :: "string \<Rightarrow> string \<Rightarrow> symbol_row \<Rightarrow> bool" where
  "symbol_at key filename s \<longleftrightarrow>
     symbol_row_key s = (to_ascii_uppercase key, to_ascii_lowercase filename)"

text \<open>A claim: the first version to record a key keeps it.\<close>

definition add_symbol :: "string \<Rightarrow> string \<Rightarrow> string \<Rightarrow> nuget_version \<Rightarrow> bool db_op" where
  "add_symbol key filename i v d =
     (let row = \<lparr>s_key = to_ascii_uppercase key, s_filename = to_ascii_lowercase filename,
                 s_version = version_key i v\<rparr>
      in if has_row symbol_row_key (symbol_row_key row) (db_symbols d) then Inr (False, d)
         else if \<not> has_row r_key (s_version row) (db_packages d) then Inl (Database Sqlx_Failed)
         else Inr (True, d\<lparr>db_symbols := db_symbols d @ [row]\<rparr>))"

definition delete_symbol :: "string \<Rightarrow> string \<Rightarrow> unit db_op" where
  "delete_symbol key filename d =
     Inr ((), d\<lparr>db_symbols := delete_rows (symbol_at key filename) (db_symbols d)\<rparr>)"

definition find_symbol :: "string \<Rightarrow> string \<Rightarrow> db \<Rightarrow> key option" where
  "find_symbol key filename d =
     map_option s_version
       (row_at symbol_row_key (to_ascii_uppercase key, to_ascii_lowercase filename) (db_symbols d))"

definition find_symbols :: "string \<Rightarrow> nuget_version \<Rightarrow> db \<Rightarrow> symbol_key list" where
  "find_symbols i v d =
     map (\<lambda>s. \<lparr>sk_key = s_key s, sk_filename = s_filename s\<rparr>)
       (filter (\<lambda>s. s_version s = version_key i v) (db_symbols d))"

definition delete_symbols :: "string \<Rightarrow> nuget_version \<Rightarrow> nat db_op" where
  "delete_symbols i v d =
     Inr (count_rows (\<lambda>s. s_version s = version_key i v) (db_symbols d),
          d\<lparr>db_symbols := delete_rows (\<lambda>s. s_version s = version_key i v) (db_symbols d)\<rparr>)"

section \<open>Uploads\<close>

definition create_upload :: "upload_session \<Rightarrow> unit db_op" where
  "create_upload u d =
     (if has_row u_id (u_id u) (db_uploads d) then Inl (Database Sqlx_Failed)
      else Inr ((), d\<lparr>db_uploads :=
                       db_uploads d @ [u\<lparr>u_lower_id := canonical_id (u_lower_id u)\<rparr>]\<rparr>))"

definition get_upload :: "string \<Rightarrow> db \<Rightarrow> upload_session option" where
  "get_upload i d = row_at u_id i (db_uploads d)"

definition set_upload_received :: "time \<Rightarrow> string \<Rightarrow> nat \<Rightarrow> unit db_op" where
  "set_upload_received now i received d =
     Inr ((), d\<lparr>db_uploads := update_rows (\<lambda>u. u_id u = i)
                (\<lambda>u. u\<lparr>u_received := received, u_held_since := Some now\<rparr>) (db_uploads d)\<rparr>)"

definition set_upload_held :: "string \<Rightarrow> time option \<Rightarrow> unit db_op" where
  "set_upload_held i since d =
     Inr ((), d\<lparr>db_uploads := update_rows (\<lambda>u. u_id u = i)
                (\<lambda>u. u\<lparr>u_held_since := since\<rparr>) (db_uploads d)\<rparr>)"

definition delete_upload :: "string \<Rightarrow> unit db_op" where
  "delete_upload i d = Inr ((), d\<lparr>db_uploads := delete_rows (\<lambda>u. u_id u = i) (db_uploads d)\<rparr>)"

text \<open>\<open>length - received\<close>, floored at 0, is truncated subtraction; a null hold never compares.\<close>

definition upload_holds :: "time \<Rightarrow> time \<Rightarrow> upload_session \<Rightarrow> bool" where
  "upload_holds now held_after u \<longleftrightarrow>
     now \<le> u_expires u \<and> (case u_held_since u of None \<Rightarrow> False | Some t \<Rightarrow> held_after \<le> t)"

definition outstanding_upload_bytes :: "time \<Rightarrow> time \<Rightarrow> db \<Rightarrow> nat" where
  "outstanding_upload_bytes now held_after d =
     sum_list (map (\<lambda>u. u_length u - u_received u)
                 (filter (upload_holds now held_after) (db_uploads d)))"

definition open_uploads :: "string \<Rightarrow> time \<Rightarrow> db \<Rightarrow> nat" where
  "open_uploads feed now d = count_rows (\<lambda>u. u_feed u = feed \<and> now \<le> u_expires u) (db_uploads d)"

definition expired_uploads :: "time \<Rightarrow> db \<Rightarrow> upload_session list" where
  "expired_uploads now d = filter (\<lambda>u. u_expires u < now) (db_uploads d)"

end
