(* ===== verification/Feed_Reads.thy ===== *)
theory Feed_Reads
  imports File_Tables
begin

text \<open>
  The feed-scoped reads (\<open>sqlite/feeds.rs\<close>): what a feed holds, the membership rows joined
  to the package rows.
\<close>

definition join_row :: "db \<Rightarrow> member_row \<Rightarrow> (package_row \<times> member_row) option" where
  "join_row d m = map_option (\<lambda>r. (r, m)) (row_at r_key (member_version m) (db_packages d))"

definition feed_rows :: "(member_row \<Rightarrow> bool) \<Rightarrow> db \<Rightarrow> (package_row \<times> member_row) list" where
  "feed_rows P d = List.map_filter (join_row d) (filter P (db_members d))"

definition visible :: "'a membership_scheme \<Rightarrow> bool" where
  "visible m \<longleftrightarrow> m_enabled m \<and> \<not> m_pending m"

definition cmp_package_version :: "package \<Rightarrow> package \<Rightarrow> ordering" where
  "cmp_package_version a b = cmp_version (p_version a) (p_version b)"

definition to_package :: "package_row \<times> member_row \<Rightarrow> package result" where
  "to_package rm = map_result fv_package (row_to_feed_package rm)"

definition find_version :: "string \<Rightarrow> string \<Rightarrow> nuget_version \<Rightarrow> db \<Rightarrow> package option result" where
  "find_version feed i v d =
     (case feed_rows (\<lambda>m. member_at feed i v m \<and> visible m) d of
        [] \<Rightarrow> Inr None
      | rm # _ \<Rightarrow> map_result Some (to_package rm))"

definition find_versions_filtered ::
    "string \<Rightarrow> string \<Rightarrow> bool \<Rightarrow> bool \<Rightarrow> bool \<Rightarrow> db \<Rightarrow> package list result" where
  "find_versions_filtered feed lower include_prerelease include_semver2 listed_only d =
     map_result (sort_by cmp_package_version)
       (collect_results (map to_package
          (filter (\<lambda>(r, m). (\<not> listed_only \<or> m_listed m)
                      \<and> (include_prerelease \<or> \<not> r_prerelease r)
                      \<and> (include_semver2 \<or> \<not> p_is_semver2 (r_package r)))
             (feed_rows (\<lambda>m. m_feed m = feed \<and> m_lower_id m = lower \<and> visible m) d))))"

definition find_versions :: "string \<Rightarrow> string \<Rightarrow> bool \<Rightarrow> db \<Rightarrow> package list result" where
  "find_versions feed i include_unlisted d =
     find_versions_filtered feed (canonical_id i) True True (\<not> include_unlisted) d"

definition find_all_versions :: "string \<Rightarrow> string \<Rightarrow> db \<Rightarrow> feed_version list result" where
  "find_all_versions feed i d =
     map_result (sort_by (\<lambda>a b. cmp_package_version (fv_package a) (fv_package b)))
       (collect_results (map row_to_feed_package
          (feed_rows (\<lambda>m. m_feed m = feed \<and> m_lower_id m = canonical_id i) d)))"

text \<open>Lookups over many ids go in chunks of \<open>ID_CHUNK\<close>.\<close>

definition id_chunk :: nat where
  "id_chunk = 400"

function chunks :: "nat \<Rightarrow> 'a list \<Rightarrow> 'a list list" where
  "chunks n xs = (if xs = [] \<or> n = 0 then [] else take n xs # chunks n (drop n xs))"
  by auto
termination by (relation "measure (\<lambda>(n, xs). length xs)") auto

declare chunks.simps [simp del]

definition find_all_versions_of :: "string \<Rightarrow> string list \<Rightarrow> db \<Rightarrow> feed_version list result" where
  "find_all_versions_of feed ids d =
     map_result
       (sort_by (\<lambda>a b. then_with (cmp_str (lower_id (fv_package a)) (lower_id (fv_package b)))
                         (cmp_package_version (fv_package a) (fv_package b))))
       (collect_results (map row_to_feed_package
          (concat (map (\<lambda>chunk. feed_rows (\<lambda>m. m_feed m = feed \<and>
                                   List.member (map canonical_id chunk) (m_lower_id m)) d)
                     (chunks id_chunk ids)))))"

definition footprint_of :: "db \<Rightarrow> key \<Rightarrow> version_footprint" where
  "footprint_of d k =
     \<lparr>vf_lower_id = fst k, vf_normalized_version = snd k,
      vf_feeds = count_rows (\<lambda>m. member_version m = k) (db_members d),
      vf_file_bytes = sum_list (map f_size (filter (\<lambda>f. file_version f = k) (db_files d)))\<rparr>"

definition version_footprints :: "string list \<Rightarrow> db \<Rightarrow> version_footprint list" where
  "version_footprints ids d =
     concat (map (\<lambda>chunk. map (footprint_of d)
                    (remdups (map member_version
                       (filter (\<lambda>m. List.member (map canonical_id chunk) (m_lower_id m))
                          (db_members d)))))
               (chunks id_chunk ids))"

definition group_ids :: "(package_row \<times> member_row) list \<Rightarrow> string list" where
  "group_ids rows = sort_names (remdups (map (\<lambda>(r, m). m_lower_id m) rows))"

definition max_string :: "string list \<Rightarrow> string" where
  "max_string xs = (case max_by cmp_str xs of None \<Rightarrow> '''' | Some x \<Rightarrow> x)"

definition all_package_ids :: "string \<Rightarrow> db \<Rightarrow> string list" where
  "all_package_ids feed d =
     (let rows = feed_rows (\<lambda>m. m_feed m = feed) d
      in map (\<lambda>l. max_string (map (\<lambda>(r, m). p_id (r_package r))
                                (filter (\<lambda>(r, m). m_lower_id m = l) rows)))
           (group_ids rows))"

datatype admin_filter = Filter_All | Filter_Pending | Filter_Flagged

record admin_summary =
  as_id :: string
  as_versions :: nat
  as_pending :: nat
  as_flagged :: nat

record admin_overview =
  ao_packages :: "admin_summary list"
  ao_total :: nat
  ao_pending :: nat
  ao_flagged :: nat

definition per_id :: "string \<Rightarrow> db \<Rightarrow> (string \<times> admin_summary) list" where
  "per_id feed d =
     (let rows = feed_rows (\<lambda>m. m_feed m = feed) d
      in map (\<lambda>l. let mine = filter (\<lambda>(r, m). m_lower_id m = l) rows
                  in (l, \<lparr>as_id = max_string (map (\<lambda>(r, m). p_id (r_package r)) mine),
                          as_versions = length mine,
                          as_pending = count_rows (\<lambda>(r, m). m_pending m) mine,
                          as_flagged = count_rows (\<lambda>(r, m). m_flagged m) mine\<rparr>))
           (group_ids rows))"

fun admits :: "admin_filter \<Rightarrow> admin_summary \<Rightarrow> bool" where
  "admits Filter_All s = True"
| "admits Filter_Pending s = (0 < as_pending s)"
| "admits Filter_Flagged s = (0 < as_flagged s)"

definition cmp_bool_desc :: "bool \<Rightarrow> bool \<Rightarrow> ordering" where
  "cmp_bool_desc a b = (if a = b then Equal else if a then Less else Greater)"

definition cmp_overview ::
    "string \<times> admin_summary \<Rightarrow> string \<times> admin_summary \<Rightarrow> ordering" where
  "cmp_overview a b =
     then_with (cmp_bool_desc (0 < as_pending (snd a)) (0 < as_pending (snd b)))
       (then_with (cmp_bool_desc (0 < as_flagged (snd a)) (0 < as_flagged (snd b)))
          (cmp_str (fst a) (fst b)))"

definition admin_overview_of ::
    "string \<Rightarrow> admin_filter \<Rightarrow> int \<Rightarrow> int \<Rightarrow> db \<Rightarrow> admin_overview" where
  "admin_overview_of feed flt skip n d =
     (let groups = per_id feed d
      in \<lparr>ao_packages = map snd (take (nat n) (drop (nat skip)
                          (sort_by cmp_overview (filter (\<lambda>g. admits flt (snd g)) groups)))),
          ao_total = length groups,
          ao_pending = count_rows (\<lambda>g. 0 < as_pending (snd g)) groups,
          ao_flagged = count_rows (\<lambda>g. 0 < as_flagged (snd g)) groups\<rparr>)"

record database_stats =
  st_packages :: nat
  st_versions :: nat
  st_listed :: nat
  st_downloads :: nat
  st_size :: nat
  st_files :: nat
  st_file_bytes :: nat
  st_symbols :: nat

text \<open>Each blob's size counts once.\<close>

definition stats :: "string \<Rightarrow> db \<Rightarrow> database_stats" where
  "stats feed d =
     (let rows = feed_rows (\<lambda>m. m_feed m = feed \<and> visible m) d;
          held = (\<lambda>f. list_ex (\<lambda>m. m_feed m = feed \<and> visible m \<and>
                                     member_version m = file_version f) (db_members d));
          files = filter held (db_files d)
      in \<lparr>st_packages = length (remdups (map (\<lambda>(r, m). m_lower_id m) rows)),
          st_versions = length rows,
          st_listed = count_rows (\<lambda>(r, m). m_listed m) rows,
          st_downloads = sum_list (map (\<lambda>(r, m). mr_downloads m) rows),
          st_size = sum_list (map (\<lambda>(r, m). p_package_size (r_package r)) rows),
          st_files = length files,
          st_file_bytes = sum_list (map snd (remdups (map (\<lambda>f. (f_sha256 f, f_size f)) files))),
          st_symbols = count_rows (\<lambda>s. list_ex (\<lambda>m. m_feed m = feed \<and>
                                          member_version m = s_version s) (db_members d))
                         (db_symbols d)\<rparr>)"

definition recent_packages :: "string \<Rightarrow> int \<Rightarrow> db \<Rightarrow> package list result" where
  "recent_packages feed limit d =
     collect_results (map to_package
       (take (nat limit)
          (sort_by (\<lambda>a b. reverse_ordering
                      (if p_published (r_package (fst a)) = p_published (r_package (fst b)) then Equal
                       else if p_published (r_package (fst a)) < p_published (r_package (fst b))
                       then Less else Greater))
             (feed_rows (\<lambda>m. m_feed m = feed \<and> m_listed m \<and> visible m) d))))"

end
