(* ===== verification/Database_Invariant.thy ===== *)
theory Database_Invariant
  imports Feed_Reads
begin

text \<open>
  The invariant of the database: every table's key is unique, what refers to a version
  refers to a stored one, and a stored row's key and version string are its package's. Every
  operation keeps it, so every database reached from the empty one has it.
\<close>

section \<open>The invariant\<close>

definition refers :: "('r \<Rightarrow> key) \<Rightarrow> 'r list \<Rightarrow> package_row list \<Rightarrow> bool" where
  "refers vf rows packages \<longleftrightarrow> (\<forall>r \<in> set rows. has_row r_key (vf r) packages)"

definition row_ok :: "package_row \<Rightarrow> bool" where
  "row_ok r \<longleftrightarrow> r_key r = package_key (r_package r) \<and>
                r_original r = v_original (p_version (r_package r))"

definition keys_ok :: "db \<Rightarrow> bool" where
  "keys_ok d \<longleftrightarrow> distinct (map r_key (db_packages d)) \<and> distinct (db_tags d) \<and>
     distinct (map member_key (db_members d)) \<and> distinct (map file_key (db_files d)) \<and>
     distinct (map symbol_row_key (db_symbols d)) \<and> distinct (db_tombstones d) \<and>
     distinct (map u_id (db_uploads d))"

definition refs_ok :: "db \<Rightarrow> bool" where
  "refs_ok d \<longleftrightarrow> refers fst (db_tags d) (db_packages d) \<and>
     refers member_version (db_members d) (db_packages d) \<and>
     refers file_version (db_files d) (db_packages d) \<and>
     refers s_version (db_symbols d) (db_packages d)"

definition db_ok :: "db \<Rightarrow> bool" where
  "db_ok d \<longleftrightarrow> keys_ok d \<and> refs_ok d \<and> list_all row_ok (db_packages d)"

lemmas db_ok_defs = db_ok_def keys_ok_def refs_ok_def

lemma db_ok_empty: "db_ok empty_db"
  by (simp add: db_ok_defs empty_db_def refers_def)

text \<open>What the table operations do to the clauses of the invariant.\<close>

lemma refers_delete_rows [simp]: "refers vf rows ps \<Longrightarrow> refers vf (delete_rows P rows) ps"
  by (auto simp: refers_def)

lemma refers_one [simp]: "refers vf [r] ps \<longleftrightarrow> has_row r_key (vf r) ps"
  by (simp add: refers_def)

lemma has_row_image: "has_row kf k rows \<longleftrightarrow> k \<in> kf ` set rows"
  by (auto simp: has_row_iff)

lemma refers_append [simp]:
  "refers vf (rows @ rows') ps \<longleftrightarrow> refers vf rows ps \<and> refers vf rows' ps"
  by (auto simp: refers_def)

lemma refers_map: "refers vf rows ps \<longleftrightarrow> set (map vf rows) \<subseteq> set (map r_key ps)"
  by (auto simp: refers_def has_row_image)

lemma refers_update_rows [simp]:
  "(\<forall>r. vf (f r) = vf r) \<Longrightarrow> refers vf (update_rows P f rows) ps \<longleftrightarrow> refers vf rows ps"
  by (simp add: refers_map del: set_map)

lemma refers_more: "refers vf rows ps \<Longrightarrow> set (map r_key ps) \<subseteq> set (map r_key qs) \<Longrightarrow> refers vf rows qs"
  by (fastforce simp: refers_def has_row_iff)

lemma refers_delete_version:
  "refers vf rows ps \<Longrightarrow>
   refers vf (delete_rows (\<lambda>r. vf r = k) rows) (delete_rows (\<lambda>r. r_key r = k) ps)"
  by (fastforce simp: refers_def has_row_iff)

lemma distinct_delete [simp]: "distinct xs \<Longrightarrow> distinct (delete_rows P xs)"
  by (simp add: delete_rows_def)

lemma distinct_update_rows [simp]:
  "(\<forall>r. kf (f r) = kf r) \<Longrightarrow> distinct (map kf (update_rows P f rows)) = distinct (map kf rows)"
  by simp

lemmas table_simps = distinct_delete_rows has_row_iff image_iff

section \<open>Operations that keep it\<close>

text \<open>The operations on members, files, symbols and uploads leave the packages alone.\<close>

lemma member_update_keys [simp]:
  "member_key (m\<lparr>m_listed := a, m_listing_set := b\<rparr>) = member_key m"
  "member_key (m\<lparr>m_listed := a\<rparr>) = member_key m"
  "member_key (m\<lparr>m_enabled := a\<rparr>) = member_key m"
  "member_key (m\<lparr>m_pinned := a\<rparr>) = member_key m"
  "member_key (m\<lparr>m_pending := a\<rparr>) = member_key m"
  "member_key (r\<lparr>mr_downloads := n\<rparr>) = member_key r"
  "member_key (apply_change ch r) = member_key r"
  "member_key (set_flag o' r) = member_key r"
  by (cases ch; simp add: member_key_def set_flag_def)+

lemma member_version_key: "member_version m = snd (member_key m)"
  by (simp add: member_version_def member_key_def)

lemma db_ok_members_updated:
  assumes "db_ok d" "\<forall>m. member_key (f m) = member_key m"
  shows "db_ok (d\<lparr>db_members := update_rows P f (db_members d)\<rparr>)"
  using assms by (simp add: db_ok_defs member_version_key)

lemma db_ok_update_member:
  "db_ok d \<Longrightarrow> (\<forall>m. member_key (f m) = member_key m) \<Longrightarrow>
   update_member feed i v P f d = Inr (x, d') \<Longrightarrow> db_ok d'"
  by (auto simp: update_member_def Let_def db_ok_members_updated)

lemma db_ok_insert_membership:
  "db_ok d \<Longrightarrow> insert_membership now m d = Inr (x, d') \<Longrightarrow> db_ok d'"
  by (auto simp: insert_membership_def Let_def db_ok_defs has_row_image
           split: if_splits)

lemma db_ok_remove_membership:
  "db_ok d \<Longrightarrow> remove_membership feed i v d = Inr (x, d') \<Longrightarrow> db_ok d'"
  by (auto simp: remove_membership_def db_ok_defs distinct_delete_rows)

lemma db_ok_insert_tombstone: "db_ok d \<Longrightarrow> db_ok (insert_tombstone feed i v d)"
  by (auto simp: insert_tombstone_def Let_def db_ok_defs)

lemma db_ok_remove_for_good:
  "db_ok d \<Longrightarrow> remove_membership_for_good feed i v d = Inr (x, d') \<Longrightarrow> db_ok d'"
  by (auto simp: remove_membership_for_good_def bind_result_def remove_membership_def
                 db_ok_insert_tombstone db_ok_remove_membership[unfolded remove_membership_def]
           split: if_splits)

lemma db_ok_update_each:
  "db_ok d \<Longrightarrow> update_each feed i vs ch n d = Inr (x, d') \<Longrightarrow> db_ok d'"
proof (induction vs arbitrary: n d)
  case (Cons v vs)
  then obtain d1 k where "update_member feed i v (\<lambda>_. True) (apply_change ch) d = Inr (True, d1)"
      and "update_each feed i vs ch k d1 = Inr (x, d')"
    by (auto simp: bind_result_def split: sum.splits prod.splits if_splits)
  then show ?case
    using Cons.IH db_ok_update_member[OF Cons.prems(1)] by (metis member_update_keys(7))
qed simp

lemma db_ok_add_file: "db_ok d \<Longrightarrow> add_file f d = Inr (x, d') \<Longrightarrow> db_ok d'"
  by (auto simp: add_file_def Let_def db_ok_defs has_row_image split: if_splits)

lemma db_ok_add_symbol: "db_ok d \<Longrightarrow> add_symbol key n i v d = Inr (x, d') \<Longrightarrow> db_ok d'"
  by (auto simp: add_symbol_def Let_def db_ok_defs has_row_image split: if_splits)

lemma db_ok_delete_file: "db_ok d \<Longrightarrow> delete_file i v n d = Inr (x, d') \<Longrightarrow> db_ok d'"
  by (auto simp: delete_file_def db_ok_defs distinct_delete_rows split: option.splits)

lemma db_ok_create_upload: "db_ok d \<Longrightarrow> create_upload u d = Inr (x, d') \<Longrightarrow> db_ok d'"
  by (auto simp: create_upload_def db_ok_defs has_row_image split: if_splits)


text \<open>The operations on packages.\<close>

lemma insert_tags_other [simp]:
  "db_packages (insert_tags p d) = db_packages d" "db_members (insert_tags p d) = db_members d"
  "db_files (insert_tags p d) = db_files d" "db_symbols (insert_tags p d) = db_symbols d"
  "db_tombstones (insert_tags p d) = db_tombstones d"
  "db_uploads (insert_tags p d) = db_uploads d"
  by (simp_all add: insert_tags_def)

lemma add_tags_ok:
  "distinct rows \<Longrightarrow> refers fst rows ps \<Longrightarrow> has_row r_key k ps \<Longrightarrow>
   distinct (foldl (\<lambda>rows t. if (k, t) \<in> set rows then rows else rows @ [(k, t)]) rows ts) \<and>
   refers fst (foldl (\<lambda>rows t. if (k, t) \<in> set rows then rows else rows @ [(k, t)]) rows ts) ps"
  by (induction ts arbitrary: rows) auto

lemma db_ok_insert_tags:
  "db_ok d \<Longrightarrow> has_row r_key (package_key p) (db_packages d) \<Longrightarrow> db_ok (insert_tags p d)"
  using add_tags_ok[of "db_tags d" "db_packages d" "package_key p" "tags_of p"]
  by (auto simp: db_ok_defs insert_tags_def)

lemma bind_package_ok [simp]: "r_key (bind_package p) = package_key p" "row_ok (bind_package p)"
    "r_package (bind_package p) = p" "r_original (bind_package p) = v_original (p_version p)"
  by (simp_all add: bind_package_def row_ok_def)

lemma refs_ok_more:
  assumes "refs_ok d" "set (map r_key (db_packages d)) \<subseteq> set (map r_key ps)"
  shows "refs_ok (d\<lparr>db_packages := ps\<rparr>)"
  using assms(1) unfolding refs_ok_def
  by (auto elim!: refers_more[OF _ assms(2)] simp del: set_map)

lemma db_ok_insert_package: "db_ok d \<Longrightarrow> insert_package p d = (x, d') \<Longrightarrow> db_ok d'"
proof -
  assume ok: "db_ok d" and ins: "insert_package p d = (x, d')"
  show ?thesis
  proof (cases "has_row r_key (package_key p) (db_packages d)")
    case True
    then show ?thesis using ok ins by (simp add: insert_package_def)
  next
    case False
    let ?d = "d\<lparr>db_packages := db_packages d @ [bind_package p]\<rparr>"
    have "refs_ok ?d" using ok by (intro refs_ok_more) (auto simp: db_ok_def)
    then have "db_ok ?d"
      using ok False by (simp add: db_ok_def keys_ok_def has_row_image)
    then have "db_ok (insert_tags p ?d)"
      by (rule db_ok_insert_tags) (simp add: has_row_image)
    then show ?thesis using False ins by (auto simp: insert_package_def)
  qed
qed

lemma db_ok_add_version: "db_ok d \<Longrightarrow> add_version now p m d = Inr (x, d') \<Longrightarrow> db_ok d'"
  by (cases "insert_package p d")
     (auto simp: add_version_def bind_result_def split: sum.splits
           dest: db_ok_insert_package db_ok_insert_membership)

lemma has_row_insert_tags [simp]:
  "has_row r_key k (db_packages (insert_tags p d)) = has_row r_key k (db_packages d)"
  by simp

text \<open>The packages a replacement leaves: the old rows, with the new one in its place.\<close>

definition put_package :: "package \<Rightarrow> package_row list \<Rightarrow> package_row list" where
  "put_package p rows =
     (if has_row r_key (package_key p) rows
      then update_rows (\<lambda>r. r_key r = package_key p)
             (\<lambda>r. (bind_package p)\<lparr>r_key := r_key r, r_prerelease := r_prerelease r\<rparr>) rows
      else rows @ [bind_package p])"

lemma put_package_keys:
  "set (map r_key (put_package p rows)) = insert (package_key p) (set (map r_key rows))"
proof (cases "has_row r_key (package_key p) rows")
  case True
  then have "map r_key (put_package p rows) = map r_key rows" by (simp add: put_package_def)
  then show ?thesis using True by (simp only: has_row_image flip: set_map) (simp add: insert_absorb)
qed (simp add: put_package_def)

lemma put_package_distinct: "distinct (map r_key rows) \<Longrightarrow> distinct (map r_key (put_package p rows))"
  by (auto simp: put_package_def has_row_image)

lemma put_package_ok: "list_all row_ok rows \<Longrightarrow> list_all row_ok (put_package p rows)"
  by (auto simp: put_package_def list_all_iff update_rows_def row_ok_def)

definition put_member :: "member_row \<Rightarrow> member_row list \<Rightarrow> member_row list" where
  "put_member row rows =
     (if has_row member_key (member_key row) rows
      then update_rows (\<lambda>r. member_key r = member_key row)
             (\<lambda>r. row\<lparr>mr_downloads := mr_downloads r\<rparr>) rows
      else rows @ [row])"

lemma replace_rows_put:
  "replace_rows now p m d =
     (let d = insert_tags p (d\<lparr>db_packages := put_package p (db_packages d),
                db_tags := delete_rows (\<lambda>(k, _). k = package_key p) (db_tags d)\<rparr>)
      in d\<lparr>db_members := put_member (member_row_of now m 0) (db_members d)\<rparr>)"
  by (simp add: replace_rows_def put_package_def put_member_def Let_def)

lemma replace_rows_packages [simp]:
  "db_packages (replace_rows now p m d) = put_package p (db_packages d)"
  "db_members (replace_rows now p m d) = put_member (member_row_of now m 0) (db_members d)"
  "db_files (replace_rows now p m d) = db_files d"
  "db_symbols (replace_rows now p m d) = db_symbols d"
  "db_tombstones (replace_rows now p m d) = db_tombstones d"
  "db_uploads (replace_rows now p m d) = db_uploads d"
  by (simp_all add: replace_rows_put Let_def)

lemma map_put_member:
  "has_row member_key (member_key row) rows \<Longrightarrow>
   map member_key (put_member row rows) = map member_key rows"
  by (auto simp: put_member_def update_rows_def)

lemma put_member_distinct:
  "distinct (map member_key rows) \<Longrightarrow> distinct (map member_key (put_member row rows))"
  by (cases "has_row member_key (member_key row) rows")
     (simp only: map_put_member, auto simp: put_member_def has_row_image)

lemma put_member_refers:
  "refers member_version rows ps \<Longrightarrow> has_row r_key (member_version row) ps \<Longrightarrow>
   refers member_version (put_member row rows) ps"
  by (auto simp: put_member_def refers_def update_rows_def member_version_key)

lemma db_ok_replace_version: "db_ok d \<Longrightarrow> replace_version now p m d = Inr (x, d') \<Longrightarrow> db_ok d'"
proof -
  assume ok: "db_ok d" and rep: "replace_version now p m d = Inr (x, d')"
  let ?ps = "put_package p (db_packages d)"
  let ?d1 = "d\<lparr>db_packages := ?ps, db_tags := delete_rows (\<lambda>(k, _). k = package_key p) (db_tags d)\<rparr>"
  have sub: "set (map r_key (db_packages d)) \<subseteq> set (map r_key ?ps)"
    by (simp only: put_package_keys) blast
  have "refs_ok ?d1"
    using refs_ok_more[OF _ sub] ok by (auto simp: db_ok_def refs_ok_def)
  then have "db_ok ?d1"
    using ok by (simp add: db_ok_def keys_ok_def put_package_distinct put_package_ok)
  moreover have "has_row r_key (package_key p) ?ps"
    using put_package_keys[of p "db_packages d"] by (auto simp: has_row_image)
  ultimately have d2: "db_ok (insert_tags p ?d1)" by (simp add: db_ok_insert_tags)
  have d': "d' = (insert_tags p ?d1)\<lparr>db_members := put_member (member_row_of now m 0) (db_members d)\<rparr>"
      and row: "has_row r_key (member_version (member_row_of now m 0)) ?ps"
    using rep by (auto simp: replace_version_def replace_rows_put Let_def split: if_splits)
  show ?thesis
    using d2 row unfolding d' by (simp add: db_ok_defs put_member_distinct put_member_refers)
qed

lemma db_ok_flags:
  "db_ok d \<Longrightarrow>
   db_ok (foldl (\<lambda>d (feed, o'). d\<lparr>db_members := update_rows (\<lambda>r. member_key r = (feed, k))
                    (set_flag o') (db_members d)\<rparr>) d verdicts)"
  by (induction verdicts arbitrary: d) (auto simp: db_ok_members_updated)

lemma db_ok_drop_files: "db_ok d \<Longrightarrow> db_ok (d\<lparr>db_files := delete_rows P (db_files d)\<rparr>)"
  by (simp add: db_ok_defs distinct_delete_rows)

lemma db_ok_replace_pending:
  assumes "db_ok d" "replace_pending_version now p m dropping others d = Inr (x, d')"
  shows "db_ok d'"
proof -
  obtain verdicts d1 where "replace_version now p m d = Inr ((), d1)"
      and d': "d' = (let d2 = foldl (\<lambda>d (feed, o'). d\<lparr>db_members :=
                      update_rows (\<lambda>r. member_key r = (feed, package_key p)) (set_flag o')
                        (db_members d)\<rparr>) d1 verdicts
               in if dropping
                  then d2\<lparr>db_files := delete_rows (\<lambda>f. file_version f = package_key p) (db_files d2)\<rparr>
                  else d2)"
    using assms(2)
    by (simp add: replace_pending_version_def Let_def bind_result_def
             split: if_splits option.splits sum.splits prod.splits) blast+
  then show ?thesis
    using db_ok_replace_version[OF assms(1)] db_ok_flags db_ok_drop_files
    by (simp add: Let_def split: if_splits)
qed

lemma db_ok_delete_package_data:
  "db_ok d \<Longrightarrow> delete_package_data i v d = Inr (x, d') \<Longrightarrow> db_ok d'"
  using refers_delete_version[of fst "db_tags d" "db_packages d" "version_key i v"]
  by (auto simp: delete_package_data_def Let_def db_ok_defs distinct_delete_rows
                 refers_delete_version list_all_iff case_prod_unfold split: if_splits)

section \<open>Renaming a feed\<close>

lemma length_concat_0: "length (concat xss) = 0 \<longleftrightarrow> (\<forall>xs \<in> set xss. xs = [])"
  by (induction xss) auto

lemma shared_versions_0:
  "shared_versions a b d = 0 \<longleftrightarrow>
     (\<forall>x \<in> set (db_members d). \<forall>y \<in> set (db_members d).
        m_feed x = a \<longrightarrow> m_feed y = b \<longrightarrow> member_version y \<noteq> member_version x)"
  unfolding shared_versions_def length_concat_0 by (auto simp: filter_empty_conv)

definition renamed_key :: "string \<Rightarrow> string \<Rightarrow> string \<times> key \<Rightarrow> string \<times> key" where
  "renamed_key from' to = (\<lambda>(feed, k). (if feed = from' then to else feed, k))"

lemma map_key_rename:
  "map member_key (db_members (rename_members from' to hold d)) =
   map (renamed_key from' to) (map member_key (db_members d))"
  by (auto simp: rename_members_def update_rows_def renamed_key_def member_key_def)

lemma member_key_parts: "member_key m = (m_feed m, member_version m)"
  by (simp add: member_key_def member_version_def)

lemma renamed_inj:
  assumes "shared_versions from' to d = 0"
  shows "inj_on (renamed_key from' to) (member_key ` set (db_members d))"
proof (rule inj_onI; elim imageE)
  fix a b m n
  assume eq: "renamed_key from' to a = renamed_key from' to b"
    and m: "a = member_key m" "m \<in> set (db_members d)"
    and n: "b = member_key n" "n \<in> set (db_members d)"
  note apart = assms[unfolded shared_versions_0, rule_format]
  show "a = b"
    using eq m n apart[of m n] apart[of n m]
    by (auto simp: renamed_key_def member_key_parts split: if_splits)
qed

lemma distinct_rename:
  assumes "distinct (map member_key (db_members d))" "shared_versions from' to d = 0"
  shows "distinct (map member_key (db_members (rename_members from' to hold d)))"
  using assms renamed_inj[OF assms(2)] by (simp add: map_key_rename distinct_map comp_inj_on)

lemma rename_members_version:
  "refers member_version (db_members (rename_members from' to hold d)) ps \<longleftrightarrow>
   refers member_version (db_members d) ps"
  unfolding rename_members_def by (simp add: refers_update_rows member_version_def)

lemma move_tombstones_distinct:
  "distinct (done' @ ts) \<Longrightarrow> distinct (move_tombstones from' to ts done')"
  by (induction from' to ts done' rule: move_tombstones.induct) auto

text \<open>
  The rows of \<open>from'\<close> that stay are those \<open>to\<close> already has; every other row moves or is
  left alone.
\<close>

lemma move_tombstones_set:
  "from' \<noteq> to \<Longrightarrow> distinct (done' @ ts) \<Longrightarrow>
   set (move_tombstones from' to ts done') =
     set done' \<union> {t \<in> set ts. fst t \<noteq> from'} \<union> {(to, k) | k. (from', k) \<in> set ts}
       \<union> {t \<in> set ts. fst t = from' \<and> (to, snd t) \<in> set done' \<union> set ts}"
proof (induction from' to ts done' rule: move_tombstones.induct)
  case (2 from' to t rest done')
  show ?case
  proof (cases "fst t = from' \<and> \<not> List.member (done' @ rest) (to, snd t)")
    case True
    then have "distinct ((done' @ [(to, snd t)]) @ rest)"
      using 2(4) by auto
    note IH = 2(1)[OF True 2(3) this]
    obtain k where t: "t = (from', k)" using True by (cases t) auto
    have new: "(to, k) \<notin> set done'" "(to, k) \<notin> set rest" "(from', k) \<notin> set rest"
      using True 2(4) by (auto simp: t)
    show ?thesis
      using True IH new 2(3) by (auto simp: t)
  next
    case False
    have "distinct ((done' @ [t]) @ rest)" using 2(4) by auto
    note IH = 2(2)[OF False 2(3) this]
    obtain f k where t: "t = (f, k)" by (cases t) auto
    then show ?thesis
      using False IH 2(3) by auto
  qed
qed simp

lemma rename_tombstones_set:
  assumes "from' \<noteq> to" "distinct (db_tombstones d)"
  shows "set (db_tombstones (rename_tombstones from' to d)) =
     {t \<in> set (db_tombstones d). fst t \<noteq> from' \<and> fst t \<noteq> to} \<union>
     {(to, k) | k. ((from', k) \<in> set (db_tombstones d) \<or> (to, k) \<in> set (db_tombstones d)) \<and>
                   \<not> has_row member_key (to, k) (db_members d)}"
  using move_tombstones_set[OF assms(1), of "[]" "db_tombstones d"] assms
  by (auto simp: rename_tombstones_def Let_def)

lemma rename_tombstones_fields [simp]:
  "db_packages (rename_tombstones from' to d) = db_packages d"
  "db_tags (rename_tombstones from' to d) = db_tags d"
  "db_members (rename_tombstones from' to d) = db_members d"
  "db_files (rename_tombstones from' to d) = db_files d"
  "db_symbols (rename_tombstones from' to d) = db_symbols d"
  "db_uploads (rename_tombstones from' to d) = db_uploads d"
  "db_packages (rename_members from' to hold d) = db_packages d"
  "db_tags (rename_members from' to hold d) = db_tags d"
  "db_files (rename_members from' to hold d) = db_files d"
  "db_symbols (rename_members from' to hold d) = db_symbols d"
  "db_tombstones (rename_members from' to hold d) = db_tombstones d"
  "db_uploads (rename_members from' to hold d) = db_uploads d"
  by (simp_all add: rename_tombstones_def rename_members_def Let_def)

lemma rename_tombstones_distinct:
  "distinct (db_tombstones d) \<Longrightarrow> distinct (db_tombstones (rename_tombstones from' to d))"
  by (simp add: rename_tombstones_def Let_def move_tombstones_distinct)

lemma db_ok_rename_feed:
  assumes "db_ok d" "rename_feed from' to hold d = Inr (x, d')"
  shows "db_ok d'"
proof -
  have shared: "shared_versions from' to d = 0"
      and d': "d' = (let d2 = rename_tombstones from' to (rename_members from' to hold d)
               in d2\<lparr>db_uploads := update_rows (\<lambda>u. u_feed u = from') (\<lambda>u. u\<lparr>u_feed := to\<rparr>)
                                    (db_uploads d2)\<rparr>)"
    using assms(2) by (auto simp: rename_feed_def Let_def split: if_splits)
  then show ?thesis
    using assms(1) distinct_rename[OF _ shared]
    by (simp add: db_ok_defs rename_tombstones_distinct rename_members_version Let_def)
qed

end
