(* ===== verification/Database_Spec.thy ===== *)
theory Database_Spec
  imports Database_Invariant
begin

text \<open>
  What the database promises: every reachable database satisfies the invariant; a feed's
  memberships behave as a finite map; changes of many versions are all or nothing; a
  rename merges two feeds without a version in both and deleted; an approved version is
  never replaced as pending; a stored package is read back as it was; the public listing
  of an id is its visible versions in order.
\<close>

section \<open>Reachable databases\<close>

inductive db_step :: "db \<Rightarrow> db \<Rightarrow> bool" where
  upsert: "upsert_package_data p d = Inr (a, d') \<Longrightarrow> db_step d d'"
| adding: "add_version now p m d = Inr (a, d') \<Longrightarrow> db_step d d'"
| replacing: "replace_version now p m d = Inr (u, d') \<Longrightarrow> db_step d d'"
| replacing_pending: "replace_pending_version now p m dropping others d = Inr (fs, d') \<Longrightarrow> db_step d d'"
| deleting: "delete_package_data i v d = Inr (a, d') \<Longrightarrow> db_step d d'"
| member_added: "add_membership now m d = Inr (u, d') \<Longrightarrow> db_step d d'"
| member_removed: "remove_membership feed i v d = Inr (a, d') \<Longrightarrow> db_step d d'"
| member_removed_for_good: "remove_membership_for_good feed i v d = Inr (a, d') \<Longrightarrow> db_step d d'"
| approving: "approve_membership feed i v d = Inr (a, d') \<Longrightarrow> db_step d d'"
| listing: "set_listed feed i v on d = Inr (a, d') \<Longrightarrow> db_step d d'"
| following: "follow_upstream_listing feed i v on d = Inr (a, d') \<Longrightarrow> db_step d d'"
| enabling: "set_enabled feed i v on d = Inr (a, d') \<Longrightarrow> db_step d d'"
| pinning: "set_pinned feed i v on d = Inr (a, d') \<Longrightarrow> db_step d d'"
| updating: "update_memberships feed i vs ch d = Inr (n, d') \<Longrightarrow> db_step d d'"
| downloaded: "increment_downloads feed i v d = Inr (u, d') \<Longrightarrow> db_step d d'"
| tombstone_added: "add_tombstone feed i v d = Inr (u, d') \<Longrightarrow> db_step d d'"
| tombstone_cleared: "clear_tombstone feed i v d = Inr (u, d') \<Longrightarrow> db_step d d'"
| tombstones_cleared: "clear_tombstones feed d = Inr (n, d') \<Longrightarrow> db_step d d'"
| renaming: "rename_feed from' to hold d = Inr (n, d') \<Longrightarrow> db_step d d'"
| file_added: "add_file f d = Inr (u, d') \<Longrightarrow> db_step d d'"
| file_deleted: "delete_file i v name d = Inr (f', d') \<Longrightarrow> db_step d d'"
| file_downloaded: "increment_file_downloads i v name d = Inr (u, d') \<Longrightarrow> db_step d d'"
| symbol_added: "add_symbol k name i v d = Inr (a, d') \<Longrightarrow> db_step d d'"
| symbol_deleted: "delete_symbol k name d = Inr (u, d') \<Longrightarrow> db_step d d'"
| symbols_deleted: "delete_symbols i v d = Inr (n, d') \<Longrightarrow> db_step d d'"
| upload_created: "create_upload s d = Inr (u, d') \<Longrightarrow> db_step d d'"
| upload_received: "set_upload_received now i n d = Inr (u, d') \<Longrightarrow> db_step d d'"
| upload_held: "set_upload_held i since d = Inr (u, d') \<Longrightarrow> db_step d d'"
| upload_deleted: "delete_upload i d = Inr (u, d') \<Longrightarrow> db_step d d'"

inductive db_reachable :: "db \<Rightarrow> bool" where
  start: "db_reachable empty_db"
| step: "db_reachable d \<Longrightarrow> db_step d d' \<Longrightarrow> db_reachable d'"

lemmas update_member_ops =
  approve_membership_def set_listed_def follow_upstream_listing_def set_enabled_def set_pinned_def

lemma db_ok_downloads: "db_ok d \<Longrightarrow> increment_downloads feed i v d = Inr (x, d') \<Longrightarrow> db_ok d'"
  by (auto simp: increment_downloads_def db_ok_members_updated)

lemma file_key_downloads [simp]: "file_key (f\<lparr>f_downloads := n\<rparr>) = file_key f"
    "file_version (f\<lparr>f_downloads := n\<rparr>) = file_version f"
  by (simp_all add: file_key_def file_version_def)

lemma db_ok_step: "db_step d d' \<Longrightarrow> db_ok d \<Longrightarrow> db_ok d'"
proof (induction rule: db_step.induct)
  case (upsert p d a d')
  then show ?case by (cases "insert_package p d") (auto simp: upsert_package_data_def dest: db_ok_insert_package)
next
  case adding then show ?case by (blast intro: db_ok_add_version)
next
  case replacing then show ?case by (blast intro: db_ok_replace_version)
next
  case replacing_pending then show ?case by (blast intro: db_ok_replace_pending)
next
  case deleting then show ?case by (blast intro: db_ok_delete_package_data)
next
  case member_added then show ?case by (auto simp: add_membership_def dest: db_ok_insert_membership)
next
  case member_removed then show ?case by (blast intro: db_ok_remove_membership)
next
  case member_removed_for_good then show ?case by (blast intro: db_ok_remove_for_good)
next
  case approving then show ?case by (auto simp: update_member_ops dest!: db_ok_update_member[rotated 2])
next
  case listing then show ?case by (auto simp: update_member_ops dest!: db_ok_update_member[rotated 2])
next
  case following then show ?case by (auto simp: update_member_ops dest!: db_ok_update_member[rotated 2])
next
  case enabling then show ?case by (auto simp: update_member_ops dest!: db_ok_update_member[rotated 2])
next
  case pinning then show ?case by (auto simp: update_member_ops dest!: db_ok_update_member[rotated 2])
next
  case updating then show ?case by (auto simp: update_memberships_def dest: db_ok_update_each)
next
  case downloaded then show ?case by (blast intro: db_ok_downloads)
next
  case tombstone_added then show ?case by (auto simp: add_tombstone_def db_ok_insert_tombstone)
next
  case renaming then show ?case by (blast intro: db_ok_rename_feed)
next
  case file_added then show ?case by (blast intro: db_ok_add_file)
next
  case file_deleted then show ?case by (blast intro: db_ok_delete_file)
next
  case symbol_added then show ?case by (blast intro: db_ok_add_symbol)
next
  case upload_created then show ?case by (blast intro: db_ok_create_upload)
qed (auto simp: clear_tombstone_def clear_tombstones_def increment_file_downloads_def
       delete_symbol_def delete_symbols_def set_upload_received_def set_upload_held_def
       delete_upload_def db_ok_defs distinct_delete_rows)

definition sample_db :: db where
  "sample_db =
     (let p = sample_package ''Pkg'' sample_lower
      in case add_version 5 p (active_membership ''main'' p) empty_db of
           Inr (_, d) \<Rightarrow> d | Inl _ \<Rightarrow> empty_db)"

text \<open>
  C6: in every database the server can reach, by any sequence of its operations from the
  empty one, each table's primary key is unique, every tag, membership, attached file and
  symbol claim belongs to a stored version, and every package row sits under its own
  package's key with the version string that package was built from.
\<close>
theorem reachable_database_ok:
  assumes "db_reachable d"
  shows "db_ok d"
  using assms by (induction rule: db_reachable.induct) (simp_all add: db_ok_empty db_ok_step)

lemma sample_db_added:
  "\<exists>a. add_version 5 (sample_package ''Pkg'' sample_lower)
      (active_membership ''main'' (sample_package ''Pkg'' sample_lower)) empty_db = Inr (a, sample_db)"
proof -
  let ?p = "sample_package ''Pkg'' sample_lower"
  obtain a d where d: "add_version 5 ?p (active_membership ''main'' ?p) empty_db = Inr (a, d)"
    by (auto simp: add_version_def insert_package_def insert_membership_def Let_def empty_db_def
        has_row_def bind_result_def member_row_of_def active_membership_def member_version_def
        member_key_def membership.extend_def package_key_def bind_package_def lower_id_def)
  then have "sample_db = d" by (simp add: sample_db_def Let_def)
  with d show ?thesis by blast
qed

lemma sample_db_reachable: "db_reachable sample_db"
  using sample_db_added db_reachable.intros db_step.adding by metis

lemma reachable_database_ok_witness: "db_ok sample_db \<and> db_reachable sample_db"
  using reachable_database_ok[OF sample_db_reachable] sample_db_reachable by simp

section \<open>Memberships as a map\<close>

definition members_of :: "db \<Rightarrow> string \<times> key \<Rightarrow> member_row option" where
  "members_of d k = row_at member_key k (db_members d)"

text \<open>The outcome of an operation, seen through the map.\<close>

definition observe :: "'a \<times> db \<Rightarrow> 'a \<times> (string \<times> key \<Rightarrow> member_row option)" where
  "observe ad = (fst ad, members_of (snd ad))"

lemma row_at_iff:
  "distinct (map kf rows) \<Longrightarrow> row_at kf k rows = Some r \<longleftrightarrow> r \<in> set rows \<and> kf r = k"
  using row_at_distinct row_at_Some by metis

lemma row_at_None_iff: "row_at kf k rows = None \<longleftrightarrow> (\<forall>r \<in> set rows. kf r \<noteq> k)"
  by (auto simp: row_at_None has_row_iff)

lemma list_ex_row_at:
  assumes "distinct (map kf rows)"
  shows "list_ex (\<lambda>r. kf r = k \<and> P r) rows \<longleftrightarrow>
           (case row_at kf k rows of None \<Rightarrow> False | Some r \<Rightarrow> P r)"
proof (cases "row_at kf k rows")
  case None
  then have "\<forall>r \<in> set rows. kf r \<noteq> k" by (simp add: row_at_None_iff)
  with None show ?thesis by (auto simp: list_ex_iff)
next
  case (Some r)
  then have "r' = r" if "r' \<in> set rows" "kf r' = k" for r'
    using row_at_distinct [OF assms that(1)] that(2) by simp
  with Some row_at_Some [OF Some] show ?thesis by (auto simp: list_ex_iff)
qed

lemma list_ex_key: "list_ex (\<lambda>r. kf r = k) rows \<longleftrightarrow> row_at kf k rows \<noteq> None"
  by (simp add: row_at_None has_row_def)

lemma member_at_key: "member_at feed i v = (\<lambda>m. member_key m = (feed, version_key i v))"
  by (simp add: fun_eq_iff member_at_def)

lemma row_at_update_at:
  assumes "\<forall>r. kf (f r) = kf r"
  shows "row_at kf k (update_rows (\<lambda>r. kf r = k' \<and> P r) f rows) =
     (if k = k' then map_option (\<lambda>r. if P r then f r else r) (row_at kf k rows)
      else row_at kf k rows)"
proof (cases "row_at kf k rows")
  case None
  then show ?thesis by (auto simp: row_at_update [OF assms])
next
  case (Some r)
  then have "kf r = k" using row_at_Some [OF Some] by simp
  with Some show ?thesis unfolding row_at_update [OF assms] by (cases "k = k'") simp_all
qed

lemma members_of_update:
  assumes "\<forall>m. member_key (f m) = member_key m"
  shows "members_of (d\<lparr>db_members := update_rows (\<lambda>m. member_key m = k \<and> P m) f (db_members d)\<rparr>) =
     (members_of d)(k := map_option (\<lambda>m. if P m then f m else m) (members_of d k))"
proof
  fix x
  show "members_of (d\<lparr>db_members := update_rows (\<lambda>m. member_key m = k \<and> P m) f (db_members d)\<rparr>) x =
     ((members_of d)(k := map_option (\<lambda>m. if P m then f m else m) (members_of d k))) x"
    unfolding members_of_def using row_at_update_at [OF assms, of x k P "db_members d"] by simp
qed

lemma members_of_update_member:
  assumes "db_ok d" "\<forall>m. member_key (f m) = member_key m"
  shows "map_result observe (update_member feed i v P f d) =
     Inr (case members_of d (feed, version_key i v) of None \<Rightarrow> False | Some m \<Rightarrow> P m,
          (members_of d)((feed, version_key i v) :=
             map_option (\<lambda>m. if P m then f m else m) (members_of d (feed, version_key i v))))"
proof -
  have "distinct (map member_key (db_members d))" using assms(1) by (simp add: db_ok_defs)
  note ex = list_ex_row_at [OF this, of "(feed, version_key i v)" P]
  show ?thesis
    by (simp add: update_member_def observe_def member_at_key Let_def members_of_update [OF assms(2)]
        ex members_of_def [of d])
qed

lemma row_at_delete_at:
  "row_at kf k (delete_rows (\<lambda>m. kf m = k') rows) = (if k = k' then None else row_at kf k rows)"
  by (simp add: row_at_delete_all row_at_delete)

lemma members_of_delete:
  "members_of (d\<lparr>db_members := delete_rows (\<lambda>m. member_key m = k) (db_members d)\<rparr>) =
     (members_of d)(k := None)"
  by (rule ext) (simp add: members_of_def row_at_delete_at)

lemma members_of_tombstone [simp]: "members_of (insert_tombstone feed i v d) = members_of d"
  by (rule ext) (simp add: members_of_def insert_tombstone_def Let_def)

lemma option_exists: "(case x of None \<Rightarrow> False | Some _ \<Rightarrow> True) = (x \<noteq> None)"
  by (cases x) simp_all

lemma members_of_insert:
  "map_result observe (add_membership now m d) =
     (let row = member_row_of now m 0
      in if members_of d (member_key row) \<noteq> None then Inl PackageAlreadyExists
         else if \<not> has_row r_key (member_version row) (db_packages d) then Inl (Database Sqlx_Failed)
         else Inr ((), (members_of d)(member_key row \<mapsto> row)))"
proof -
  let ?row = "member_row_of now m 0"
  have "has_row member_key (member_key ?row) (db_members d) \<longleftrightarrow> members_of d (member_key ?row) \<noteq> None"
    by (simp add: members_of_def row_at_None)
  moreover have "members_of (d\<lparr>db_members := db_members d @ [?row]\<rparr>) =
      (members_of d)(member_key ?row \<mapsto> ?row)" if "members_of d (member_key ?row) = None"
    using that by (intro ext) (simp add: members_of_def split: option.splits)
  ultimately show ?thesis
    by (simp add: add_membership_def insert_membership_def Let_def observe_def)
qed

text \<open>
  C7: to a feed's clients the memberships are a finite map from feed, id and version to a
  row: every reader looks one key up, and every operation refuses as told or changes the
  map at that key only, the answer saying whether the row was there (for the upstream's
  listing, whether it was there, undecided by an admin, and different).
\<close>
theorem memberships_refine_a_map:
  assumes "db_ok d" and k_def: "k = (feed, version_key i v)"
  shows "get_membership feed i v d = map_option membership.truncate (members_of d k) \<and>
     member_exists feed i v d = (members_of d k \<noteq> None) \<and>
     is_servable feed i v d =
       (case members_of d k of None \<Rightarrow> False | Some m \<Rightarrow> m_enabled m \<and> \<not> m_pending m) \<and>
     map_result observe (set_enabled feed i v on d) =
       Inr (members_of d k \<noteq> None,
            (members_of d)(k := map_option (\<lambda>m. m\<lparr>m_enabled := on\<rparr>) (members_of d k))) \<and>
     map_result observe (set_pinned feed i v on d) =
       Inr (members_of d k \<noteq> None,
            (members_of d)(k := map_option (\<lambda>m. m\<lparr>m_pinned := on\<rparr>) (members_of d k))) \<and>
     map_result observe (approve_membership feed i v d) =
       Inr (members_of d k \<noteq> None,
            (members_of d)(k := map_option (\<lambda>m. m\<lparr>m_pending := False\<rparr>) (members_of d k))) \<and>
     map_result observe (set_listed feed i v on d) =
       Inr (members_of d k \<noteq> None,
            (members_of d)(k := map_option (\<lambda>m. m\<lparr>m_listed := on, m_listing_set := True\<rparr>)
                                  (members_of d k))) \<and>
     map_result observe (follow_upstream_listing feed i v on d) =
       Inr (case members_of d k of None \<Rightarrow> False | Some m \<Rightarrow> \<not> m_listing_set m \<and> m_listed m \<noteq> on,
            (members_of d)(k := map_option (\<lambda>m. if m_listing_set m then m else m\<lparr>m_listed := on\<rparr>)
                                  (members_of d k))) \<and>
     map_result observe (remove_membership feed i v d) =
       Inr (members_of d k \<noteq> None, (members_of d)(k := None)) \<and>
     map_result observe (remove_membership_for_good feed i v d) =
       Inr (members_of d k \<noteq> None, (members_of d)(k := None)) \<and>
     map_result observe (add_membership now m d) =
       (let row = member_row_of now m 0
        in if members_of d (member_key row) \<noteq> None then Inl PackageAlreadyExists
           else if \<not> has_row r_key (member_version row) (db_packages d)
           then Inl (Database Sqlx_Failed)
           else Inr ((), (members_of d)(member_key row \<mapsto> row)))"
proof (intro conjI)
  show "map_result observe (follow_upstream_listing feed i v on d) =
       Inr (case members_of d k of None \<Rightarrow> False | Some m \<Rightarrow> \<not> m_listing_set m \<and> m_listed m \<noteq> on,
            (members_of d)(k := map_option (\<lambda>m. if m_listing_set m then m else m\<lparr>m_listed := on\<rparr>)
                                  (members_of d k)))"
    using members_of_update_member[OF assms(1)]
    by (cases "members_of d k") (auto simp: update_member_ops k_def fun_eq_iff)
  show "is_servable feed i v d =
       (case members_of d k of None \<Rightarrow> False | Some m \<Rightarrow> m_enabled m \<and> \<not> m_pending m)"
    using list_ex_row_at[of member_key "db_members d" k "\<lambda>m. m_enabled m \<and> \<not> m_pending m"] assms(1)
    by (simp add: is_servable_def member_at_key k_def members_of_def db_ok_defs)
  show "map_result observe (remove_membership_for_good feed i v d) =
       Inr (members_of d k \<noteq> None, (members_of d)(k := None))"
    by (simp add: remove_membership_for_good_def remove_membership_def bind_result_def observe_def
        member_at_key list_ex_key members_of_delete k_def members_of_def [of d])
qed (simp_all add: assms(1) k_def update_member_ops members_of_update_member option_exists
       members_of_insert get_membership_def member_exists_def members_of_def [of d] row_at_None
       remove_membership_def observe_def member_at_key list_ex_key members_of_delete)

definition sample_row :: member_row where
  "sample_row = member_row_of 5 (active_membership ''main'' (sample_package ''Pkg'' sample_lower)) 0"

lemma sample_row_key:
  "member_key sample_row = (''main'', version_key ''Pkg'' sample_lower)"
  "m_enabled sample_row" "\<not> m_pending sample_row" "m_feed sample_row = ''main''"
  "member_version sample_row = version_key ''Pkg'' sample_lower"
  by (simp_all add: sample_row_def member_row_of_def membership.extend_def active_membership_def
      member_key_def member_version_def version_key_def lower_id_def normalized_version_def
      sample_package_def)

lemma sample_db_fields:
  "db_members sample_db = [sample_row]"
  "db_packages sample_db = [bind_package (sample_package ''Pkg'' sample_lower)]"
  "db_files sample_db = []" "db_tombstones sample_db = []"
proof -
  have k: "package_key (sample_package ''Pkg'' sample_lower) = version_key ''Pkg'' sample_lower"
    by (simp add: package_key_def version_key_def lower_id_def normalized_version_def
        sample_package_def)
  show "db_members sample_db = [sample_row]"
    "db_packages sample_db = [bind_package (sample_package ''Pkg'' sample_lower)]"
    "db_files sample_db = []" "db_tombstones sample_db = []"
    using sample_row_key
    by (simp_all add: sample_db_def add_version_def insert_package_def insert_membership_def Let_def
        empty_db_def has_row_def bind_result_def sample_row_def [symmetric] k)
qed

lemma sample_db_ok: "db_ok sample_db"
  using sample_db_added db_ok_add_version [OF db_ok_empty] by blast

lemma memberships_refine_a_map_witness:
  "is_servable ''main'' ''Pkg'' sample_lower sample_db \<and>
   map_result observe (set_enabled ''main'' ''Pkg'' sample_lower False sample_db) =
     Inr (True, (members_of sample_db)((''main'', version_key ''Pkg'' sample_lower) \<mapsto>
                   sample_row\<lparr>m_enabled := False\<rparr>))"
proof -
  have m: "members_of sample_db (''main'', version_key ''Pkg'' sample_lower) = Some sample_row"
    by (simp add: members_of_def sample_db_fields row_at_def sample_row_key)
  show ?thesis
    using memberships_refine_a_map [OF sample_db_ok refl, of "''main''" "''Pkg''" sample_lower False]
    by (simp add: m sample_row_key)
qed

section \<open>Many versions at once\<close>

lemma list_all_exists_update:
  "map_result observe (update_member feed i v (\<lambda>_. True) f d) = Inr (b, \<sigma>) \<Longrightarrow>
   (\<exists>d1. update_member feed i v (\<lambda>_. True) f d = Inr (b, d1) \<and> members_of d1 = \<sigma>)"
  by (auto simp: update_member_def observe_def Let_def)

lemma member_exists_members: "member_exists feed i v d \<longleftrightarrow> members_of d (feed, version_key i v) \<noteq> None"
  by (simp add: member_exists_def members_of_def row_at_None)

lemma apply_change_twice [simp]: "apply_change ch (apply_change ch m) = apply_change ch m"
  by (cases ch) simp_all

definition change_all ::
    "string \<Rightarrow> string \<Rightarrow> nuget_version list \<Rightarrow> membership_change \<Rightarrow>
     (string \<times> key \<Rightarrow> member_row option) \<Rightarrow> string \<times> key \<Rightarrow> member_row option" where
  "change_all feed i vs ch \<sigma> k =
     (if k \<in> (\<lambda>v. (feed, version_key i v)) ` set vs then map_option (apply_change ch) (\<sigma> k) else \<sigma> k)"

lemma update_each_spec:
  "db_ok d \<Longrightarrow>
   (case update_each feed i vs ch n d of
      Inl e \<Rightarrow> e = PackageNotFound \<and> \<not> list_all (\<lambda>v. member_exists feed i v d) vs
    | Inr (_, d') \<Rightarrow> list_all (\<lambda>v. member_exists feed i v d) vs \<and>
        members_of d' = change_all feed i vs ch (members_of d))"
proof (induction vs arbitrary: d n)
  case Nil
  then show ?case by (simp add: change_all_def fun_eq_iff)
next
  case (Cons v vs)
  let ?k = "(feed, version_key i v)" and ?f = "apply_change ch"
  obtain b d1 where up: "update_member feed i v (\<lambda>_. True) ?f d = Inr (b, d1)"
    by (simp add: update_member_def Let_def)
  have ok1: "db_ok d1" using db_ok_update_member [OF Cons.prems _ up] by simp
  have obs: "b = (members_of d ?k \<noteq> None)"
      "members_of d1 = (members_of d)(?k := map_option ?f (members_of d ?k))"
    using members_of_update_member [OF Cons.prems, of ?f feed i v "\<lambda>_. True"] up
    by (simp_all add: observe_def option_exists)
  have same: "member_exists feed i w d1 = member_exists feed i w d" for w
    by (simp add: member_exists_members obs)
  have changed: "change_all feed i vs ch (members_of d1) = change_all feed i (v # vs) ch (members_of d)"
    by (auto simp: fun_eq_iff change_all_def obs option.map_comp comp_def)
  show ?case
  proof (cases b)
    case False
    then show ?thesis using obs by (simp add: up bind_result_def member_exists_members)
  next
    case True
    then show ?thesis
      using Cons.IH [OF ok1, of "n + count_rows (member_at feed i v) (db_members d)"] obs(1)
      by (simp add: up bind_result_def member_exists_members [of feed i v d] same changed
          split: sum.splits prod.splits)
  qed
qed

lemma update_each_frame:
  "update_each feed i vs ch n d = Inr (x, d') \<Longrightarrow> d' = d\<lparr>db_members := db_members d'\<rparr>"
  by (induction vs arbitrary: n d)
     (fastforce simp: bind_result_def update_member_def Let_def split: if_splits)+

text \<open>
  C15: a change of many versions is all or nothing: it fails exactly when the feed lacks one
  of them, and then as a version not found, with the database unchanged; otherwise each
  named membership has the change, and no other row of any table is touched.
\<close>
theorem update_memberships_all_or_nothing:
  assumes "db_ok d"
  shows "case update_memberships feed i vs ch d of
           Inl e \<Rightarrow> e = PackageNotFound \<and> \<not> list_all (\<lambda>v. member_exists feed i v d) vs
         | Inr (n, d') \<Rightarrow>
             list_all (\<lambda>v. member_exists feed i v d) vs \<and> d' = d\<lparr>db_members := db_members d'\<rparr> \<and>
             members_of d' = (\<lambda>k. if k \<in> (\<lambda>v. (feed, version_key i v)) ` set vs
                                then map_option (apply_change ch) (members_of d k)
                                else members_of d k)"
proof -
  have "change_all feed i vs ch (members_of d) =
      (\<lambda>k. if k \<in> (\<lambda>v. (feed, version_key i v)) ` set vs
           then map_option (apply_change ch) (members_of d k) else members_of d k)"
    by (simp add: fun_eq_iff change_all_def)
  then show ?thesis
    using update_each_spec [OF assms, of feed i vs ch 0] update_each_frame [of feed i vs ch 0 d]
    by (auto simp: update_memberships_def split: sum.splits)
qed

lemma update_memberships_all_or_nothing_witness:
  "\<exists>n d'. update_memberships ''main'' ''pkg'' [sample_upper] (Set_Pinned True) sample_db = Inr (n, d') \<and>
     members_of d' (''main'', version_key ''Pkg'' sample_lower) = Some (sample_row\<lparr>m_pinned := True\<rparr>)"
proof -
  have k: "version_key ''pkg'' sample_upper = version_key ''Pkg'' sample_lower"
    by (simp add: version_key_def canonical_id_def char_eval version_eval sample_upper_def
        sample_lower_def)
  have m: "members_of sample_db (''main'', version_key ''Pkg'' sample_lower) = Some sample_row"
    by (simp add: members_of_def sample_db_fields row_at_def sample_row_key)
  have "member_exists ''main'' ''pkg'' sample_upper sample_db"
    by (simp add: member_exists_members k m)
  then show ?thesis
    using update_memberships_all_or_nothing
      [OF sample_db_ok, of "''main''" "''pkg''" "[sample_upper]" "Set_Pinned True"]
    by (auto simp: k m split: sum.splits)
qed

section \<open>Renaming\<close>

lemma members_of_rename:
  assumes d: "db_ok d" and shared: "shared_versions from' to d = 0" and ne: "from' \<noteq> to"
  shows "members_of (rename_members from' to hold d) (feed, k) =
     (if feed = from' then None
      else if feed = to \<and> members_of d (from', k) \<noteq> None
      then map_option (\<lambda>m. m\<lparr>m_feed := to, m_pending := m_pending m \<or> hold\<rparr>) (members_of d (from', k))
      else members_of d (feed, k))"
proof -
  let ?f = "\<lambda>m. m\<lparr>m_feed := to, m_pending := m_pending m \<or> hold\<rparr>"
  let ?rows = "db_members (rename_members from' to hold d)"
  have dist: "distinct (map member_key (db_members d))" using d by (simp add: db_ok_defs)
  have dist': "distinct (map member_key ?rows)" by (rule distinct_rename [OF dist shared])
  have set: "set ?rows = (\<lambda>m. if m_feed m = from' then ?f m else m) ` set (db_members d)"
    by (simp add: rename_members_def set_update_rows)
  have key: "member_key (?f m) = (to, member_version m)" "member_version (?f m) = member_version m"
    for m :: member_row
    by (simp_all add: member_key_def member_version_def)
  show ?thesis
  proof (cases "feed = from'")
    case True
    have "m_feed m \<noteq> from'" if "m \<in> set ?rows" for m using that ne by (auto simp: set)
    then show ?thesis using True by (auto simp: members_of_def row_at_None_iff member_key_parts)
  next
    case other: False
    show ?thesis
    proof (cases "feed = to \<and> members_of d (from', k) \<noteq> None")
      case True
      then obtain m where m: "m \<in> set (db_members d)" "member_key m = (from', k)"
          "members_of d (from', k) = Some m"
        by (auto simp: members_of_def dest: row_at_Some)
      then have "?f m \<in> set ?rows" "member_key (?f m) = (to, k)"
        by (auto simp: set image_iff member_key_parts key intro!: bexI [of _ m])
      then have "row_at member_key (to, k) ?rows = Some (?f m)" by (simp add: row_at_iff [OF dist'])
      then show ?thesis using True other m by (simp add: members_of_def)
    next
      case False
      have "m \<in> set ?rows \<and> member_key m = (feed, k) \<longleftrightarrow>
            m \<in> set (db_members d) \<and> member_key m = (feed, k)" for m
      proof
        assume m: "m \<in> set ?rows \<and> member_key m = (feed, k)"
        then obtain n where n: "n \<in> set (db_members d)" "m = (if m_feed n = from' then ?f n else n)"
          by (auto simp: set)
        have "m_feed n \<noteq> from'"
        proof
          assume f: "m_feed n = from'"
          with m n have "feed = to" "member_key n = (from', k)" by (auto simp: key member_key_parts)
          with False n(1) dist row_at_iff [OF dist] show False by (auto simp: members_of_def)
        qed
        with m n show "m \<in> set (db_members d) \<and> member_key m = (feed, k)" by simp
      next
        assume m: "m \<in> set (db_members d) \<and> member_key m = (feed, k)"
        then have "m_feed m \<noteq> from'" using other by (auto simp: member_key_parts)
        with m show "m \<in> set ?rows \<and> member_key m = (feed, k)" by (auto simp: set image_iff)
      qed
      then have "row_at member_key (feed, k) ?rows = Some m \<longleftrightarrow>
          row_at member_key (feed, k) (db_members d) = Some m" for m
        by (simp only: row_at_iff [OF dist] row_at_iff [OF dist'])
      then have "members_of (rename_members from' to hold d) (feed, k) = members_of d (feed, k)"
        unfolding members_of_def by (metis not_Some_eq)
      then show ?thesis using other False by auto
    qed
  qed
qed

text \<open>
  A rename onto another feed goes through only when no version is in both, and then
  moves every membership with its state, held for approval when asked, leaves the old name
  with neither membership nor tombstone, and gives the new name exactly the tombstones of
  either feed whose version it does not hold: never a membership and a tombstone together.
\<close>
theorem rename_merges_feeds:
  assumes "db_ok d" and "from' \<noteq> to" and "rename_feed from' to hold d = Inr (n, d')"
  shows "members_of d' = (\<lambda>(feed, k).
           if feed = from' then None
           else if feed = to \<and> members_of d (from', k) \<noteq> None
           then map_option (\<lambda>m. m\<lparr>m_feed := to, m_pending := m_pending m \<or> hold\<rparr>)
                  (members_of d (from', k))
           else members_of d (feed, k)) \<and>
         (\<forall>k. members_of d (from', k) = None \<or> members_of d (to, k) = None) \<and>
         (\<forall>feed k. (feed, k) \<in> set (db_tombstones d') \<longleftrightarrow>
            (if feed = from' then False
             else if feed = to
             then ((from', k) \<in> set (db_tombstones d) \<or> (to, k) \<in> set (db_tombstones d)) \<and>
                  members_of d' (to, k) = None
             else (feed, k) \<in> set (db_tombstones d))) \<and>
         n = count_rows (\<lambda>m. m_feed m = from') (db_members d) \<and>
         db_packages d' = db_packages d \<and> db_files d' = db_files d \<and> db_symbols d' = db_symbols d"
proof -
  let ?m = "rename_members from' to hold d"
  have shared: "shared_versions from' to d = 0"
      and d': "d' = (let d2 = rename_tombstones from' to ?m
               in d2\<lparr>db_uploads := update_rows (\<lambda>u. u_feed u = from') (\<lambda>u. u\<lparr>u_feed := to\<rparr>)
                                    (db_uploads d2)\<rparr>)"
      and n: "n = count_rows (\<lambda>m. m_feed m = from') (db_members d)"
    using assms(3) by (auto simp: rename_feed_def Let_def split: if_splits)
  have members: "members_of d' = members_of ?m" by (simp add: d' Let_def fun_eq_iff members_of_def)
  have tomb: "db_tombstones d' = db_tombstones (rename_tombstones from' to ?m)"
    by (simp add: d' Let_def)
  have "distinct (db_tombstones ?m)" using assms(1) by (simp add: db_ok_defs)
  note tset = rename_tombstones_set [OF assms(2) this]
  have apart: "members_of d (from', k) = None \<or> members_of d (to, k) = None" for k
  proof (rule ccontr)
    assume "\<not> ?thesis"
    then obtain x y where "x \<in> set (db_members d)" "member_key x = (from', k)"
        "y \<in> set (db_members d)" "member_key y = (to, k)"
      by (auto simp: members_of_def dest!: row_at_Some)
    with shared show False by (auto simp: shared_versions_0 member_key_parts)
  qed
  have here: "has_row member_key (to, k) (db_members ?m) \<longleftrightarrow> members_of d' (to, k) \<noteq> None" for k
    by (simp add: members members_of_def [of ?m] row_at_None)
  have "members_of d' (feed, k) =
          (if feed = from' then None
           else if feed = to \<and> members_of d (from', k) \<noteq> None
           then map_option (\<lambda>m. m\<lparr>m_feed := to, m_pending := m_pending m \<or> hold\<rparr>)
                  (members_of d (from', k))
           else members_of d (feed, k))" for feed k
    unfolding members by (rule members_of_rename [OF assms(1) shared assms(2)])
  moreover have "(feed, k) \<in> set (db_tombstones d') \<longleftrightarrow>
            (if feed = from' then False
             else if feed = to
             then ((from', k) \<in> set (db_tombstones d) \<or> (to, k) \<in> set (db_tombstones d)) \<and>
                  members_of d' (to, k) = None
             else (feed, k) \<in> set (db_tombstones d))" for feed k
    using assms(2) unfolding tomb tset here by (cases k) auto
  moreover have "db_packages d' = db_packages d" "db_files d' = db_files d" "db_symbols d' = db_symbols d"
    by (simp_all add: d' Let_def)
  ultimately show ?thesis
    using apart n by (intro conjI allI ext) (auto simp only: split_paired_All prod.case)
qed

lemma rename_merges_feeds_witness:
  "\<exists>d'. rename_feed ''main'' ''next'' True sample_db = Inr (1, d') \<and>
     members_of d' (''next'', version_key ''Pkg'' sample_lower) =
       Some (sample_row\<lparr>m_feed := ''next'', m_pending := True\<rparr>)"
proof -
  have shared: "shared_versions ''main'' ''next'' sample_db = 0"
    by (simp add: shared_versions_0 sample_db_fields sample_row_key)
  obtain n d' where r: "rename_feed ''main'' ''next'' True sample_db = Inr (n, d')"
    by (simp add: rename_feed_def shared Let_def)
  have m: "members_of sample_db (''main'', version_key ''Pkg'' sample_lower) = Some sample_row"
    by (simp add: members_of_def sample_db_fields row_at_def sample_row_key)
  have "n = 1"
    using rename_merges_feeds [OF sample_db_ok _ r]
    by (simp add: count_rows_def sample_db_fields sample_row_key)
  then show ?thesis
    using rename_merges_feeds [OF sample_db_ok _ r] r by (auto simp: m)
qed

section \<open>Replacing\<close>

lemma replace_version_put:
  "replace_version now p m d = Inr (u, d') \<Longrightarrow> d' = replace_rows now p m d"
  by (simp add: replace_version_def split: if_splits)

lemma approved_in_empty:
  "approved_in i v d = [] \<longleftrightarrow> (\<forall>m \<in> set (db_members d). member_version m = version_key i v \<longrightarrow> m_pending m)"
proof -
  have "approved_in i v d = [] \<longleftrightarrow> set (approved_in i v d) = {}" by simp
  also have "\<dots> \<longleftrightarrow> (\<forall>m \<in> set (db_members d). member_version m = version_key i v \<longrightarrow> m_pending m)"
    by (auto simp: approved_in_def sort_names_def)
  finally show ?thesis .
qed

lemma package_key_version_key: "version_key (p_id p) (p_version p) = package_key p"
  by (simp add: version_key_def package_key_def lower_id_def normalized_version_def)

lemma put_member_pending:
  assumes "\<forall>r \<in> set rows. member_version r = k \<longrightarrow> m_pending r" "m_pending row"
  shows "\<forall>r \<in> set (put_member row rows). member_version r = k \<longrightarrow> m_pending r"
  using assms by (auto simp: put_member_def update_rows_def)

lemma flags_pending:
  "\<forall>r \<in> set (db_members d). member_version r = k \<longrightarrow> m_pending r \<Longrightarrow>
   \<forall>r \<in> set (db_members (foldl (\<lambda>d (feed, o'). d\<lparr>db_members := update_rows
              (\<lambda>r. member_key r = (feed, k')) (set_flag o') (db_members d)\<rparr>) d verdicts)).
     member_version r = k \<longrightarrow> m_pending r"
proof (induction verdicts arbitrary: d)
  case (Cons x verdicts)
  have same: "m_pending (set_flag o' r) = m_pending r" "member_version (set_flag o' r) = member_version r"
    for o' and r :: member_row
    by (simp_all add: set_flag_def member_version_def)
  show ?case
    using Cons.prems by (cases x) (auto intro!: Cons.IH simp: set_update_rows same)
qed simp

lemma flags_other [simp]:
  "db_packages (foldl (\<lambda>d (feed, o'). d\<lparr>db_members := f feed o' d\<rparr>) d verdicts) = db_packages d"
  "db_files (foldl (\<lambda>d (feed, o'). d\<lparr>db_members := f feed o' d\<rparr>) d verdicts) = db_files d"
  by (induction verdicts arbitrary: d) (auto split: prod.splits)


definition sample_pending :: membership where
  "sample_pending =
     (active_membership ''main'' (sample_package ''Pkg'' sample_lower))\<lparr>m_pending := True\<rparr>"

definition pending_db :: db where
  "pending_db = sample_db\<lparr>db_members := [member_row_of 5 sample_pending 0]\<rparr>"

lemma pending_row_key:
  "member_version (member_row_of now sample_pending n) = version_key ''Pkg'' sample_lower"
  "m_pending (member_row_of now sample_pending n)"
  "m_feed (member_row_of now sample_pending n) = ''main''" "m_feed sample_pending = ''main''"
  "m_pending sample_pending"
  by (simp_all add: sample_pending_def member_row_of_def membership.extend_def active_membership_def
      member_version_def version_key_def lower_id_def normalized_version_def sample_package_def)


section \<open>Reading back\<close>

definition parsed :: "package \<Rightarrow> bool" where
  "parsed p \<longleftrightarrow> parse_stored (v_original (p_version p)) = Inr (p_version p)"

lemma build_bound:
  "parsed p \<Longrightarrow> build_package (bind_package p) listed enabled n =
     Inr (p\<lparr>p_listed := listed, p_enabled := enabled, p_downloads := n\<rparr>)"
  by (simp add: build_package_def bind_package_def parsed_def)

lemma filter_key_single:
  "distinct (map kf xs) \<Longrightarrow> m \<in> set xs \<Longrightarrow> Q m \<Longrightarrow> filter (\<lambda>x. kf x = kf m \<and> Q x) xs = [m]"
  by (induction xs) (auto simp: filter_empty_conv image_iff)

lemma feed_rows_single:
  assumes "distinct (map member_key (db_members d))" "members_of d (feed, k) = Some m" "Q m"
    "row_at r_key k (db_packages d) = Some r"
  shows "feed_rows (\<lambda>m. member_key m = (feed, k) \<and> Q m) d = [(r, m)]"
proof -
  have m: "m \<in> set (db_members d)" "member_key m = (feed, k)"
    using row_at_Some [OF assms(2) [unfolded members_of_def]] by auto
  then have "filter (\<lambda>m. member_key m = (feed, k) \<and> Q m) (db_members d) = [m]"
    using filter_key_single [of member_key "db_members d" m Q] assms(1,3) by simp
  moreover have "member_version m = k" using m(2) by (simp add: member_key_parts)
  ultimately show ?thesis using assms(4) by (simp add: feed_rows_def join_row_def map_filter_simps)
qed


lemma sample_parsed: "parsed (sample_package i sample_lower)"
  using parse_version_original [OF parse_sample_lower] by (simp add: parsed_def sample_package_def)


section \<open>Listing\<close>

lemma collect_results_map:
  "\<forall>x \<in> set xs. f x = Inr (g x) \<Longrightarrow> collect_results (map f xs) = Inr (map g xs)"
  by (induction xs) simp_all

lemma set_map_filter: "set (List.map_filter f xs) = {y. \<exists>x \<in> set xs. f x = Some y}"
  by (induction xs) (auto simp: map_filter_simps split: option.splits)

lemma feed_rows_in:
  assumes "db_ok d"
  shows "set (feed_rows P d) =
     {(r, m). m \<in> set (db_members d) \<and> P m \<and> r \<in> set (db_packages d) \<and> r_key r = member_version m}"
proof -
  have "distinct (map r_key (db_packages d))" using assms by (simp add: db_ok_defs)
  note at = row_at_iff [OF this]
  show ?thesis by (auto simp: feed_rows_def set_map_filter join_row_def at)
qed

lemma to_package_ok:
  "row_ok r \<Longrightarrow> parsed (r_package r) \<Longrightarrow>
   to_package (r, m) = Inr ((r_package r)\<lparr>p_listed := m_listed m, p_enabled := m_enabled m,
                              p_downloads := mr_downloads m\<rparr>)"
  by (simp add: to_package_def row_to_feed_package_def build_package_def parsed_def row_ok_def)

lemma total_cmp_package: "total_cmp cmp_package_version"
  using total_cmp_key [OF total_cmp_version, of p_version] by (simp add: cmp_package_version_def [abs_def])

text \<open>
  C26: the public listing of an id is every version of it the feed shows and nothing else,
  in version order: enabled, not pending, and listed unless unlisted ones are asked for. A
  listing never fails while every stored version string is one that was parsed.
\<close>
theorem listing_is_exact:
  assumes "db_ok d" and "list_all (\<lambda>r. parsed (r_package r)) (db_packages d)"
  shows "\<exists>ps. find_versions feed i unlisted_too d = Inr ps \<and>
     sorted_wrt (\<lambda>a b. cmp_version (p_version a) (p_version b) \<noteq> Greater) ps \<and>
     (\<lambda>p. (package_key p, p_listed p)) ` set ps =
       {((canonical_id i, n), l) | n l. \<exists>m. members_of d (feed, canonical_id i, n) = Some m \<and>
           m_enabled m \<and> \<not> m_pending m \<and> l = m_listed m \<and> (unlisted_too \<or> l)}"
proof -
  let ?P = "\<lambda>m. m_feed m = feed \<and> m_lower_id m = canonical_id i \<and> visible m"
  let ?Q = "\<lambda>(r, m). (unlisted_too \<or> m_listed m)"
  let ?g = "\<lambda>(r, m :: member_row). (r_package r)\<lparr>p_listed := m_listed m, p_enabled := m_enabled m,
                       p_downloads := mr_downloads m\<rparr>"
  let ?rows = "filter ?Q (feed_rows ?P d)"
  have dist: "distinct (map member_key (db_members d))" using assms(1) by (simp add: db_ok_defs)
  have row: "row_ok r \<and> parsed (r_package r)" if "r \<in> set (db_packages d)" for r
    using assms that by (auto simp: db_ok_def list_all_iff)
  have good: "to_package rm = Inr (?g rm)" if "rm \<in> set ?rows" for rm
  proof -
    obtain r m where rm: "rm = (r, m)" by (cases rm)
    then have "r \<in> set (db_packages d)" using that by (auto simp: feed_rows_in [OF assms(1)])
    then show ?thesis using row to_package_ok by (simp add: rm)
  qed
  have "find_versions feed i unlisted_too d =
      Inr (sort_by cmp_package_version (map ?g ?rows))"
    using collect_results_map [of ?rows to_package ?g] good
    by (simp add: find_versions_def find_versions_filtered_def)
  moreover have "(\<lambda>p. (package_key p, p_listed p)) ` set (map ?g ?rows) =
       {((canonical_id i, n), l) | n l. \<exists>m. members_of d (feed, canonical_id i, n) = Some m \<and>
           m_enabled m \<and> \<not> m_pending m \<and> l = m_listed m \<and> (unlisted_too \<or> l)}" (is "?L = ?R")
  proof (intro equalityI subsetI)
    fix x assume "x \<in> ?L"
    then obtain r m where m: "(r, m) \<in> set (feed_rows ?P d)" "?Q (r, m)"
        and x: "x = (package_key (r_package r), m_listed m)"
      by (auto simp: package_key_def lower_id_def normalized_version_def)
    then have in_d: "m \<in> set (db_members d)" "?P m" "row_ok r" "r_key r = member_version m"
      using row by (auto simp: feed_rows_in [OF assms(1)])
    then have k: "package_key (r_package r) = (canonical_id i, m_normalized_version m)"
      by (simp add: row_ok_def member_version_def)
    have "members_of d (feed, canonical_id i, m_normalized_version m) = Some m"
      using in_d by (simp add: members_of_def row_at_iff [OF dist] member_key_def)
    then show "x \<in> ?R" using in_d m(2) by (auto simp: x k visible_def)
  next
    fix x assume "x \<in> ?R"
    then obtain n m where x: "x = ((canonical_id i, n), m_listed m)"
        and m: "members_of d (feed, canonical_id i, n) = Some m" "visible m"
          "unlisted_too \<or> m_listed m"
      by (auto simp: visible_def)
    then have in_d: "m \<in> set (db_members d)" "m_feed m = feed" "m_lower_id m = canonical_id i"
        "member_version m = (canonical_id i, n)"
      by (auto simp: members_of_def row_at_iff [OF dist] member_key_def member_version_def)
    obtain r where r: "r \<in> set (db_packages d)" "r_key r = member_version m"
      using assms(1) in_d(1) by (auto simp: db_ok_defs refers_def has_row_iff)
    then have "(r, m) \<in> set ?rows" using in_d m by (auto simp: feed_rows_in [OF assms(1)])
    then have "?g (r, m) \<in> set (map ?g ?rows)" unfolding set_map by (rule imageI)
    then have "(package_key (?g (r, m)), p_listed (?g (r, m))) \<in> ?L" by (rule imageI)
    moreover have "package_key (?g (r, m)) = (canonical_id i, n)"
      using row [OF r(1)] r(2) in_d(4)
      by (simp add: row_ok_def package_key_def lower_id_def normalized_version_def)
    ultimately show "x \<in> ?L" by (simp add: x)
  qed
  moreover have "sorted_wrt (\<lambda>a b. cmp_version (p_version a) (p_version b) \<noteq> Greater)
      (sort_by cmp_package_version (map ?g ?rows))"
    using total_cmp.sorted_sort_by [OF total_cmp_package] by (simp add: cmp_package_version_def)
  ultimately show ?thesis by simp
qed

lemma listing_is_exact_witness:
  "\<exists>ps. find_versions ''main'' ''PKG'' False sample_db = Inr ps \<and>
     (version_key ''Pkg'' sample_lower, True) \<in> (\<lambda>p. (package_key p, p_listed p)) ` set ps"
proof -
  let ?k = "version_key ''Pkg'' sample_lower"
  have "list_all (\<lambda>r. parsed (r_package r)) (db_packages sample_db)"
    by (simp add: sample_db_fields sample_parsed)
  note listing = listing_is_exact [OF sample_db_ok this, of "''main''" "''PKG''" False]
  have "members_of sample_db (''main'', ?k) = Some sample_row"
    by (simp add: members_of_def sample_db_fields row_at_def sample_row_key)
  moreover have "?k = (canonical_id ''PKG'', snd ?k)"
    by (simp add: version_key_def canonical_id_def char_eval)
  moreover have "m_listed sample_row"
    by (simp add: sample_row_def member_row_of_def membership.extend_def active_membership_def)
  ultimately show ?thesis using listing sample_row_key(2,3) by fastforce
qed

end
