(* ===== verification/Retention.thy ===== *)
theory Retention
  imports Feed_Reads
begin

text \<open>
  Which versions retention deletes (\<open>src/src/retention.rs\<close>): the rules, the plan for one
  package id and the words for a reason. The plan is a pure function of the versions as the
  feed sees them, the rules and the time. The date arithmetic of \<open>chrono\<close> is a parameter,
  \<open>days_before\<close>: the instant that many days before another, when it can be represented.
\<close>

section \<open>Rules and candidates\<close>

record retention_config =
  rc_enabled :: bool
  rc_prune_on_push :: bool
  rc_interval_hours :: nat
  rc_keep_latest_stable :: "nat option"
  rc_keep_latest_prerelease :: "nat option"
  rc_max_age_days :: "nat option"
  rc_exclude_id_prefixes :: "string list"

record retention_policy =
  rp_keep_latest_stable :: "nat option"
  rp_keep_latest_prerelease :: "nat option"
  rp_max_age_days :: "nat option"
  rp_exclude_id_prefixes :: "string list"

definition policy_of_config :: "retention_config \<Rightarrow> retention_policy" where
  "policy_of_config c =
     \<lparr>rp_keep_latest_stable = rc_keep_latest_stable c,
      rp_keep_latest_prerelease = rc_keep_latest_prerelease c,
      rp_max_age_days = rc_max_age_days c,
      rp_exclude_id_prefixes = rc_exclude_id_prefixes c\<rparr>"

definition has_limits :: "retention_policy \<Rightarrow> bool" where
  "has_limits p \<longleftrightarrow> rp_keep_latest_stable p \<noteq> None \<or> rp_keep_latest_prerelease p \<noteq> None \<or>
                    rp_max_age_days p \<noteq> None"

definition excludes :: "retention_policy \<Rightarrow> string \<Rightarrow> bool" where
  "excludes p i \<longleftrightarrow> list_ex (id_has_prefix i) (rp_exclude_id_prefixes p)"

record prune_reason =
  pr_beyond_newest :: "(nat \<times> bool) option"
  pr_older_than_days :: "nat option"

definition describe_reason :: "prune_reason \<Rightarrow> string" where
  "describe_reason r =
     (let count = map_option (\<lambda>(keep, pre).
            ''beyond the newest '' @ show_nat keep @ '' '' @
            (if pre then ''pre-release'' else ''stable'') @ '' '' @
            (if keep = 1 then ''version'' else ''versions'')) (pr_beyond_newest r);
          age = map_option (\<lambda>days.
            ''older than '' @ show_nat days @ '' day'' @ (if days = 1 then '''' else ''s''))
            (pr_older_than_days r)
      in case (count, age) of
           (Some c, Some a) \<Rightarrow> c @ '', and '' @ a
         | (Some c, None) \<Rightarrow> c
         | (None, Some a) \<Rightarrow> a
         | (None, None) \<Rightarrow> '''')"

record pruned =
  pd_version :: nuget_version
  pd_reason :: prune_reason

record candidate =
  ca_package :: package
  ca_pinned :: bool
  ca_servable :: bool
  ca_added :: time

definition ranked_candidate :: "package \<Rightarrow> candidate" where
  "ranked_candidate p =
     \<lparr>ca_package = p, ca_pinned = False, ca_servable = True, ca_added = p_published p\<rparr>"

abbreviation ca_version :: "candidate \<Rightarrow> nuget_version" where
  "ca_version c \<equiv> p_version (ca_package c)"

abbreviation ca_pre :: "candidate \<Rightarrow> bool" where
  "ca_pre c \<equiv> package_is_prerelease (ca_package c)"

section \<open>The plan\<close>

definition newest :: "candidate list \<Rightarrow> bool \<Rightarrow> nuget_version option" where
  "newest cs pre = max_by cmp_version (map ca_version (filter (\<lambda>c. ca_servable c \<and> ca_pre c = pre) cs))"

definition protected :: "candidate list \<Rightarrow> nuget_version option" where
  "protected cs = (case newest cs False of Some v \<Rightarrow> Some v | None \<Rightarrow> newest cs True)"

definition newest_first :: "candidate \<Rightarrow> candidate \<Rightarrow> ordering" where
  "newest_first a b = cmp_version (ca_version b) (ca_version a)"

definition channel :: "candidate list \<Rightarrow> bool \<Rightarrow> candidate list" where
  "channel cs pre =
     sort_by newest_first (filter (\<lambda>c. ca_servable c \<and> \<not> ca_pinned c \<and> ca_pre c = pre) cs)"

definition age_cutoff :: "(nat \<Rightarrow> time \<Rightarrow> time option) \<Rightarrow> retention_policy \<Rightarrow> time \<Rightarrow> time option" where
  "age_cutoff days_before p now =
     Option.bind (rp_max_age_days p) (\<lambda>d. if d \<le> 9223372036854775807 then days_before d now else None)"

definition reason_for ::
    "nat option \<Rightarrow> bool \<Rightarrow> time option \<Rightarrow> nat option \<Rightarrow> nat \<Rightarrow> candidate \<Rightarrow> prune_reason" where
  "reason_for keep pre cutoff max_age rank c =
     \<lparr>pr_beyond_newest = (case keep of Some n \<Rightarrow> if n \<le> rank then Some (n, pre) else None | None \<Rightarrow> None),
      pr_older_than_days = (case cutoff of Some t \<Rightarrow> if ca_added c < t then max_age else None
                                         | None \<Rightarrow> None)\<rparr>"

definition prune_one ::
    "nuget_version option \<Rightarrow> nat option \<Rightarrow> bool \<Rightarrow> time option \<Rightarrow> nat option \<Rightarrow> nat \<times> candidate \<Rightarrow>
     pruned option" where
  "prune_one keeper keep pre cutoff max_age rc =
     (let (rank, c) = rc
      in if (case keeper of Some v \<Rightarrow> eq_version v (ca_version c) | None \<Rightarrow> False) then None
         else let reason = reason_for keep pre cutoff max_age rank c
              in if pr_beyond_newest reason \<noteq> None \<or> pr_older_than_days reason \<noteq> None
                 then Some \<lparr>pd_version = ca_version c, pd_reason = reason\<rparr> else None)"

definition plan_channel ::
    "(nat \<Rightarrow> time \<Rightarrow> time option) \<Rightarrow> retention_policy \<Rightarrow> time \<Rightarrow> candidate list \<Rightarrow> bool \<Rightarrow>
     pruned list" where
  "plan_channel days_before p now cs pre =
     List.map_filter
       (prune_one (protected cs)
          (if pre then rp_keep_latest_prerelease p else rp_keep_latest_stable p) pre
          (age_cutoff days_before p now) (rp_max_age_days p))
       (enumerate 0 (channel cs pre))"

definition prune_plan ::
    "(nat \<Rightarrow> time \<Rightarrow> time option) \<Rightarrow> candidate list \<Rightarrow> retention_policy \<Rightarrow> time \<Rightarrow> pruned list" where
  "prune_plan days_before cs p now =
     (case cs of
        [] \<Rightarrow> []
      | c # _ \<Rightarrow>
          if \<not> has_limits p then []
          else if excludes p (p_id (ca_package c)) then []
          else plan_channel days_before p now cs False @ plan_channel days_before p now cs True)"

definition versions_to_prune ::
    "(nat \<Rightarrow> time \<Rightarrow> time option) \<Rightarrow> package list \<Rightarrow> retention_policy \<Rightarrow> time \<Rightarrow>
     nuget_version list" where
  "versions_to_prune days_before ps p now =
     map pd_version (prune_plan days_before (map ranked_candidate ps) p now)"

definition fv_servable :: "feed_version \<Rightarrow> bool" where
  "fv_servable v \<longleftrightarrow> p_enabled (fv_package v) \<and> \<not> fv_pending v"

definition candidate_of :: "feed_version \<Rightarrow> candidate" where
  "candidate_of v =
     \<lparr>ca_package = fv_package v, ca_pinned = fv_pinned v, ca_servable = fv_servable v,
      ca_added = fv_added v\<rparr>"

definition plan_for ::
    "(nat \<Rightarrow> time \<Rightarrow> time option) \<Rightarrow> feed_version list \<Rightarrow> retention_policy \<Rightarrow> time \<Rightarrow>
     pruned list" where
  "plan_for days_before vs p now = prune_plan days_before (map candidate_of vs) p now"

section \<open>Channels and the protected version\<close>

lemma total_newest_first: "total_cmp newest_first"
  unfolding newest_first_def [abs_def]
proof unfold_locales
  fix a b c :: candidate
  show "cmp_version (ca_version a) (ca_version a) = Equal" by (rule version_order.cmp_refl)
  show "cmp_version (ca_version a) (ca_version b) =
      reverse_ordering (cmp_version (ca_version b) (ca_version a))"
    by (rule version_order.cmp_flip)
  assume "cmp_version (ca_version b) (ca_version a) \<noteq> Greater"
    "cmp_version (ca_version c) (ca_version b) \<noteq> Greater"
  then show "cmp_version (ca_version c) (ca_version a) \<noteq> Greater"
    using version_order.cmp_trans by blast
qed

interpretation ranking: total_cmp newest_first
  by (rule total_newest_first)

lemma set_channel:
  "set (channel cs pre) = {c \<in> set cs. ca_servable c \<and> \<not> ca_pinned c \<and> ca_pre c = pre}"
  by (auto simp: channel_def)

lemma newest_Some:
  assumes "newest cs pre = Some v"
  shows "\<exists>c \<in> set cs. ca_servable c \<and> ca_pre c = pre \<and> ca_version c = v"
    and "\<forall>c \<in> set cs. ca_servable c \<longrightarrow> ca_pre c = pre \<longrightarrow> cmp_version (ca_version c) v \<noteq> Greater"
proof -
  show "\<exists>c \<in> set cs. ca_servable c \<and> ca_pre c = pre \<and> ca_version c = v"
    using max_by_in_set [OF assms [unfolded newest_def]] by auto
  show "\<forall>c \<in> set cs. ca_servable c \<longrightarrow> ca_pre c = pre \<longrightarrow> cmp_version (ca_version c) v \<noteq> Greater"
    using version_order.max_by_upper [OF assms [unfolded newest_def]] by auto
qed

lemma newest_None: "newest cs pre = None \<longleftrightarrow> (\<forall>c \<in> set cs. ca_servable c \<longrightarrow> ca_pre c \<noteq> pre)"
  by (auto simp: newest_def filter_empty_conv)

lemma set_enumerate_from: "set (enumerate 0 xs) = {(i, xs ! i) | i. i < length xs}"
  by (auto simp: in_set_enumerate_eq)

lemma set_map_filter_all: "set (List.map_filter f xs) = {y. \<exists>x \<in> set xs. f x = Some y}"
  by (induction xs) (auto simp: map_filter_simps split: option.splits)

definition keep_of :: "retention_policy \<Rightarrow> bool \<Rightarrow> nat option" where
  "keep_of p pre = (if pre then rp_keep_latest_prerelease p else rp_keep_latest_stable p)"

lemma set_plan_channel:
  "set (plan_channel days_before p now cs pre) =
     {pd. \<exists>i < length (channel cs pre).
        prune_one (protected cs) (keep_of p pre) pre (age_cutoff days_before p now)
          (rp_max_age_days p) (i, channel cs pre ! i) = Some pd}"
  by (auto simp: plan_channel_def set_map_filter_all set_enumerate_from keep_of_def)

lemma prune_one_version:
  "prune_one keeper keep pre cutoff max_age (i, c) = Some pd \<Longrightarrow>
     pd_version pd = ca_version c \<and> pd_reason pd = reason_for keep pre cutoff max_age i c \<and>
     (case keeper of Some v \<Rightarrow> \<not> eq_version v (ca_version c) | None \<Rightarrow> True)"
  by (auto simp: prune_one_def Let_def split: if_splits option.splits)

lemma prune_plan_set:
  "set (prune_plan days_before cs p now) =
     (case cs of [] \<Rightarrow> {}
      | c # _ \<Rightarrow> if \<not> has_limits p \<or> excludes p (p_id (ca_package c)) then {}
                 else \<Union>pre. set (plan_channel days_before p now cs pre))"
  by (auto simp: prune_plan_def UNIV_bool split: list.splits)

lemma pruned_candidate:
  assumes "pd \<in> set (prune_plan days_before cs p now)"
  shows "\<exists>c \<in> set cs. ca_servable c \<and> \<not> ca_pinned c \<and> ca_version c = pd_version pd \<and>
           (case protected cs of Some v \<Rightarrow> \<not> eq_version v (pd_version pd) | None \<Rightarrow> True)"
proof -
  obtain pre i where i: "i < length (channel cs pre)"
      and one: "prune_one (protected cs) (keep_of p pre) pre (age_cutoff days_before p now)
          (rp_max_age_days p) (i, channel cs pre ! i) = Some pd"
    using assms by (auto simp: prune_plan_set set_plan_channel split: list.splits if_splits)
  have c: "channel cs pre ! i \<in> set (channel cs pre)" using i by simp
  note v = prune_one_version [OF one]
  show ?thesis
    by (rule bexI [of _ "channel cs pre ! i"]) (use c v in \<open>auto simp: set_channel split: option.splits\<close>)
qed

lemma eq_version_prerelease: "eq_version v w \<Longrightarrow> is_prerelease v = is_prerelease w"
  by (auto simp: eq_version_iff is_prerelease_def dest: map_eq_imp_length_eq)

text \<open>
  C24: retention never takes what it must not. It plans only servable, unpinned versions of
  the package; nothing for an excluded id, nor without a limit; and while anything of the
  package is servable, one version survives every plan: the newest servable stable one, or
  the newest servable pre-release when no stable one is servable, pinned or not.
\<close>
theorem retention_keeps_the_newest:
  assumes "cs = c # rest"
  shows "list_all (\<lambda>pd. list_ex (\<lambda>c. ca_version c = pd_version pd \<and> ca_servable c \<and> \<not> ca_pinned c) cs)
           (prune_plan days_before cs p now) \<and>
         (if \<not> has_limits p \<or> excludes p (p_id (ca_package c))
          then prune_plan days_before cs p now = [] else True) \<and>
         (if list_ex ca_servable cs
          then \<exists>k \<in> set cs. ca_servable k \<and>
            list_all (\<lambda>pd. \<not> eq_version (ca_version k) (pd_version pd)) (prune_plan days_before cs p now) \<and>
            ca_pre k = (\<not> list_ex (\<lambda>c. ca_servable c \<and> \<not> ca_pre c) cs) \<and>
            list_all (\<lambda>c. cmp_version (ca_version c) (ca_version k) \<noteq> Greater)
              (filter (\<lambda>c. ca_servable c \<and> ca_pre c = ca_pre k) cs)
          else prune_plan days_before cs p now = [])"
proof (intro conjI)
  show "list_all (\<lambda>pd. list_ex (\<lambda>c. ca_version c = pd_version pd \<and> ca_servable c \<and> \<not> ca_pinned c) cs)
           (prune_plan days_before cs p now)"
    using pruned_candidate by (fastforce simp: list_all_iff list_ex_iff)
  show "if \<not> has_limits p \<or> excludes p (p_id (ca_package c))
          then prune_plan days_before cs p now = [] else True"
    by (simp add: prune_plan_def assms)
  show "if list_ex ca_servable cs
          then \<exists>k \<in> set cs. ca_servable k \<and>
            list_all (\<lambda>pd. \<not> eq_version (ca_version k) (pd_version pd)) (prune_plan days_before cs p now) \<and>
            ca_pre k = (\<not> list_ex (\<lambda>c. ca_servable c \<and> \<not> ca_pre c) cs) \<and>
            list_all (\<lambda>c. cmp_version (ca_version c) (ca_version k) \<noteq> Greater)
              (filter (\<lambda>c. ca_servable c \<and> ca_pre c = ca_pre k) cs)
          else prune_plan days_before cs p now = []"
  proof (cases "list_ex ca_servable cs")
    case False
    have "pd \<notin> set (prune_plan days_before cs p now)" for pd
      using False pruned_candidate [of pd days_before cs p now] by (auto simp: list_ex_iff)
    then have "prune_plan days_before cs p now = []" by (metis list.set_intros(1) neq_Nil_conv)
    then show ?thesis using False by simp
  next
    case True
    define pre where "pre = (newest cs False = None)"
    have "newest cs pre \<noteq> None"
      using True by (auto simp: pre_def newest_None list_ex_iff)
    then obtain v where v: "newest cs pre = Some v" by auto
    then have keeper: "protected cs = Some v"
      by (cases "newest cs False") (auto simp: protected_def pre_def)
    obtain k where k: "k \<in> set cs" "ca_servable k" "ca_pre k = pre" "ca_version k = v"
      using newest_Some(1) [OF v] by auto
    have "pre = (\<not> list_ex (\<lambda>c. ca_servable c \<and> \<not> ca_pre c) cs)"
      by (auto simp: pre_def newest_None list_ex_iff)
    moreover have "list_all (\<lambda>pd. \<not> eq_version v (pd_version pd)) (prune_plan days_before cs p now)"
      using pruned_candidate keeper by (fastforce simp: list_all_iff)
    ultimately show ?thesis
      using True k newest_Some(2) [OF v] by (auto simp: list_all_iff intro!: bexI [of _ k])
  qed
qed

section \<open>Ranks are counts\<close>

lemma filter_before:
  assumes "sorted_wrt R xs" "i < length xs" "\<And>x. \<not> R x x" "\<And>x y. R x y \<Longrightarrow> \<not> R y x"
  shows "filter (\<lambda>x. R x (xs ! i)) xs = take i xs"
proof -
  have xs: "xs = take i xs @ xs ! i # drop (Suc i) xs" using assms(2) by (rule id_take_nth_drop)
  have "R x (xs ! i)" if "x \<in> set (take i xs)" for x
    using that assms(1,2) by (auto simp: in_set_conv_nth sorted_wrt_nth_less)
  moreover have "\<not> R x (xs ! i)" if "x \<in> set (drop (Suc i) xs)" for x
    using that assms(1,2,4) by (auto simp: in_set_conv_nth sorted_wrt_nth_less)
  ultimately have "filter (\<lambda>x. R x (xs ! i)) (take i xs) = take i xs"
      "filter (\<lambda>x. R x (xs ! i)) (drop (Suc i) xs) = []"
    by (auto simp: filter_empty_conv)
  then show ?thesis using assms(3) by (subst (2) xs) simp
qed

definition newer :: "candidate \<Rightarrow> candidate \<Rightarrow> bool" where
  "newer a b \<longleftrightarrow> cmp_version (ca_version a) (ca_version b) = Greater"

text \<open>How many versions of its channel the rules see above a version.\<close>

definition rank_of :: "candidate list \<Rightarrow> candidate \<Rightarrow> nat" where
  "rank_of cs c =
     length (filter (\<lambda>d. ca_servable d \<and> \<not> ca_pinned d \<and> ca_pre d = ca_pre c \<and> newer d c) cs)"

definition apart :: "candidate list \<Rightarrow> bool" where
  "apart cs \<longleftrightarrow> distinct cs \<and>
     (\<forall>a \<in> set cs. \<forall>b \<in> set cs. eq_version (ca_version a) (ca_version b) \<longrightarrow> a = b)"

lemma channel_sorted:
  assumes "apart cs"
  shows "sorted_wrt newer (channel cs pre)"
proof -
  let ?xs = "channel cs pre"
  have "mset ?xs = mset (filter (\<lambda>c. ca_servable c \<and> \<not> ca_pinned c \<and> ca_pre c = pre) cs)"
    unfolding channel_def by (rule mset_sort_by)
  then have d: "distinct ?xs"
    using assms mset_eq_imp_distinct_iff distinct_filter unfolding apart_def by metis
  have s: "sorted_wrt (\<lambda>a b. newest_first a b \<noteq> Greater) ?xs"
    unfolding channel_def by (rule ranking.sorted_sort_by)
  show ?thesis
    unfolding sorted_wrt_iff_nth_less
  proof (intro allI impI)
    fix i j assume ij: "i < j" "j < length ?xs"
    then have ne: "?xs ! i \<noteq> ?xs ! j" using d by (simp add: nth_eq_iff_index_eq)
    have "set ?xs \<subseteq> set cs" by (auto simp: set_channel)
    then have inn: "?xs ! i \<in> set cs" "?xs ! j \<in> set cs"
      using ij nth_mem [of i ?xs] nth_mem [of j ?xs] by auto
    have "cmp_version (ca_version (?xs ! j)) (ca_version (?xs ! i)) \<noteq> Greater"
      using sorted_wrt_nth_less [OF s ij] by (simp add: newest_first_def)
    moreover have "cmp_version (ca_version (?xs ! i)) (ca_version (?xs ! j)) \<noteq> Equal"
      using assms ne inn by (auto simp: apart_def eq_version_def)
    ultimately show "newer (?xs ! i) (?xs ! j)"
      using version_order.cmp_less_flip [of "ca_version (?xs ! i)" "ca_version (?xs ! j)"]
      by (cases "cmp_version (ca_version (?xs ! i)) (ca_version (?xs ! j))") (auto simp: newer_def)
  qed
qed

lemma rank_index:
  assumes "apart cs" "i < length (channel cs pre)"
  shows "rank_of cs (channel cs pre ! i) = i"
proof -
  let ?xs = "channel cs pre"
  have pre: "ca_pre (?xs ! i) = pre" using nth_mem [OF assms(2)] by (simp add: set_channel)
  have counts: "length (filter P ?xs) = length (filter (\<lambda>c. (ca_servable c \<and> \<not> ca_pinned c \<and>
      ca_pre c = pre) \<and> P c) cs)" for P
  proof -
    have "mset (filter P ?xs) =
        mset (filter P (filter (\<lambda>c. ca_servable c \<and> \<not> ca_pinned c \<and> ca_pre c = pre) cs))"
      unfolding mset_filter channel_def by simp
    then show ?thesis by (metis filter_filter size_mset)
  qed
  have "length (filter (\<lambda>d. newer d (?xs ! i)) ?xs) = rank_of cs (?xs ! i)"
    unfolding counts rank_of_def pre by (simp add: conj_assoc)
  moreover have "filter (\<lambda>d. newer d (?xs ! i)) ?xs = take i ?xs"
  proof (rule filter_before [OF channel_sorted [OF assms(1)] assms(2)])
    show "\<not> newer x x" for x by (simp add: newer_def version_order.cmp_refl)
    show "newer x y \<Longrightarrow> \<not> newer y x" for x y
      using version_order.cmp_flip [of "ca_version x" "ca_version y"] by (simp add: newer_def)
  qed
  ultimately show ?thesis using assms(2) by simp
qed

text \<open>
  C32: the plan is what the rules say, read without any sorting: of versions that are all
  different, exactly the servable, unpinned ones go that are not the protected version and
  have at least as many newer ones in their channel as are kept, or entered the feed before
  the cutoff; each with the reasons that hold for it.
\<close>
theorem retention_by_rank:
  assumes "apart cs" and "cs = c0 # rest" and "has_limits p" and "\<not> excludes p (p_id (ca_package c0))"
  shows "set (prune_plan days_before cs p now) =
     {\<lparr>pd_version = ca_version c, pd_reason = reason_for (keep_of p (ca_pre c)) (ca_pre c)
          (age_cutoff days_before p now) (rp_max_age_days p) (rank_of cs c) c\<rparr> | c.
        c \<in> set cs \<and> ca_servable c \<and> \<not> ca_pinned c \<and>
        (case protected cs of Some v \<Rightarrow> \<not> eq_version v (ca_version c) | None \<Rightarrow> True) \<and>
        ((case keep_of p (ca_pre c) of Some n \<Rightarrow> n \<le> rank_of cs c | None \<Rightarrow> False) \<or>
         (case age_cutoff days_before p now of Some t \<Rightarrow> ca_added c < t | None \<Rightarrow> False))}"
  (is "_ = ?R")
proof -
  let ?one = "\<lambda>pre. prune_one (protected cs) (keep_of p pre) pre (age_cutoff days_before p now)
      (rp_max_age_days p)"
  let ?out = "\<lambda>c. \<lparr>pd_version = ca_version c, pd_reason = reason_for (keep_of p (ca_pre c)) (ca_pre c)
          (age_cutoff days_before p now) (rp_max_age_days p) (rank_of cs c) c\<rparr>"
  let ?goes = "\<lambda>c. (case protected cs of Some v \<Rightarrow> \<not> eq_version v (ca_version c) | None \<Rightarrow> True) \<and>
        ((case keep_of p (ca_pre c) of Some n \<Rightarrow> n \<le> rank_of cs c | None \<Rightarrow> False) \<or>
         (case age_cutoff days_before p now of Some t \<Rightarrow> ca_added c < t | None \<Rightarrow> False))"
  have age: "age_cutoff days_before p now = Some t \<Longrightarrow> rp_max_age_days p \<noteq> None" for t
    by (cases "rp_max_age_days p") (auto simp: age_cutoff_def)
  have one: "?one (ca_pre c) (rank_of cs c, c) = (if ?goes c then Some (?out c) else None)" for c
    using age by (auto simp: prune_one_def Let_def reason_for_def split: option.splits)
  have "pd \<in> set (plan_channel days_before p now cs pre) \<longleftrightarrow>
      (\<exists>c \<in> set cs. ca_servable c \<and> \<not> ca_pinned c \<and> ca_pre c = pre \<and> ?goes c \<and> pd = ?out c)" for pd pre
  proof
    assume "pd \<in> set (plan_channel days_before p now cs pre)"
    then obtain i where i: "i < length (channel cs pre)" "?one pre (i, channel cs pre ! i) = Some pd"
      by (auto simp: set_plan_channel)
    obtain c where ci: "c = channel cs pre ! i" by blast
    have c: "c \<in> set cs" "ca_servable c" "\<not> ca_pinned c" "ca_pre c = pre"
      using nth_mem [OF i(1)] by (auto simp: set_channel ci)
    have "rank_of cs c = i" unfolding ci by (rule rank_index [OF assms(1) i(1)])
    then have "?one (ca_pre c) (rank_of cs c, c) = Some pd" using i(2) c(4) by (simp add: ci)
    then have "?goes c \<and> pd = ?out c" unfolding one by (auto split: if_splits)
    with c
    show "\<exists>c \<in> set cs. ca_servable c \<and> \<not> ca_pinned c \<and> ca_pre c = pre \<and> ?goes c \<and> pd = ?out c"
      by blast
  next
    assume "\<exists>c \<in> set cs. ca_servable c \<and> \<not> ca_pinned c \<and> ca_pre c = pre \<and> ?goes c \<and> pd = ?out c"
    then obtain c where c: "c \<in> set (channel cs pre)" "ca_pre c = pre" "?goes c" "pd = ?out c"
      by (auto simp: set_channel)
    then obtain i where i: "i < length (channel cs pre)" "channel cs pre ! i = c"
      by (auto simp: in_set_conv_nth)
    then have "?one pre (i, channel cs pre ! i) = Some pd"
      using one [of c] c rank_index [OF assms(1) i(1)] by simp
    then show "pd \<in> set (plan_channel days_before p now cs pre)" using i by (auto simp: set_plan_channel)
  qed
  then have "pd \<in> set (prune_plan days_before cs p now) \<longleftrightarrow>
      (\<exists>c \<in> set cs. ca_servable c \<and> \<not> ca_pinned c \<and> ?goes c \<and> pd = ?out c)" for pd
    using assms(3,4) by (simp add: prune_plan_set assms(2)) blast
  then show ?thesis by (intro set_eqI) (simp only: mem_Collect_eq, blast)
qed

section \<open>Examples\<close>

definition keep_one :: retention_policy where
  "keep_one =
     \<lparr>rp_keep_latest_stable = Some 1, rp_keep_latest_prerelease = Some 1,
      rp_max_age_days = Some 30, rp_exclude_id_prefixes = [''Contoso.'']\<rparr>"

definition days_back :: "nat \<Rightarrow> time \<Rightarrow> time option" where
  "days_back d t = Some (t - 86400 * int d)"

definition two_builds :: "candidate list" where
  "two_builds = map (\<lambda>v. ranked_candidate (sample_package ''Pkg'' v)) [sample_lower, sample_legacy]"

lemma two_builds_order:
  "cmp_version sample_lower sample_legacy = Less" "cmp_version sample_legacy sample_lower = Greater"
  "\<not> eq_version sample_legacy sample_lower" "\<not> eq_version sample_lower sample_legacy"
  "is_prerelease sample_lower" "is_prerelease sample_legacy" "sample_lower \<noteq> sample_legacy"
proof -
  have "cmp_core sample_lower sample_legacy = Less"
    by (simp add: cmp_core_def sample_lower_def sample_legacy_def cmp_nat_def)
  then show less: "cmp_version sample_lower sample_legacy = Less" by (simp add: cmp_version_def)
  then show more: "cmp_version sample_legacy sample_lower = Greater"
    using version_order.cmp_less_flip by blast
  from less more show "\<not> eq_version sample_legacy sample_lower"
      "\<not> eq_version sample_lower sample_legacy"
    by (simp_all add: eq_version_def)
  show "is_prerelease sample_lower" "is_prerelease sample_legacy" "sample_lower \<noteq> sample_legacy"
    by (simp_all add: is_prerelease_def sample_lower_def sample_legacy_def)
qed

lemma two_builds_fields:
  "ca_version (ranked_candidate (sample_package i v)) = v"
  "p_id (ca_package (ranked_candidate (sample_package i v))) = i"
  "ca_servable (ranked_candidate p)" "\<not> ca_pinned (ranked_candidate p)"
  "ca_pre (ranked_candidate (sample_package i v)) = is_prerelease v"
  by (simp_all add: ranked_candidate_def sample_package_def package_is_prerelease_def)

lemma keep_one_facts: "has_limits keep_one" "\<not> excludes keep_one ''Pkg''"
  by (simp_all add: has_limits_def keep_one_def excludes_def id_has_prefix_def char_eval
      eq_ignore_ascii_case_def)

lemma two_builds_apart: "apart two_builds"
proof -
  have "ranked_candidate (sample_package ''Pkg'' sample_lower) \<noteq>
      ranked_candidate (sample_package ''Pkg'' sample_legacy)"
    using two_builds_order(7) two_builds_fields(1) by metis
  then show ?thesis
    using two_builds_order(3,4) by (auto simp: apart_def two_builds_def two_builds_fields)
qed

lemma retention_keeps_the_newest_witness:
  "\<exists>k \<in> set two_builds.
     list_all (\<lambda>pd. \<not> eq_version (ca_version k) (pd_version pd))
       (prune_plan days_back two_builds keep_one 0)"
  using retention_keeps_the_newest [of two_builds "ranked_candidate (sample_package ''Pkg'' sample_lower)"
      "[ranked_candidate (sample_package ''Pkg'' sample_legacy)]" days_back keep_one 0]
  by (auto simp: two_builds_def two_builds_fields)

lemma pruned_versions:
  "v \<in> pd_version ` {\<lparr>pd_version = g c, pd_reason = h c\<rparr> | c. P c} \<longleftrightarrow> (\<exists>c. P c \<and> v = g c)"
  by force

lemma retention_by_rank_witness:
  "pd_version ` set (prune_plan days_back two_builds keep_one 0) = {sample_lower}"
proof -
  let ?a = "ranked_candidate (sample_package ''Pkg'' sample_lower)"
  let ?b = "ranked_candidate (sample_package ''Pkg'' sample_legacy)"
  have cs: "two_builds = ?a # [?b]" by (simp add: two_builds_def)
  have keeper: "protected two_builds = Some sample_legacy"
    by (simp add: cs protected_def newest_def two_builds_fields two_builds_order)
  have rank: "rank_of two_builds ?a = 1"
    by (simp add: cs rank_of_def newer_def two_builds_fields two_builds_order
        version_order.cmp_refl)
  have keep: "keep_of keep_one True = Some 1" by (simp add: keep_of_def keep_one_def)
  have "set (prune_plan days_back two_builds keep_one 0) =
     {\<lparr>pd_version = ca_version c, pd_reason = reason_for (keep_of keep_one (ca_pre c)) (ca_pre c)
          (age_cutoff days_back keep_one 0) (rp_max_age_days keep_one) (rank_of two_builds c) c\<rparr> | c.
        c \<in> set two_builds \<and> ca_servable c \<and> \<not> ca_pinned c \<and>
        (case protected two_builds of Some v \<Rightarrow> \<not> eq_version v (ca_version c) | None \<Rightarrow> True) \<and>
        ((case keep_of keep_one (ca_pre c) of Some n \<Rightarrow> n \<le> rank_of two_builds c | None \<Rightarrow> False) \<or>
         (case age_cutoff days_back keep_one 0 of Some t \<Rightarrow> ca_added c < t | None \<Rightarrow> False))}"
    by (rule retention_by_rank [OF two_builds_apart cs keep_one_facts(1)])
      (simp add: two_builds_fields keep_one_facts)
  also have "pd_version ` \<dots> = {sample_lower}"
    unfolding set_eq_iff pruned_versions
    by (auto simp: keeper two_builds_fields two_builds_order rank keep cs [THEN arg_cong [where f = set]])
  finally show ?thesis .
qed

end
