(* ===== verification/World.thy ===== *)
theory World
  imports Database_Spec "HOL-Library.AList"
begin

text \<open>
  What the server's operations act on besides their arguments: the database, the files,
  the clock, and what goes wrong. An operation is a function from a world to its result and
  the world it leaves, so that an operation that fails half-way shows what it left behind.
  Every call that can fail asks the world's schedule of faults whether it does: a list of
  booleans for the database, a list of error kinds for the file system. Nothing is assumed
  of a schedule; an exhausted one holds no more faults.
\<close>

section \<open>Worlds\<close>

text \<open>
  A fault of the file system has its kind and how far the call got before it: how many
  bytes it had written, or how many files it had removed.
\<close>

record world =
  w_db :: db
  w_files :: "(path \<times> string) list"
  w_now :: time
  w_fresh :: nat
  w_db_faults :: "bool list"
  w_fs_faults :: "(io_kind \<times> nat) option list"
  w_stops :: "bool list"

type_synonym 'a io = "world \<Rightarrow> 'a result \<times> world"

definition file_at_path :: "world \<Rightarrow> path \<Rightarrow> string option" where
  "file_at_path w p = map_of (w_files w) p"

section \<open>Composing operations\<close>

definition ok :: "'a \<Rightarrow> 'a io" where
  "ok a w = (Inr a, w)"

definition fail :: "error \<Rightarrow> 'a io" where
  "fail e w = (Inl e, w)"

definition lift_result :: "'a result \<Rightarrow> 'a io" where
  "lift_result r w = (r, w)"

text \<open>The \<open>?\<close> operator, a result taken as a value, and a value read off the world.\<close>

definition and_then :: "'a io \<Rightarrow> ('a \<Rightarrow> 'b io) \<Rightarrow> 'b io" where
  "and_then m f w = (case m w of (Inl e, w') \<Rightarrow> (Inl e, w') | (Inr a, w') \<Rightarrow> f a w')"

definition attempt :: "'a io \<Rightarrow> 'a result io" where
  "attempt m w = (case m w of (r, w') \<Rightarrow> (Inr r, w'))"

definition look :: "(world \<Rightarrow> 'a) \<Rightarrow> 'a io" where
  "look f w = (Inr (f w), w)"

text \<open>\<open>let _ = \<dots>\<close>: the result dropped.\<close>

definition ignoring :: "'a io \<Rightarrow> unit io" where
  "ignoring m = and_then (attempt m) (\<lambda>_. ok ())"

definition io_when :: "bool \<Rightarrow> unit io \<Rightarrow> unit io" where
  "io_when b m = (if b then m else ok ())"

fun for_each :: "('a \<Rightarrow> unit io) \<Rightarrow> 'a list \<Rightarrow> unit io" where
  "for_each f [] = ok ()"
| "for_each f (x # xs) = and_then (f x) (\<lambda>_. for_each f xs)"

definition on_err :: "'a io \<Rightarrow> (error \<Rightarrow> unit io) \<Rightarrow> 'a io" where
  "on_err m h =
     and_then (attempt m) (\<lambda>r. case r of
         Inr a \<Rightarrow> ok a
       | Inl e \<Rightarrow> and_then (h e) (\<lambda>_. fail e))"

lemmas io_simps = ok_def fail_def lift_result_def and_then_def attempt_def look_def ignoring_def
  on_err_def io_when_def

lemma and_then_ok [simp]: "and_then (ok a) f = f a"
  by (simp add: fun_eq_iff io_simps)

lemma and_then_fail [simp]: "and_then (fail e) f = fail e"
  by (simp add: fun_eq_iff io_simps)

lemma and_then_assoc: "and_then (and_then m f) g = and_then m (\<lambda>x. and_then (f x) g)"
  by (simp add: fun_eq_iff io_simps split: prod.splits sum.splits)

section \<open>The database as an effect\<close>

text \<open>A statement or a transaction that fails has changed nothing.\<close>

definition db_fault :: "world \<Rightarrow> bool \<times> world" where
  "db_fault w = (case w_db_faults w of [] \<Rightarrow> (False, w) | b # bs \<Rightarrow> (b, w\<lparr>w_db_faults := bs\<rparr>))"

definition run_db :: "'a db_op \<Rightarrow> 'a io" where
  "run_db oper w =
     (let (failed, w) = db_fault w
      in if failed then (Inl (Database Sqlx_Failed), w)
         else case oper (w_db w) of
                Inl e \<Rightarrow> (Inl e, w)
              | Inr (a, d) \<Rightarrow> (Inr a, w\<lparr>w_db := d\<rparr>))"

definition query_result :: "(db \<Rightarrow> 'a result) \<Rightarrow> 'a io" where
  "query_result q = run_db (\<lambda>d. map_result (\<lambda>a. (a, d)) (q d))"

definition query :: "(db \<Rightarrow> 'a) \<Rightarrow> 'a io" where
  "query q = query_result (\<lambda>d. Inr (q d))"

definition run_db_at :: "(time \<Rightarrow> 'a db_op) \<Rightarrow> 'a io" where
  "run_db_at oper = and_then (look w_now) (\<lambda>now. run_db (oper now))"

section \<open>The file system\<close>

definition fs_fault :: "world \<Rightarrow> (io_kind \<times> nat) option \<times> world" where
  "fs_fault w = (case w_fs_faults w of [] \<Rightarrow> (None, w) | f # fs \<Rightarrow> (f, w\<lparr>w_fs_faults := fs\<rparr>))"

definition put_file :: "path \<Rightarrow> string \<Rightarrow> world \<Rightarrow> world" where
  "put_file p bytes w = w\<lparr>w_files := AList.update p bytes (w_files w)\<rparr>"

definition drop_file :: "path \<Rightarrow> world \<Rightarrow> world" where
  "drop_file p w = w\<lparr>w_files := AList.delete p (w_files w)\<rparr>"

text \<open>
  A call on the world's files: failed with its progress, or done. A call says that a file is
  missing only when it is.
\<close>

definition fs_call :: "(nat \<Rightarrow> world \<Rightarrow> world) \<Rightarrow> 'a io \<Rightarrow> 'a io" where
  "fs_call part m w =
     (case fs_fault w of
        (Some (kind, n), w) \<Rightarrow>
          (Inl (Io (if kind = Io_NotFound then Io_OtherKind else kind)), part n w)
      | (None, w) \<Rightarrow> m w)"

definition no_trace :: "nat \<Rightarrow> world \<Rightarrow> world" where
  "no_trace n w = w"

definition fs_read :: "path \<Rightarrow> string io" where
  "fs_read p = fs_call no_trace (\<lambda>w. case file_at_path w p of
       None \<Rightarrow> (Inl (Io Io_NotFound), w) | Some bytes \<Rightarrow> (Inr bytes, w))"

definition fs_metadata_len :: "path \<Rightarrow> nat io" where
  "fs_metadata_len p = fs_call no_trace (\<lambda>w. case file_at_path w p of
       None \<Rightarrow> (Inl (Io Io_NotFound), w) | Some bytes \<Rightarrow> (Inr (length bytes), w))"

text \<open>\<open>try_exists(\<dots>).unwrap_or(false)\<close>.\<close>

definition fs_exists :: "path \<Rightarrow> bool io" where
  "fs_exists p = and_then (attempt (fs_call no_trace (look (\<lambda>w. file_at_path w p \<noteq> None))))
     (\<lambda>r. ok (case r of Inr b \<Rightarrow> b | Inl _ \<Rightarrow> False))"

definition fs_create_dirs :: "path \<Rightarrow> unit io" where
  "fs_create_dirs p = fs_call no_trace (ok ())"

definition fs_rename :: "path \<Rightarrow> path \<Rightarrow> unit io" where
  "fs_rename src dest = fs_call no_trace (\<lambda>w. case file_at_path w src of
       None \<Rightarrow> (Inl (Io Io_NotFound), w)
     | Some bytes \<Rightarrow> (Inr (), put_file dest bytes (drop_file src w)))"

text \<open>A hard link shares the bytes; no file is ever written in place, so a copy stands for it.\<close>

definition fs_hard_link :: "path \<Rightarrow> path \<Rightarrow> unit io" where
  "fs_hard_link src dest = fs_call no_trace (\<lambda>w. case file_at_path w src of
       None \<Rightarrow> (Inl (Io Io_NotFound), w)
     | Some bytes \<Rightarrow> if file_at_path w dest \<noteq> None then (Inl (Io Io_OtherKind), w)
                     else (Inr (), put_file dest bytes w))"

definition fs_copy :: "path \<Rightarrow> path \<Rightarrow> unit io" where
  "fs_copy src dest w =
     fs_call (\<lambda>n w. case file_at_path w src of
                 None \<Rightarrow> w | Some bytes \<Rightarrow> put_file dest (take n bytes) w)
       (\<lambda>w. case file_at_path w src of
              None \<Rightarrow> (Inl (Io Io_NotFound), w)
            | Some bytes \<Rightarrow> (Inr (), put_file dest bytes w)) w"

definition fs_sync_file :: "path \<Rightarrow> unit io" where
  "fs_sync_file p = fs_call no_trace (\<lambda>w. case file_at_path w p of
       None \<Rightarrow> (Inl (Io Io_NotFound), w) | Some _ \<Rightarrow> (Inr (), w))"

definition fs_create_new :: "path \<Rightarrow> unit io" where
  "fs_create_new p = fs_call no_trace (\<lambda>w.
     if file_at_path w p \<noteq> None then (Inl (Io Io_OtherKind), w) else (Inr (), put_file p [] w))"

definition fs_write_all :: "path \<Rightarrow> string \<Rightarrow> unit io" where
  "fs_write_all p bytes =
     fs_call (\<lambda>n. put_file p (take n bytes)) (\<lambda>w. (Inr (), put_file p bytes w))"

definition fs_remove_file :: "path \<Rightarrow> unit io" where
  "fs_remove_file p = fs_call no_trace (\<lambda>w.
     if file_at_path w p = None then (Inl (Io Io_NotFound), w) else (Inr (), drop_file p w))"

definition under :: "path \<Rightarrow> path \<Rightarrow> bool" where
  "under dir p \<longleftrightarrow> take (length dir) p = dir"

definition drop_under :: "path \<Rightarrow> world \<Rightarrow> world" where
  "drop_under dir w = w\<lparr>w_files := filter (\<lambda>(p, _). \<not> under dir p) (w_files w)\<rparr>"

text \<open>A removal cut short has removed some of the directory's files.\<close>

definition fs_remove_dir_all :: "path \<Rightarrow> unit io" where
  "fs_remove_dir_all dir =
     fs_call (\<lambda>n w. foldl (\<lambda>w p. drop_file p w) w
                      (take n (filter (under dir) (map fst (w_files w)))))
       (\<lambda>w. if list_ex (\<lambda>f. under dir (fst f)) (w_files w) then (Inr (), drop_under dir w)
             else (Inl (Io Io_NotFound), w))"

text \<open>A name nothing else uses: a fresh UUID is the next number.\<close>

definition fresh_name :: "string \<Rightarrow> string io" where
  "fresh_name prefix w =
     (Inr (prefix @ ''-'' @ show_nat (w_fresh w) @ ''.tmp''), w\<lparr>w_fresh := Suc (w_fresh w)\<rparr>)"

text \<open>The signal that stops a long run, read when the run asks for it.\<close>

definition stopping :: "bool io" where
  "stopping w =
     (case w_stops w of [] \<Rightarrow> (Inr False, w) | b # bs \<Rightarrow> (Inr b, w\<lparr>w_stops := bs\<rparr>))"

section \<open>Reasoning about operations\<close>

text \<open>
  \<open>hoare P m Q E\<close>: from a world with \<open>P\<close>, \<open>m\<close> ends with \<open>Q\<close> of its value or \<open>E\<close> of its
  error. \<open>keeps P m\<close>: it keeps \<open>P\<close> whatever happens.
\<close>

definition hoare ::
    "(world \<Rightarrow> bool) \<Rightarrow> 'a io \<Rightarrow> ('a \<Rightarrow> world \<Rightarrow> bool) \<Rightarrow> (error \<Rightarrow> world \<Rightarrow> bool) \<Rightarrow> bool" where
  "hoare P m Q E \<longleftrightarrow>
     (\<forall>w. P w \<longrightarrow> (case m w of (Inr a, w') \<Rightarrow> Q a w' | (Inl e, w') \<Rightarrow> E e w'))"

definition keeps :: "(world \<Rightarrow> bool) \<Rightarrow> 'a io \<Rightarrow> bool" where
  "keeps P m \<longleftrightarrow> (\<forall>w. P w \<longrightarrow> P (snd (m w)))"

named_theorems keeping \<open>rules for keeps\<close>

lemma keepsD: "keeps P m \<Longrightarrow> P w \<Longrightarrow> m w = (r, w') \<Longrightarrow> P w'"
  by (force simp: keeps_def)

lemma keeps_ok [keeping]: "keeps P (ok a)"
  by (simp add: keeps_def io_simps)

lemma keeps_fail [keeping]: "keeps P (fail e)"
  by (simp add: keeps_def io_simps)

lemma keeps_look [keeping]: "keeps P (look f)"
  by (simp add: keeps_def io_simps)

lemma keeps_lift [keeping]: "keeps P (lift_result r)"
  by (simp add: keeps_def io_simps)

lemma keeps_and_then [keeping]: "keeps P m \<Longrightarrow> (\<And>a. keeps P (f a)) \<Longrightarrow> keeps P (and_then m f)"
  by (fastforce simp: keeps_def io_simps split: prod.splits sum.splits)

lemma keeps_attempt [keeping]: "keeps P m \<Longrightarrow> keeps P (attempt m)"
  by (fastforce simp: keeps_def io_simps split: prod.splits)

lemma keeps_ignoring [keeping]: "keeps P m \<Longrightarrow> keeps P (ignoring m)"
  unfolding ignoring_def by (intro keeping)

lemma keeps_on_err [keeping]: "keeps P m \<Longrightarrow> (\<And>e. keeps P (h e)) \<Longrightarrow> keeps P (on_err m h)"
  unfolding on_err_def by (auto intro!: keeping split: sum.splits)

lemma keeps_if [keeping]: "keeps P m \<Longrightarrow> keeps P n \<Longrightarrow> keeps P (if b then m else n)"
  by simp

lemma keeps_when [keeping]: "keeps P m \<Longrightarrow> keeps P (io_when b m)"
  by (simp add: io_when_def keeps_ok)

lemma keeps_for_each [keeping]: "(\<And>x. x \<in> set xs \<Longrightarrow> keeps P (f x)) \<Longrightarrow> keeps P (for_each f xs)"
  by (induction xs) (auto intro!: keeping)

lemma keeps_case_option [keeping]:
  "keeps P m \<Longrightarrow> (\<And>a. keeps P (f a)) \<Longrightarrow> keeps P (case x of None \<Rightarrow> m | Some a \<Rightarrow> f a)"
  by (cases x) simp_all

lemma keeps_case_sum [keeping]:
  "(\<And>e. keeps P (g e)) \<Longrightarrow> (\<And>a. keeps P (f a)) \<Longrightarrow> keeps P (case x of Inl e \<Rightarrow> g e | Inr a \<Rightarrow> f a)"
  by (cases x) simp_all

end
