(* ===== verification/Store.thy ===== *)
theory Store
  imports World
begin

text \<open>
  The filesystem store (\<open>src/src/storage/filesystem.rs\<close>): payloads, sidecars, symbol
  files and blobs, each put in place by a rename. A temporary file is a path outside the
  store; a store path is relative to its root. Only files are kept in the world, so making
  a directory can only fail, and a directory is there while a file is under it. Syncing a
  directory is best effort and has no effect here; every file is a regular one.
\<close>

definition staging_dir :: path where
  "staging_dir = [''.uploads'']"

definition staging_path :: "path io" where
  "staging_path =
     and_then (fs_create_dirs staging_dir) (\<lambda>_.
     and_then (fresh_name ''store'') (\<lambda>name. ok (staging_dir @ [name])))"

section \<open>Putting a file in place\<close>

definition copy_into_place :: "path \<Rightarrow> path \<Rightarrow> unit io" where
  "copy_into_place temp dest =
     and_then staging_path (\<lambda>staged.
     and_then (on_err (and_then (fs_copy temp staged) (\<lambda>_.
                       and_then (fs_sync_file staged) (\<lambda>_.
                       fs_rename staged dest)))
                 (\<lambda>_. ignoring (fs_remove_file staged))) (\<lambda>_.
     ignoring (fs_remove_file temp)))"

definition move_into_place :: "path \<Rightarrow> path \<Rightarrow> unit io" where
  "move_into_place temp dest =
     and_then (attempt (fs_rename temp dest)) (\<lambda>r. case r of
         Inr _ \<Rightarrow> ok ()
       | Inl e \<Rightarrow> if e = Io Io_CrossesDevices then copy_into_place temp dest else fail e)"

definition write_atomically :: "path \<Rightarrow> string \<Rightarrow> unit io" where
  "write_atomically dest bytes =
     and_then staging_path (\<lambda>staged.
     on_err (and_then (fs_create_new staged) (\<lambda>_.
             and_then (fs_write_all staged bytes) (\<lambda>_.
             and_then (fs_sync_file staged) (\<lambda>_.
             fs_rename staged dest))))
       (\<lambda>_. ignoring (fs_remove_file staged)))"

section \<open>The operations\<close>

definition store_package :: "string \<Rightarrow> string \<Rightarrow> path \<Rightarrow> nat io" where
  "store_package i version temp =
     and_then (lift_result (version_dir i version)) (\<lambda>dir.
     and_then (fs_create_dirs dir) (\<lambda>_.
     and_then (lift_result (package_path i version)) (\<lambda>dest.
     and_then (move_into_place temp dest) (\<lambda>_.
     fs_metadata_len dest))))"

text \<open>The incoming file is looked at, then the one in its place: the same size stays.\<close>

definition store_blob :: "string \<Rightarrow> path \<Rightarrow> nat io" where
  "store_blob sha temp =
     and_then (lift_result (blob_path sha)) (\<lambda>dest.
     and_then (fs_metadata_len temp) (\<lambda>incoming.
     and_then (attempt (fs_metadata_len dest)) (\<lambda>stored.
     let go = and_then (fs_create_dirs (butlast dest)) (\<lambda>_.
              and_then (move_into_place temp dest) (\<lambda>_. ok incoming))
     in case stored of
          Inr n \<Rightarrow> if n = incoming then and_then (ignoring (fs_remove_file temp)) (\<lambda>_. ok n) else go
        | Inl e \<Rightarrow> if e = Io Io_NotFound then go else fail e)))"

definition get_if_exists :: "path \<Rightarrow> path io" where
  "get_if_exists p =
     and_then (fs_exists p) (\<lambda>there. if there then ok p else fail PackageNotFound)"

definition get_blob :: "string \<Rightarrow> path io" where
  "get_blob sha = and_then (lift_result (blob_path sha)) get_if_exists"

definition remove_quietly :: "unit io \<Rightarrow> unit io" where
  "remove_quietly m =
     and_then (attempt m) (\<lambda>r. case r of
         Inr _ \<Rightarrow> ok ()
       | Inl e \<Rightarrow> if e = Io Io_NotFound then ok () else fail e)"

definition delete_blob :: "string \<Rightarrow> unit io" where
  "delete_blob sha =
     and_then (lift_result (blob_path sha)) (\<lambda>p. remove_quietly (fs_remove_file p))"

text \<open>Only what \<open>blob_path\<close> names is a blob; the names come back sorted.\<close>

definition is_blob_file :: "path \<Rightarrow> bool" where
  "is_blob_file p \<longleftrightarrow> p \<noteq> [] \<and> blob_path (last p) = Inr p"

definition list_blobs :: "string list io" where
  "list_blobs =
     fs_call no_trace (look (\<lambda>w. sort_names (remdups (map last (filter is_blob_file (map fst (w_files w)))))))"

definition get_package :: "string \<Rightarrow> string \<Rightarrow> path io" where
  "get_package i version = and_then (lift_result (package_path i version)) get_if_exists"

definition package_exists :: "string \<Rightarrow> string \<Rightarrow> bool io" where
  "package_exists i version =
     (case package_path i version of Inr p \<Rightarrow> fs_exists p | Inl _ \<Rightarrow> ok False)"

definition store_symbol_package :: "string \<Rightarrow> string \<Rightarrow> path \<Rightarrow> nat io" where
  "store_symbol_package i version temp =
     and_then (lift_result (version_dir i version)) (\<lambda>dir.
     and_then (fs_create_dirs dir) (\<lambda>_.
     and_then (lift_result (symbol_package_path i version)) (\<lambda>dest.
     and_then (move_into_place temp dest) (\<lambda>_.
     fs_metadata_len dest))))"

definition store_symbol :: "string \<Rightarrow> string \<Rightarrow> string \<Rightarrow> unit io" where
  "store_symbol key filename bytes =
     and_then (lift_result (symbol_path key filename)) (\<lambda>dest.
     and_then (fs_create_dirs (butlast dest)) (\<lambda>_. write_atomically dest bytes))"

definition store_symbol_file :: "string \<Rightarrow> string \<Rightarrow> path \<Rightarrow> unit io" where
  "store_symbol_file key filename temp =
     and_then (lift_result (symbol_path key filename)) (\<lambda>dest.
     and_then (fs_create_dirs (butlast dest)) (\<lambda>_. move_into_place temp dest))"

definition get_symbol :: "string \<Rightarrow> string \<Rightarrow> path io" where
  "get_symbol key filename = and_then (lift_result (symbol_path key filename)) get_if_exists"

definition storage_delete_symbol :: "string \<Rightarrow> string \<Rightarrow> unit io" where
  "storage_delete_symbol key filename =
     and_then (lift_result (symbol_path key filename)) (\<lambda>p. ignoring (fs_remove_file p))"

definition store_aux :: "string \<Rightarrow> string \<Rightarrow> aux_file \<Rightarrow> string \<Rightarrow> unit io" where
  "store_aux i version kind bytes =
     and_then (lift_result (version_dir i version)) (\<lambda>dir.
     and_then (fs_create_dirs dir) (\<lambda>_.
     and_then (lift_result (aux_path i version kind)) (\<lambda>p. write_atomically p bytes)))"

definition get_aux :: "string \<Rightarrow> string \<Rightarrow> aux_file \<Rightarrow> string io" where
  "get_aux i version kind =
     and_then (lift_result (aux_path i version kind)) (\<lambda>p.
     and_then (attempt (fs_read p)) (\<lambda>r. case r of
         Inr bytes \<Rightarrow> ok bytes
       | Inl e \<Rightarrow> if e = Io Io_NotFound then fail PackageNotFound else fail e))"

definition aux_content :: "string \<Rightarrow> string \<Rightarrow> aux_file \<Rightarrow> path io" where
  "aux_content i version kind = and_then (lift_result (aux_path i version kind)) get_if_exists"

definition storage_delete :: "string \<Rightarrow> string \<Rightarrow> unit io" where
  "storage_delete i version =
     and_then (lift_result (version_dir i version)) (\<lambda>dir. remove_quietly (fs_remove_dir_all dir))"

section \<open>Frames: what an operation leaves alone\<close>

text \<open>The files a call touches, by path; nothing here touches the database or the clock.\<close>

definition only_touches :: "(path \<Rightarrow> bool) \<Rightarrow> 'a io \<Rightarrow> bool" where
  "only_touches T m \<longleftrightarrow>
     (\<forall>w. let w' = snd (m w) in w_db w' = w_db w \<and> w_now w' = w_now w \<and>
        w_db_faults w' = w_db_faults w \<and> w_fresh w \<le> w_fresh w' \<and>
        (\<forall>p. \<not> T p \<longrightarrow> file_at_path w' p = file_at_path w p))"

named_theorems touching \<open>rules for only_touches\<close>

lemma only_touchesD:
  "only_touches T m \<Longrightarrow> m w = (r, w') \<Longrightarrow>
   w_db w' = w_db w \<and> w_now w' = w_now w \<and> w_db_faults w' = w_db_faults w \<and> w_fresh w \<le> w_fresh w'
   \<and> (\<forall>p. \<not> T p \<longrightarrow> file_at_path w' p = file_at_path w p)"
  unfolding only_touches_def Let_def by (metis snd_conv)

lemma touching_mono: "only_touches T m \<Longrightarrow> (\<And>p. T p \<Longrightarrow> U p) \<Longrightarrow> only_touches U m"
  unfolding only_touches_def Let_def by blast

lemma touching_pure [touching]:
  "only_touches T (ok a)" "only_touches T (fail e)" "only_touches T (lift_result r)"
  "only_touches T (look f)"
  by (simp_all add: only_touches_def io_simps)

lemma touching_and_then [touching]:
  assumes "only_touches T m" "\<And>a. only_touches T (f a)"
  shows "only_touches T (and_then m f)"
  unfolding only_touches_def Let_def
proof
  fix w
  obtain r w1 where m: "m w = (r, w1)" by (cases "m w")
  note one = only_touchesD [OF assms(1) m]
  show "w_db (snd (and_then m f w)) = w_db w \<and> w_now (snd (and_then m f w)) = w_now w \<and>
        w_db_faults (snd (and_then m f w)) = w_db_faults w \<and>
        w_fresh w \<le> w_fresh (snd (and_then m f w)) \<and>
        (\<forall>p. \<not> T p \<longrightarrow> file_at_path (snd (and_then m f w)) p = file_at_path w p)"
  proof (cases r)
    case (Inl e)
    then show ?thesis using one by (simp add: and_then_def m)
  next
    case (Inr a)
    obtain r' w2 where f: "f a w1 = (r', w2)" by (cases "f a w1")
    show ?thesis using one only_touchesD [OF assms(2) f] by (simp add: and_then_def m Inr f)
  qed
qed

lemma touching_attempt [touching]: "only_touches T m \<Longrightarrow> only_touches T (attempt m)"
  by (simp add: only_touches_def attempt_def split: prod.splits) (metis snd_conv)

lemma touching_ignoring [touching]: "only_touches T m \<Longrightarrow> only_touches T (ignoring m)"
  unfolding ignoring_def by (intro touching)

lemma touching_if [touching]:
  "only_touches T m \<Longrightarrow> only_touches T n \<Longrightarrow> only_touches T (if b then m else n)"
  by simp

lemma touching_case_sum [touching]:
  "(\<And>e. only_touches T (g e)) \<Longrightarrow> (\<And>a. only_touches T (f a)) \<Longrightarrow>
   only_touches T (case x of Inl e \<Rightarrow> g e | Inr a \<Rightarrow> f a)"
  by (cases x) simp_all

lemma touching_on_err [touching]:
  "only_touches T m \<Longrightarrow> (\<And>e. only_touches T (h e)) \<Longrightarrow> only_touches T (on_err m h)"
  unfolding on_err_def by (intro touching)

lemma touching_for_each [touching]:
  "(\<And>x. x \<in> set xs \<Longrightarrow> only_touches T (f x)) \<Longrightarrow> only_touches T (for_each f xs)"
  by (induction xs) (auto intro!: touching)

lemma file_put [simp]:
  "file_at_path (put_file p bytes w) q = (if q = p then Some bytes else file_at_path w q)"
  by (simp add: file_at_path_def put_file_def update_conv)

lemma file_drop [simp]:
  "file_at_path (drop_file p w) q = (if q = p then None else file_at_path w q)"
  by (simp add: file_at_path_def drop_file_def delete_conv)

lemma put_drop_fields [simp]:
  "w_db (put_file p bytes w) = w_db w" "w_now (put_file p bytes w) = w_now w"
  "w_db_faults (put_file p bytes w) = w_db_faults w" "w_fresh (put_file p bytes w) = w_fresh w"
  "w_db (drop_file p w) = w_db w" "w_now (drop_file p w) = w_now w"
  "w_db_faults (drop_file p w) = w_db_faults w" "w_fresh (drop_file p w) = w_fresh w"
  by (simp_all add: put_file_def drop_file_def)

lemma file_drop_under [simp]:
  "file_at_path (drop_under dir w) q = (if under dir q then None else file_at_path w q)"
proof -
  have "map_of (filter (\<lambda>(p, _). \<not> under dir p) xs) q = (if under dir q then None else map_of xs q)"
    for xs :: "(path \<times> string) list"
    by (induction xs) auto
  then show ?thesis by (simp add: file_at_path_def drop_under_def)
qed

lemma fs_fault_fields:
  assumes "fs_fault w = (f, w')"
  shows "w_db w' = w_db w" "w_now w' = w_now w" "w_db_faults w' = w_db_faults w"
    "w_fresh w' = w_fresh w" "w_files w' = w_files w" "file_at_path w' p = file_at_path w p"
  using assms by (auto simp: fs_fault_def file_at_path_def split: list.splits)

lemma touching_fs_call:
  assumes "only_touches T m" "\<And>n. only_touches T (\<lambda>w. (Inr (), part n w))"
  shows "only_touches T (fs_call part m)"
  unfolding only_touches_def Let_def
proof
  fix w
  obtain f w1 where f: "fs_fault w = (f, w1)" by (cases "fs_fault w")
  note one = fs_fault_fields [OF f]
  show "w_db (snd (fs_call part m w)) = w_db w \<and> w_now (snd (fs_call part m w)) = w_now w \<and>
        w_db_faults (snd (fs_call part m w)) = w_db_faults w \<and>
        w_fresh w \<le> w_fresh (snd (fs_call part m w)) \<and>
        (\<forall>p. \<not> T p \<longrightarrow> file_at_path (snd (fs_call part m w)) p = file_at_path w p)"
  proof (cases f)
    case None
    obtain r w2 where m: "m w1 = (r, w2)" by (cases "m w1")
    show ?thesis using one only_touchesD [OF assms(1) m] by (simp add: fs_call_def f None m)
  next
    case (Some kn)
    obtain k n where kn: "kn = (k, n)" by (cases kn)
    show ?thesis
      using one assms(2) [of n, unfolded only_touches_def Let_def, rule_format, of w1]
      by (simp add: fs_call_def f Some kn)
  qed
qed

lemma touching_no_trace [touching]: "only_touches T m \<Longrightarrow> only_touches T (fs_call no_trace m)"
  by (rule touching_fs_call) (simp_all add: only_touches_def no_trace_def)

lemma touching_rename [touching]: "T src \<Longrightarrow> T dest \<Longrightarrow> only_touches T (fs_rename src dest)"
  unfolding fs_rename_def
  by (rule touching_no_trace) (auto simp: only_touches_def Let_def split: option.splits)

lemma touching_hard_link [touching]: "T dest \<Longrightarrow> only_touches T (fs_hard_link src dest)"
  unfolding fs_hard_link_def
  by (rule touching_no_trace) (auto simp: only_touches_def Let_def split: option.splits)

lemma touching_copy [touching]: "T dest \<Longrightarrow> only_touches T (fs_copy src dest)"
  unfolding fs_copy_def [abs_def]
  by (rule touching_fs_call) (auto simp: only_touches_def Let_def split: option.splits)

lemma touching_reads [touching]:
  "only_touches T (fs_read p)" "only_touches T (fs_metadata_len p)" "only_touches T (fs_exists p)"
  "only_touches T (fs_create_dirs p)" "only_touches T (fs_sync_file p)"
  unfolding fs_read_def fs_metadata_len_def fs_exists_def fs_create_dirs_def fs_sync_file_def
  by (intro touching; auto simp: only_touches_def Let_def split: option.splits)+

lemma touching_writes [touching]:
  "T p \<Longrightarrow> only_touches T (fs_create_new p)" "T p \<Longrightarrow> only_touches T (fs_remove_file p)"
  unfolding fs_create_new_def fs_remove_file_def
  by (rule touching_no_trace; auto simp: only_touches_def Let_def)+

lemma touching_write_all [touching]: "T p \<Longrightarrow> only_touches T (fs_write_all p bytes)"
  unfolding fs_write_all_def
  by (rule touching_fs_call) (auto simp: only_touches_def Let_def)

lemma touching_fresh [touching]: "only_touches T (fresh_name prefix)"
  by (simp add: only_touches_def fresh_name_def Let_def file_at_path_def)

lemma drop_files_fields:
  "w_db (foldl (\<lambda>w p. drop_file p w) w ps) = w_db w"
  "w_now (foldl (\<lambda>w p. drop_file p w) w ps) = w_now w"
  "w_db_faults (foldl (\<lambda>w p. drop_file p w) w ps) = w_db_faults w"
  "w_fresh (foldl (\<lambda>w p. drop_file p w) w ps) = w_fresh w"
  "file_at_path (foldl (\<lambda>w p. drop_file p w) w ps) q =
     (if q \<in> set ps then None else file_at_path w q)"
  by (induction ps arbitrary: w) auto

lemma touching_remove_dir [touching]:
  assumes "\<And>p. under dir p \<Longrightarrow> T p"
  shows "only_touches T (fs_remove_dir_all dir)"
  unfolding fs_remove_dir_all_def
proof (rule touching_fs_call)
  show "only_touches T (\<lambda>w. if list_ex (\<lambda>f. under dir (fst f)) (w_files w) then (Inr (), drop_under dir w)
          else (Inl (Io Io_NotFound), w))"
    using assms by (auto simp: only_touches_def Let_def) (auto simp: drop_under_def)
  show "only_touches T (\<lambda>w. (Inr (), foldl (\<lambda>w p. drop_file p w) w
          (take n (filter (under dir) (map fst (w_files w))))))" for n
    using assms by (auto simp: only_touches_def Let_def drop_files_fields dest!: in_set_takeD)
qed

text \<open>A store operation touches its temporary file, its destination and the staging area.\<close>

definition staged :: "path \<Rightarrow> bool" where
  "staged p \<longleftrightarrow> length p = 2 \<and> under staging_dir p"

lemma staging_path_staged:
  "staging_path w = (Inr p, w') \<Longrightarrow>
     p = staging_dir @ [''store-'' @ show_nat (w_fresh w) @ ''.tmp''] \<and> w_fresh w' = Suc (w_fresh w) \<and>
     w_files w' = w_files w \<and> w_db w' = w_db w"
  by (auto simp: staging_path_def and_then_def fs_create_dirs_def fs_call_def no_trace_def ok_def
      fresh_name_def fs_fault_def split: prod.splits sum.splits option.splits list.splits)

lemma staging_path_error:
  "staging_path w = (Inl e, w') \<Longrightarrow> w_files w' = w_files w"
  by (auto simp: staging_path_def and_then_def fs_create_dirs_def fs_call_def no_trace_def ok_def
      fresh_name_def fs_fault_def split: prod.splits sum.splits option.splits list.splits)

lemma touching_staging:
  assumes "\<And>p. staged p \<Longrightarrow> only_touches T (f p)"
  shows "only_touches T (and_then staging_path f)"
proof -
  have "only_touches T (f (staging_dir @ [name]))" for name
    by (rule assms) (simp add: staged_def staging_dir_def under_def)
  then show ?thesis
    unfolding staging_path_def and_then_assoc by (auto intro!: touching)
qed

lemma touching_move [touching]:
  assumes "T temp" "T dest" "\<And>p. staged p \<Longrightarrow> T p"
  shows "only_touches T (move_into_place temp dest)"
  unfolding move_into_place_def copy_into_place_def
  by (intro touching touching_staging assms)

lemma touching_write_atomically [touching]:
  assumes "T dest" "\<And>p. staged p \<Longrightarrow> T p"
  shows "only_touches T (write_atomically dest bytes)"
  unfolding write_atomically_def by (intro touching touching_staging assms)

section \<open>A file in its place is whole\<close>

text \<open>The names a staging file will take are free.\<close>

definition fresh_ok :: "world \<Rightarrow> bool" where
  "fresh_ok w \<longleftrightarrow>
     (\<forall>n \<ge> w_fresh w. file_at_path w (staging_dir @ [''store-'' @ show_nat n @ ''.tmp'']) = None)"

lemmas fs_steps = fs_rename_def fs_copy_def fs_sync_file_def fs_remove_file_def fs_create_new_def
  fs_write_all_def fs_metadata_len_def fs_create_dirs_def fs_call_def no_trace_def

lemma fs_fault_file [simp]:
  "fs_fault w = (f, w') \<Longrightarrow> file_at_path w' p = file_at_path w p"
  by (rule fs_fault_fields(6))

lemma rename_result:
  "fs_rename src dest w = (r, w') \<Longrightarrow>
   (case r of
      Inr _ \<Rightarrow> file_at_path w src \<noteq> None \<and> (\<forall>p. file_at_path w' p =
                 (if p = dest then file_at_path w src else if p = src then None else file_at_path w p))
    | Inl e \<Rightarrow> \<forall>p. file_at_path w' p = file_at_path w p)"
  by (auto simp: fs_steps fs_fault_fields split: prod.splits option.splits)

lemma remove_result:
  "ignoring (fs_remove_file q) w = (r, w') \<Longrightarrow>
   r = Inr () \<and> (\<forall>p. p \<noteq> q \<longrightarrow> file_at_path w' p = file_at_path w p)"
  by (auto simp: ignoring_def and_then_def attempt_def ok_def fs_steps fs_fault_fields
      split: prod.splits option.splits sum.splits if_splits)

lemma copy_result:
  "fs_copy src dest w = (r, w') \<Longrightarrow> file_at_path w src = Some bytes \<Longrightarrow>
   (case r of Inr _ \<Rightarrow> file_at_path w' dest = Some bytes | Inl e \<Rightarrow> True) \<and>
   (\<forall>p. p \<noteq> dest \<longrightarrow> file_at_path w' p = file_at_path w p)"
  by (auto simp: fs_steps fs_fault_fields split: prod.splits option.splits)

lemma sync_result:
  "fs_sync_file q w = (r, w') \<Longrightarrow> (\<forall>p. file_at_path w' p = file_at_path w p)"
  by (auto simp: fs_steps fs_fault_fields split: prod.splits option.splits)

lemma copy_into_place_result:
  assumes temp: "file_at_path w temp = Some bytes" and "dest \<noteq> temp" and "fresh_ok w"
    and "length dest \<noteq> 2" and run: "copy_into_place temp dest w = (r, w')"
  shows "case r of
      Inr _ \<Rightarrow> file_at_path w' dest = Some bytes
    | Inl e \<Rightarrow> file_at_path w' dest = file_at_path w dest \<and> file_at_path w' temp = Some bytes"
proof -
  obtain rs w1 where s: "staging_path w = (rs, w1)" by (cases "staging_path w")
  show ?thesis
  proof (cases rs)
    case (Inl e)
    then show ?thesis
      using run s temp staging_path_error [of w e w1]
      by (auto simp: copy_into_place_def and_then_def file_at_path_def)
  next
    case (Inr staged)
    note sp = staging_path_staged [OF s [unfolded Inr]]
    have f1: "file_at_path w1 p = file_at_path w p" for p using sp by (simp add: file_at_path_def)
    have free: "file_at_path w staged = None" using assms(3) sp by (simp add: fresh_ok_def)
    then have ne: "staged \<noteq> temp" "staged \<noteq> dest"
      using temp assms(4) sp by (auto simp: staging_dir_def)
    obtain rc w2 where c: "fs_copy temp staged w1 = (rc, w2)" by (cases "fs_copy temp staged w1")
    note cr = copy_result [OF c, of bytes, unfolded f1, OF temp]
    obtain ry w3 where y: "fs_sync_file staged w2 = (ry, w3)" by (cases "fs_sync_file staged w2")
    note yr = sync_result [OF y]
    obtain rr w4 where rn: "fs_rename staged dest w3 = (rr, w4)" by (cases "fs_rename staged dest w3")
    note rr = rename_result [OF rn]
    note gone = remove_result [of staged]
    note gone' = remove_result [of temp]
    show ?thesis
      using run ne cr yr rr temp f1 assms(2)
      by (auto simp: copy_into_place_def and_then_def [of staging_path] s Inr on_err_def
          and_then_def attempt_def ok_def fail_def c y rn
          split: sum.splits prod.splits dest!: gone gone')
  qed
qed

lemma move_into_place_result:
  assumes temp: "file_at_path w temp = Some bytes" and "dest \<noteq> temp" and fresh: "fresh_ok w"
    and "length dest \<noteq> 2" and run: "move_into_place temp dest w = (r, w')"
  shows "case r of
      Inr _ \<Rightarrow> file_at_path w' dest = Some bytes
    | Inl e \<Rightarrow> file_at_path w' dest = file_at_path w dest \<and> file_at_path w' temp = Some bytes"
proof -
  obtain r1 w1 where m: "fs_rename temp dest w = (r1, w1)" by (cases "fs_rename temp dest w")
  note mr = rename_result [OF m]
  have fr: "w_fresh w1 = w_fresh w"
    using m by (auto simp: fs_steps fs_fault_fields split: prod.splits option.splits)
  show ?thesis
  proof (cases r1)
    case (Inr u)
    then show ?thesis using run mr temp by (auto simp: move_into_place_def and_then_def attempt_def m ok_def)
  next
    case (Inl e)
    then have same: "file_at_path w1 p = file_at_path w p" for p using mr by simp
    then have "fresh_ok w1" using fresh fr by (simp add: fresh_ok_def)
    then show ?thesis
      using run copy_into_place_result [of w1 temp bytes dest r w'] same temp assms(2,4)
      by (auto simp: move_into_place_def and_then_def attempt_def m Inl fail_def
          split: if_splits sum.splits)
  qed
qed

lemma write_all_result:
  "fs_write_all q bytes w = (r, w') \<Longrightarrow>
   (case r of Inr _ \<Rightarrow> file_at_path w' q = Some bytes | Inl e \<Rightarrow> True) \<and>
   (\<forall>p. p \<noteq> q \<longrightarrow> file_at_path w' p = file_at_path w p)"
  by (auto simp: fs_steps fs_fault_fields split: prod.splits option.splits)

lemma create_result:
  "fs_create_new q w = (r, w') \<Longrightarrow> (\<forall>p. p \<noteq> q \<longrightarrow> file_at_path w' p = file_at_path w p)"
  by (auto simp: fs_steps fs_fault_fields split: prod.splits option.splits if_splits)

lemma write_atomically_result:
  assumes "length dest \<noteq> 2" and run: "write_atomically dest bytes w = (r, w')"
  shows "file_at_path w' dest = (case r of Inr _ \<Rightarrow> Some bytes | Inl e \<Rightarrow> file_at_path w dest)"
proof -
  obtain rs w1 where s: "staging_path w = (rs, w1)" by (cases "staging_path w")
  show ?thesis
  proof (cases rs)
    case (Inl e)
    then show ?thesis
      using run s staging_path_error [of w e w1]
      by (auto simp: write_atomically_def and_then_def file_at_path_def)
  next
    case (Inr staged)
    note sp = staging_path_staged [OF s [unfolded Inr]]
    have f1: "file_at_path w1 p = file_at_path w p" for p using sp by (simp add: file_at_path_def)
    have ne: "staged \<noteq> dest" using assms(1) sp by (auto simp: staging_dir_def)
    obtain rc w2 where c: "fs_create_new staged w1 = (rc, w2)" by (cases "fs_create_new staged w1")
    note cr = create_result [OF c, unfolded f1]
    obtain rw w3 where w: "fs_write_all staged bytes w2 = (rw, w3)"
      by (cases "fs_write_all staged bytes w2")
    note wr = write_all_result [OF w]
    obtain ry w4 where y: "fs_sync_file staged w3 = (ry, w4)" by (cases "fs_sync_file staged w3")
    note yr = sync_result [OF y]
    obtain rr w5 where rn: "fs_rename staged dest w4 = (rr, w5)" by (cases "fs_rename staged dest w4")
    note rr = rename_result [OF rn]
    note gone = remove_result [of staged]
    show ?thesis
      using run ne cr wr yr rr f1
      by (auto simp: write_atomically_def and_then_def [of staging_path] s Inr on_err_def
          and_then_def attempt_def ok_def fail_def c w y rn
          split: sum.splits prod.splits dest!: gone)
  qed
qed

section \<open>The contract of a store\<close>

text \<open>
  What every way of storing a file promises, whatever goes wrong: the file at its place is
  the old one or the complete new one, the new one once the store succeeds; a refused key
  changes nothing; nothing but the place, the source and the staging area is touched.
\<close>

definition whole_or_old :: "path \<Rightarrow> string \<Rightarrow> 'a result \<Rightarrow> world \<Rightarrow> world \<Rightarrow> bool" where
  "whole_or_old p bytes r w w' \<longleftrightarrow>
     (if is_ok r then file_at_path w' p = Some bytes
      else file_at_path w' p = file_at_path w p \<or> file_at_path w' p = Some bytes)"

locale placed_file =
  fixes place :: "'k \<Rightarrow> path result"
    and source :: "'s \<Rightarrow> path \<Rightarrow> bool"
    and content :: "'s \<Rightarrow> world \<Rightarrow> string option"
    and put :: "'k \<Rightarrow> 's \<Rightarrow> 'a io"
  assumes put_whole:
      "fresh_ok w \<Longrightarrow> content s w = Some bytes \<Longrightarrow> place k = Inr p \<Longrightarrow> \<not> source s p \<Longrightarrow>
       put k s w = (r, w') \<Longrightarrow> whole_or_old p bytes r w w'"
    and put_frame: "place k = Inr p \<Longrightarrow> only_touches (\<lambda>q. q = p \<or> source s q \<or> staged q) (put k s)"
    and put_refused: "place k = Inl e \<Longrightarrow> put k s w = (Inl e, w)"
begin

lemma put_then_read:
  "fresh_ok w \<Longrightarrow> content s w = Some bytes \<Longrightarrow> place k = Inr p \<Longrightarrow> \<not> source s p \<Longrightarrow>
   put k s w = (Inr a, w') \<Longrightarrow> file_at_path w' p = Some bytes"
  using put_whole by (fastforce simp: whole_or_old_def)

lemma put_elsewhere:
  assumes "put k s w = (r, w')" "place k \<noteq> Inr q" "\<not> source s q" "\<not> staged q"
  shows "file_at_path w' q = file_at_path w q"
proof (cases "place k")
  case (Inl e)
  then show ?thesis using put_refused assms(1) by simp
next
  case (Inr p)
  then show ?thesis using only_touchesD [OF put_frame [OF Inr] assms(1)] assms(2-4) by auto
qed

lemma put_db: "put k s w = (r, w') \<Longrightarrow> w_db w' = w_db w"
  using only_touchesD [OF put_frame] put_refused by (cases "place k") fastforce+

lemma put_contract:
  "fresh_ok w \<Longrightarrow> content s w = Some bytes \<Longrightarrow> place k = Inr p \<Longrightarrow> \<not> source s p \<Longrightarrow>
   put k s w = (r, w') \<Longrightarrow>
   whole_or_old p bytes r w w' \<and> w_db w' = w_db w \<and>
   (\<forall>q. q \<noteq> p \<and> \<not> source s q \<and> \<not> staged q \<longrightarrow> file_at_path w' q = file_at_path w q)"
  using put_whole put_db put_elsewhere by (metis sum.inject(2))

end

lemma and_then_lift: "and_then (lift_result (Inr a)) f = f a" "and_then (lift_result (Inl e)) f = fail e"
  by (simp_all add: fun_eq_iff io_simps)

lemma create_dirs_result:
  "fs_create_dirs d w = (r, w1) \<Longrightarrow> w_files w1 = w_files w \<and> w_fresh w1 = w_fresh w"
  by (auto simp: fs_steps fs_fault_fields ok_def split: prod.splits option.splits)

lemma fresh_ok_same: "w_files w1 = w_files w \<Longrightarrow> w_fresh w1 = w_fresh w \<Longrightarrow> fresh_ok w1 = fresh_ok w"
  by (simp add: fresh_ok_def file_at_path_def)

lemma metadata_result:
  "fs_metadata_len p w = (r, w') \<Longrightarrow> file_at_path w' q = file_at_path w q"
  by (auto simp: fs_steps fs_fault_fields split: prod.splits option.splits)

lemma moved_whole:
  assumes fresh: "fresh_ok w" and temp: "file_at_path w temp = Some bytes" and "dest \<noteq> temp"
    and "length dest \<noteq> 2"
    and run: "and_then (fs_create_dirs d) (\<lambda>_. and_then (move_into_place temp dest) (\<lambda>_. rest)) w = (r, w')"
    and rest: "\<And>w r' w'. rest w = (r', w') \<Longrightarrow> file_at_path w' dest = file_at_path w dest"
  shows "whole_or_old dest bytes r w w'"
proof -
  obtain rd w1 where d: "fs_create_dirs d w = (rd, w1)" by (cases "fs_create_dirs d w")
  note f = create_dirs_result [OF d]
  have same: "file_at_path w1 p = file_at_path w p" for p using f by (simp add: file_at_path_def)
  have fresh1: "fresh_ok w1" using f fresh fresh_ok_same by blast
  obtain rm w2 where m: "move_into_place temp dest w1 = (rm, w2)"
    by (cases "move_into_place temp dest w1")
  note mr = move_into_place_result [OF _ assms(3) fresh1 assms(4) m, of bytes, unfolded same, OF temp]
  obtain rr w3 where rr: "rest w2 = (rr, w3)" by (cases "rest w2")
  show ?thesis
    using run mr same rest [OF rr] temp
    by (cases rd; cases rm; cases rr) (auto simp: and_then_def d m rr whole_or_old_def)
qed

lemma package_path_dir: "package_path i v = Inr p \<Longrightarrow>
    \<exists>dir. version_dir i v = Inr dir \<and> length p = 3 \<and> p = dir @ [versioned_name i v ''.nupkg'']"
  by (auto simp: package_path_def version_dir_def result_ok)

lemma package_path_refused: "package_path i v = Inl e \<longleftrightarrow> version_dir i v = Inl e"
  by (cases "version_dir i v") (auto simp: package_path_def)

interpretation payload: placed_file "\<lambda>(i, v). package_path i v" "(=)" "\<lambda>temp w. file_at_path w temp"
    "\<lambda>(i, v). store_package i v"
proof (unfold_locales, goal_cases)
  case (1 w s bytes k p r w')
  obtain i v where k: "k = (i, v)" by (cases k)
  from 1(3) obtain dir where dir: "version_dir i v = Inr dir" "length p = 3"
    using package_path_dir [of i v p] by (auto simp: k)
  then show ?case
    using 1 moved_whole [of w s bytes p dir "fs_metadata_len p" r w'] metadata_result
    by (simp add: k store_package_def and_then_lift)
next
  case (2 k p s)
  then show ?case
    by (cases k) (auto simp: store_package_def and_then_lift dest!: package_path_dir intro!: touching)
next
  case (3 k e s w)
  then show ?case
    by (cases k) (simp add: package_path_refused store_package_def and_then_lift fail_def)
qed

lemma symbol_package_path_dir: "symbol_package_path i v = Inr p \<Longrightarrow>
    \<exists>dir. version_dir i v = Inr dir \<and> length p = 3"
  by (auto simp: symbol_package_path_def version_dir_def result_ok)

lemma symbol_package_path_refused: "symbol_package_path i v = Inl e \<longleftrightarrow> version_dir i v = Inl e"
  by (cases "version_dir i v") (auto simp: symbol_package_path_def)

interpretation symbol_payload: placed_file "\<lambda>(i, v). symbol_package_path i v" "(=)"
    "\<lambda>temp w. file_at_path w temp" "\<lambda>(i, v). store_symbol_package i v"
proof (unfold_locales, goal_cases)
  case (1 w s bytes k p r w')
  obtain i v where k: "k = (i, v)" by (cases k)
  from 1(3) obtain dir where dir: "version_dir i v = Inr dir" "length p = 3"
    using symbol_package_path_dir [of i v p] by (auto simp: k)
  then show ?case
    using 1 moved_whole [of w s bytes p dir "fs_metadata_len p" r w'] metadata_result
    by (simp add: k store_symbol_package_def and_then_lift)
next
  case (2 k p s)
  then show ?case
    by (cases k) (auto simp: store_symbol_package_def and_then_lift
        dest!: symbol_package_path_dir intro!: touching)
next
  case (3 k e s w)
  then show ?case
    by (cases k) (simp add: symbol_package_path_refused store_symbol_package_def and_then_lift fail_def)
qed

lemma symbol_path_length: "symbol_path k n = Inr p \<Longrightarrow> length p = 3"
  by (auto simp: symbol_path_def result_ok)

lemma and_then_ok_right: "and_then m ok = m"
  by (simp add: fun_eq_iff io_simps split: prod.splits sum.splits)

interpretation symbol_file: placed_file "\<lambda>(key, n). symbol_path key n" "(=)"
    "\<lambda>temp w. file_at_path w temp" "\<lambda>(key, n). store_symbol_file key n"
proof (unfold_locales, goal_cases)
  case (1 w s bytes k p r w')
  obtain key n where k: "k = (key, n)" by (cases k)
  have len: "length p = 3" using 1(3) symbol_path_length by (simp add: k)
  have run: "and_then (fs_create_dirs (butlast p)) (\<lambda>_. and_then (move_into_place s p) (\<lambda>_. ok ())) w =
      (r, w')"
    using 1(3,5) by (simp add: k store_symbol_file_def and_then_lift and_then_ok_right)
  show ?case
    by (rule moved_whole [OF 1(1,2) _ _ run]) (use 1(4) len in \<open>auto simp: ok_def\<close>)
next
  case (2 k p s)
  then show ?case by (cases k) (auto simp: store_symbol_file_def and_then_lift intro!: touching)
next
  case (3 k e s w)
  then show ?case by (cases k) (simp add: store_symbol_file_def and_then_lift fail_def)
qed

text \<open>Two kinds of file are written from memory.\<close>

lemma written_whole:
  assumes "length dest \<noteq> 2"
    and run: "and_then (fs_create_dirs d) (\<lambda>_. write_atomically dest bytes) w = (r, w')"
  shows "whole_or_old dest bytes r w w'"
proof -
  obtain rd w1 where d: "fs_create_dirs d w = (rd, w1)" by (cases "fs_create_dirs d w")
  have same: "file_at_path w1 p = file_at_path w p" for p
    using create_dirs_result [OF d] by (simp add: file_at_path_def)
  obtain rm w2 where m: "write_atomically dest bytes w1 = (rm, w2)"
    by (cases "write_atomically dest bytes w1")
  note mr = write_atomically_result [OF assms(1) m]
  show ?thesis
    using run mr same by (cases rd; cases rm) (auto simp: and_then_def d m whole_or_old_def)
qed

interpretation symbol_bytes: placed_file "\<lambda>(key, n). symbol_path key n" "\<lambda>_ _. False"
    "\<lambda>bytes _. Some bytes" "\<lambda>(key, n). store_symbol key n"
proof (unfold_locales, goal_cases)
  case (1 w s bytes k p r w')
  then show ?case
    using written_whole [of p "butlast p" bytes w r w'] symbol_path_length
    by (cases k) (auto simp: store_symbol_def and_then_lift)
next
  case (2 k p s)
  then show ?case by (cases k) (auto simp: store_symbol_def and_then_lift intro!: touching)
next
  case (3 k e s w)
  then show ?case by (cases k) (simp add: store_symbol_def and_then_lift fail_def)
qed

lemma aux_path_dir: "aux_path i v kind = Inr p \<Longrightarrow>
    \<exists>dir. version_dir i v = Inr dir \<and> length p = 3 \<and> p = dir @ [aux_file_name kind]"
  by (auto simp: aux_path_def version_dir_def result_ok)

lemma aux_path_refused: "aux_path i v kind = Inl e \<longleftrightarrow> version_dir i v = Inl e"
  by (cases "version_dir i v") (auto simp: aux_path_def)

interpretation sidecar: placed_file "\<lambda>(i, v, kind). aux_path i v kind" "\<lambda>_ _. False"
    "\<lambda>bytes _. Some bytes" "\<lambda>(i, v, kind). store_aux i v kind"
proof (unfold_locales, goal_cases)
  case (1 w s bytes k p r w')
  obtain i v kind where k: "k = (i, v, kind)" by (cases k)
  from 1(3) obtain dir where dir: "version_dir i v = Inr dir" "length p = 3"
    using aux_path_dir [of i v kind p] by (auto simp: k)
  then show ?case
    using 1 written_whole [of p dir bytes w r w'] by (auto simp: k store_aux_def and_then_lift)
next
  case (2 k p s)
  then show ?case
    by (cases k) (auto simp: store_aux_def and_then_lift dest!: aux_path_dir intro!: touching)
next
  case (3 k e s w)
  then show ?case by (cases k) (simp add: aux_path_refused store_aux_def and_then_lift fail_def)
qed

section \<open>Blobs\<close>

lemma blob_path_length: "blob_path sha = Inr p \<Longrightarrow> length p = 4"
  by (auto simp: blob_path_def split: if_splits)

lemma metadata_value:
  "fs_metadata_len p w = (Inr n, w') \<Longrightarrow> \<exists>b. file_at_path w p = Some b \<and> n = length b"
  by (auto simp: fs_steps fs_fault_fields split: prod.splits option.splits)

lemma metadata_frame:
  "fs_metadata_len p w = (r, w') \<Longrightarrow>
   w_files w' = w_files w \<and> w_fresh w' = w_fresh w \<and> w_db w' = w_db w"
  by (auto simp: fs_steps fs_fault_fields split: prod.splits option.splits)

text \<open>
  C13: storing a payload is all or nothing for its readers. Whatever fails and wherever, the
  package's file holds its old content or the complete new content, the new one when the
  store succeeds; the database and every file but that one, the temporary file and the
  staging area are as they were.
\<close>
theorem payload_whole_or_old:
  assumes "fresh_ok w" and "file_at_path w temp = Some bytes" and "package_path i v = Inr p"
    and "temp \<noteq> p" and "store_package i v temp w = (r, w')"
  shows "whole_or_old p bytes r w w' \<and> w_db w' = w_db w \<and>
     (\<forall>q. q \<noteq> p \<and> q \<noteq> temp \<and> \<not> staged q \<longrightarrow> file_at_path w' q = file_at_path w q)"
  using payload.put_contract [of w temp bytes "(i, v)" p r w'] assms by auto

definition empty_world :: world where
  "empty_world =
     \<lparr>w_db = empty_db, w_files = [], w_now = 0, w_fresh = 0, w_db_faults = [], w_fs_faults = [], w_stops = []\<rparr>"

text \<open>The rename crosses devices, the copy stops after two bytes: nothing of it is seen.\<close>

definition broken_copy :: world where
  "broken_copy = empty_world\<lparr>
     w_files := [([''/tmp'', ''a''], ''new bytes''), ([''p'', ''1.0.0'', ''p.1.0.0.nupkg''], ''old'')],
     w_fs_faults := [None, Some (Io_CrossesDevices, 0), None, Some (Io_OtherKind, 2)]\<rparr>"

lemma sample_package_path: "package_path ''P'' ''1.0.0'' = Inr [''p'', ''1.0.0'', ''p.1.0.0.nupkg'']"
  by (simp add: package_path_def version_dir_def versioned_name_def safe_segment_def char_eval
      is_windows_device_name_def ends_with_any_def to_ascii_uppercase_def Let_def starts_with_def
      trim_end_graphic is_graphic_def)

lemma payload_whole_or_old_witness:
  "\<exists>r w'. store_package ''P'' ''1.0.0'' [''/tmp'', ''a''] broken_copy = (r, w') \<and>
     file_at_path w' [''p'', ''1.0.0'', ''p.1.0.0.nupkg''] \<in> {Some ''old'', Some ''new bytes''}"
proof -
  let ?p = "[''p'', ''1.0.0'', ''p.1.0.0.nupkg'']" and ?temp = "[''/tmp'', ''a'']"
  obtain r w' where run: "store_package ''P'' ''1.0.0'' ?temp broken_copy = (r, w')"
    by (cases "store_package ''P'' ''1.0.0'' ?temp broken_copy")
  have "whole_or_old ?p ''new bytes'' r broken_copy w'"
    by (rule payload_whole_or_old [OF _ _ sample_package_path _ run, THEN conjunct1])
      (simp_all add: broken_copy_def fresh_ok_def file_at_path_def staging_dir_def)
  then show ?thesis
    using run by (auto simp: whole_or_old_def broken_copy_def file_at_path_def split: if_splits)
qed

text \<open>
  C30: a blob's bytes are kept once. After a store that succeeds the name holds the complete
  incoming bytes, or the file it already held, of the same length. The answer is the incoming
  length, and a failed store leaves the name as it was.
\<close>
theorem blob_stored_once:
  assumes "fresh_ok w" and "file_at_path w temp = Some bytes" and "blob_path sha = Inr p"
    and "temp \<noteq> p" and "store_blob sha temp w = (r, w')"
  shows "(case r of
            Inr n \<Rightarrow> n = length bytes \<and>
              (if file_at_path w' p = Some bytes then True
               else file_at_path w' p = file_at_path w p \<and>
                    map_option length (file_at_path w p) = Some (length bytes))
          | Inl e \<Rightarrow> file_at_path w' p = file_at_path w p) \<and>
         w_db w' = w_db w"
proof -
  obtain r1 w1 where m1: "fs_metadata_len temp w = (r1, w1)" by (cases "fs_metadata_len temp w")
  obtain r2 w2 where m2: "fs_metadata_len p w1 = (r2, w2)" by (cases "fs_metadata_len p w1")
  note f1 = metadata_frame [OF m1] and f2 = metadata_frame [OF m2]
  have same: "file_at_path w1 q = file_at_path w q" "file_at_path w2 q = file_at_path w q" for q
    using f1 f2 by (simp_all add: file_at_path_def)
  have n1: "n = length bytes" if "r1 = Inr n" for n
    using metadata_value m1 assms(2) that by fastforce
  have n2: "map_option length (file_at_path w p) = Some n" if "r2 = Inr n" for n
    using metadata_value [of p w1 n w2] m2 that same by auto
  have len: "length p = 4" using assms(3) by (rule blob_path_length)
  have fresh2: "fresh_ok w2" using assms(1) f1 f2 fresh_ok_same by metis
  let ?go = "\<lambda>n. and_then (fs_create_dirs (butlast p)) (\<lambda>_. and_then (move_into_place temp p) (\<lambda>_. ok n))"
  have go: "(case r' of Inr m \<Rightarrow> m = n \<and> file_at_path w'' p = Some bytes
             | Inl e \<Rightarrow> file_at_path w'' p = file_at_path w p) \<and> w_db w'' = w_db w"
    if run: "?go n w2 = (r', w'')" for n r' w''
  proof -
    obtain rd w3 where d: "fs_create_dirs (butlast p) w2 = (rd, w3)"
      by (cases "fs_create_dirs (butlast p) w2")
    note f3 = create_dirs_result [OF d]
    obtain rm w4 where m: "move_into_place temp p w3 = (rm, w4)" by (cases "move_into_place temp p w3")
    have "fresh_ok w3" using fresh2 f3 fresh_ok_same by metis
    moreover have s3: "file_at_path w3 q = file_at_path w q" for q
      using f3 same by (simp add: file_at_path_def)
    ultimately have mr: "case rm of Inr _ \<Rightarrow> file_at_path w4 p = Some bytes
        | Inl e \<Rightarrow> file_at_path w4 p = file_at_path w p \<and> file_at_path w4 temp = Some bytes"
      using move_into_place_result [OF _ _ _ _ m, of bytes] assms(2,4) len
      by (simp split: sum.splits)
    have "only_touches (\<lambda>_. True) (?go n)" by (intro touching) simp_all
    from only_touchesD [OF this run] have "w_db w'' = w_db w" using f1 f2 by simp
    then show ?thesis
      using run mr s3 by (cases rd; cases rm) (auto simp: and_then_def d m ok_def)
  qed
  show ?thesis
  proof (cases r1)
    case (Inl e)
    then show ?thesis
      using assms(5) f1 same by (auto simp: store_blob_def assms(3) and_then_lift and_then_def m1)
  next
    case (Inr n)
    note nb = n1 [OF Inr]
    show ?thesis
    proof (cases r2)
      case (Inl e)
      show ?thesis
      proof (cases "e = Io Io_NotFound")
        case True
        then have "?go n w2 = (r, w')"
          using assms(5) Inr Inl
          by (simp add: store_blob_def assms(3) and_then_lift and_then_def [of "fs_metadata_len temp"]
              and_then_def [of "attempt _"] attempt_def m1 m2 Let_def)
        from go [OF this] show ?thesis
          using nb Inl True by (auto split: sum.splits)
      next
        case False
        then show ?thesis
          using assms(5) Inr Inl f1 f2 same
          by (auto simp: store_blob_def assms(3) and_then_lift and_then_def attempt_def m1 m2 fail_def)
      qed
    next
      case (Inr m)
      show ?thesis
      proof (cases "m = n")
        case True
        obtain rg w3 where g: "ignoring (fs_remove_file temp) w2 = (rg, w3)"
          by (cases "ignoring (fs_remove_file temp) w2")
        have "only_touches (\<lambda>_. True) (ignoring (fs_remove_file temp))" by (intro touching) simp
        from only_touchesD [OF this g] have "w_db w3 = w_db w" using f1 f2 by simp
        then show ?thesis
          using assms(4,5) \<open>r1 = Inr n\<close> Inr True remove_result [OF g] same nb n2 [OF Inr]
          by (auto simp: store_blob_def assms(3) and_then_lift and_then_def attempt_def m1 m2 g ok_def)
      next
        case False
        then have "?go n w2 = (r, w')"
          using assms(5) \<open>r1 = Inr n\<close> Inr
          by (simp add: store_blob_def assms(3) and_then_lift and_then_def [of "fs_metadata_len temp"]
              and_then_def [of "attempt _"] attempt_def m1 m2 Let_def)
        from go [OF this] show ?thesis
          using nb False n2 [OF Inr] by (auto split: sum.splits)
      qed
    qed
  qed
qed

lemma sample_blob_path:
  "blob_path (replicate 64 CHR ''a'') =
     Inr [''.blobs'', ''sha256'', ''aa'', replicate 64 CHR ''a'']"
proof -
  have "take 2 (replicate 64 CHR ''a'') = ''aa''" by (simp add: numeral_2_eq_2)
  then show ?thesis by (simp add: blob_path_def is_blob_name_def list_all_iff is_hex_lower_def)
qed

definition one_blob :: world where
  "one_blob = empty_world\<lparr>w_files := [([''/tmp'', ''a''], ''image'')]\<rparr>"

lemma blob_stored_once_witness:
  "\<exists>r w'. store_blob (replicate 64 CHR ''a'') [''/tmp'', ''a''] one_blob = (r, w') \<and>
     (is_ok r \<longrightarrow>
       file_at_path w' [''.blobs'', ''sha256'', ''aa'', replicate 64 CHR ''a''] = Some ''image'')"
proof -
  obtain r w' where run: "store_blob (replicate 64 CHR ''a'') [''/tmp'', ''a''] one_blob = (r, w')"
    by (cases "store_blob (replicate 64 CHR ''a'') [''/tmp'', ''a''] one_blob")
  show ?thesis
    using blob_stored_once [OF _ _ sample_blob_path _ run, of "''image''"] run
    by (auto simp: one_blob_def empty_world_def fresh_ok_def file_at_path_def staging_dir_def
        split: sum.splits if_splits)
qed

end
