(* ===== verification/Purge.thy ===== *)
theory Purge
  imports Retention Store
begin

text \<open>
  Acting on the retention plan and deleting versions (\<open>src/src/retention.rs\<close>): purging a
  version from a feed, the sweeps over orphans and unreferenced blobs, a cleanup of a feed,
  its preview, and the cleanup an admin confirms by fingerprint. An operation that only
  counts and logs its failures never answers an error. The locks are not modelled: each
  operation runs alone on its version, which is what they are for.
\<close>

section \<open>Purging one version\<close>

definition purge_symbols :: "string \<Rightarrow> nuget_version \<Rightarrow> unit io" where
  "purge_symbols i v =
     and_then (query (find_symbols i v)) (\<lambda>syms.
     and_then (for_each (\<lambda>s. storage_delete_symbol (sk_key s) (sk_filename s)) syms) (\<lambda>_.
     and_then (run_db (delete_symbols i v)) (\<lambda>_. ok ())))"

definition sorted_blobs :: "package_file list \<Rightarrow> string list" where
  "sorted_blobs files = remdups_adj (sort_names (map f_sha256 files))"

definition purge_file_blobs :: "string \<Rightarrow> nuget_version \<Rightarrow> unit io" where
  "purge_file_blobs i v =
     and_then (query (files_for i v)) (\<lambda>files.
     for_each (\<lambda>sha.
         let here = count_rows (\<lambda>f. f_sha256 f = sha) files
         in and_then (query (blob_references sha)) (\<lambda>refs.
            io_when (refs \<le> here) (delete_blob sha)))
       (sorted_blobs files))"

text \<open>Files first and rows last.\<close>

definition purge_global_data :: "string \<Rightarrow> nuget_version \<Rightarrow> unit io" where
  "purge_global_data i v =
     and_then (purge_symbols i v) (\<lambda>_.
     and_then (purge_file_blobs i v) (\<lambda>_.
     and_then (storage_delete i (normalized v)) (\<lambda>_.
     and_then (run_db (delete_package_data i v)) (\<lambda>_. ok ()))))"

definition purge_locked :: "string \<Rightarrow> string \<Rightarrow> nuget_version \<Rightarrow> bool io" where
  "purge_locked feed i v =
     and_then (run_db (remove_membership_for_good feed i v)) (\<lambda>removed.
     and_then (query (feed_count i v)) (\<lambda>n.
     and_then (io_when (n = 0) (purge_global_data i v)) (\<lambda>_. ok removed)))"

definition purge_version :: "string \<Rightarrow> string \<Rightarrow> nuget_version \<Rightarrow> bool io" where
  "purge_version feed i v = purge_locked feed i v"

definition purge_planned :: "string \<Rightarrow> string \<Rightarrow> nuget_version \<Rightarrow> bool io" where
  "purge_planned feed i v =
     and_then (query (get_membership feed i v)) (\<lambda>m. case m of
         None \<Rightarrow> ok False
       | Some m \<Rightarrow> if m_pinned m \<or> m_pending m \<or> \<not> m_enabled m then ok False
                   else purge_locked feed i v)"

section \<open>Sweeps\<close>

definition unwrap_or :: "'a \<Rightarrow> 'a io \<Rightarrow> 'a io" where
  "unwrap_or a m = and_then (attempt m) (\<lambda>r. ok (case r of Inr x \<Rightarrow> x | Inl _ \<Rightarrow> a))"

fun count_each :: "('a \<Rightarrow> bool io) \<Rightarrow> 'a list \<Rightarrow> nat \<Rightarrow> nat io" where
  "count_each f [] n = ok n"
| "count_each f (x # xs) n = and_then (f x) (\<lambda>b. count_each f xs (if b then n + 1 else n))"

definition succeeded :: "'a io \<Rightarrow> bool io" where
  "succeeded m = and_then (attempt m) (\<lambda>r. ok (is_ok r))"

definition sweep_orphans :: "nat io" where
  "sweep_orphans =
     and_then (attempt (query_result (orphaned_versions 500))) (\<lambda>r. case r of
         Inl _ \<Rightarrow> ok 0
       | Inr orphans \<Rightarrow>
           count_each (\<lambda>p.
             let i = p_id p; v = p_version p
             in and_then (attempt (query (feed_count i v))) (\<lambda>c.
                and_then (case c of
                            Inr n \<Rightarrow> if n = 0 then unwrap_or False (query (package_data_exists i v))
                                     else ok False
                          | Inl _ \<Rightarrow> ok False) (\<lambda>still.
                if \<not> still then ok False else succeeded (purge_global_data i v)))) orphans 0)"

definition sweep_unreferenced_blobs :: "nat io" where
  "sweep_unreferenced_blobs =
     and_then (attempt list_blobs) (\<lambda>r. case r of
         Inl _ \<Rightarrow> ok 0
       | Inr blobs \<Rightarrow>
           count_each (\<lambda>sha.
             and_then (attempt (query (blob_references sha))) (\<lambda>refs.
             if refs = Inr 0 then succeeded (delete_blob sha) else ok False)) blobs 0)"

section \<open>A cleanup\<close>

record outcome =
  oc_deleted :: nat
  oc_freed :: nat
  oc_errors :: nat

definition no_outcome :: outcome where
  "no_outcome = \<lparr>oc_deleted = 0, oc_freed = 0, oc_errors = 0\<rparr>"

definition attached_bytes :: "string \<Rightarrow> nuget_version \<Rightarrow> nat io" where
  "attached_bytes i v =
     unwrap_or 0 (and_then (query (files_for i v)) (\<lambda>files. ok (sum_list (map f_size files))))"

definition delete_planned ::
    "string \<Rightarrow> string \<Rightarrow> nuget_version \<Rightarrow> outcome \<Rightarrow> outcome io" where
  "delete_planned feed i v oc =
     and_then (attempt (query_result (get_package_data i v))) (\<lambda>data.
     and_then (attached_bytes i v) (\<lambda>attached.
     let size = (case data of Inr (Some p) \<Rightarrow> p_package_size p | _ \<Rightarrow> 0) + attached
     in and_then (attempt (purge_planned feed i v)) (\<lambda>r. case r of
            Inr True \<Rightarrow>
              and_then (unwrap_or True (query (package_data_exists i v))) (\<lambda>left.
              ok (oc\<lparr>oc_deleted := oc_deleted oc + 1,
                     oc_freed := (if left then oc_freed oc else oc_freed oc + size)\<rparr>))
          | Inr False \<Rightarrow> ok oc
          | Inl _ \<Rightarrow> ok (oc\<lparr>oc_errors := oc_errors oc + 1\<rparr>))))"

fun delete_each ::
    "bool io \<Rightarrow> string \<Rightarrow> string \<Rightarrow> pruned list \<Rightarrow> outcome \<Rightarrow> outcome io" where
  "delete_each stop feed i [] oc = ok oc"
| "delete_each stop feed i (pd # pds) oc =
     and_then stop (\<lambda>b. if b then ok oc
       else and_then (delete_planned feed i (pd_version pd) oc) (delete_each stop feed i pds))"

definition never :: "bool io" where
  "never = ok False"

definition prune_package_outcome ::
    "(nat \<Rightarrow> time \<Rightarrow> time option) \<Rightarrow> string \<Rightarrow> string \<Rightarrow> retention_policy \<Rightarrow> bool io \<Rightarrow> outcome io" where
  "prune_package_outcome days_before feed i p stop =
     (if \<not> has_limits p then ok no_outcome
      else and_then (query_result (find_all_versions feed i)) (\<lambda>versions.
           and_then (look w_now) (\<lambda>now.
           delete_each stop feed i (plan_for days_before versions p now) no_outcome)))"

definition prune_package ::
    "(nat \<Rightarrow> time \<Rightarrow> time option) \<Rightarrow> string \<Rightarrow> string \<Rightarrow> retention_policy \<Rightarrow> nat io" where
  "prune_package days_before feed i p =
     and_then (prune_package_outcome days_before feed i p never) (\<lambda>oc. ok (oc_deleted oc))"

fun prune_each ::
    "(nat \<Rightarrow> time \<Rightarrow> time option) \<Rightarrow> string \<Rightarrow> retention_policy \<Rightarrow> bool io \<Rightarrow> string list \<Rightarrow> outcome \<Rightarrow>
     outcome io" where
  "prune_each days_before feed p stop [] sofar = ok sofar"
| "prune_each days_before feed p stop (i # ids) sofar =
     and_then stop (\<lambda>b. if b then ok sofar
       else and_then (attempt (prune_package_outcome days_before feed i p stop)) (\<lambda>r.
         prune_each days_before feed p stop ids
           (case r of
              Inr o' \<Rightarrow> \<lparr>oc_deleted = oc_deleted sofar + oc_deleted o',
                        oc_freed = oc_freed sofar + oc_freed o',
                        oc_errors = oc_errors sofar + oc_errors o'\<rparr>
            | Inl _ \<Rightarrow> sofar\<lparr>oc_errors := oc_errors sofar + 1\<rparr>)))"

definition prune_all_outcome ::
    "(nat \<Rightarrow> time \<Rightarrow> time option) \<Rightarrow> string \<Rightarrow> retention_policy \<Rightarrow> bool io \<Rightarrow> outcome io" where
  "prune_all_outcome days_before feed p stop =
     (if \<not> has_limits p then ok no_outcome
      else and_then (query (all_package_ids feed)) (\<lambda>ids.
           prune_each days_before feed p stop ids no_outcome))"

definition prune_all ::
    "(nat \<Rightarrow> time \<Rightarrow> time option) \<Rightarrow> string \<Rightarrow> retention_policy \<Rightarrow> nat io" where
  "prune_all days_before feed p =
     and_then (prune_all_outcome days_before feed p never) (\<lambda>oc. ok (oc_deleted oc))"

section \<open>The preview and its confirmation\<close>

record planned =
  pl_id :: string
  pl_version :: nuget_version
  pl_added :: time
  pl_reason :: prune_reason
  pl_frees :: nat

record preview =
  pv_planned :: "planned list"
  pv_pinned :: "(string \<times> nuget_version) list"

definition planned_key :: "planned \<Rightarrow> string" where
  "planned_key p = canonical_id (pl_id p) @ [CHR 0x00] @ normalized (pl_version p)"

definition plan_text :: "preview \<Rightarrow> string" where
  "plan_text pv = concat (map (\<lambda>k. k @ [CHR 0x0A]) (sort_names (map planned_key (pv_planned pv))))"

text \<open>The first sixteen bytes of the text's SHA-256, in hexadecimal: the digest is a parameter.\<close>

definition plan_fingerprint :: "(string \<Rightarrow> string) \<Rightarrow> preview \<Rightarrow> string" where
  "plan_fingerprint digest pv = digest (plan_text pv)"

definition preview_frees :: "preview \<Rightarrow> nat" where
  "preview_frees pv = sum_list (map pl_frees (pv_planned pv))"

definition versions_of :: "string \<Rightarrow> feed_version list \<Rightarrow> feed_version list" where
  "versions_of i vs = filter (\<lambda>v. lower_id (fv_package v) = i) vs"

definition planned_of ::
    "(nat \<Rightarrow> time \<Rightarrow> time option) \<Rightarrow> retention_policy \<Rightarrow> time \<Rightarrow> feed_version list \<Rightarrow>
     (feed_version \<times> pruned) list" where
  "planned_of days_before p now vs =
     List.map_filter (\<lambda>pd. map_option (\<lambda>fv. (fv, pd))
         (find (\<lambda>fv. eq_version (p_version (fv_package fv)) (pd_version pd)) vs))
       (plan_for days_before vs p now)"

definition frees_of :: "version_footprint list \<Rightarrow> feed_version \<Rightarrow> nat" where
  "frees_of fps fv =
     (case map_of (rev (map (\<lambda>f. ((vf_lower_id f, vf_normalized_version f),
                                  (vf_feeds f, vf_file_bytes f))) fps))
             (package_key (fv_package fv)) of
        Some (feeds, files) \<Rightarrow> if feeds \<le> 1 then p_package_size (fv_package fv) + files else 0
      | None \<Rightarrow> p_package_size (fv_package fv))"

definition show_planned :: "version_footprint list \<Rightarrow> feed_version \<times> pruned \<Rightarrow> planned" where
  "show_planned fps fp =
     (let (fv, pd) = fp
      in \<lparr>pl_id = p_id (fv_package fv), pl_version = pd_version pd, pl_added = fv_added fv,
          pl_reason = pd_reason pd, pl_frees = frees_of fps fv\<rparr>)"

definition preview_chunk ::
    "(nat \<Rightarrow> time \<Rightarrow> time option) \<Rightarrow> string \<Rightarrow> retention_policy \<Rightarrow> time \<Rightarrow> string list \<Rightarrow> preview \<Rightarrow>
     preview io" where
  "preview_chunk days_before feed p now chunk out =
     (let lower = map canonical_id chunk
      in and_then (query_result (find_all_versions_of feed lower)) (\<lambda>vs.
         let groups = filter (\<lambda>g. g \<noteq> []) (map (\<lambda>i. versions_of i vs) lower);
             pinned = concat (map (\<lambda>g. map (\<lambda>v. (p_id (fv_package v), p_version (fv_package v)))
                                         (filter fv_pinned g)) groups);
             planned = concat (map (planned_of days_before p now) groups);
             out = out\<lparr>pv_pinned := pv_pinned out @ pinned\<rparr>
         in if planned = [] then ok out
            else and_then (query (version_footprints lower)) (\<lambda>fps.
                 ok (out\<lparr>pv_planned := pv_planned out @ map (show_planned fps) planned\<rparr>))))"

fun preview_chunks ::
    "(nat \<Rightarrow> time \<Rightarrow> time option) \<Rightarrow> string \<Rightarrow> retention_policy \<Rightarrow> time \<Rightarrow> string list list \<Rightarrow>
     preview \<Rightarrow> preview io" where
  "preview_chunks days_before feed p now [] out = ok out"
| "preview_chunks days_before feed p now (c # cs) out =
     and_then (preview_chunk days_before feed p now c out) (preview_chunks days_before feed p now cs)"

definition preview_of ::
    "(nat \<Rightarrow> time \<Rightarrow> time option) \<Rightarrow> string \<Rightarrow> retention_policy \<Rightarrow> time \<Rightarrow> preview io" where
  "preview_of days_before feed p now =
     and_then (query (all_package_ids feed)) (\<lambda>ids.
     preview_chunks days_before feed p now (chunks 200 ids) \<lparr>pv_planned = [], pv_pinned = []\<rparr>)"

fun apply_planned :: "string \<Rightarrow> planned list \<Rightarrow> outcome \<Rightarrow> outcome io" where
  "apply_planned feed [] oc = ok oc"
| "apply_planned feed (p # ps) oc =
     and_then (delete_planned feed (pl_id p) (pl_version p) oc) (apply_planned feed ps)"

definition apply_preview :: "string \<Rightarrow> preview \<Rightarrow> outcome io" where
  "apply_preview feed pv = apply_planned feed (pv_planned pv) no_outcome"

datatype trigger = Schedule | Manual

record report =
  rt_finished :: time
  rt_trigger :: trigger
  rt_outcome :: outcome

record retention_state =
  rs_running :: bool
  rs_last :: "report option"

definition record_run :: "trigger \<Rightarrow> outcome \<Rightarrow> retention_state \<Rightarrow> retention_state io" where
  "record_run tr oc st =
     and_then (look w_now) (\<lambda>now.
     ok (st\<lparr>rs_last := Some \<lparr>rt_finished = now, rt_trigger = tr, rt_outcome = oc\<rparr>\<rparr>))"

definition sweep ::
    "(nat \<Rightarrow> time \<Rightarrow> time option) \<Rightarrow> string \<Rightarrow> retention_policy \<Rightarrow> bool io \<Rightarrow> retention_state \<Rightarrow>
     (outcome \<times> retention_state) io" where
  "sweep days_before feed p stop st =
     and_then (prune_all_outcome days_before feed p stop) (\<lambda>oc.
     and_then (record_run Schedule oc st) (\<lambda>st. ok (oc, st)))"

text \<open>Nothing while a cleanup runs; the new plan when it is not the one that was shown.\<close>

definition run_shown ::
    "(nat \<Rightarrow> time \<Rightarrow> time option) \<Rightarrow> (string \<Rightarrow> string) \<Rightarrow> string \<Rightarrow> retention_policy \<Rightarrow> string \<Rightarrow>
     retention_state \<Rightarrow> ((preview + outcome) option \<times> retention_state) io" where
  "run_shown days_before digest feed p shown st =
     (if rs_running st then ok (None, st)
      else and_then (look w_now) (\<lambda>now.
           and_then (preview_of days_before feed p now) (\<lambda>plan.
           if plan_fingerprint digest plan \<noteq> shown then ok (Some (Inl plan), st)
           else and_then (apply_preview feed plan) (\<lambda>oc.
                and_then (record_run Manual oc st) (\<lambda>st. ok (Some (Inr oc), st))))))"

end
