(* ===== verification/Purge_Safety.thy ===== *)
theory Purge_Safety
  imports Purge
begin

text \<open>
  What deleting leaves alone. A world serves its feeds when the payload of every member
  is on disk, and so is every file attached to a version some feed holds. Purges, sweeps and
  cleanups keep that whatever fails in the middle of them, and a purge that fails keeps the
  rows a retry needs.
\<close>

section \<open>Predicates on the database and the files\<close>

type_synonym files_view = "path \<Rightarrow> string option"

definition on_state :: "(db \<Rightarrow> files_view \<Rightarrow> bool) \<Rightarrow> world \<Rightarrow> bool" where
  "on_state Q w \<longleftrightarrow> Q (w_db w) (file_at_path w)"

lemma db_fault_state:
  "db_fault w = (b, w') \<Longrightarrow> w_db w' = w_db w \<and> file_at_path w' = file_at_path w"
  by (auto simp: db_fault_def file_at_path_def fun_eq_iff split: list.splits)

lemma run_db_cases:
  assumes "run_db oper w = (r, w')"
  obtains (failed) "r = Inl (Database Sqlx_Failed)" "w_db w' = w_db w" "file_at_path w' = file_at_path w"
  | (refused) e where "r = Inl e" "oper (w_db w) = Inl e" "w_db w' = w_db w" "file_at_path w' = file_at_path w"
  | (finished) a where "r = Inr a" "oper (w_db w) = Inr (a, w_db w')" "file_at_path w' = file_at_path w"
proof -
  obtain b w1 where f: "db_fault w = (b, w1)" by (cases "db_fault w")
  note s = db_fault_state [OF f]
  show ?thesis
  proof (cases b)
    case True
    then show ?thesis using assms s failed by (simp add: run_db_def f)
  next
    case False
    show ?thesis
    proof (cases "oper (w_db w1)")
      case (Inl e)
      then show ?thesis using assms s False refused [of e] by (auto simp: run_db_def f)
    next
      case (Inr ad)
      obtain a d where ad: "ad = (a, d)" by (cases ad)
      have "file_at_path (w1\<lparr>w_db := d\<rparr>) = file_at_path w1" by (simp add: file_at_path_def fun_eq_iff)
      then show ?thesis using assms s False Inr ad finished [of a] by (auto simp: run_db_def f)
    qed
  qed
qed

lemma keeps_run_db:
  assumes "\<And>d fs a d'. Q d fs \<Longrightarrow> oper d = Inr (a, d') \<Longrightarrow> Q d' fs"
  shows "keeps (on_state Q) (run_db oper)"
  unfolding keeps_def
proof (intro allI impI)
  fix w assume "on_state Q w"
  moreover obtain r w' where r: "run_db oper w = (r, w')" by (cases "run_db oper w")
  ultimately show "on_state Q (snd (run_db oper w))"
    using assms by (cases rule: run_db_cases [OF r]) (auto simp: on_state_def r)
qed

lemma keeps_query [keeping]: "keeps (on_state Q) (query q)"
  unfolding query_def query_result_def by (rule keeps_run_db) simp

lemma keeps_query_result [keeping]: "keeps (on_state Q) (query_result q)"
  unfolding query_result_def by (rule keeps_run_db) (auto simp: result_ok)

lemma keeps_touching:
  assumes "only_touches T m"
    and "\<And>d fs fs'. Q d fs \<Longrightarrow> (\<forall>p. \<not> T p \<longrightarrow> fs' p = fs p) \<Longrightarrow> Q d fs'"
  shows "keeps (on_state Q) m"
  unfolding keeps_def
proof (intro allI impI)
  fix w assume "on_state Q w"
  moreover obtain r w' where r: "m w = (r, w')" by (cases "m w")
  ultimately show "on_state Q (snd (m w))"
    using assms(2) [of "w_db w" "file_at_path w" "file_at_path w'"] only_touchesD [OF assms(1) r]
    by (simp add: on_state_def r)
qed

lemma keeps_stopping [keeping]: "keeps (on_state Q) stopping"
  by (auto simp: keeps_def stopping_def on_state_def file_at_path_def [abs_def] split: list.splits)

text \<open>What a query answered holds for what follows it.\<close>

lemma keeps_query_then:
  assumes "\<And>a. keeps (on_state (\<lambda>d fs. Q d fs \<and> q d = a)) (f a)"
  shows "keeps (on_state Q) (and_then (query q) f)"
  unfolding keeps_def
proof (intro allI impI)
  fix w assume Q: "on_state Q w"
  obtain r w' where r: "query q w = (r, w')" by (cases "query q w")
  show "on_state Q (snd (and_then (query q) f w))"
    using r [unfolded query_def query_result_def]
  proof (cases rule: run_db_cases)
    case (finished a)
    then have "on_state (\<lambda>d fs. Q d fs \<and> q d = a) w'" using Q by (auto simp: on_state_def)
    then have "on_state (\<lambda>d fs. Q d fs \<and> q d = a) (snd (f a w'))"
      using assms [of a] by (simp add: keeps_def)
    then show ?thesis using finished by (simp add: and_then_def r on_state_def)
  qed (use Q in \<open>simp_all add: and_then_def r on_state_def\<close>)
qed

text \<open>The same when what follows may change what was asked.\<close>

definition leads :: "(world \<Rightarrow> bool) \<Rightarrow> 'a io \<Rightarrow> (world \<Rightarrow> bool) \<Rightarrow> bool" where
  "leads P m R \<longleftrightarrow> (\<forall>w. P w \<longrightarrow> R (snd (m w)))"

lemma keeps_leads: "keeps P m = leads P m P"
  by (simp add: keeps_def leads_def)

lemma leads_weaken: "leads P m R \<Longrightarrow> (\<And>w. P' w \<Longrightarrow> P w) \<Longrightarrow> (\<And>w. R w \<Longrightarrow> R' w) \<Longrightarrow> leads P' m R'"
  by (simp add: leads_def)

lemma leads_query_then:
  assumes "\<And>a. leads (on_state (\<lambda>d fs. Q d fs \<and> q d = a)) (f a) (on_state R)"
    and "\<And>d fs. Q d fs \<Longrightarrow> R d fs"
  shows "leads (on_state Q) (and_then (query q) f) (on_state R)"
  unfolding leads_def
proof (intro allI impI)
  fix w assume Q: "on_state Q w"
  obtain r w' where r: "query q w = (r, w')" by (cases "query q w")
  show "on_state R (snd (and_then (query q) f w))"
    using r [unfolded query_def query_result_def]
  proof (cases rule: run_db_cases)
    case (finished a)
    then have "on_state (\<lambda>d fs. Q d fs \<and> q d = a) w'" using Q by (auto simp: on_state_def)
    then have "on_state R (snd (f a w'))" using assms(1) [of a] by (simp add: leads_def)
    then show ?thesis using finished by (simp add: and_then_def r)
  qed (use Q assms(2) in \<open>simp_all add: and_then_def r on_state_def\<close>)
qed

section \<open>Worlds that serve their feeds\<close>

definition held :: "db \<Rightarrow> key \<Rightarrow> bool" where
  "held d k \<longleftrightarrow> has_row member_version k (db_members d)"

definition on_disk :: "files_view \<Rightarrow> path result \<Rightarrow> bool" where
  "on_disk fs r = (case r of Inr p \<Rightarrow> fs p \<noteq> None | Inl _ \<Rightarrow> True)"

definition member_ok :: "member_row \<Rightarrow> bool" where
  "member_ok m \<longleftrightarrow> to_ascii_lowercase (m_lower_id m) = m_lower_id m \<and>
     to_ascii_lowercase (m_normalized_version m) = m_normalized_version m \<and>
     hd (m_lower_id m) \<noteq> CHR ''.''"

definition serves :: "db \<Rightarrow> files_view \<Rightarrow> bool" where
  "serves d fs \<longleftrightarrow>
     (\<forall>m \<in> set (db_members d). member_ok m \<and>
        on_disk fs (package_path (m_lower_id m) (m_normalized_version m))) \<and>
     (\<forall>f \<in> set (db_files d). held d (file_version f) \<longrightarrow> on_disk fs (blob_path (f_sha256 f)))"

definition serves_without :: "key \<Rightarrow> db \<Rightarrow> files_view \<Rightarrow> bool" where
  "serves_without k d fs \<longleftrightarrow> serves d fs \<and> \<not> held d k"

lemma held_iff: "held d k \<longleftrightarrow> (\<exists>m \<in> set (db_members d). member_version m = k)"
  by (auto simp: held_def has_row_iff)

lemma feed_count_held: "feed_count i v d = 0 \<longleftrightarrow> \<not> held d (version_key i v)"
  by (auto simp: feed_count_def count_rows_0 held_iff)

lemma serves_fewer:
  assumes "serves d fs" "set (db_members d') \<subseteq> set (db_members d)" "set (db_files d') \<subseteq> set (db_files d)"
  shows "serves d' fs"
proof -
  have "held d' k \<Longrightarrow> held d k" for k using assms(2) by (auto simp: held_iff)
  then show ?thesis using assms unfolding serves_def by blast
qed

lemma serves_files:
  assumes "serves d fs" "\<forall>p. \<not> T p \<longrightarrow> fs' p = fs p"
    and "\<And>m p. m \<in> set (db_members d) \<Longrightarrow> member_ok m \<Longrightarrow>
           package_path (m_lower_id m) (m_normalized_version m) = Inr p \<Longrightarrow> \<not> T p"
    and "\<And>f p. f \<in> set (db_files d) \<Longrightarrow> held d (file_version f) \<Longrightarrow> blob_path (f_sha256 f) = Inr p \<Longrightarrow> \<not> T p"
  shows "serves d fs'"
  unfolding serves_def
proof (intro conjI ballI impI)
  fix m assume m: "m \<in> set (db_members d)"
  then show ok: "member_ok m" using assms(1) by (simp add: serves_def)
  show "on_disk fs' (package_path (m_lower_id m) (m_normalized_version m))"
    using assms(1,2) assms(3) [OF m ok] m by (auto simp: serves_def on_disk_def split: sum.splits)
next
  fix f assume f: "f \<in> set (db_files d)" "held d (file_version f)"
  then show "on_disk fs' (blob_path (f_sha256 f))"
    using assms(1,2) assms(4) [OF f] by (auto simp: serves_def on_disk_def split: sum.splits)
qed

text \<open>Where the store keeps what.\<close>

lemma blob_path_eq: "blob_path s = Inr p \<Longrightarrow> p = [''.blobs'', ''sha256'', take 2 s, s]"
  by (auto simp: blob_path_def split: if_splits)

lemma symbol_path_hd: "symbol_path k n = Inr p \<Longrightarrow> hd p = ''.symbols''"
  by (auto simp: symbol_path_def result_ok)

lemma package_path_eq:
  "package_path i v = Inr p \<Longrightarrow>
     \<exists>name. p = [to_ascii_lowercase i, to_ascii_lowercase v, name] \<and> i \<noteq> []"
  by (auto simp: package_path_def result_ok confined_def dest!: version_dir_Inr)

lemma normalized_digit: "\<exists>c t. normalized v = c # t \<and> is_ascii_digit c"
proof -
  obtain c t where "show_nat (v_major v) = c # t" by (metis show_nat_not_Nil neq_Nil_conv)
  moreover from this have "is_ascii_digit c" using set_show_nat [of c "v_major v"] by simp
  ultimately show ?thesis by (simp add: normalized_def core_string_def)
qed

lemma member_not_dotted:
  assumes "member_ok m" "package_path (m_lower_id m) (m_normalized_version m) = Inr p"
  shows "hd (hd p) \<noteq> CHR ''.''"
  using assms package_path_eq by (fastforce simp: member_ok_def)

section \<open>Deletions that keep it\<close>

lemma touching_lift:
  "(\<And>p. r = Inr p \<Longrightarrow> only_touches T (f p)) \<Longrightarrow> only_touches T (and_then (lift_result r) f)"
  by (cases r) (simp_all add: and_then_lift touching)

lemma touching_delete_symbol: "only_touches (\<lambda>p. hd p = ''.symbols'') (storage_delete_symbol k n)"
  unfolding storage_delete_symbol_def by (rule touching_lift) (auto intro!: touching dest: symbol_path_hd)

lemma keeps_delete_symbol [keeping]: "keeps (on_state serves) (storage_delete_symbol key n)"
proof (rule keeps_touching [OF touching_delete_symbol])
  fix d fs fs' assume s: "serves d fs" "\<forall>p. \<not> hd p = ''.symbols'' \<longrightarrow> fs' p = fs p"
  show "serves d fs'"
  proof (rule serves_files [OF s])
    show "\<not> hd p = ''.symbols''"
      if "member_ok m" "package_path (m_lower_id m) (m_normalized_version m) = Inr p" for m p
      using member_not_dotted [OF that] by auto
    show "\<not> hd p = ''.symbols''" if "blob_path (f_sha256 f) = Inr p" for f p
      using blob_path_eq [OF that] by simp
  qed
qed

lemma keeps_and: "keeps P m \<Longrightarrow> keeps Q m \<Longrightarrow> keeps (\<lambda>w. P w \<and> Q w) m"
  by (simp add: keeps_def)

lemma on_state_and: "on_state (\<lambda>d fs. P d fs \<and> Q d fs) = (\<lambda>w. on_state P w \<and> on_state Q w)"
  by (simp add: on_state_def fun_eq_iff)

lemma keeps_db_pred: "only_touches T m \<Longrightarrow> keeps (on_state (\<lambda>d fs. R d)) m"
  by (rule keeps_touching)

lemma keeps_purge_symbols [keeping]:
  "keeps (on_state serves) (purge_symbols i v)" "keeps (on_state (serves_without k)) (purge_symbols i v)"
proof -
  have fewer: "set (db_members d') \<subseteq> set (db_members d) \<and> set (db_files d') \<subseteq> set (db_files d)"
    if "delete_symbols i v d = Inr (a, d')" for d a d'
    using that by (auto simp: delete_symbols_def)
  show serves: "keeps (on_state serves) (purge_symbols i v)"
    unfolding purge_symbols_def
    by (intro keeping keeps_run_db) (use fewer serves_fewer in blast)
  have "keeps (on_state (\<lambda>d fs. \<not> held d k)) (purge_symbols i v)"
    unfolding purge_symbols_def
    by (intro keeping keeps_db_pred [OF touching_delete_symbol] keeps_run_db)
      (auto simp: delete_symbols_def held_def)
  then show "keeps (on_state (serves_without k)) (purge_symbols i v)"
    unfolding serves_without_def on_state_and by (intro keeps_and serves)
qed

lemma keeps_remove_quietly [keeping]: "keeps P m \<Longrightarrow> keeps P (remove_quietly m)"
  unfolding remove_quietly_def by (intro keeping)

lemma touching_remove_quietly [touching]: "only_touches T m \<Longrightarrow> only_touches T (remove_quietly m)"
  unfolding remove_quietly_def by (intro touching)

text \<open>A blob goes only when no file of a held version has it.\<close>

definition blob_free :: "string \<Rightarrow> db \<Rightarrow> bool" where
  "blob_free sha d \<longleftrightarrow> (\<forall>f \<in> set (db_files d). f_sha256 f = sha \<longrightarrow> \<not> held d (file_version f))"

lemma touching_delete_blob: "only_touches (\<lambda>p. blob_path sha = Inr p) (delete_blob sha)"
  unfolding delete_blob_def by (rule touching_lift) (auto intro!: touching)

lemma keeps_delete_blob:
  assumes "\<And>d fs. Q d fs \<Longrightarrow> serves d fs \<and> blob_free sha d"
    and "\<And>d fs fs'. Q d fs \<Longrightarrow> serves d fs' \<Longrightarrow> Q d fs'"
  shows "keeps (on_state Q) (delete_blob sha)"
proof (rule keeps_touching [OF touching_delete_blob])
  fix d fs fs' assume q: "Q d fs" and same: "\<forall>p. \<not> blob_path sha = Inr p \<longrightarrow> fs' p = fs p"
  have "serves d fs'"
  proof (rule serves_files [OF assms(1) [OF q, THEN conjunct1] same])
    fix m p assume "member_ok m" "package_path (m_lower_id m) (m_normalized_version m) = Inr p"
    then have "hd (hd p) \<noteq> CHR ''.''" by (rule member_not_dotted)
    then show "blob_path sha \<noteq> Inr p" by (auto dest!: blob_path_eq)
  next
    fix f p assume f: "f \<in> set (db_files d)" "held d (file_version f)" "blob_path (f_sha256 f) = Inr p"
    then have "f_sha256 f \<noteq> sha" using assms(1) [OF q] by (auto simp: blob_free_def)
    then show "blob_path sha \<noteq> Inr p" using f(3) by (auto dest!: blob_path_eq)
  qed
  then show "Q d fs'" by (rule assms(2) [OF q])
qed

lemma blob_references_free:
  assumes "blob_references sha d \<le> count_rows (\<lambda>f. f_sha256 f = sha) (files_for i v d)"
    and "\<not> held d (version_key i v)"
  shows "blob_free sha d"
proof -
  let ?mine = "\<lambda>f. file_version f = version_key i v"
  have "count_rows (\<lambda>f. f_sha256 f = sha) (files_for i v d) =
      length (filter (\<lambda>f. f_sha256 f = sha) (filter ?mine (db_files d)))"
  proof -
    have "mset (filter (\<lambda>f. f_sha256 f = sha) (files_for i v d)) =
        mset (filter (\<lambda>f. f_sha256 f = sha) (filter ?mine (db_files d)))"
      unfolding mset_filter files_for_def by simp
    then show ?thesis unfolding count_rows_def by (metis size_mset)
  qed
  then have le: "length (filter (\<lambda>f. f_sha256 f = sha) (db_files d)) \<le>
      length (filter ?mine (filter (\<lambda>f. f_sha256 f = sha) (db_files d)))"
    using assms(1) by (simp add: blob_references_def count_rows_def conj_commute)
  have "?mine f" if "f \<in> set (db_files d)" "f_sha256 f = sha" for f
  proof (rule ccontr)
    assume "\<not> ?mine f"
    then have "length (filter ?mine (filter (\<lambda>f. f_sha256 f = sha) (db_files d))) <
        length (filter (\<lambda>f. f_sha256 f = sha) (db_files d))"
      using that by (intro length_filter_less [of f]) auto
    with le show False by simp
  qed
  then show ?thesis using assms(2) by (auto simp: blob_free_def)
qed

lemma keeps_query_when:
  assumes "\<And>a. keeps (on_state (\<lambda>d fs. Q d fs \<and> q d = a)) (f a)"
  shows "keeps (on_state Q) (and_then (query q) f)"
  by (rule keeps_query_then [OF assms])

lemma keeps_purge_file_blobs:
  "keeps (on_state (serves_without (version_key i v))) (purge_file_blobs i v)"
  unfolding purge_file_blobs_def
proof (rule keeps_query_then)
  fix files
  let ?Q = "\<lambda>d fs. serves_without (version_key i v) d fs \<and> files_for i v d = files"
  show "keeps (on_state ?Q) (for_each (\<lambda>sha.
         let here = count_rows (\<lambda>f. f_sha256 f = sha) files
         in and_then (query (blob_references sha)) (\<lambda>refs.
            io_when (refs \<le> here) (delete_blob sha))) (sorted_blobs files))"
    unfolding Let_def
  proof (rule keeps_for_each, rule keeps_query_then)
    fix sha refs
    let ?R = "\<lambda>d fs. ?Q d fs \<and> blob_references sha d = refs"
    show "keeps (on_state ?R)
        (io_when (refs \<le> count_rows (\<lambda>f. f_sha256 f = sha) files) (delete_blob sha))"
    proof (cases "refs \<le> count_rows (\<lambda>f. f_sha256 f = sha) files")
      case True
      have "keeps (on_state ?R) (delete_blob sha)"
      proof (rule keeps_delete_blob)
        fix d fs assume q: "?R d fs"
        then show "serves d fs \<and> blob_free sha d"
          using blob_references_free [of sha d i v] True by (auto simp: serves_without_def)
        show "?R d fs'" if "serves d fs'" for fs' using q that by (simp add: serves_without_def)
      qed
      then show ?thesis using True by (simp add: io_when_def)
    qed (simp add: io_when_def keeps_ok)
  qed
qed

lemma keeps_storage_delete:
  "keeps (on_state (serves_without (version_key i v))) (storage_delete i (normalized v))"
proof -
  let ?T = "under [to_ascii_lowercase i, normalized v]"
  have "only_touches ?T (storage_delete i (normalized v))"
    unfolding storage_delete_def
    by (rule touching_lift) (auto intro!: touching dest!: version_dir_Inr)
  then show ?thesis
  proof (rule keeps_touching)
    fix d fs fs'
    assume s: "serves_without (version_key i v) d fs" "\<forall>p. \<not> ?T p \<longrightarrow> fs' p = fs p"
    have "serves d fs'"
    proof (rule serves_files [OF _ s(2)])
      show "serves d fs" using s by (simp add: serves_without_def)
      fix m p assume m: "m \<in> set (db_members d)" "member_ok m"
        "package_path (m_lower_id m) (m_normalized_version m) = Inr p"
      show "\<not> ?T p"
      proof
        assume "?T p"
        then have "member_version m = version_key i v"
          using m package_path_eq [OF m(3)]
          by (auto simp: under_def member_ok_def member_version_def version_key_def canonical_id_def)
        with s(1) m(1) show False by (auto simp: serves_without_def held_iff)
      qed
    next
      fix f p assume "blob_path (f_sha256 f) = Inr p"
      then have "p = [''.blobs'', ''sha256'', take 2 (f_sha256 f), f_sha256 f]" by (rule blob_path_eq)
      moreover obtain c t where "normalized v = c # t" "is_ascii_digit c" using normalized_digit by blast
      ultimately show "\<not> ?T p" by (auto simp: under_def is_ascii_digit_def)
    qed
    then show "serves_without (version_key i v) d fs'" using s by (simp add: serves_without_def)
  qed
qed

lemma keeps_delete_package_data:
  "keeps (on_state (serves_without k)) (run_db (delete_package_data i v))"
proof (rule keeps_run_db)
  fix d fs a d' assume s: "serves_without k d fs" "delete_package_data i v d = Inr (a, d')"
  then have "set (db_members d') \<subseteq> set (db_members d)" "set (db_files d') \<subseteq> set (db_files d)"
    by (auto simp: delete_package_data_def Let_def split: if_splits)
  with s serves_fewer show "serves_without k d' fs" by (fastforce simp: serves_without_def held_iff)
qed

lemma keeps_purge_global:
  "keeps (on_state (serves_without (version_key i v))) (purge_global_data i v)"
  unfolding purge_global_data_def
  by (intro keeping keeps_purge_file_blobs keeps_storage_delete keeps_delete_package_data)

lemma leads_purge_global:
  "leads (on_state (\<lambda>d fs. serves d fs \<and> feed_count i v d = 0)) (purge_global_data i v) (on_state serves)"
  by (rule leads_weaken [OF keeps_purge_global [unfolded keeps_leads]])
    (auto simp: on_state_def serves_without_def feed_count_held)

lemma keeps_purge_locked [keeping]: "keeps (on_state serves) (purge_locked feed i v)"
  unfolding purge_locked_def
proof (rule keeps_and_then)
  show "keeps (on_state serves) (run_db (remove_membership_for_good feed i v))"
  proof (rule keeps_run_db)
    fix d fs a d' assume s: "serves d fs" "remove_membership_for_good feed i v d = Inr (a, d')"
    then have "set (db_members d') \<subseteq> set (db_members d)" "set (db_files d') \<subseteq> set (db_files d)"
      by (auto simp: remove_membership_for_good_def remove_membership_def insert_tombstone_def
          Let_def split: if_splits)
    with s show "serves d' fs" by (blast intro: serves_fewer)
  qed
  fix removed
  show "keeps (on_state serves) (and_then (query (feed_count i v)) (\<lambda>n.
     and_then (io_when (n = 0) (purge_global_data i v)) (\<lambda>_. ok removed)))"
    unfolding keeps_leads
  proof (rule leads_query_then)
    fix n :: nat
    have drop: "leads P (and_then m (\<lambda>_. ok removed)) R" if "leads P m R" for P R and m :: "unit io"
      using that by (fastforce simp: leads_def and_then_def ok_def split: prod.splits sum.splits)
    show "leads (on_state (\<lambda>d fs. serves d fs \<and> feed_count i v d = n))
        (and_then (io_when (n = 0) (purge_global_data i v)) (\<lambda>_. ok removed)) (on_state serves)"
      using leads_purge_global [of i v]
      by (intro drop) (cases "n = 0"; simp add: io_when_def leads_def ok_def on_state_def)
  qed simp
qed

lemma keeps_purge_planned [keeping]: "keeps (on_state serves) (purge_planned feed i v)"
  unfolding purge_planned_def by (intro keeping)

lemma keeps_unwrap_or [keeping]: "keeps P m \<Longrightarrow> keeps P (unwrap_or a m)"
  unfolding unwrap_or_def by (intro keeping)

lemma keeps_succeeded [keeping]: "keeps P m \<Longrightarrow> keeps P (succeeded m)"
  unfolding succeeded_def by (intro keeping)

lemma keeps_count_each [keeping]:
  "(\<And>x. x \<in> set xs \<Longrightarrow> keeps P (f x)) \<Longrightarrow> keeps P (count_each f xs n)"
  by (induction xs arbitrary: n) (auto intro!: keeping)

lemma keeps_attached_bytes [keeping]: "keeps (on_state Q) (attached_bytes i v)"
  unfolding attached_bytes_def by (intro keeping)

lemma keeps_delete_planned [keeping]: "keeps (on_state serves) (delete_planned feed i v oc)"
  unfolding delete_planned_def Let_def by (intro keeping) (auto intro!: keeping split: bool.splits)

lemma keeps_delete_each [keeping]:
  "keeps (on_state serves) stop \<Longrightarrow> keeps (on_state serves) (delete_each stop feed i pds oc)"
  by (induction pds arbitrary: oc) (auto intro!: keeping)

lemma keeps_prune_package [keeping]:
  "keeps (on_state serves) stop \<Longrightarrow>
   keeps (on_state serves) (prune_package_outcome days_before feed i p stop)"
  unfolding prune_package_outcome_def by (intro keeping)

lemma keeps_prune_each [keeping]:
  "keeps (on_state serves) stop \<Longrightarrow>
   keeps (on_state serves) (prune_each days_before feed p stop ids sofar)"
  by (induction ids arbitrary: sofar) (auto intro!: keeping)

lemma keeps_prune_all [keeping]:
  "keeps (on_state serves) stop \<Longrightarrow>
   keeps (on_state serves) (prune_all_outcome days_before feed p stop)"
  unfolding prune_all_outcome_def by (intro keeping)

lemma keeps_record_run [keeping]: "keeps (on_state Q) (record_run tr oc st)"
  unfolding record_run_def by (intro keeping)

lemma keeps_preview_chunks [keeping]:
  "keeps (on_state Q) (preview_chunks days_before feed p now cs out)"
  by (induction cs arbitrary: out) (auto intro!: keeping simp: preview_chunk_def Let_def)

lemma keeps_apply_planned [keeping]: "keeps (on_state serves) (apply_planned feed ps oc)"
  by (induction ps arbitrary: oc) (auto intro!: keeping)

lemma keeps_run_shown [keeping]:
  "keeps (on_state serves) (run_shown days_before digest feed p shown st)"
  unfolding run_shown_def preview_of_def apply_preview_def by (intro keeping)

lemma keeps_list_blobs [keeping]: "keeps (on_state Q) list_blobs"
proof (rule keeps_touching [where T = "\<lambda>_. False"])
  show "only_touches (\<lambda>_. False) list_blobs" unfolding list_blobs_def by (intro touching)
  show "Q d fs'" if "Q d fs" "\<forall>p. \<not> False \<longrightarrow> fs' p = fs p" for d fs fs'
    using that by (metis ext)
qed

lemma leads_attempt_query:
  assumes "\<And>a. leads (on_state (\<lambda>d fs. Q d fs \<and> q d = a)) (f (Inr a)) (on_state R)"
    and "\<And>e. leads (on_state Q) (f (Inl e)) (on_state R)"
  shows "leads (on_state Q) (and_then (attempt (query q)) f) (on_state R)"
  unfolding leads_def
proof (intro allI impI)
  fix w assume Q: "on_state Q w"
  obtain r w' where r: "query q w = (r, w')" by (cases "query q w")
  have Q': "on_state Q w'" using keepsD [OF keeps_query Q r] .
  show "on_state R (snd (and_then (attempt (query q)) f w))"
  proof (cases r)
    case (Inl e)
    then show ?thesis using Q' assms(2) [of e] by (simp add: and_then_def attempt_def r leads_def)
  next
    case (Inr a)
    have "q (w_db w') = a"
      using r [unfolded query_def query_result_def] by (cases rule: run_db_cases) (use Inr in auto)
    then have "on_state (\<lambda>d fs. Q d fs \<and> q d = a) w'" using Q' by (simp add: on_state_def)
    then show ?thesis using Inr assms(1) [of a] by (simp add: and_then_def attempt_def r leads_def)
  qed
qed

lemma leads_ok: "(\<And>d fs. Q d fs \<Longrightarrow> R d fs) \<Longrightarrow> leads (on_state Q) (ok a) (on_state R)"
  by (simp add: leads_def ok_def on_state_def)

lemma leads_succeeded: "leads P m R \<Longrightarrow> leads P (succeeded m) R"
proof -
  have "snd (succeeded m w) = snd (m w)" for w
    by (cases "m w") (simp add: succeeded_def and_then_def attempt_def ok_def)
  then show "leads P m R \<Longrightarrow> leads P (succeeded m) R" by (simp add: leads_def)
qed

lemma keeps_sweep_blobs [keeping]: "keeps (on_state serves) sweep_unreferenced_blobs"
proof -
  have "keeps (on_state serves) (and_then (attempt (query (blob_references sha))) (\<lambda>refs.
      if refs = Inr 0 then succeeded (delete_blob sha) else ok False))" for sha
    unfolding keeps_leads
  proof (rule leads_attempt_query)
    fix n :: nat
    have "keeps (on_state (\<lambda>d fs. serves d fs \<and> blob_references sha d = 0)) (delete_blob sha)"
      by (rule keeps_delete_blob) (auto simp: blob_free_def blob_references_def count_rows_0)
    then have "leads (on_state (\<lambda>d fs. serves d fs \<and> blob_references sha d = 0))
        (delete_blob sha) (on_state serves)"
      unfolding keeps_leads by (rule leads_weaken) (simp_all add: on_state_def)
    then show "leads (on_state (\<lambda>d fs. serves d fs \<and> blob_references sha d = n))
        (if Inr n = Inr 0 then succeeded (delete_blob sha) else ok False) (on_state serves)"
      by (auto intro: leads_succeeded leads_ok)
  qed (simp add: leads_ok)
  note one = this
  show ?thesis
    unfolding sweep_unreferenced_blobs_def
    by (rule keeps_and_then [OF keeps_attempt [OF keeps_list_blobs]], rule keeps_case_sum,
        rule keeps_ok, rule keeps_count_each, rule one)
qed

lemma keeps_sweep_orphans [keeping]: "keeps (on_state serves) sweep_orphans"
proof -
  have "keeps (on_state serves) (and_then (attempt (query (feed_count i v))) (\<lambda>c.
      and_then (case c of
                  Inr n \<Rightarrow> if n = 0 then unwrap_or False (query (package_data_exists i v)) else ok False
                | Inl _ \<Rightarrow> ok False) (\<lambda>still.
      if \<not> still then ok False else succeeded (purge_global_data i v))))" for i v
    unfolding keeps_leads
  proof (rule leads_attempt_query)
    fix n :: nat
    show "leads (on_state (\<lambda>d fs. serves d fs \<and> feed_count i v d = n))
      (and_then (case Inr n of
                  Inr n \<Rightarrow> if n = 0 then unwrap_or False (query (package_data_exists i v)) else ok False
                | Inl _ \<Rightarrow> ok False) (\<lambda>still.
      if \<not> still then ok False else succeeded (purge_global_data i v))) (on_state serves)"
    proof (cases "n = 0")
      case True
      let ?P = "on_state (serves_without (version_key i v))"
      have "keeps ?P (and_then (unwrap_or False (query (package_data_exists i v))) (\<lambda>still.
          if \<not> still then ok False else succeeded (purge_global_data i v)))"
        by (intro keeping keeps_purge_global)
      then show ?thesis
        unfolding keeps_leads using True
        by (simp, elim leads_weaken)
          (auto simp: on_state_def serves_without_def feed_count_held)
    qed (auto intro: leads_ok)
  qed (simp add: leads_ok)
  note one = this
  show ?thesis
    unfolding sweep_orphans_def Let_def
    by (rule keeps_and_then [OF keeps_attempt [OF keeps_query_result]], rule keeps_case_sum,
        rule keeps_ok, rule keeps_count_each, rule one)
qed

section \<open>What deleting promises\<close>

text \<open>
  C3: nothing retention does takes away what a feed serves. Start from a world where the
  payload of every member of every feed is on disk, and every file attached to a version some
  feed holds. After a purge, a planned deletion, a sweep, a cleanup of a feed or a confirmed
  cleanup, each with any faults of the database and the file system along the way, that is
  still so.
\<close>
theorem deleting_keeps_what_is_served:
  assumes "on_state serves w"
  shows "on_state serves (snd (purge_version feed i v w)) \<and>
         on_state serves (snd (delete_planned feed i v oc w)) \<and>
         on_state serves (snd (sweep_orphans w)) \<and>
         on_state serves (snd (sweep_unreferenced_blobs w)) \<and>
         on_state serves (snd (prune_package days_before feed i p w)) \<and>
         on_state serves (snd (sweep days_before feed p stopping st w)) \<and>
         on_state serves (snd (run_shown days_before digest feed p shown st w))"
proof -
  have "keeps (on_state serves) (purge_version feed i v)"
    "keeps (on_state serves) (delete_planned feed i v oc)"
    "keeps (on_state serves) sweep_orphans" "keeps (on_state serves) sweep_unreferenced_blobs"
    "keeps (on_state serves) (prune_package days_before feed i p)"
    "keeps (on_state serves) (sweep days_before feed p stopping st)"
    "keeps (on_state serves) (run_shown days_before digest feed p shown st)"
    unfolding purge_version_def prune_package_def sweep_def never_def by (intro keeping)+
  then show ?thesis using assms by (simp add: keeps_def)
qed

definition served_world :: world where
  "served_world = empty_world\<lparr>w_db := sample_db,
     w_files := [([''pkg'', ''1.2.0-rc.1'', ''pkg.1.2.0-rc.1.nupkg''], ''payload'')],
     w_fs_faults := [Some (Io_OtherKind, 0)], w_db_faults := [False, True]\<rparr>"

lemma sample_row_names: "m_lower_id sample_row = ''pkg''" "m_normalized_version sample_row = ''1.2.0-rc.1''"
proof -
  have "normalized sample_lower = ''1.2.0-rc.1''"
    by (simp add: sample_lower_def version_eval char_eval number_eval)
  then show "m_lower_id sample_row = ''pkg''" "m_normalized_version sample_row = ''1.2.0-rc.1''"
    by (simp_all add: sample_row_def member_row_of_def membership.extend_def active_membership_def
        lower_id_def normalized_version_def sample_package_def canonical_id_def char_eval)
qed

lemma sample_row_path:
  "package_path ''pkg'' ''1.2.0-rc.1'' = Inr [''pkg'', ''1.2.0-rc.1'', ''pkg.1.2.0-rc.1.nupkg'']"
  by (simp add: package_path_def version_dir_def versioned_name_def safe_segment_def char_eval
      is_windows_device_name_def ends_with_any_def to_ascii_uppercase_def Let_def starts_with_def
      trim_end_graphic is_graphic_def ascii_upper_def is_ascii_lowercase_def char_of_eq_iff take_bit_eq_mod)

lemma served_world_serves: "on_state serves served_world"
  by (simp add: on_state_def serves_def served_world_def empty_world_def sample_db_fields member_ok_def
      sample_row_names sample_row_path on_disk_def file_at_path_def char_eval)

lemma deleting_keeps_what_is_served_witness:
  "on_state serves (snd (purge_version ''main'' ''Pkg'' sample_lower served_world))"
  using deleting_keeps_what_is_served [OF served_world_serves] by blast

section \<open>A purge that stops can be finished\<close>

lemma keeps_db_touching: "only_touches T m \<Longrightarrow> keeps (on_state (\<lambda>d fs. d = d0)) m"
  by (rule keeps_touching)

lemmas keeps_db_deletes =
  keeps_db_touching [OF touching_delete_symbol] keeps_db_touching [OF touching_delete_blob]

lemma keeps_db_file_blobs: "keeps (on_state (\<lambda>d fs. d = d0)) (purge_file_blobs i v)"
  unfolding purge_file_blobs_def Let_def
  by (intro keeping keeps_db_deletes)

lemma storage_delete_done:
  assumes "storage_delete i x w = (Inr u, w')" "version_dir i x = Inr dir"
  shows "\<forall>p. under dir p \<longrightarrow> file_at_path w' p = None"
proof -
  obtain r w1 where rm: "fs_remove_dir_all dir w = (r, w1)" by (cases "fs_remove_dir_all dir w")
  have none: "\<not> list_ex (\<lambda>f. under dir (fst f)) xs \<Longrightarrow> under dir p \<Longrightarrow> map_of xs p = None" for xs p
    by (induction xs) auto
  have "case r of Inr _ \<Rightarrow> \<forall>p. under dir p \<longrightarrow> file_at_path w1 p = None
      | Inl e \<Rightarrow> e = Io Io_NotFound \<longrightarrow> (\<forall>p. under dir p \<longrightarrow> file_at_path w1 p = None)"
    using rm none
    by (auto simp: fs_remove_dir_all_def fs_call_def file_at_path_def [of _ "_ :: path"]
        simp del: file_drop_under split: prod.splits option.splits if_splits)
       (auto simp: drop_under_def intro!: none simp: list_ex_iff)
  then show ?thesis
    using assms rm
    by (auto simp: storage_delete_def and_then_lift remove_quietly_def and_then_def attempt_def ok_def
        fail_def split: sum.splits if_splits)
qed

lemma delete_package_data_gone:
  assumes "delete_package_data i v d0 = Inr (a, d1)"
    and "\<forall>s \<in> set (db_symbols d0). s_version s \<noteq> version_key i v"
  shows "\<not> package_data_exists i v d1 \<and> find_symbols i v d1 = [] \<and>
         (if package_data_exists i v d0
          then \<not> held d1 (version_key i v) \<and> files_for i v d1 = [] else True)"
proof -
  have d1: "d1 = snd (the (map_option id (case delete_package_data i v d0 of Inr x \<Rightarrow> Some x | Inl _ \<Rightarrow> None)))"
    using assms(1) by simp
  show ?thesis
  proof (cases "package_data_exists i v d0")
    case True
    have none: "filter (\<lambda>f. file_version f = k) (delete_rows (\<lambda>f. file_version f = k) fs) = []"
        "filter (\<lambda>s. s_version s = k) (delete_rows (\<lambda>s. s_version s = k) ss) = []" for k fs ss
      by (simp_all add: delete_rows_def filter_empty_conv)
    show ?thesis
      using True unfolding d1
      by (simp add: delete_package_data_def Let_def package_data_exists_def none has_row_iff
          find_symbols_def held_iff files_for_def)
  next
    case False
    then show ?thesis
      using assms(2) unfolding d1
      by (simp add: delete_package_data_def Let_def package_data_exists_def find_symbols_def
          filter_empty_conv)
  qed
qed


definition orphan_world :: world where
  "orphan_world = served_world\<lparr>w_db := sample_db\<lparr>db_members := []\<rparr>, w_fs_faults := [],
     w_db_faults := []\<rparr>"

lemma sample_db_symbols: "db_symbols sample_db = []"
  by (simp add: sample_db_def add_version_def insert_package_def insert_membership_def Let_def
      empty_db_def has_row_def bind_result_def split: sum.splits)

lemma sample_version_dir: "version_dir ''Pkg'' (normalized sample_lower) = Inr [''pkg'', ''1.2.0-rc.1'']"
proof -
  have "normalized sample_lower = ''1.2.0-rc.1''"
    by (simp add: sample_lower_def version_eval char_eval number_eval)
  then show ?thesis
    by (simp add: version_dir_def safe_segment_def char_eval
      is_windows_device_name_def ends_with_any_def to_ascii_uppercase_def Let_def starts_with_def
      trim_end_graphic is_graphic_def ascii_upper_def is_ascii_lowercase_def char_of_eq_iff
      take_bit_eq_mod)
qed

lemmas run_world = and_then_def ok_def fail_def attempt_def lift_result_def query_def query_result_def
  run_db_def db_fault_def fs_call_def fs_fault_def no_trace_def


section \<open>What a purge can leave behind\<close>

text \<open>
  A symbol file whose removal fails is reported as removed: the purge goes on, drops the rows
  that named it, and answers success with the file still in the store.
\<close>

definition symbol_world :: world where
  "symbol_world = empty_world\<lparr>
     w_db := sample_db\<lparr>db_symbols := [\<lparr>s_key = ''AB1'', s_filename = ''p.pdb'',
                                  s_version = version_key ''Pkg'' sample_lower\<rparr>]\<rparr>,
     w_files := [([''.symbols'', ''ab1'', ''p.pdb''], ''pdb'')],
     w_fs_faults := [Some (Io_OtherKind, 0)]\<rparr>"

lemma sample_symbol_path: "symbol_path ''AB1'' ''p.pdb'' = Inr [''.symbols'', ''ab1'', ''p.pdb'']"
  by (simp add: symbol_path_def safe_segment_def char_eval
      is_windows_device_name_def ends_with_any_def to_ascii_uppercase_def Let_def starts_with_def
      trim_end_graphic is_graphic_def ascii_upper_def is_ascii_lowercase_def char_of_eq_iff
      take_bit_eq_mod)

theorem failed_symbol_removal_reported_done:
  "\<exists>w'. purge_symbols ''Pkg'' sample_lower symbol_world = (Inr (), w') \<and>
     find_symbols ''Pkg'' sample_lower (w_db w') = [] \<and>
     file_at_path w' [''.symbols'', ''ab1'', ''p.pdb''] = Some ''pdb''"
  by (simp add: purge_symbols_def run_world symbol_world_def empty_world_def find_symbols_def
      storage_delete_symbol_def sample_symbol_path ignoring_def fs_remove_file_def delete_symbols_def
      delete_rows_def file_at_path_def)

end
