(* ===== verification/Policy.thy ===== *)
theory Policy
  imports Domain Errors
begin

text \<open>
  The license policy (\<open>src/src/policy.rs\<close>) with its settings (\<open>src/src/config/feeds.rs\<close>): what a
  feed's allow and deny lists say of a package's SPDX expression, and which spellings of a
  license they take for the same one. A reference reading of an expression as a disjunction
  of conjunctions states what the token scanners compute.
\<close>

section \<open>The settings\<close>

datatype policy_action = Policy_Block | Policy_Warn

record license_policy_config =
  lp_enabled :: bool
  lp_allowed :: "string list"
  lp_blocked :: "string list"
  lp_allow_unlicensed :: bool
  lp_action :: policy_action

definition default_license_policy :: license_policy_config where
  "default_license_policy =
     \<lparr>lp_enabled = False, lp_allowed = [], lp_blocked = [], lp_allow_unlicensed = True,
      lp_action = Policy_Warn\<rparr>"

section \<open>License ids\<close>

definition deprecated_licenses :: "(string \<times> string \<times> string option) list" where
  "deprecated_licenses =
     [(''AGPL-1.0'', ''AGPL-1.0-only'', None),
      (''AGPL-3.0'', ''AGPL-3.0-only'', None),
      (''GFDL-1.1'', ''GFDL-1.1-only'', None),
      (''GFDL-1.2'', ''GFDL-1.2-only'', None),
      (''GFDL-1.3'', ''GFDL-1.3-only'', None),
      (''GPL-1.0'', ''GPL-1.0-only'', None),
      (''GPL-2.0'', ''GPL-2.0-only'', None),
      (''GPL-3.0'', ''GPL-3.0-only'', None),
      (''LGPL-2.0'', ''LGPL-2.0-only'', None),
      (''LGPL-2.1'', ''LGPL-2.1-only'', None),
      (''LGPL-3.0'', ''LGPL-3.0-only'', None),
      (''GPL-2.0-with-autoconf-exception'', ''GPL-2.0-only'', Some ''Autoconf-exception-2.0''),
      (''GPL-2.0-with-bison-exception'', ''GPL-2.0-only'', Some ''Bison-exception-2.2''),
      (''GPL-2.0-with-classpath-exception'', ''GPL-2.0-only'', Some ''Classpath-exception-2.0''),
      (''GPL-2.0-with-font-exception'', ''GPL-2.0-only'', Some ''Font-exception-2.0''),
      (''GPL-2.0-with-GCC-exception'', ''GPL-2.0-only'', Some ''GCC-exception-2.0''),
      (''GPL-3.0-with-autoconf-exception'', ''GPL-3.0-only'', Some ''Autoconf-exception-3.0''),
      (''GPL-3.0-with-GCC-exception'', ''GPL-3.0-only'', Some ''GCC-exception-3.1''),
      (''eCos-2.0'', ''GPL-2.0-or-later'', Some ''eCos-exception-2.0''),
      (''wxWindows'', ''LGPL-2.0-or-later'', Some ''WxWindows-exception-3.1''),
      (''BSD-2-Clause-FreeBSD'', ''BSD-2-Clause'', None),
      (''BSD-2-Clause-NetBSD'', ''BSD-2-Clause'', None),
      (''bzip2-1.0.5'', ''bzip2-1.0.6'', None),
      (''Nunit'', ''zlib-acknowledgement'', None),
      (''StandardML-NJ'', ''SMLNJ'', None)]"

definition known_exceptions :: "string list" where
  "known_exceptions =
     [''389-exception'', ''Asterisk-exception'', ''Asterisk-linking-protocols-exception'',
      ''Autoconf-exception-2.0'', ''Autoconf-exception-3.0'', ''Autoconf-exception-generic'',
      ''Autoconf-exception-generic-3.0'', ''Autoconf-exception-macro'',
      ''Bison-exception-1.24'', ''Bison-exception-2.2'', ''Bootloader-exception'',
      ''CGAL-linking-exception'', ''Classpath-exception-2.0'',
      ''Classpath-exception-2.0-short'', ''CLISP-exception-2.0'',
      ''cryptsetup-OpenSSL-exception'', ''Digia-Qt-LGPL-exception-1.1'',
      ''DigiRule-FOSS-exception'', ''eCos-exception-2.0'', ''erlang-otp-linking-exception'',
      ''Fawkes-Runtime-exception'', ''FLTK-exception'', ''fmt-exception'',
      ''Font-exception-2.0'', ''freertos-exception-2.0'', ''GCC-exception-2.0'',
      ''GCC-exception-2.0-note'', ''GCC-exception-3.1'', ''Gmsh-exception'',
      ''GNAT-exception'', ''GNOME-examples-exception'', ''GNU-compiler-exception'',
      ''gnu-javamail-exception'', ''GPL-3.0-389-ds-base-exception'',
      ''GPL-3.0-interface-exception'', ''GPL-3.0-linking-exception'',
      ''GPL-3.0-linking-source-exception'', ''GPL-CC-1.0'', ''GStreamer-exception-2005'',
      ''GStreamer-exception-2008'', ''harbour-exception'', ''i2p-gpl-java-exception'',
      ''Independent-modules-exception'', ''KiCad-libraries-exception'',
      ''LGPL-3.0-linking-exception'', ''libpri-OpenH323-exception'', ''Libtool-exception'',
      ''Linux-syscall-note'', ''LLGPL'', ''LLVM-exception'', ''LZMA-exception'',
      ''mif-exception'', ''mxml-exception'', ''Nokia-Qt-exception-1.1'',
      ''OCaml-LGPL-linking-exception'', ''OCCT-exception-1.0'',
      ''OpenJDK-assembly-exception-1.0'', ''openvpn-openssl-exception'', ''PCRE2-exception'',
      ''polyparse-exception'', ''PS-or-PDF-font-exception-20170817'',
      ''QPL-1.0-INRIA-2004-exception'', ''Qt-GPL-exception-1.0'', ''Qt-LGPL-exception-1.1'',
      ''Qwt-exception-1.0'', ''romic-exception'', ''RRDtool-FLOSS-exception-2.0'',
      ''SANE-exception'', ''SHL-2.0'', ''SHL-2.1'', ''stunnel-exception'', ''SWI-exception'',
      ''Swift-exception'', ''Texinfo-exception'', ''u-boot-exception-2.0'', ''UBDL-exception'',
      ''Universal-FOSS-exception-1.0'', ''vsftpd-openssl-exception'',
      ''WxWindows-exception-3.1'', ''x11vnc-openssl-exception'']"

definition license_family :: "string \<Rightarrow> string" where
  "license_family i =
     (case strip_suffix ''-only'' i of
        Some base \<Rightarrow> base
      | None \<Rightarrow> (case strip_suffix ''-or-later'' i of Some base \<Rightarrow> base | None \<Rightarrow> i))"

definition replacement :: "string \<Rightarrow> string \<times> string option" where
  "replacement base =
     (case find (\<lambda>(old, _, _). eq_ignore_ascii_case old base) deprecated_licenses of
        Some (_, new, exception) \<Rightarrow> (to_ascii_lowercase new, exception)
      | None \<Rightarrow> (to_ascii_lowercase base, None))"

definition normalize_id :: "string \<Rightarrow> string \<times> string option" where
  "normalize_id raw =
     (let raw = trim raw;
          (base, or_later) = (case strip_suffix ''+'' raw of
                                Some base \<Rightarrow> (trim_end base, True)
                              | None \<Rightarrow> (raw, False));
          (i, exception) = replacement base
      in (if or_later then license_family i @ ''-or-later'' else i, exception))"

section \<open>Terms of an expression\<close>

text \<open>The words between two operators, joined by one space; parts of nothing are dropped.\<close>

fun operator_parts :: "string \<Rightarrow> string list \<Rightarrow> string list \<Rightarrow> string list" where
  "operator_parts oper current [] = [join CHR '' '' current]"
| "operator_parts oper current (w # ws) =
     (if eq_ignore_ascii_case w oper then join CHR '' '' current # operator_parts oper [] ws
      else operator_parts oper (current @ [w]) ws)"

definition split_operator :: "string \<Rightarrow> string \<Rightarrow> string list" where
  "split_operator expr oper =
     filter (\<lambda>p. p \<noteq> []) (map trim (operator_parts oper [] (split_whitespace expr)))"

record license_term =
  lt_id :: string
  lt_exception :: "string option"
  lt_malformed :: bool

definition parse_term :: "string \<Rightarrow> license_term" where
  "parse_term raw =
     (let parts = split_operator raw ''WITH'';
          malformed = 2 < length parts \<or> parts = [] \<or>
            length parts < 2 \<and> list_ex (\<lambda>t. eq_ignore_ascii_case t ''WITH'') (split_whitespace raw);
          (i, implied) = normalize_id (case parts of p # _ \<Rightarrow> p | [] \<Rightarrow> [])
      in \<lparr>lt_id = i,
          lt_exception = (case parts of
                            _ # e # _ \<Rightarrow> Some (to_ascii_lowercase e)
                          | _ \<Rightarrow> map_option to_ascii_lowercase implied),
          lt_malformed = malformed\<rparr>)"

definition exception_is_known :: "license_term \<Rightarrow> bool" where
  "exception_is_known t \<longleftrightarrow>
     \<not> lt_malformed t \<and>
     (case lt_exception t of
        None \<Rightarrow> True
      | Some e \<Rightarrow> list_ex (\<lambda>k. eq_ignore_ascii_case k e) known_exceptions)"

definition term_allows :: "license_term \<Rightarrow> license_term \<Rightarrow> bool" where
  "term_allows rule t \<longleftrightarrow>
     lt_id rule \<noteq> [] \<and> exception_is_known t \<and>
     (lt_id rule = lt_id t \<or>
      ends_with (lt_id rule) ''-only'' \<and> ends_with (lt_id t) ''-or-later'' \<and>
      license_family (lt_id rule) = license_family (lt_id t)) \<and>
     (case lt_exception rule of None \<Rightarrow> True | Some e \<Rightarrow> lt_exception t = Some e)"

section \<open>The two lists\<close>

definition expression_is_allowed :: "string list \<Rightarrow> string \<Rightarrow> bool" where
  "expression_is_allowed allowed license =
     (if list_ex (\<lambda>a. eq_ignore_ascii_case (trim a) (trim license)) allowed then True
      else if CHR ''('' \<in> set license \<or> CHR '')'' \<in> set license then False
      else let rules = map parse_term allowed
           in list_ex (\<lambda>alternative.
                let conjuncts = split_operator alternative ''AND''
                in conjuncts \<noteq> [] \<and>
                   list_all (\<lambda>c. list_ex (\<lambda>rule. term_allows rule (parse_term c)) rules) conjuncts)
              (split_operator license ''OR''))"

fun deny_scan :: "string \<Rightarrow> string \<Rightarrow> bool \<Rightarrow> string list \<Rightarrow> bool" where
  "deny_scan rule rule_family after_with [] = False"
| "deny_scan rule rule_family after_with (t # ts) =
     (if eq_ignore_ascii_case t ''WITH'' then deny_scan rule rule_family True ts
      else if eq_ignore_ascii_case t ''OR'' \<or> eq_ignore_ascii_case t ''AND''
      then deny_scan rule rule_family after_with ts
      else if after_with
      then eq_ignore_ascii_case t rule \<or> deny_scan rule rule_family False ts
      else license_family (fst (normalize_id t)) = rule_family
           \<or> deny_scan rule rule_family False ts)"

definition license_breaks :: "nat list list" where
  "license_breaks = [40] # [41] # whitespace_encodings"

definition matches_license :: "string \<Rightarrow> string \<Rightarrow> bool" where
  "matches_license rule license =
     (let rule = trim rule
      in if rule = [] then False
         else if eq_ignore_ascii_case rule license then True
         else if split_any whitespace_encodings rule \<noteq> [rule] then False
         else deny_scan rule (license_family (fst (normalize_id rule))) False
                (filter (\<lambda>t. t \<noteq> []) (map trim (split_any license_breaks license))))"

section \<open>The verdict\<close>

definition outcome_ok :: policy_outcome where
  "outcome_ok = \<lparr>po_allowed = True, po_violation = None\<rparr>"

definition violation :: "license_policy_config \<Rightarrow> string \<Rightarrow> policy_outcome" where
  "violation policy reason =
     \<lparr>po_allowed = (lp_action policy \<noteq> Policy_Block), po_violation = Some reason\<rparr>"

text \<open>The debug form of ASCII text; other characters stand for themselves.\<close>

definition hex_char :: "nat \<Rightarrow> char" where
  "hex_char d = (if d < 10 then digit_char d else char_of (d + 87))"

definition debug_char :: "char \<Rightarrow> string" where
  "debug_char c =
     (let b = byte c
      in if b = 0 then [CHR 0x5C, CHR ''0'']
         else if b = 9 then [CHR 0x5C, CHR ''t'']
         else if b = 10 then [CHR 0x5C, CHR ''n'']
         else if b = 13 then [CHR 0x5C, CHR ''r'']
         else if b = 34 \<or> b = 92 then [CHR 0x5C, c]
         else if b < 16 then [CHR 0x5C, CHR ''u'', CHR 0x7B, hex_char b, CHR 0x7D]
         else if b < 32 \<or> b = 127
         then [CHR 0x5C, CHR ''u'', CHR 0x7B, hex_char (b div 16), hex_char (b mod 16), CHR 0x7D]
         else [c])"

definition debug_text :: "string \<Rightarrow> string" where
  "debug_text s = CHR 0x22 # concat (map debug_char s) @ [CHR 0x22]"

definition declared_license :: "package \<Rightarrow> string option" where
  "declared_license p =
     (case (case p_license_expression p of Some e \<Rightarrow> Some e | None \<Rightarrow> p_license_url p) of
        None \<Rightarrow> None
      | Some s \<Rightarrow> if trim s = [] then None else Some (trim s))"

definition evaluate_license :: "license_policy_config \<Rightarrow> package \<Rightarrow> policy_outcome" where
  "evaluate_license policy p =
     (if \<not> lp_enabled policy then outcome_ok
      else case declared_license p of
        None \<Rightarrow>
          if lp_allow_unlicensed policy then outcome_ok
          else violation policy ''package declares no license''
      | Some license \<Rightarrow>
          if list_ex (\<lambda>b. matches_license b license) (lp_blocked policy)
          then violation policy (''license '' @ debug_text license @ '' is blocked'')
          else if lp_allowed policy \<noteq> [] \<and> \<not> expression_is_allowed (lp_allowed policy) license
          then violation policy (''license '' @ debug_text license @ '' is not allowed'')
          else outcome_ok)"

section \<open>A reference reading of expressions\<close>

text \<open>A well-formed expression is a disjunction of conjunctions of terms.\<close>

type_synonym license_terms = "(string \<times> string option) list list"

fun interleave :: "'a \<Rightarrow> 'a list list \<Rightarrow> 'a list" where
  "interleave d [] = []"
| "interleave d [g] = g"
| "interleave d (g # h # gs) = g @ d # interleave d (h # gs)"

fun term_words :: "string \<times> string option \<Rightarrow> string list" where
  "term_words (i, None) = [i]"
| "term_words (i, Some e) = [i, ''WITH'', e]"

definition conjunction_words :: "(string \<times> string option) list \<Rightarrow> string list" where
  "conjunction_words ts = interleave ''AND'' (map term_words ts)"

definition expression_words :: "license_terms \<Rightarrow> string list" where
  "expression_words alts = interleave ''OR'' (map conjunction_words alts)"

definition license_text :: "license_terms \<Rightarrow> string" where
  "license_text alts = join CHR '' '' (expression_words alts)"

definition is_operator :: "string \<Rightarrow> bool" where
  "is_operator w \<longleftrightarrow> list_ex (eq_ignore_ascii_case w) [''WITH'', ''AND'', ''OR'']"

definition visible_word :: "string \<Rightarrow> bool" where
  "visible_word w \<longleftrightarrow>
     w \<noteq> [] \<and> list_all (\<lambda>c. is_graphic c \<and> c \<noteq> CHR ''('' \<and> c \<noteq> CHR '')'') w"

fun plain_term :: "string \<times> string option \<Rightarrow> bool" where
  "plain_term (i, e) \<longleftrightarrow>
     visible_word i \<and> \<not> is_operator i \<and>
     (case e of None \<Rightarrow> True | Some e \<Rightarrow> visible_word e \<and> \<not> is_operator e)"

definition well_formed_license :: "license_terms \<Rightarrow> bool" where
  "well_formed_license alts \<longleftrightarrow>
     alts \<noteq> [] \<and> list_all (\<lambda>ts. ts \<noteq> [] \<and> list_all plain_term ts) alts"

text \<open>What a term means, and what the two lists say of an expression.\<close>

fun term_of :: "string \<times> string option \<Rightarrow> license_term" where
  "term_of (i, e) =
     \<lparr>lt_id = fst (normalize_id i),
      lt_exception = map_option to_ascii_lowercase (if e = None then snd (normalize_id i) else e),
      lt_malformed = False\<rparr>"

definition admitted :: "string list \<Rightarrow> license_terms \<Rightarrow> bool" where
  "admitted allowed alts \<longleftrightarrow>
     list_ex (list_all (\<lambda>t. list_ex (\<lambda>a. term_allows (parse_term a) (term_of t)) allowed)) alts"

fun names_license :: "string \<Rightarrow> string \<times> string option \<Rightarrow> bool" where
  "names_license rule (i, e) \<longleftrightarrow>
     license_family (fst (normalize_id i)) = license_family (fst (normalize_id rule))
     \<or> (case e of None \<Rightarrow> False | Some e \<Rightarrow> eq_ignore_ascii_case e rule)"

definition denied :: "string \<Rightarrow> license_terms \<Rightarrow> bool" where
  "denied rule alts \<longleftrightarrow>
     trim rule \<noteq> [] \<and> split_any whitespace_encodings (trim rule) = [trim rule] \<and>
     list_ex (list_ex (names_license (trim rule))) alts"

definition exactly :: "string \<Rightarrow> license_terms \<Rightarrow> bool" where
  "exactly rule alts \<longleftrightarrow> eq_ignore_ascii_case (trim rule) (license_text alts)"

section \<open>The scanners read words\<close>

lemma eq_ignore_sym: "eq_ignore_ascii_case a b \<longleftrightarrow> eq_ignore_ascii_case b a"
  by (auto simp: eq_ignore_ascii_case_def)

lemma word_chars_visible:
  assumes "list_all (\<lambda>c. is_graphic c \<and> c \<noteq> CHR ''('' \<and> c \<noteq> CHR '')'') w"
  shows "word_chars whitespace_encodings w" "word_chars license_breaks w"
proof -
  have ne: "[] \<notin> set license_breaks" by (simp add: license_breaks_def whitespace_encodings_def)
  show ws: "word_chars whitespace_encodings w"
    unfolding word_chars_def
  proof (intro ballI allI)
    fix c s assume "c \<in> set w"
    with assms have "is_graphic c" by (simp add: list_all_iff)
    then show "leading_match whitespace_encodings (c # s) = 0"
      by (intro leading_match_graphic) (simp_all add: whitespace_encodings_def)
  qed
  show "word_chars license_breaks w"
    unfolding word_chars_def
  proof (intro ballI allI)
    fix c s assume c: "c \<in> set w"
    with assms have "c \<noteq> CHR ''('' \<and> c \<noteq> CHR '')''" by (simp add: list_all_iff)
    then have "byte c \<noteq> 40 \<and> byte c \<noteq> 41"
      using byte_eq_iff [of c "CHR ''(''"] byte_eq_iff [of c "CHR '')''"] by auto
    moreover have "\<forall>e \<in> set whitespace_encodings. e \<noteq> take (length e) (map byte (c # s))"
      using ws c leading_match_0 [of whitespace_encodings "c # s"]
      by (simp add: word_chars_def whitespace_encodings_def)
    ultimately show "leading_match license_breaks (c # s) = 0"
      unfolding leading_match_0 [OF ne] by (simp add: license_breaks_def)
  qed
qed

lemma space_match:
  "leading_match whitespace_encodings (CHR '' '' # s) = Suc 0"
  "leading_match license_breaks (CHR '' '' # s) = Suc 0"
  by (simp_all add: leading_match_def whitespace_encodings_def license_breaks_def)

lemma join_visible:
  assumes "list_all visible_word ws" "ws \<noteq> []"
  shows "join CHR '' '' ws \<noteq> []" "is_graphic (hd (join CHR '' '' ws))"
    "is_graphic (last (join CHR '' '' ws))"
  using assms
proof (induction ws rule: induct_list012)
  case (2 w)
  { case 1 with 2 show ?case by (simp add: visible_word_def) }
  { case 2 then show ?case by (cases w) (simp_all add: visible_word_def) }
  { case 3 then show ?case by (cases w rule: rev_cases) (simp_all add: visible_word_def) }
next
  case (3 v w ws)
  { case 1 show ?case by simp }
  { case 2 then show ?case by (cases v) (simp_all add: visible_word_def) }
  { case 3 with "3.IH" show ?case by simp }
qed simp_all

lemma trim_visible: "list_all visible_word ws \<Longrightarrow> trim (join CHR '' '' ws) = join CHR '' '' ws"
  using join_visible [of ws] by (cases "ws = []") (simp_all add: trim_ends)

lemma trim_visible_word: "visible_word w \<Longrightarrow> trim w = w"
  by (rule trim_graphic) (simp add: visible_word_def list_all_iff)

lemma filter_words:
  "list_all visible_word ws \<Longrightarrow> filter (\<lambda>w. w \<noteq> []) ws = ws"
  "list_all visible_word ws \<Longrightarrow> map trim ws = ws"
  by (induction ws) (simp_all add: trim_visible_word visible_word_def)

lemma scan_words:
  assumes "list_all visible_word ws"
  shows "split_whitespace (join CHR '' '' ws) = ws"
    and "filter (\<lambda>t. t \<noteq> []) (map trim (split_any license_breaks (join CHR '' '' ws))) = ws"
proof -
  have w: "\<forall>w \<in> set ws. word_chars whitespace_encodings w \<and> word_chars license_breaks w"
    using assms word_chars_visible by (simp add: list_all_iff visible_word_def)
  have ws: "split_any whitespace_encodings (join CHR '' '' ws) = (if ws = [] then [[]] else ws)"
    using w split_any_join [OF space_match(1), of ws] by simp
  have br: "split_any license_breaks (join CHR '' '' ws) = (if ws = [] then [[]] else ws)"
    using w split_any_join [OF space_match(2), of ws] by simp
  show "split_whitespace (join CHR '' '' ws) = ws"
    using filter_words(1) [OF assms] by (simp add: split_whitespace_def ws)
  show "filter (\<lambda>t. t \<noteq> []) (map trim (split_any license_breaks (join CHR '' '' ws))) = ws"
    using filter_words [OF assms] by (simp add: br)
qed

section \<open>The scanners read expressions\<close>

lemma operator_parts_words:
  assumes "list_all (\<lambda>w. \<not> eq_ignore_ascii_case w oper) g"
  shows "operator_parts oper cur (g @ ws) = operator_parts oper (cur @ g) ws"
  using assms by (induction g arbitrary: cur) simp_all

lemma operator_parts_interleave:
  assumes "gs \<noteq> []" "list_all (list_all (\<lambda>w. \<not> eq_ignore_ascii_case w oper)) gs"
  shows "operator_parts oper [] (interleave oper gs) = map (join CHR '' '') gs"
  using assms
proof (induction gs rule: induct_list012)
  case (2 g)
  then show ?case using operator_parts_words [of oper g "[]" "[]"] by simp
next
  case (3 g h gs)
  then show ?case
    by (simp add: operator_parts_words eq_ignore_ascii_case_def del: interleave.simps(2))
qed simp

lemma split_operator_interleave:
  assumes "gs \<noteq> []" "visible_word oper"
    "list_all (\<lambda>g. g \<noteq> [] \<and> list_all visible_word g
                 \<and> list_all (\<lambda>w. \<not> eq_ignore_ascii_case w oper) g) gs"
  shows "split_operator (join CHR '' '' (interleave oper gs)) oper = map (join CHR '' '') gs"
proof -
  have v: "list_all visible_word (interleave oper gs)"
    using assms by (induction gs rule: induct_list012) auto
  have parts: "operator_parts oper [] (interleave oper gs) = map (join CHR '' '') gs"
    using assms by (intro operator_parts_interleave) (auto simp: list_all_iff)
  have "map trim (map (join CHR '' '') gs) = map (join CHR '' '') gs"
    using assms(3) by (auto simp: list_all_iff trim_visible)
  moreover have "filter (\<lambda>p. p \<noteq> []) (map (join CHR '' '') gs) = map (join CHR '' '') gs"
    using assms(3) join_visible(1) by (auto simp: list_all_iff filter_id_conv)
  ultimately show ?thesis
    unfolding split_operator_def scan_words(1) [OF v] parts by metis
qed

lemma operators_visible: "visible_word ''WITH''" "visible_word ''AND''" "visible_word ''OR''"
  by (simp_all add: visible_word_def is_graphic_def)

lemma operators_differ:
  "\<not> eq_ignore_ascii_case ''WITH'' ''AND''" "\<not> eq_ignore_ascii_case ''WITH'' ''OR''"
  "\<not> eq_ignore_ascii_case ''AND'' ''OR''"
  by (simp_all add: eq_ignore_ascii_case_def to_ascii_lowercase_def char_eval)

lemma plain_term_words:
  assumes "plain_term t"
  shows "term_words t \<noteq> []" "list_all visible_word (term_words t)"
    "list_all (\<lambda>w. \<not> eq_ignore_ascii_case w ''AND'' \<and> \<not> eq_ignore_ascii_case w ''OR'') (term_words t)"
  using assms operators_visible operators_differ
  by (cases t; cases "snd t"; simp add: is_operator_def)+

lemma parse_term_words:
  assumes "plain_term t"
  shows "parse_term (join CHR '' '' (term_words t)) = term_of t"
proof -
  obtain i e where t: "t = (i, e)" by (cases t)
  let ?groups = "case e of None \<Rightarrow> [[i]] | Some e \<Rightarrow> [[i], [e]]"
  have words: "term_words t = interleave ''WITH'' ?groups" by (cases e) (simp_all add: t)
  have "split_operator (join CHR '' '' (interleave ''WITH'' ?groups)) ''WITH''
      = map (join CHR '' '') ?groups"
    using assms
    by (intro split_operator_interleave)
      (auto simp: t operators_visible is_operator_def split: option.splits)
  then have parts: "split_operator (join CHR '' '' (term_words t)) ''WITH''
      = (case e of None \<Rightarrow> [i] | Some e \<Rightarrow> [i, e])"
    unfolding words [symmetric] by (cases e) (simp_all add: t)
  have "split_whitespace (join CHR '' '' (term_words t)) = term_words t"
    by (rule scan_words(1) [OF plain_term_words(2) [OF assms]])
  with assms show ?thesis
    unfolding parse_term_def parts
    by (cases e) (auto simp: t is_operator_def split: prod.splits)
qed

lemma conjunction_words:
  assumes "ts \<noteq> []" "list_all plain_term ts"
  shows "conjunction_words ts \<noteq> []" "list_all visible_word (conjunction_words ts)"
    "list_all (\<lambda>w. \<not> eq_ignore_ascii_case w ''OR'') (conjunction_words ts)"
    "split_operator (join CHR '' '' (conjunction_words ts)) ''AND''
       = map (join CHR '' '' \<circ> term_words) ts"
proof -
  show "conjunction_words ts \<noteq> []" "list_all visible_word (conjunction_words ts)"
    "list_all (\<lambda>w. \<not> eq_ignore_ascii_case w ''OR'') (conjunction_words ts)"
    using assms unfolding conjunction_words_def
    by (induction ts rule: induct_list012)
      (auto simp: plain_term_words operators_visible operators_differ list_all_iff
        dest: plain_term_words(2,3))
  show "split_operator (join CHR '' '' (conjunction_words ts)) ''AND''
       = map (join CHR '' '' \<circ> term_words) ts"
    unfolding conjunction_words_def map_map [symmetric]
    using assms plain_term_words
    by (intro split_operator_interleave) (auto simp: operators_visible list_all_iff)
qed

lemma expression_words:
  assumes "well_formed_license alts"
  shows "list_all visible_word (expression_words alts)" "expression_words alts \<noteq> []"
    "split_operator (license_text alts) ''OR'' = map (join CHR '' '' \<circ> conjunction_words) alts"
proof -
  have c: "conjunction_words ts \<noteq> []" "list_all visible_word (conjunction_words ts)"
    "list_all (\<lambda>w. \<not> eq_ignore_ascii_case w ''OR'') (conjunction_words ts)" if "ts \<in> set alts" for ts
    using assms that conjunction_words [of ts] by (auto simp: well_formed_license_def list_all_iff)
  have "alts \<noteq> []" using assms by (simp add: well_formed_license_def)
  with c show "list_all visible_word (expression_words alts)" "expression_words alts \<noteq> []"
    unfolding expression_words_def
    by (induction alts rule: induct_list012) (auto simp: operators_visible)
  show "split_operator (license_text alts) ''OR'' = map (join CHR '' '' \<circ> conjunction_words) alts"
    unfolding license_text_def expression_words_def map_map [symmetric]
    using c \<open>alts \<noteq> []\<close>
    by (intro split_operator_interleave) (auto simp: operators_visible list_all_iff)
qed

lemma set_license_text:
  assumes "well_formed_license alts"
  shows "CHR ''('' \<notin> set (license_text alts)" "CHR '')'' \<notin> set (license_text alts)"
    "trim (license_text alts) = license_text alts" "license_text alts \<noteq> []"
proof -
  note v = expression_words(1,2) [OF assms]
  have "set (license_text alts) \<subseteq> insert CHR '' '' (\<Union> (set ` set (expression_words alts)))"
    unfolding license_text_def by (rule set_join)
  with v show "CHR ''('' \<notin> set (license_text alts)" "CHR '')'' \<notin> set (license_text alts)"
    by (auto simp: list_all_iff visible_word_def)
  show "trim (license_text alts) = license_text alts" "license_text alts \<noteq> []"
    using trim_visible join_visible(1) v by (auto simp: license_text_def)
qed

text \<open>The allow list.\<close>

lemma allowed_reads:
  assumes "well_formed_license alts"
  shows "expression_is_allowed allowed (license_text alts)
     \<longleftrightarrow> list_ex (\<lambda>a. exactly a alts) allowed \<or> admitted allowed alts"
proof -
  have one: "split_operator (join CHR '' '' (conjunction_words ts)) ''AND'' \<noteq> []
      \<and> list_all (\<lambda>c. list_ex (\<lambda>rule. term_allows rule (parse_term c)) (map parse_term allowed))
          (split_operator (join CHR '' '' (conjunction_words ts)) ''AND'')
    \<longleftrightarrow> list_all (\<lambda>t. list_ex (\<lambda>a. term_allows (parse_term a) (term_of t)) allowed) ts"
    if "ts \<in> set alts" for ts
  proof -
    have ts: "ts \<noteq> []" "list_all plain_term ts"
      using assms that by (auto simp: well_formed_license_def list_all_iff)
    then show ?thesis
      unfolding conjunction_words(4) [OF ts]
      by (simp add: list_all_iff list_ex_iff parse_term_words)
  qed
  have "list_ex (\<lambda>alternative.
        let conjuncts = split_operator alternative ''AND''
        in conjuncts \<noteq> [] \<and> list_all (\<lambda>c. list_ex (\<lambda>rule. term_allows rule (parse_term c))
             (map parse_term allowed)) conjuncts)
      (split_operator (license_text alts) ''OR'') \<longleftrightarrow> admitted allowed alts"
    using one by (simp add: expression_words(3) [OF assms] admitted_def list_ex_iff Let_def)
  then show ?thesis
    using set_license_text [OF assms]
    by (simp add: expression_is_allowed_def exactly_def Let_def)
qed

text \<open>The deny list.\<close>

lemma deny_scan_term:
  assumes "plain_term t"
  shows "deny_scan rule (license_family (fst (normalize_id rule))) False (term_words t @ ws)
     \<longleftrightarrow> names_license rule t
        \<or> deny_scan rule (license_family (fst (normalize_id rule))) False ws"
  using assms operators_differ
  by (cases t; cases "snd t"; simp add: is_operator_def) (auto simp: eq_ignore_ascii_case_def)

lemma deny_scan_skip:
  "deny_scan rule f False (''AND'' # ws) = deny_scan rule f False ws"
  "deny_scan rule f False (''OR'' # ws) = deny_scan rule f False ws"
  by (simp_all add: eq_ignore_ascii_case_def to_ascii_lowercase_def char_eval)

lemma deny_scan_conjunction:
  assumes "list_all plain_term ts"
  shows "deny_scan rule (license_family (fst (normalize_id rule))) False (conjunction_words ts @ ws)
     \<longleftrightarrow> list_ex (names_license rule) ts
        \<or> deny_scan rule (license_family (fst (normalize_id rule))) False ws"
  using assms unfolding conjunction_words_def
  by (induction ts rule: induct_list012)
    (auto simp: deny_scan_term deny_scan_skip simp del: deny_scan.simps(2))

lemma deny_scan_expression:
  assumes "list_all (list_all plain_term) alts"
  shows "deny_scan rule (license_family (fst (normalize_id rule))) False (expression_words alts)
     \<longleftrightarrow> list_ex (list_ex (names_license rule)) alts"
  using assms unfolding expression_words_def
proof (induction alts rule: induct_list012)
  case (2 ts)
  then show ?case using deny_scan_conjunction [of ts rule "[]"] by simp
next
  case (3 ts us alts)
  then show ?case
    by (simp add: deny_scan_conjunction deny_scan_skip del: deny_scan.simps(2))
qed simp

lemma denied_reads:
  assumes "well_formed_license alts"
  shows "matches_license rule (license_text alts)
     \<longleftrightarrow> trim rule \<noteq> [] \<and> exactly rule alts \<or> denied rule alts"
proof -
  have "list_all (list_all plain_term) alts"
    using assms by (simp add: well_formed_license_def list_all_iff)
  then show ?thesis
    unfolding matches_license_def Let_def
      scan_words(2) [OF expression_words(1) [OF assms], folded license_text_def]
    by (simp add: deny_scan_expression exactly_def denied_def)
qed

text \<open>A rule, even one that names the same exception, admits no term with an unknown one.\<close>

lemma unknown_exception_not_admitted:
  "\<not> exception_is_known t \<Longrightarrow> \<not> list_ex (\<lambda>a. term_allows (parse_term a) t) allowed"
  by (simp add: list_ex_iff term_allows_def)

section \<open>The verdict on an expression\<close>

definition rejects :: "license_policy_config \<Rightarrow> license_terms \<Rightarrow> bool" where
  "rejects policy alts \<longleftrightarrow>
     list_ex (\<lambda>b. trim b \<noteq> [] \<and> exactly b alts \<or> denied b alts) (lp_blocked policy)
     \<or> lp_allowed policy \<noteq> [] \<and>
       \<not> (list_ex (\<lambda>a. exactly a alts) (lp_allowed policy) \<or> admitted (lp_allowed policy) alts)"

text \<open>
  C31: For a package that declares a well-formed SPDX expression, an enabled policy records a
  violation exactly when a deny rule names a license of the expression (in any spelling of
  its family, or an exception by name, or the whole expression) or a non-empty allow list
  admits no alternative: some alternative must have every one of its terms admitted by a
  rule. The package gets through exactly when there is no violation or the policy only
  warns; a disabled policy records none.
\<close>

theorem license_verdict:
  assumes "well_formed_license alts" "declared_license p = Some (license_text alts)"
  shows "(po_violation (evaluate_license policy p) \<noteq> None)
           = (lp_enabled policy \<and> rejects policy alts)
       \<and> po_allowed (evaluate_license policy p)
           = (\<not> (lp_enabled policy \<and> rejects policy alts) \<or> lp_action policy = Policy_Warn)"
  using assms
  by (cases "lp_action policy")
    (simp_all add: evaluate_license_def denied_reads allowed_reads rejects_def violation_def
      outcome_ok_def)

definition mit_only :: license_policy_config where
  "mit_only = \<lparr>lp_enabled = True, lp_allowed = [''MIT''], lp_blocked = [''GPL-2.0''],
     lp_allow_unlicensed = False, lp_action = Policy_Block\<rparr>"

definition both_terms :: license_terms where
  "both_terms = [[(''MIT'', None), (''X'', None)]]"

lemmas license_eval =
  eq_ignore_ascii_case_def to_ascii_lowercase_def char_eval trim_ends ends_with_def strip_suffix_def

lemma replacement_eval:
  "replacement ''MIT'' = (''mit'', None)" "replacement ''X'' = (''x'', None)"
  "replacement ''GPL-2.0'' = (''gpl-2.0-only'', None)"
  by (simp_all add: replacement_def deprecated_licenses_def license_eval)

lemma normalize_id_eval:
  "normalize_id ''MIT'' = (''mit'', None)" "normalize_id ''X'' = (''x'', None)"
  "normalize_id ''GPL-2.0'' = (''gpl-2.0-only'', None)"
  by (simp_all add: normalize_id_def license_eval replacement_eval)

lemma parse_mit: "parse_term ''MIT'' = \<lparr>lt_id = ''mit'', lt_exception = None, lt_malformed = False\<rparr>"
  using parse_term_words [of "(''MIT'', None)"]
  by (simp add: normalize_id_eval is_operator_def visible_word_def license_eval)

lemma rejects_both: "rejects mit_only both_terms"
  by (simp add: rejects_def mit_only_def both_terms_def admitted_def parse_mit normalize_id_eval
      term_allows_def exactly_def license_text_def expression_words_def conjunction_words_def
      license_eval denied_def)

definition both_package :: package where
  "both_package = sample_package ''A'' sample_lower\<lparr>p_license_expression := Some ''MIT AND X''\<rparr>"

theorem license_verdict_witness: "\<not> po_allowed (evaluate_license mit_only both_package)"
proof -
  have wf: "well_formed_license both_terms"
    by (simp add: well_formed_license_def both_terms_def is_operator_def visible_word_def license_eval)
  have "license_text both_terms = ''MIT AND X''"
    by (simp add: license_text_def both_terms_def expression_words_def conjunction_words_def)
  then have "declared_license both_package = Some (license_text both_terms)"
    by (simp add: declared_license_def both_package_def sample_package_def trim_ends is_graphic_def)
  then show ?thesis
    using license_verdict [OF wf, of both_package mit_only] rejects_both by (simp add: mit_only_def)
qed

end
