(* ===== verification/Nuspec.thy ===== *)
theory Nuspec
  imports Database
begin

text \<open>
  The manifest of a package (\<open>src/crates/yanuget-pkg/src/nuspec.rs\<close>): the state machine
  that turns the events of an XML reader into a manifest. The reader itself is a library:
  what it yields is the input here, an element with the namespace its name resolves to, the
  default namespace in scope at it and its attributes, or the error it answers.
\<close>

type_synonym 'a pkg_result = "pkg_error + 'a"

section \<open>The manifest\<close>

record nuspec =
  n_id :: string
  n_version :: string
  n_title :: "string option"
  n_authors :: "string option"
  n_description :: "string option"
  n_summary :: "string option"
  n_release_notes :: "string option"
  n_language :: "string option"
  n_tags :: "string option"
  n_icon_url :: "string option"
  n_icon :: "string option"
  n_readme :: "string option"
  n_license_url :: "string option"
  n_license_expression :: "string option"
  n_license_file :: "string option"
  n_project_url :: "string option"
  n_repository_url :: "string option"
  n_repository_type :: "string option"
  n_min_client_version :: "string option"
  n_require_license_acceptance :: bool
  n_development_dependency :: bool
  n_package_types :: "package_type list"
  n_dependency_groups :: "dependency_group list"

definition empty_nuspec :: nuspec where
  "empty_nuspec =
     \<lparr>n_id = [], n_version = [], n_title = None, n_authors = None, n_description = None,
      n_summary = None, n_release_notes = None, n_language = None, n_tags = None,
      n_icon_url = None, n_icon = None, n_readme = None, n_license_url = None,
      n_license_expression = None, n_license_file = None, n_project_url = None,
      n_repository_url = None, n_repository_type = None, n_min_client_version = None,
      n_require_license_acceptance = False, n_development_dependency = False,
      n_package_types = [], n_dependency_groups = []\<rparr>"

definition max_nuspec_bytes :: nat where
  "max_nuspec_bytes = 1024 * 1024"

definition max_element_depth :: nat where
  "max_element_depth = 64"

definition max_attributes :: nat where
  "max_attributes = 64"

definition max_dependency_groups :: nat where
  "max_dependency_groups = 512"

definition max_dependencies :: nat where
  "max_dependencies = 10000"

definition max_package_types :: nat where
  "max_package_types = 64"

definition max_tags :: nat where
  "max_tags = 64"

definition max_tag_chars :: nat where
  "max_tag_chars = 64"

text \<open>Unicode's lower-casing is the parameter \<open>lower\<close>; the set of tags seen is a list.\<close>

fun pick_tags :: "(string \<Rightarrow> string) \<Rightarrow> string list \<Rightarrow> string list \<Rightarrow> string list \<Rightarrow> string list" where
  "pick_tags lower seen tags [] = tags"
| "pick_tags lower seen tags (t # ts) =
     (if length tags = max_tags then tags
      else let tag = take_chars max_tag_chars t
           in if List.member seen (lower tag) then pick_tags lower seen tags ts
              else pick_tags lower (lower tag # seen) (tags @ [tag]) ts)"

definition tag_list :: "(string \<Rightarrow> string) \<Rightarrow> nuspec \<Rightarrow> string list" where
  "tag_list lower n =
     pick_tags lower [] [] (split_whitespace (case n_tags n of Some t \<Rightarrow> t | None \<Rightarrow> []))"

definition author_list :: "nuspec \<Rightarrow> string list" where
  "author_list n =
     (case n_authors n of
        None \<Rightarrow> []
      | Some a \<Rightarrow> filter (\<lambda>s. s \<noteq> []) (map trim (split CHR '','' a)))"

section \<open>What the reader yields\<close>

datatype namespace_name = Ns_Bound string | Ns_Unbound | Ns_Unknown string

record xml_element =
  x_empty :: bool
  x_local :: string
  x_namespace :: namespace_name
  x_default :: namespace_name
  x_attributes :: "(string + string \<times> string) list"

text \<open>
  A reference carries the character it is a number of, if it is one; an event the parser
  skips (a comment, a declaration, a processing instruction) is one of the others.
\<close>

datatype xml_event =
    Xml_Element xml_element
  | Xml_Text string
  | Xml_Reference string "string option"
  | Xml_CData string
  | Xml_DocType
  | Xml_End
  | Xml_Other

type_synonym xml_stream = "(string + xml_event) list"

section \<open>Fields and frames\<close>

datatype field =
    Fld_Id | Fld_Version | Fld_Title | Fld_Authors | Fld_Description | Fld_Summary
  | Fld_ReleaseNotes | Fld_Language | Fld_Tags | Fld_IconUrl | Fld_Icon | Fld_Readme
  | Fld_ProjectUrl | Fld_LicenseUrl | Fld_RequireLicenseAcceptance | Fld_DevelopmentDependency
  | Fld_LicenseExpression | Fld_LicenseFile | Fld_LicenseOther

definition field_table :: "(string \<times> field) list" where
  "field_table =
     [(''id'', Fld_Id), (''version'', Fld_Version), (''title'', Fld_Title),
      (''authors'', Fld_Authors), (''description'', Fld_Description), (''summary'', Fld_Summary),
      (''releaseNotes'', Fld_ReleaseNotes), (''language'', Fld_Language), (''tags'', Fld_Tags),
      (''iconUrl'', Fld_IconUrl), (''icon'', Fld_Icon), (''readme'', Fld_Readme),
      (''projectUrl'', Fld_ProjectUrl), (''licenseUrl'', Fld_LicenseUrl),
      (''requireLicenseAcceptance'', Fld_RequireLicenseAcceptance),
      (''developmentDependency'', Fld_DevelopmentDependency)]"

definition field_name :: "field \<Rightarrow> string" where
  "field_name f = (case find (\<lambda>(_, g). g = f) field_table of Some (name, _) \<Rightarrow> name | None \<Rightarrow> ''license'')"

datatype frame =
    Fr_Root | Fr_Metadata | Fr_Field field | Fr_Dependencies | Fr_Group nat | Fr_PackageTypes
  | Fr_Ignored

record counts =
  c_groups :: nat
  c_dependencies :: nat
  c_package_types :: nat

definition nuspec_invalid :: "string \<Rightarrow> string list \<Rightarrow> pkg_error" where
  "nuspec_invalid why args = Pkg_InvalidPackage (Msg why args)"

definition add_group :: "counts \<Rightarrow> counts pkg_result" where
  "add_group c =
     (let c = c\<lparr>c_groups := c_groups c + 1\<rparr>
      in if max_dependency_groups < c_groups c
         then Inl (nuspec_invalid ''nuspec declares more than {MAX_DEPENDENCY_GROUPS} dependency groups'' [])
         else Inr c)"

definition add_dependency :: "counts \<Rightarrow> counts pkg_result" where
  "add_dependency c =
     (let c = c\<lparr>c_dependencies := c_dependencies c + 1\<rparr>
      in if max_dependencies < c_dependencies c
         then Inl (nuspec_invalid ''nuspec declares more than {MAX_DEPENDENCIES} dependencies'' [])
         else Inr c)"

definition add_package_type :: "counts \<Rightarrow> counts pkg_result" where
  "add_package_type c =
     (let c = c\<lparr>c_package_types := c_package_types c + 1\<rparr>
      in if max_package_types < c_package_types c
         then Inl (nuspec_invalid ''nuspec declares more than {MAX_PACKAGE_TYPES} package types'' [])
         else Inr c)"

section \<open>Elements\<close>

definition namespace :: "namespace_name \<Rightarrow> string option pkg_result" where
  "namespace ns =
     (case ns of
        Ns_Bound u \<Rightarrow> Inr (if u = [] then None else Some u)
      | Ns_Unbound \<Rightarrow> Inr None
      | Ns_Unknown prefix \<Rightarrow>
          Inl (nuspec_invalid ''nuspec uses an undeclared namespace prefix {prefix}'' [prefix]))"

text \<open>
  One pass over the attributes. A later attribute takes the slot of an earlier one, and the
  names asked for are distinct.
\<close>

fun read_attributes ::
    "string list \<Rightarrow> nat \<Rightarrow> (string \<rightharpoonup> string) \<Rightarrow> (string + string \<times> string) list \<Rightarrow>
     (string \<rightharpoonup> string) pkg_result" where
  "read_attributes names k values [] = Inr values"
| "read_attributes names k values (a # as) =
     (if k = max_attributes
      then Inl (nuspec_invalid ''nuspec element has more than {MAX_ATTRIBUTES} attributes'' [])
      else case a of
             Inl e \<Rightarrow> Inl (nuspec_invalid ''malformed nuspec attribute: {err}'' [e])
           | Inr (key, value) \<Rightarrow>
               read_attributes names (k + 1)
                 (if List.member names key then values(key \<mapsto> value) else values) as)"

definition attributes :: "xml_element \<Rightarrow> string list \<Rightarrow> (string \<rightharpoonup> string) pkg_result" where
  "attributes e names = read_attributes names 0 Map.empty (x_attributes e)"

definition read_dependency :: "xml_element \<Rightarrow> dependency pkg_result" where
  "read_dependency e =
     bind_result (attributes e [''id'', ''version'', ''include'', ''exclude'']) (\<lambda>vs.
     case vs ''id'' of
       None \<Rightarrow> Inl (nuspec_invalid ''nuspec declares a <dependency> without an id'' [])
     | Some i \<Rightarrow>
         if trim i = [] then Inl (nuspec_invalid ''nuspec declares a <dependency> without an id'' [])
         else Inr \<lparr>dep_id = i, dep_version_range = vs ''version'', dep_include = vs ''include'',
                    dep_exclude = vs ''exclude''\<rparr>)"

definition resolve_reference :: "string \<Rightarrow> string option \<Rightarrow> string option" where
  "resolve_reference name char_ref =
     (case char_ref of
        Some c \<Rightarrow> Some c
      | None \<Rightarrow>
          if name = ''amp'' then Some ''&'' else if name = ''lt'' then Some ''<''
          else if name = ''gt'' then Some ''>'' else if name = ''quot'' then Some [CHR 0x22]
          else if name = ''apos'' then Some [CHR 0x27] else None)"

fun assign :: "nuspec \<Rightarrow> field \<Rightarrow> string \<Rightarrow> nuspec" where
  "assign n Fld_Id t = n\<lparr>n_id := t\<rparr>"
| "assign n Fld_Version t = n\<lparr>n_version := t\<rparr>"
| "assign n Fld_Title t = n\<lparr>n_title := Some t\<rparr>"
| "assign n Fld_Authors t = n\<lparr>n_authors := Some t\<rparr>"
| "assign n Fld_Description t = n\<lparr>n_description := Some t\<rparr>"
| "assign n Fld_Summary t = n\<lparr>n_summary := Some t\<rparr>"
| "assign n Fld_ReleaseNotes t = n\<lparr>n_release_notes := Some t\<rparr>"
| "assign n Fld_Language t = n\<lparr>n_language := Some t\<rparr>"
| "assign n Fld_Tags t = n\<lparr>n_tags := Some t\<rparr>"
| "assign n Fld_IconUrl t = n\<lparr>n_icon_url := Some t\<rparr>"
| "assign n Fld_Icon t = n\<lparr>n_icon := Some t\<rparr>"
| "assign n Fld_Readme t = n\<lparr>n_readme := Some t\<rparr>"
| "assign n Fld_ProjectUrl t = n\<lparr>n_project_url := Some t\<rparr>"
| "assign n Fld_LicenseUrl t = n\<lparr>n_license_url := Some t\<rparr>"
| "assign n Fld_RequireLicenseAcceptance t =
     n\<lparr>n_require_license_acceptance := eq_ignore_ascii_case t ''true''\<rparr>"
| "assign n Fld_DevelopmentDependency t =
     n\<lparr>n_development_dependency := eq_ignore_ascii_case t ''true''\<rparr>"
| "assign n Fld_LicenseExpression t = n\<lparr>n_license_expression := Some t\<rparr>"
| "assign n Fld_LicenseFile t = n\<lparr>n_license_file := Some t\<rparr>"
| "assign n Fld_LicenseOther t = n"

section \<open>The state machine\<close>

record parse_state =
  ps_nuspec :: nuspec
  ps_stack :: "frame list"
  ps_root_closed :: bool
  ps_metadata_seen :: bool
  ps_metadata_ns :: "string option"
  ps_seen :: "string list"
  ps_ungrouped :: "dependency list"
  ps_counts :: counts
  ps_text :: string

definition parse_start :: parse_state where
  "parse_start =
     \<lparr>ps_nuspec = empty_nuspec, ps_stack = [], ps_root_closed = False, ps_metadata_seen = False,
      ps_metadata_ns = None, ps_seen = [], ps_ungrouped = [],
      ps_counts = \<lparr>c_groups = 0, c_dependencies = 0, c_package_types = 0\<rparr>, ps_text = []\<rparr>"

text \<open>The innermost open element is the head of the stack.\<close>

definition in_field :: "frame list \<Rightarrow> bool" where
  "in_field stack = (case stack of Fr_Field _ # _ \<Rightarrow> True | _ \<Rightarrow> False)"

definition once :: "string \<Rightarrow> parse_state \<Rightarrow> parse_state pkg_result" where
  "once name st =
     (if List.member (ps_seen st) name
      then Inl (nuspec_invalid ''nuspec declares <{name}> more than once'' [name])
      else Inr (st\<lparr>ps_seen := name # ps_seen st\<rparr>))"

definition license_field :: "string option \<Rightarrow> field" where
  "license_field kind =
     (case map_option to_ascii_lowercase kind of
        None \<Rightarrow> Fld_LicenseOther
      | Some k \<Rightarrow> if k = ''expression'' then Fld_LicenseExpression
                  else if k = ''file'' then Fld_LicenseFile else Fld_LicenseOther)"

definition metadata_child :: "xml_element \<Rightarrow> parse_state \<Rightarrow> (frame \<times> parse_state) pkg_result" where
  "metadata_child e st =
     (let local = x_local e
      in case find (\<lambda>(name, _). name = local) field_table of
        Some (name, f) \<Rightarrow>
          bind_result (once name st) (\<lambda>st.
          bind_result (attributes e []) (\<lambda>_. Inr (Fr_Field f, st)))
      | None \<Rightarrow>
          if local = ''license'' then
            bind_result (once ''license'' st) (\<lambda>st.
            bind_result (attributes e [''type'']) (\<lambda>vs.
            Inr (Fr_Field (license_field (vs ''type'')), st)))
          else if local = ''repository'' then
            bind_result (once ''repository'' st) (\<lambda>st.
            bind_result (attributes e [''type'', ''url'']) (\<lambda>vs.
            Inr (Fr_Ignored, st\<lparr>ps_nuspec := (ps_nuspec st)
                   \<lparr>n_repository_type := vs ''type'', n_repository_url := vs ''url''\<rparr>\<rparr>)))
          else if local = ''dependencies'' then
            bind_result (once ''dependencies'' st) (\<lambda>st.
            bind_result (attributes e []) (\<lambda>_. Inr (Fr_Dependencies, st)))
          else if local = ''packageTypes'' then
            bind_result (once ''packageTypes'' st) (\<lambda>st.
            bind_result (attributes e []) (\<lambda>_. Inr (Fr_PackageTypes, st)))
          else bind_result (attributes e []) (\<lambda>_. Inr (Fr_Ignored, st)))"

definition skip_element :: "xml_element \<Rightarrow> parse_state \<Rightarrow> (frame \<times> parse_state) pkg_result" where
  "skip_element e st = bind_result (attributes e []) (\<lambda>_. Inr (Fr_Ignored, st))"

definition root_element :: "xml_element \<Rightarrow> parse_state \<Rightarrow> (frame \<times> parse_state) pkg_result" where
  "root_element e st =
     (if ps_root_closed st then Inl (nuspec_invalid ''nuspec has more than one root element'' [])
      else bind_result (attributes e []) (\<lambda>_. Inr (Fr_Root, st)))"

definition metadata_element :: "xml_element \<Rightarrow> parse_state \<Rightarrow> (frame \<times> parse_state) pkg_result" where
  "metadata_element e st =
     (if ps_metadata_seen st then Inl (nuspec_invalid ''nuspec has more than one <metadata>'' [])
      else bind_result (namespace (x_default e)) (\<lambda>ns.
           bind_result (attributes e [''minClientVersion'']) (\<lambda>vs.
           Inr (Fr_Metadata, st\<lparr>ps_metadata_seen := True, ps_metadata_ns := ns,
                  ps_nuspec := (ps_nuspec st)\<lparr>n_min_client_version := vs ''minClientVersion''\<rparr>\<rparr>))))"

definition group_element :: "xml_element \<Rightarrow> parse_state \<Rightarrow> (frame \<times> parse_state) pkg_result" where
  "group_element e st =
     bind_result (add_group (ps_counts st)) (\<lambda>c.
     bind_result (attributes e [''targetFramework'']) (\<lambda>vs.
     let groups = n_dependency_groups (ps_nuspec st) @
                    [\<lparr>dg_target_framework = vs ''targetFramework'', dg_dependencies = []\<rparr>]
     in Inr (Fr_Group (length groups - 1),
             st\<lparr>ps_counts := c, ps_nuspec := (ps_nuspec st)\<lparr>n_dependency_groups := groups\<rparr>\<rparr>)))"

definition ungrouped_dependency :: "xml_element \<Rightarrow> parse_state \<Rightarrow> (frame \<times> parse_state) pkg_result" where
  "ungrouped_dependency e st =
     bind_result (add_dependency (ps_counts st)) (\<lambda>c.
     bind_result (read_dependency e) (\<lambda>d.
     Inr (Fr_Ignored, st\<lparr>ps_counts := c, ps_ungrouped := ps_ungrouped st @ [d]\<rparr>)))"

definition grouped_dependency ::
    "nat \<Rightarrow> xml_element \<Rightarrow> parse_state \<Rightarrow> (frame \<times> parse_state) pkg_result" where
  "grouped_dependency index e st =
     bind_result (add_dependency (ps_counts st)) (\<lambda>c.
     bind_result (read_dependency e) (\<lambda>d.
     let groups = n_dependency_groups (ps_nuspec st);
         g = groups ! index
     in Inr (Fr_Ignored, st\<lparr>ps_counts := c,
               ps_nuspec := (ps_nuspec st)\<lparr>n_dependency_groups :=
                 groups[index := g\<lparr>dg_dependencies := dg_dependencies g @ [d]\<rparr>]\<rparr>\<rparr>)))"

definition package_type_element :: "xml_element \<Rightarrow> parse_state \<Rightarrow> (frame \<times> parse_state) pkg_result" where
  "package_type_element e st =
     bind_result (add_package_type (ps_counts st)) (\<lambda>c.
     bind_result (attributes e [''name'', ''version'']) (\<lambda>vs.
     Inr (Fr_Ignored, st\<lparr>ps_counts := c, ps_nuspec := (ps_nuspec st)\<lparr>n_package_types :=
            n_package_types (ps_nuspec st) @
              (case vs ''name'' of
                 Some name \<Rightarrow> [\<lparr>pt_name = name, pt_version = vs ''version''\<rparr>]
               | None \<Rightarrow> [])\<rparr>\<rparr>)))"

definition open_frame :: "bool \<Rightarrow> xml_element \<Rightarrow> parse_state \<Rightarrow> (frame \<times> parse_state) pkg_result" where
  "open_frame in_ns e st =
     (let local = x_local e
      in case ps_stack st of
           [] \<Rightarrow> root_element e st
         | Fr_Root # _ \<Rightarrow> if local = ''metadata'' then metadata_element e st else skip_element e st
         | Fr_Metadata # _ \<Rightarrow> if in_ns then metadata_child e st else skip_element e st
         | Fr_Field f # _ \<Rightarrow>
             Inl (nuspec_invalid ''nuspec field <{}> contains an element'' [field_name f])
         | Fr_Dependencies # _ \<Rightarrow>
             if in_ns \<and> local = ''group'' then group_element e st
             else if in_ns \<and> local = ''dependency'' then ungrouped_dependency e st
             else skip_element e st
         | Fr_Group index # _ \<Rightarrow>
             if in_ns \<and> local = ''dependency'' then grouped_dependency index e st
             else skip_element e st
         | Fr_PackageTypes # _ \<Rightarrow>
             if in_ns \<and> local = ''packageType'' then package_type_element e st
             else skip_element e st
         | Fr_Ignored # _ \<Rightarrow> skip_element e st)"

definition start_element :: "xml_element \<Rightarrow> parse_state \<Rightarrow> parse_state pkg_result" where
  "start_element e st =
     (if max_element_depth \<le> length (ps_stack st)
      then Inl (nuspec_invalid ''nuspec nests deeper than {MAX_ELEMENT_DEPTH} elements'' [])
      else bind_result (namespace (x_namespace e)) (\<lambda>ns.
           bind_result (open_frame (ns = ps_metadata_ns st) e st) (\<lambda>(frame, st).
           Inr (if x_empty e then st
                else st\<lparr>ps_stack := frame # ps_stack st, ps_text := []\<rparr>))))"

definition add_text :: "string \<Rightarrow> parse_state \<Rightarrow> parse_state" where
  "add_text t st = (if in_field (ps_stack st) then st\<lparr>ps_text := ps_text st @ t\<rparr> else st)"

definition end_element :: "parse_state \<Rightarrow> parse_state" where
  "end_element st =
     (let closed = (case ps_stack st of
            Fr_Field f # rest \<Rightarrow>
              let value = trim (ps_text st)
              in st\<lparr>ps_stack := rest, ps_text := [],
                    ps_nuspec := (if value = [] then ps_nuspec st else assign (ps_nuspec st) f value)\<rparr>
          | _ \<Rightarrow> st\<lparr>ps_stack := tl (ps_stack st)\<rparr>)
      in if ps_stack closed = [] then closed\<lparr>ps_root_closed := True\<rparr> else closed)"

fun parse_event :: "xml_event \<Rightarrow> parse_state \<Rightarrow> parse_state pkg_result" where
  "parse_event (Xml_Element e) st = start_element e st"
| "parse_event (Xml_Text t) st = Inr (add_text t st)"
| "parse_event (Xml_Reference name char_ref) st =
     (case resolve_reference name char_ref of
        None \<Rightarrow> Inl (nuspec_invalid ''nuspec uses an undefined entity &{};'' [name])
      | Some c \<Rightarrow> Inr (add_text c st))"
| "parse_event (Xml_CData t) st = Inr (add_text t st)"
| "parse_event Xml_DocType st = Inl (nuspec_invalid ''nuspec must not contain a DOCTYPE'' [])"
| "parse_event Xml_End st = Inr (end_element st)"
| "parse_event Xml_Other st = Inr st"

fun parse_events :: "xml_stream \<Rightarrow> parse_state \<Rightarrow> parse_state pkg_result" where
  "parse_events [] st = Inr st"
| "parse_events (Inl e # evs) st = Inl (nuspec_invalid ''malformed nuspec: {e}'' [e])"
| "parse_events (Inr ev # evs) st = bind_result (parse_event ev st) (parse_events evs)"

definition finish_nuspec :: "parse_state \<Rightarrow> nuspec pkg_result" where
  "finish_nuspec st =
     (if \<not> ps_metadata_seen st then Inl (nuspec_invalid ''nuspec has no <metadata>'' [])
      else if ps_ungrouped st \<noteq> [] \<and> n_dependency_groups (ps_nuspec st) \<noteq> [] then
        Inl (nuspec_invalid ''nuspec <dependencies> mixes <group> elements with ungrouped <dependency> elements; NuGet ignores the ungrouped ones'' [])
      else
        let n = (if ps_ungrouped st = [] then ps_nuspec st
                 else (ps_nuspec st)\<lparr>n_dependency_groups := n_dependency_groups (ps_nuspec st) @
                        [\<lparr>dg_target_framework = None, dg_dependencies = ps_ungrouped st\<rparr>]\<rparr>)
        in if trim (n_id n) = [] then Inl (nuspec_invalid ''nuspec is missing <id>'' [])
           else if trim (n_version n) = [] then Inl (nuspec_invalid ''nuspec is missing <version>'' [])
           else Inr n)"

definition parse_nuspec :: "(string \<Rightarrow> xml_stream) \<Rightarrow> string \<Rightarrow> nuspec pkg_result" where
  "parse_nuspec read xml =
     (if max_nuspec_bytes < length xml
      then Inl (nuspec_invalid ''nuspec is larger than {} KiB'' [show_nat (max_nuspec_bytes div 1024)])
      else bind_result (parse_events (read xml) parse_start) finish_nuspec)"

section \<open>What an accepted manifest satisfies\<close>

definition group_deps :: "nuspec \<Rightarrow> dependency list" where
  "group_deps n = concat (map dg_dependencies (n_dependency_groups n))"

definition has_id :: "dependency \<Rightarrow> bool" where
  "has_id d \<longleftrightarrow> trim (dep_id d) \<noteq> []"

definition trimmed :: "string \<Rightarrow> bool" where
  "trimmed s \<longleftrightarrow> trim s = s"

text \<open>
  The invariant of the machine: the depth and the totals are bounded, an open group is one
  of the groups collected, every dependency has an id, and the id and version are trimmed.
\<close>

fun frame_ok :: "nat \<Rightarrow> frame \<Rightarrow> bool" where
  "frame_ok n (Fr_Group i) \<longleftrightarrow> i < n"
| "frame_ok n _ \<longleftrightarrow> True"

definition bounded_counts :: "parse_state \<Rightarrow> bool" where
  "bounded_counts st \<longleftrightarrow>
     length (n_dependency_groups (ps_nuspec st)) \<le> c_groups (ps_counts st) \<and>
     c_groups (ps_counts st) \<le> max_dependency_groups \<and>
     length (group_deps (ps_nuspec st)) + length (ps_ungrouped st) \<le> c_dependencies (ps_counts st) \<and>
     c_dependencies (ps_counts st) \<le> max_dependencies \<and>
     length (n_package_types (ps_nuspec st)) \<le> c_package_types (ps_counts st) \<and>
     c_package_types (ps_counts st) \<le> max_package_types"

definition parse_ok :: "parse_state \<Rightarrow> bool" where
  "parse_ok st \<longleftrightarrow>
     length (ps_stack st) \<le> max_element_depth \<and> list_all (frame_ok (length (n_dependency_groups (ps_nuspec st)))) (ps_stack st) \<and>
     bounded_counts st \<and>
     list_all has_id (group_deps (ps_nuspec st)) \<and> list_all has_id (ps_ungrouped st) \<and>
     trimmed (n_id (ps_nuspec st)) \<and> trimmed (n_version (ps_nuspec st))"

text \<open>What an element may leave behind: a state as good, and a frame that fits it.\<close>

definition opened :: "parse_state \<Rightarrow> frame \<times> parse_state \<Rightarrow> bool" where
  "opened st r \<longleftrightarrow> ps_stack (snd r) = ps_stack st \<and> parse_ok (snd r) \<and>
     frame_ok (length (n_dependency_groups (ps_nuspec (snd r)))) (fst r)"

lemma frames_ok_Suc: "list_all (frame_ok n) fs \<Longrightarrow> list_all (frame_ok (Suc n)) fs"
proof -
  have "frame_ok n f \<Longrightarrow> frame_ok (Suc n) f" for f by (cases f) auto
  then show "list_all (frame_ok n) fs \<Longrightarrow> list_all (frame_ok (Suc n)) fs"
    by (auto simp: list_all_iff)
qed

lemma assign_keeps [simp]:
  "n_dependency_groups (assign n f t) = n_dependency_groups n"
  "n_package_types (assign n f t) = n_package_types n" "group_deps (assign n f t) = group_deps n"
  by (cases f; simp add: group_deps_def)+

lemma assign_trimmed:
  "trimmed (n_id n) \<Longrightarrow> trimmed (n_version n) \<Longrightarrow> trimmed t \<Longrightarrow>
   trimmed (n_id (assign n f t)) \<and> trimmed (n_version (assign n f t))"
  by (cases f) simp_all

lemma read_dependency_has_id:
  assumes "read_dependency e = Inr d"
  shows "has_id d"
proof -
  from assms obtain vs where vs: "(case vs ''id'' of
       None \<Rightarrow> Inl (nuspec_invalid ''nuspec declares a <dependency> without an id'' [])
     | Some i \<Rightarrow>
         if trim i = [] then Inl (nuspec_invalid ''nuspec declares a <dependency> without an id'' [])
         else Inr \<lparr>dep_id = i, dep_version_range = vs ''version'', dep_include = vs ''include'',
                    dep_exclude = vs ''exclude''\<rparr>) = Inr d"
    unfolding read_dependency_def bind_result_Inr by blast
  then obtain i where i: "vs ''id'' = Some i" by (cases "vs ''id''") simp_all
  then have "trim i \<noteq> []" "d = \<lparr>dep_id = i, dep_version_range = vs ''version'',
      dep_include = vs ''include'', dep_exclude = vs ''exclude''\<rparr>"
    using vs by (cases "trim i = []"; simp)+
  then show ?thesis by (simp add: has_id_def)
qed

lemmas nuspec_frames = parse_ok_def opened_def bounded_counts_def group_deps_def

lemma opened_skip: "parse_ok st \<Longrightarrow> skip_element e st = Inr r \<Longrightarrow> opened st r"
  by (auto simp: skip_element_def result_ok opened_def)

lemma opened_root: "parse_ok st \<Longrightarrow> root_element e st = Inr r \<Longrightarrow> opened st r"
  by (auto simp: root_element_def result_ok opened_def split: if_splits)

lemma opened_metadata: "parse_ok st \<Longrightarrow> metadata_element e st = Inr r \<Longrightarrow> opened st r"
  by (auto simp: metadata_element_def result_ok nuspec_frames split: if_splits)

lemma once_result: "once name st = Inr st' \<Longrightarrow> st' = st\<lparr>ps_seen := name # ps_seen st\<rparr>"
  by (auto simp: once_def split: if_splits)

lemma opened_same:
  "parse_ok st \<Longrightarrow> opened st (Fr_Metadata, st\<lparr>ps_seen := s\<rparr>)"
  "parse_ok st \<Longrightarrow> opened st (Fr_Field f, st\<lparr>ps_seen := s\<rparr>)"
  "parse_ok st \<Longrightarrow> opened st (Fr_Dependencies, st\<lparr>ps_seen := s\<rparr>)"
  "parse_ok st \<Longrightarrow> opened st (Fr_PackageTypes, st\<lparr>ps_seen := s\<rparr>)"
  "parse_ok st \<Longrightarrow> opened st (Fr_Ignored, st)"
  "parse_ok st \<Longrightarrow> opened st (Fr_Ignored, st\<lparr>ps_seen := s,
     ps_nuspec := (ps_nuspec st)\<lparr>n_repository_type := t, n_repository_url := u\<rparr>\<rparr>)"
  by (simp_all add: nuspec_frames)

lemma opened_child: "parse_ok st \<Longrightarrow> metadata_child e st = Inr r \<Longrightarrow> opened st r"
  unfolding metadata_child_def Let_def once_def
  by (auto simp: result_ok opened_same split: if_splits option.splits)

lemma opened_group: "parse_ok st \<Longrightarrow> group_element e st = Inr r \<Longrightarrow> opened st r"
  by (auto simp: group_element_def add_group_def result_ok nuspec_frames Let_def
      intro: frames_ok_Suc split: if_splits)

lemma opened_ungrouped: "parse_ok st \<Longrightarrow> ungrouped_dependency e st = Inr r \<Longrightarrow> opened st r"
  by (auto simp: ungrouped_dependency_def add_dependency_def result_ok nuspec_frames Let_def
      split: if_splits dest: read_dependency_has_id)

lemma opened_package_type: "parse_ok st \<Longrightarrow> package_type_element e st = Inr r \<Longrightarrow> opened st r"
  by (auto simp: package_type_element_def add_package_type_def result_ok nuspec_frames Let_def
      split: if_splits option.splits)

lemma grouped_lists:
  assumes "i < length gs" "gs' = gs[i := (gs ! i)\<lparr>dg_dependencies := dg_dependencies (gs ! i) @ [d]\<rparr>]"
  shows "length (concat (map dg_dependencies gs')) = Suc (length (concat (map dg_dependencies gs)))"
    "list_all has_id (concat (map dg_dependencies gs'))
       = (list_all has_id (concat (map dg_dependencies gs)) \<and> has_id d)"
    "length gs' = length gs"
  unfolding assms(2) using assms(1)
  by (induction gs arbitrary: i) (auto split: nat.splits)

lemma opened_grouped:
  assumes "parse_ok st" "i < length (n_dependency_groups (ps_nuspec st))"
    "grouped_dependency i e st = Inr r"
  shows "opened st r"
proof -
  let ?gs = "n_dependency_groups (ps_nuspec st)"
  from assms(3) obtain c d where c: "add_dependency (ps_counts st) = Inr c"
    and d: "read_dependency e = Inr d"
    and r: "r = (Fr_Ignored, st\<lparr>ps_counts := c,
               ps_nuspec := (ps_nuspec st)\<lparr>n_dependency_groups :=
                 ?gs[i := (?gs ! i)\<lparr>dg_dependencies := dg_dependencies (?gs ! i) @ [d]\<rparr>]\<rparr>\<rparr>)"
    by (auto simp: grouped_dependency_def result_ok Let_def)
  note lists = grouped_lists [OF assms(2) refl, of d]
  from c have "c = (ps_counts st)\<lparr>c_dependencies := c_dependencies (ps_counts st) + 1\<rparr>"
    "c_dependencies (ps_counts st) + 1 \<le> max_dependencies"
    by (auto simp: add_dependency_def Let_def split: if_splits)
  then show ?thesis
    using assms(1) lists read_dependency_has_id [OF d] by (simp add: r nuspec_frames)
qed

lemma opened_frame: "parse_ok st \<Longrightarrow> open_frame in_ns e st = Inr r \<Longrightarrow> opened st r"
  unfolding open_frame_def Let_def
  by (auto split: list.splits frame.splits if_splits
      intro: opened_skip opened_root opened_metadata opened_child opened_group opened_ungrouped
        opened_package_type)
    (rule opened_grouped; simp add: parse_ok_def)

lemma start_element_ok:
  assumes "parse_ok st" "start_element e st = Inr st'"
  shows "parse_ok st'"
proof -
  from assms(2) obtain in_ns f s where o: "open_frame in_ns e st = Inr (f, s)"
    and depth: "\<not> max_element_depth \<le> length (ps_stack st)"
    and st': "st' = (if x_empty e then s else s\<lparr>ps_stack := f # ps_stack s, ps_text := []\<rparr>)"
    by (auto simp: start_element_def result_ok split: if_splits)
  note opened = opened_frame [OF assms(1) o]
  then show ?thesis using depth by (auto simp: st' nuspec_frames)
qed

lemma end_element_ok:
  assumes "parse_ok st"
  shows "parse_ok (end_element st)"
proof -
  have closed: "parse_ok (st\<lparr>ps_stack := tl (ps_stack st)\<rparr>)"
    using assms by (cases "ps_stack st") (simp_all add: nuspec_frames)
  have field: "parse_ok (st\<lparr>ps_stack := tl (ps_stack st), ps_text := [],
      ps_nuspec := assign (ps_nuspec st) f (trim (ps_text st))\<rparr>)" for f
    using closed assign_trimmed [of "ps_nuspec st" "trim (ps_text st)" f]
    by (auto simp: nuspec_frames trimmed_def assign_keeps(3) [unfolded group_deps_def])
  have root: "parse_ok (s\<lparr>ps_root_closed := True\<rparr>) = parse_ok s" for s
    by (simp add: nuspec_frames)
  have texts: "parse_ok (s\<lparr>ps_text := t\<rparr>) = parse_ok s" for s t by (simp add: nuspec_frames)
  show ?thesis
    using closed field
    by (auto simp: end_element_def Let_def root texts split: list.splits frame.splits)
qed

lemma add_text_ok: "parse_ok st \<Longrightarrow> parse_ok (add_text t st)"
  by (simp add: add_text_def nuspec_frames)

lemma parse_event_ok: "parse_ok st \<Longrightarrow> parse_event ev st = Inr st' \<Longrightarrow> parse_ok st'"
  by (cases ev) (auto simp: end_element_ok add_text_ok intro: start_element_ok split: option.splits)

lemma parse_events_ok: "parse_ok st \<Longrightarrow> parse_events evs st = Inr st' \<Longrightarrow> parse_ok st'"
  by (induction evs st rule: parse_events.induct) (auto simp: result_ok intro: parse_event_ok)

lemma parse_start_ok: "parse_ok parse_start"
  by (simp add: parse_start_def empty_nuspec_def nuspec_frames trimmed_def)

text \<open>
  C33: Whatever bytes a manifest has and whatever the XML reader yields for them, the parser
  answers, and a manifest it accepts has an id and a version that are trimmed and not blank,
  at most 512 dependency groups, at most 10 000 dependencies, each with an id that is not
  blank, and at most 64 package types.
\<close>

theorem accepted_manifest:
  assumes "parse_nuspec read xml = Inr n"
  shows "n_id n \<noteq> [] \<and> trimmed (n_id n) \<and> n_version n \<noteq> [] \<and> trimmed (n_version n) \<and>
         length xml \<le> max_nuspec_bytes \<and>
         length (n_dependency_groups n) \<le> max_dependency_groups \<and>
         length (group_deps n) \<le> max_dependencies \<and> list_all has_id (group_deps n) \<and>
         length (n_package_types n) \<le> max_package_types"
proof -
  from assms obtain st where st: "parse_events (read xml) parse_start = Inr st"
    and fin: "finish_nuspec st = Inr n" and len: "length xml \<le> max_nuspec_bytes"
    by (auto simp: parse_nuspec_def result_ok split: if_splits)
  note inv = parse_events_ok [OF parse_start_ok st]
  from fin have ids: "trim (n_id n) \<noteq> []" "trim (n_version n) \<noteq> []"
    and n: "ps_ungrouped st = [] \<and> n = ps_nuspec st \<or>
      n_dependency_groups (ps_nuspec st) = [] \<and>
      n = (ps_nuspec st)\<lparr>n_dependency_groups :=
             [\<lparr>dg_target_framework = None, dg_dependencies = ps_ungrouped st\<rparr>]\<rparr>"
    by (auto simp: finish_nuspec_def Let_def split: if_splits)
  from n show ?thesis
    using inv ids len
    by (auto simp: nuspec_frames trimmed_def max_dependency_groups_def)
qed

text \<open>A manifest for the examples, and two documents with more or less than one whole root.\<close>

definition plain_element :: "string \<Rightarrow> xml_element" where
  "plain_element name =
     \<lparr>x_empty = False, x_local = name, x_namespace = Ns_Unbound, x_default = Ns_Unbound,
      x_attributes = []\<rparr>"

definition field_events :: "string \<Rightarrow> string \<Rightarrow> xml_stream" where
  "field_events name t = map Inr [Xml_Element (plain_element name), Xml_Text t, Xml_End]"

definition open_manifest :: xml_stream where
  "open_manifest =
     map Inr [Xml_Element (plain_element ''package''), Xml_Element (plain_element ''metadata'')]
     @ field_events ''id'' ''Pkg'' @ field_events ''version'' ''1.2.0'' @
     map Inr [Xml_Element (plain_element ''dependencies''),
       Xml_Element ((plain_element ''dependency'')\<lparr>x_empty := True,
         x_attributes := [Inr (''id'', ''Dep''), Inr (''version'', ''1.0'')]\<rparr>), Xml_End]"

definition read_manifest :: nuspec where
  "read_manifest = empty_nuspec\<lparr>n_id := ''Pkg'', n_version := ''1.2.0'',
     n_dependency_groups := [\<lparr>dg_target_framework = None, dg_dependencies =
       [\<lparr>dep_id = ''Dep'', dep_version_range = Some ''1.0'', dep_include = None,
         dep_exclude = None\<rparr>]\<rparr>]\<rparr>"

lemmas nuspec_eval =
  parse_nuspec_def open_manifest_def field_events_def plain_element_def parse_start_def
  start_element_def open_frame_def root_element_def metadata_element_def metadata_child_def
  once_def ungrouped_dependency_def read_dependency_def add_dependency_def attributes_def
  namespace_def skip_element_def add_text_def in_field_def end_element_def finish_nuspec_def
  field_table_def max_element_depth_def max_attributes_def max_dependencies_def
  trim_ends is_graphic_def empty_nuspec_def read_manifest_def max_nuspec_bytes_def

theorem accepted_manifest_witness:
  "parse_nuspec (\<lambda>_. open_manifest @ [Inr Xml_End, Inr Xml_End]) ''<package>'' = Inr read_manifest
   \<and> length (group_deps read_manifest) \<le> max_dependencies"
proof -
  have "parse_nuspec (\<lambda>_. open_manifest @ [Inr Xml_End, Inr Xml_End]) ''<package>'' = Inr read_manifest"
    by (simp add: nuspec_eval)
  then show ?thesis using accepted_manifest by blast
qed

text \<open>
  A document that ends with its elements still open is read like the whole one, and a second
  root is accepted after one that closes itself.
\<close>

lemma unclosed_manifest_accepted: "parse_nuspec (\<lambda>_. open_manifest) ''<package>'' = Inr read_manifest"
  by (simp add: nuspec_eval)

lemma second_root_accepted:
  "parse_nuspec (\<lambda>_. Inr (Xml_Element ((plain_element ''package'')\<lparr>x_empty := True\<rparr>))
       # open_manifest @ [Inr Xml_End, Inr Xml_End]) ''<package/>'' = Inr read_manifest"
  by (simp add: nuspec_eval)

end
