(* ===== verification/Archive.thy ===== *)
theory Archive
  imports Nuspec
begin

text \<open>
  Reading a package archive (\<open>src/crates/yanuget-pkg/src/nupkg.rs\<close>): the check that the
  central directory means the same to every reader, on the bytes of the file, and what is
  read through the ZIP library once it passed. The library is a parameter: what it makes of
  the bytes, an error or where it found the directory and the entries it kept.
\<close>

section \<open>Little-endian numbers\<close>

fun le_value :: "string \<Rightarrow> nat" where
  "le_value [] = 0"
| "le_value (c # cs) = byte c + 256 * le_value cs"

definition bytes_at :: "string \<Rightarrow> nat \<Rightarrow> nat \<Rightarrow> string" where
  "bytes_at buf at n = take n (drop at buf)"

definition u16_at :: "string \<Rightarrow> nat \<Rightarrow> nat" where
  "u16_at buf at = le_value (bytes_at buf at 2)"

definition u32_at :: "string \<Rightarrow> nat \<Rightarrow> nat" where
  "u32_at buf at = le_value (bytes_at buf at 4)"

definition u64_at :: "string \<Rightarrow> nat \<Rightarrow> nat" where
  "u64_at buf at = le_value (bytes_at buf at 8)"

definition u16_max :: nat where
  "u16_max = 65535"

definition u32_max :: nat where
  "u32_max = 4294967295"

definition checked_add_u64 :: "nat \<Rightarrow> nat \<Rightarrow> nat option" where
  "checked_add_u64 a b = (if a + b < 2 ^ 64 then Some (a + b) else None)"

section \<open>The central directory\<close>

definition max_archive_entries :: nat where
  "max_archive_entries = 100000"

definition eocd_search_window :: nat where
  "eocd_search_window = 22 + 65535"

definition eocd_signature :: string where
  "eocd_signature = [CHR ''P'', CHR ''K'', CHR 0x05, CHR 0x06]"

definition zip64_locator_signature :: string where
  "zip64_locator_signature = [CHR ''P'', CHR ''K'', CHR 0x06, CHR 0x07]"

definition zip64_eocd_signature :: string where
  "zip64_eocd_signature = [CHR ''P'', CHR ''K'', CHR 0x06, CHR 0x06]"

definition central_header_signature :: string where
  "central_header_signature = [CHR ''P'', CHR ''K'', CHR 0x01, CHR 0x02]"

record central_directory =
  cd_offset :: nat
  cd_records :: nat

definition zip_invalid :: "string \<Rightarrow> string list \<Rightarrow> pkg_error" where
  "zip_invalid why args = Pkg_InvalidPackage (Msg why args)"

definition ambiguous :: "string \<Rightarrow> pkg_error" where
  "ambiguous what = zip_invalid
     ''archive's central directory is inconsistent ({what}), so readers would disagree about its entries; it is refused''
     [what]"

text \<open>\<open>windows(4).rposition(\<dots>)\<close>: where the last copy of a signature starts.\<close>

fun last_window :: "string \<Rightarrow> string \<Rightarrow> nat option" where
  "last_window sig [] = None"
| "last_window sig (c # s) =
     (case last_window sig s of
        Some n \<Rightarrow> Some (Suc n)
      | None \<Rightarrow> if take (length sig) (c # s) = sig then Some 0 else None)"

text \<open>What the end records say.\<close>

record end_record =
  er_disk :: nat
  er_directory_disk :: nat
  er_on_disk :: nat
  er_total :: nat
  er_size :: nat
  er_offset :: nat

definition narrow_record :: "string \<Rightarrow> end_record" where
  "narrow_record eocd =
     \<lparr>er_disk = u16_at eocd 4, er_directory_disk = u16_at eocd 6, er_on_disk = u16_at eocd 8,
      er_total = u16_at eocd 10, er_size = u32_at eocd 12, er_offset = u32_at eocd 16\<rparr>"

definition wide_record :: "string \<Rightarrow> end_record" where
  "wide_record rec =
     \<lparr>er_disk = u32_at rec 16, er_directory_disk = u32_at rec 20, er_on_disk = u64_at rec 24,
      er_total = u64_at rec 32, er_size = u64_at rec 40, er_offset = u64_at rec 48\<rparr>"

text \<open>Each field of the 32-bit record, with the largest value it can hold, which stands for the other.\<close>

definition narrow_pairs :: "end_record \<Rightarrow> end_record \<Rightarrow> (nat \<times> nat \<times> nat) list" where
  "narrow_pairs n w =
     [(er_disk n, er_disk w, u16_max), (er_directory_disk n, er_directory_disk w, u16_max),
      (er_on_disk n, er_on_disk w, u16_max), (er_total n, er_total w, u16_max),
      (er_size n, er_size w, u32_max), (er_offset n, er_offset w, u32_max)]"

definition saturated :: "end_record \<Rightarrow> bool" where
  "saturated n \<longleftrightarrow> list_ex (\<lambda>(a, _, top). a = top) (narrow_pairs n n)"

text \<open>The ZIP64 record in front of the end record, and what bounds the directory.\<close>

definition find_zip64 :: "string \<Rightarrow> nat \<Rightarrow> pkg_error + (end_record option \<times> nat)" where
  "find_zip64 file eocd_at =
     (if eocd_at < 20 then Inr (None, eocd_at)
      else let locator = bytes_at file (eocd_at - 20) 20
           in if take 4 locator \<noteq> zip64_locator_signature then Inr (None, eocd_at)
              else let record_at = u64_at locator 8
                   in if (case checked_add_u64 record_at 56 of
                            None \<Rightarrow> True | Some e \<Rightarrow> eocd_at - 20 < e)
                      then Inl (ambiguous ''ZIP64 record out of bounds'')
                      else let rec = bytes_at file record_at 56
                           in if take 4 rec \<noteq> zip64_eocd_signature
                              then Inl (ambiguous ''ZIP64 locator points at no record'')
                              else Inr (Some (wide_record rec), record_at))"

definition agreed_record :: "end_record \<Rightarrow> end_record option \<Rightarrow> pkg_error + end_record" where
  "agreed_record narrow zip64 =
     (case zip64 of
        Some wide \<Rightarrow>
          if list_ex (\<lambda>(n, w, top). n \<noteq> top \<and> n \<noteq> w) (narrow_pairs narrow wide)
          then Inl (ambiguous ''ZIP64 record disagrees with the 32-bit one'') else Inr wide
      | None \<Rightarrow>
          if saturated narrow then Inl (ambiguous ''ZIP64 fields without a ZIP64 record'')
          else Inr narrow)"

text \<open>The records are walked, one header and its variable part at a time.\<close>

function walk_records :: "nat \<Rightarrow> string \<Rightarrow> nat \<Rightarrow> nat \<Rightarrow> pkg_error + (nat \<times> nat)" where
  "walk_records declared buf records walked =
     (if length buf < 4 \<or> take 4 buf \<noteq> central_header_signature then Inr (records, walked)
      else if declared < records + 1 then Inl (ambiguous ''more records than declared'')
      else if length buf < 46 then Inl (ambiguous ''truncated record'')
      else let variable = u16_at buf 28 + u16_at buf 30 + u16_at buf 32
           in if length buf < 46 + variable then Inl (ambiguous ''truncated record'')
              else walk_records declared (drop (46 + variable) buf) (records + 1)
                     (walked + 46 + variable))"
  by pat_completeness auto
termination by (relation "measure (\<lambda>(_, buf, _). length buf)") (auto simp: Let_def)

declare walk_records.simps [simp del]

definition saturating_add_u64 :: "nat \<Rightarrow> nat \<Rightarrow> nat" where
  "saturating_add_u64 a b = min (a + b) (2 ^ 64 - 1)"

definition directory_bytes :: "string \<Rightarrow> end_record \<Rightarrow> string" where
  "directory_bytes file r = bytes_at file (er_offset r) (saturating_add_u64 (er_size r) 4)"

definition check_directory :: "string \<Rightarrow> end_record \<Rightarrow> nat \<Rightarrow> pkg_error + central_directory" where
  "check_directory file r directory_limit =
     (if er_disk r \<noteq> 0 \<or> er_directory_disk r \<noteq> 0
      then Inl (zip_invalid ''multi-disk archives are not supported'' [])
      else if er_on_disk r \<noteq> er_total r
      then Inl (ambiguous ''entries on this disk differ from the total'')
      else if max_archive_entries < er_total r
      then Inl (zip_invalid ''archive declares {total} entries, more than the {MAX_ARCHIVE_ENTRIES} allowed''
                  [show_nat (er_total r)])
      else if (case checked_add_u64 (er_offset r) (er_size r) of
                 None \<Rightarrow> True | Some e \<Rightarrow> directory_limit < e)
      then Inl (ambiguous ''directory runs past its end record'')
      else bind_result (walk_records (er_total r) (directory_bytes file r) 0 0) (\<lambda>(records, walked).
           if records \<noteq> er_total r then Inl (ambiguous ''fewer records than declared'')
           else if walked \<noteq> er_size r
           then Inl (ambiguous ''records do not fill the declared directory size'')
           else Inr \<lparr>cd_offset = er_offset r, cd_records = records\<rparr>))"

definition check_central_directory :: "string \<Rightarrow> pkg_error + central_directory" where
  "check_central_directory file =
     (let window = min eocd_search_window (length file);
          tail_start = length file - window;
          tail = drop tail_start file
      in case last_window eocd_signature tail of
           None \<Rightarrow> Inl (zip_invalid ''not a valid zip/nupkg: no end of central directory'' [])
         | Some pos \<Rightarrow>
             if length tail < pos + 22
             then Inl (zip_invalid ''not a valid zip/nupkg: no end of central directory'' [])
             else let eocd_at = tail_start + pos
                  in bind_result (find_zip64 file eocd_at) (\<lambda>(zip64, limit).
                     bind_result (agreed_record (narrow_record (bytes_at tail pos 22)) zip64) (\<lambda>r.
                     check_directory file r limit)))"

section \<open>The archive\<close>

text \<open>
  An entry has the name the directory gives it, if it can be decoded, and opens to an error or
  its declared size and the bytes it inflates to, with the error that follows them, if any.
\<close>

record zip_entry =
  ze_name :: "string + string"
  ze_open :: "string + nat \<times> string \<times> string option"

record zip_archive =
  z_start :: nat
  z_entries :: "zip_entry list"

type_synonym zip_library = "string \<Rightarrow> string + zip_archive"

definition entry_name :: "zip_entry \<Rightarrow> pkg_error + string" where
  "entry_name e =
     map_err (\<lambda>why. zip_invalid ''an entry name cannot be decoded: {e}'' [why]) (ze_name e)"

definition normalize_entry :: "string \<Rightarrow> string" where
  "normalize_entry name =
     to_ascii_lowercase (map (\<lambda>c. if c = CHR 0x5C then CHR ''/'' else c) name)"

definition reject_duplicate_entries :: "nat \<Rightarrow> nat \<Rightarrow> pkg_error + unit" where
  "reject_duplicate_entries records unique =
     (if records \<noteq> unique
      then Inl (zip_invalid ''archive names the same entry more than once ({records} records, {unique} distinct names); readers disagree about which one wins, so it is refused''
                  [show_nat records, show_nat unique])
      else Inr ())"

fun reject_colliding :: "string list \<Rightarrow> zip_entry list \<Rightarrow> pkg_error + unit" where
  "reject_colliding seen [] = Inr ()"
| "reject_colliding seen (e # es) =
     bind_result (entry_name e) (\<lambda>name.
     let norm_name = normalize_entry name
     in if ends_with norm_name ''/'' then reject_colliding seen es
        else if List.member seen norm_name
        then Inl (zip_invalid ''archive names {name} more than once (differing only in case or path separators); they would extract to the same file, so it is refused'' [name])
        else reject_colliding (norm_name # seen) es)"

definition open_archive :: "zip_library \<Rightarrow> string \<Rightarrow> pkg_error + zip_archive" where
  "open_archive lib file =
     bind_result (check_central_directory file) (\<lambda>directory.
     bind_result (map_err (\<lambda>e. zip_invalid ''not a valid zip/nupkg: {e}'' [e]) (lib file)) (\<lambda>archive.
     if z_start archive \<noteq> cd_offset directory
     then Inl (zip_invalid ''archive's central directory is ambiguous (readers would disagree about where it starts), so it is refused'' [])
     else bind_result (reject_duplicate_entries (cd_records directory) (length (z_entries archive))) (\<lambda>_.
          bind_result (reject_colliding [] (z_entries archive)) (\<lambda>_. Inr archive))))"

section \<open>Reading entries\<close>

text \<open>\<open>take(n)\<close> of an entry's bytes: the error behind them is met only when they run out first.\<close>

definition read_limited :: "nat \<Rightarrow> string \<times> string option \<Rightarrow> string + string" where
  "read_limited n data =
     (case data of (bytes, failure) \<Rightarrow>
        if n \<le> length bytes then Inr (take n bytes)
        else (case failure of Some e \<Rightarrow> Inl e | None \<Rightarrow> Inr bytes))"

record archive_contents =
  ac_nuspec_xml :: string
  ac_entry_names :: "string list"

definition archive_contains :: "archive_contents \<Rightarrow> string \<Rightarrow> bool" where
  "archive_contains a path = List.member (ac_entry_names a) (normalize_entry path)"

definition is_root_nuspec :: "string \<Rightarrow> bool" where
  "is_root_nuspec norm_name \<longleftrightarrow> ends_with norm_name ''.nuspec'' \<and> CHR ''/'' \<notin> set norm_name"

fun scan_names ::
    "nat \<Rightarrow> zip_entry list \<Rightarrow> nat option \<Rightarrow> string list \<Rightarrow> pkg_error + (nat option \<times> string list)" where
  "scan_names i [] found names = Inr (found, names)"
| "scan_names i (e # es) found names =
     bind_result (entry_name e) (\<lambda>name.
     let norm_name = normalize_entry name
     in if is_root_nuspec norm_name then
          if found \<noteq> None
          then Inl (zip_invalid ''package contains more than one root .nuspec'' [])
          else scan_names (i + 1) es (Some i) (names @ [norm_name])
        else scan_names (i + 1) es found (names @ [norm_name]))"

text \<open>\<open>utf8\<close> says whether bytes are UTF-8 text, as the standard library does.\<close>

definition read_archive :: "zip_library \<Rightarrow> (string \<Rightarrow> bool) \<Rightarrow> string \<Rightarrow> pkg_error + archive_contents" where
  "read_archive lib utf8 file =
     bind_result (open_archive lib file) (\<lambda>archive.
     bind_result (scan_names 0 (z_entries archive) None []) (\<lambda>(found, names).
     case found of
       None \<Rightarrow> Inl (zip_invalid ''package contains no .nuspec'' [])
     | Some idx \<Rightarrow>
         bind_result (map_err (\<lambda>e. zip_invalid ''could not open nuspec: {e}'' [e])
                        (ze_open (z_entries archive ! idx))) (\<lambda>(size, data).
         if max_nuspec_bytes < size then Inl (zip_invalid ''nuspec is implausibly large'' [])
         else bind_result (map_err (\<lambda>e. zip_invalid ''nuspec is not valid UTF-8: {e}'' [e])
                             (read_limited max_nuspec_bytes data)) (\<lambda>buf.
              if \<not> utf8 buf then Inl (zip_invalid ''nuspec is not valid UTF-8: {e}'' [])
              else Inr \<lparr>ac_nuspec_xml = buf, ac_entry_names = names\<rparr>))))"

definition entry_index :: "zip_entry list \<Rightarrow> string \<Rightarrow> nat option" where
  "entry_index es norm_name =
     find (\<lambda>i. case ze_name (es ! i) of Inr name \<Rightarrow> normalize_entry name = norm_name | Inl _ \<Rightarrow> False)
       [0..<length es]"

definition extract_file :: "zip_library \<Rightarrow> string \<Rightarrow> string \<Rightarrow> nat \<Rightarrow> pkg_error + string option" where
  "extract_file lib file name max_bytes =
     bind_result (open_archive lib file) (\<lambda>archive.
     case entry_index (z_entries archive) (normalize_entry name) of
       None \<Rightarrow> Inr None
     | Some idx \<Rightarrow>
         bind_result (map_err (\<lambda>e. zip_invalid ''could not open entry: {e}'' [e])
                        (ze_open (z_entries archive ! idx))) (\<lambda>(size, data).
         bind_result (entry_name (z_entries archive ! idx)) (\<lambda>name.
         let too_large = zip_invalid ''package entry {name} is larger than the {} KiB allowed for it''
                           [name, show_nat (max_bytes div 1024)]
         in if max_bytes < size then Inl too_large
            else bind_result (map_err (\<lambda>e. zip_invalid ''could not read {name}: {e}'' [name, e])
                                (read_limited (saturating_add_u64 max_bytes 1) data)) (\<lambda>buf.
                 if max_bytes < length buf then Inl too_large else Inr (Some buf)))))"

text \<open>A manifest that inflates past the cap is cut there, and the error behind the cut is not met.\<close>

lemma long_nuspec_cut_short:
  "max_nuspec_bytes \<le> length bytes \<Longrightarrow>
   read_limited max_nuspec_bytes (bytes, failure) = Inr (take max_nuspec_bytes bytes)"
  by (simp add: read_limited_def)

text \<open>Only the last signature is looked at, whether or not a record fits behind it.\<close>

lemma last_signature_without_room:
  assumes "length file \<le> eocd_search_window" "last_window eocd_signature file = Some pos"
    "length file < pos + 22"
  shows "\<not> is_ok (check_central_directory file)"
  using assms by (simp add: check_central_directory_def min_absorb2)

section \<open>What a checked directory is\<close>

definition central_record :: "string \<Rightarrow> bool" where
  "central_record rec \<longleftrightarrow>
     take 4 rec = central_header_signature \<and>
     length rec = 46 + u16_at rec 28 + u16_at rec 30 + u16_at rec 32"

text \<open>A field of the 32-bit end record agrees with a value, or defers to the 64-bit one.\<close>

definition field_says :: "nat \<Rightarrow> nat \<Rightarrow> nat \<Rightarrow> bool" where
  "field_says narrow most value \<longleftrightarrow> narrow = value \<or> narrow = most"

lemma bytes_at_take: "at + n \<le> m \<Longrightarrow> bytes_at (take m buf) at n = bytes_at buf at n"
  by (simp add: bytes_at_def take_drop min_def)

lemma walk_records_split:
  assumes "walk_records declared buf records walked = Inr (r, w)"
  shows "\<exists>recs rest. buf = concat recs @ rest \<and> list_all central_record recs \<and>
           r = records + length recs \<and> w = walked + length (concat recs) \<and>
           (length rest < 4 \<or> take 4 rest \<noteq> central_header_signature)"
  using assms
proof (induction declared buf records walked rule: walk_records.induct)
  case (1 declared buf records walked)
  let ?variable = "u16_at buf 28 + u16_at buf 30 + u16_at buf 32"
  show ?case
  proof (cases "length buf < 4 \<or> take 4 buf \<noteq> central_header_signature")
    case True
    then have "r = records \<and> w = walked" using 1(2) by (auto simp: walk_records.simps [of declared buf])
    then show ?thesis using True by (intro exI [of _ "[]"] exI [of _ buf]) simp
  next
    case False
    then have long: "\<not> declared < records + 1" "\<not> length buf < 46" "\<not> length buf < 46 + ?variable"
      and run: "walk_records declared (drop (46 + ?variable) buf) (records + 1) (walked + 46 + ?variable)
                  = Inr (r, w)"
      using 1(2) by (auto simp: walk_records.simps [of declared buf] Let_def split: if_splits)
    obtain recs rest where rest: "drop (46 + ?variable) buf = concat recs @ rest"
      "list_all central_record recs" "r = records + 1 + length recs"
      "w = walked + 46 + ?variable + length (concat recs)"
      "length rest < 4 \<or> take 4 rest \<noteq> central_header_signature"
      using 1(1) [OF False long(1,2) refl long(3) run] by blast
    let ?rec = "take (46 + ?variable) buf"
    have "central_record ?rec"
      using False long by (simp add: central_record_def u16_at_def bytes_at_take min_def)
    moreover have "buf = ?rec @ concat recs @ rest" using rest(1) by (metis append_take_drop_id)
    ultimately show ?thesis
      using rest long by (intro exI [of _ "?rec # recs"] exI [of _ rest]) simp
  qed
qed

lemma last_window_Some:
  assumes "last_window sig s = Some n" "sig \<noteq> []"
  shows "take (length sig) (drop n s) = sig \<and> (\<forall>m > n. take (length sig) (drop m s) \<noteq> sig)"
  using assms
proof (induction s arbitrary: n)
  case (Cons c s)
  show ?case
  proof (cases "last_window sig s")
    case (Some k)
    then have n: "n = Suc k" using Cons.prems by simp
    have "take (length sig) (drop m (c # s)) \<noteq> sig" if "m > n" for m
      using Cons.IH [OF Some Cons.prems(2)] that n by (cases m) auto
    then show ?thesis using Cons.IH [OF Some Cons.prems(2)] n by simp
  next
    case None
    have no: "take (length sig) (drop m s) \<noteq> sig" for m
      using None Cons.prems(2) by (induction s arbitrary: m) (auto split: option.splits if_splits simp: drop_Cons split: nat.splits)
    have n: "n = 0" "take (length sig) (c # s) = sig" using Cons.prems None by (auto split: if_splits)
    have "take (length sig) (drop m (c # s)) \<noteq> sig" if "m > n" for m
      using no that by (cases m) auto
    then show ?thesis using n by simp
  qed
qed simp

definition end_record_at :: "string \<Rightarrow> nat \<Rightarrow> bool" where
  "end_record_at file e \<longleftrightarrow>
     take 4 (drop e file) = eocd_signature \<and> e + 22 \<le> length file \<and>
     (\<forall>m > e. take 4 (drop m file) \<noteq> eocd_signature)"

text \<open>Every field of an end record says the values of the directory, or defers.\<close>

definition end_record_says :: "end_record \<Rightarrow> nat \<Rightarrow> nat \<Rightarrow> nat \<Rightarrow> bool" where
  "end_record_says n records len offset \<longleftrightarrow>
     field_says (er_disk n) u16_max 0 \<and> field_says (er_directory_disk n) u16_max 0 \<and>
     field_says (er_on_disk n) u16_max records \<and> field_says (er_total n) u16_max records \<and>
     field_says (er_size n) u32_max len \<and> field_says (er_offset n) u32_max offset"

lemma find_zip64_limit: "find_zip64 file e = Inr (z, limit) \<Longrightarrow> limit \<le> e"
  by (auto simp: find_zip64_def Let_def checked_add_u64_def split: if_splits option.splits)

lemma agreed_record_says:
  assumes "agreed_record n z = Inr r" "er_disk r = 0" "er_directory_disk r = 0" "er_on_disk r = er_total r"
  shows "end_record_says n (er_total r) (er_size r) (er_offset r)"
  using assms
  by (auto simp: agreed_record_def end_record_says_def field_says_def narrow_pairs_def saturated_def
      split: option.splits if_splits)

lemma check_directory_split:
  assumes "check_directory file r limit = Inr d" "limit \<le> e" "e + 22 \<le> length file" "length file < 2 ^ 63"
  shows "er_disk r = 0 \<and> er_directory_disk r = 0 \<and> er_on_disk r = er_total r \<and>
         er_total r \<le> max_archive_entries \<and> er_offset r + er_size r \<le> e \<and>
         d = \<lparr>cd_offset = er_offset r, cd_records = er_total r\<rparr> \<and>
         (\<exists>recs. list_all central_record recs \<and> length recs = er_total r \<and>
            bytes_at file (er_offset r) (er_size r) = concat recs \<and> length (concat recs) = er_size r \<and>
            take 4 (drop (er_offset r + er_size r) file) \<noteq> central_header_signature)"
proof -
  from assms(1) have r: "er_disk r = 0" "er_directory_disk r = 0" "er_on_disk r = er_total r"
      "er_total r \<le> max_archive_entries" "er_offset r + er_size r \<le> limit"
      "d = \<lparr>cd_offset = er_offset r, cd_records = er_total r\<rparr>"
    and walk: "walk_records (er_total r) (directory_bytes file r) 0 0 = Inr (er_total r, er_size r)"
    by (auto simp: check_directory_def result_ok checked_add_u64_def split: if_splits option.splits)
  from walk_records_split [OF walk] obtain recs rest where
    recs: "directory_bytes file r = concat recs @ rest" "list_all central_record recs"
      "er_total r = length recs" "er_size r = length (concat recs)"
    and rest: "length rest < 4 \<or> take 4 rest \<noteq> central_header_signature"
    by auto
  have "er_offset r + er_size r + 22 \<le> length file" using r(5) assms(2,3) by simp
  moreover from this have "saturating_add_u64 (er_size r) 4 = er_size r + 4"
    using assms(4) by (simp add: saturating_add_u64_def)
  ultimately have buf: "directory_bytes file r =
      bytes_at file (er_offset r) (er_size r) @ take 4 (drop (er_offset r + er_size r) file)"
    and len: "length (bytes_at file (er_offset r) (er_size r)) = er_size r"
      "length (take 4 (drop (er_offset r + er_size r) file)) = 4"
    by (simp_all add: directory_bytes_def bytes_at_def take_add add.commute)
  with recs(1,4) have "bytes_at file (er_offset r) (er_size r) = concat recs"
    "rest = take 4 (drop (er_offset r + er_size r) file)"
    by (metis append_eq_append_conv)+
  then show ?thesis using r recs(2-4) rest len(2) assms(2) by auto
qed

text \<open>
  C9: A directory that passes the check means one thing. The file is some bytes, then
  exactly as many central records as the check counts, then bytes that do not start with
  another record, so a reader that stops at the declared count and one that reads until the
  signatures stop see the same records. They lie before the last end record of the file, and
  every field of that end record says the number of records, their size in bytes and their
  offset, or holds the value that defers to the 64-bit record.
\<close>

theorem directory_means_one_thing:
  assumes "check_central_directory file = Inr d" "length file < 2 ^ 63"
  shows "\<exists>before recs after e. file = before @ concat recs @ after \<and>
           length before = cd_offset d \<and> length recs = cd_records d \<and>
           list_all central_record recs \<and> cd_records d \<le> max_archive_entries \<and>
           take 4 after \<noteq> central_header_signature \<and>
           length before + length (concat recs) \<le> e \<and> end_record_at file e \<and>
           end_record_says (narrow_record (bytes_at file e 22)) (length recs)
             (length (concat recs)) (length before)"
proof -
  define start where "start = length file - min eocd_search_window (length file)"
  from assms(1) obtain pos z limit r where
    pos: "last_window eocd_signature (drop start file) = Some pos"
    and room: "\<not> length (drop start file) < pos + 22"
    and z: "find_zip64 file (start + pos) = Inr (z, limit)"
    and r: "agreed_record (narrow_record (bytes_at (drop start file) pos 22)) z = Inr r"
    and d: "check_directory file r limit = Inr d"
    unfolding check_central_directory_def Let_def start_def [symmetric]
    by (auto simp: result_ok split: option.splits if_splits simp del: length_drop)
  let ?e = "start + pos"
  have e22: "?e + 22 \<le> length file" using room by simp
  have four: "length eocd_signature = 4" by (simp add: eocd_signature_def)
  have "eocd_signature \<noteq> []" by (simp add: eocd_signature_def)
  note last = last_window_Some [OF pos this, unfolded four drop_drop]
  have "take 4 (drop m file) \<noteq> eocd_signature" if "m > ?e" for m
    using last [THEN conjunct2, rule_format, of "m - start"] that by simp
  moreover have "take 4 (drop ?e file) = eocd_signature"
    using last by (simp add: add.commute)
  ultimately have at_end: "end_record_at file ?e" using e22 by (simp add: end_record_at_def)
  from check_directory_split [OF d find_zip64_limit [OF z] e22 assms(2)] obtain recs where
    zero: "er_disk r = 0" "er_directory_disk r = 0" "er_on_disk r = er_total r"
    and bound: "er_total r \<le> max_archive_entries" "er_offset r + er_size r \<le> ?e"
    and d': "d = \<lparr>cd_offset = er_offset r, cd_records = er_total r\<rparr>"
    and recs: "list_all central_record recs" "length recs = er_total r"
      "bytes_at file (er_offset r) (er_size r) = concat recs" "length (concat recs) = er_size r"
      "take 4 (drop (er_offset r + er_size r) file) \<noteq> central_header_signature"
    by blast
  have "end_record_says (narrow_record (bytes_at file ?e 22)) (er_total r) (er_size r) (er_offset r)"
    using agreed_record_says [OF r zero] by (simp add: bytes_at_def add.commute)
  moreover have "file = take (er_offset r) file @ concat recs @ drop (er_offset r + er_size r) file"
    unfolding recs(3) [symmetric] bytes_at_def
    by (metis append_take_drop_id drop_drop add.commute)
  moreover have "length (take (er_offset r) file) = er_offset r" using bound(2) e22 by simp
  ultimately show ?thesis
    using recs bound d' at_end
    by (intro exI [of _ "take (er_offset r) file"] exI [of _ recs]
        exI [of _ "drop (er_offset r + er_size r) file"] exI [of _ ?e]) simp
qed

definition one_record_archive :: string where
  "one_record_archive =
     central_header_signature @ replicate 42 CHR 0x00 @
     eocd_signature @ replicate 4 CHR 0x00 @ [CHR 0x01, CHR 0x00, CHR 0x01, CHR 0x00] @
     [CHR 0x2E, CHR 0x00, CHR 0x00, CHR 0x00] @ replicate 4 CHR 0x00 @ [CHR 0x00, CHR 0x00]"

lemma one_record_checked:
  "check_central_directory one_record_archive = Inr \<lparr>cd_offset = 0, cd_records = 1\<rparr>"
proof -
  have bytes: "one_record_archive =
     [CHR ''P'', CHR ''K'', CHR 0x01, CHR 0x02] @ replicate 42 CHR 0x00 @
     [CHR ''P'', CHR ''K'', CHR 0x05, CHR 0x06] @ [CHR 0x00, CHR 0x00, CHR 0x00, CHR 0x00,
      CHR 0x01, CHR 0x00, CHR 0x01, CHR 0x00, CHR 0x2E, CHR 0x00, CHR 0x00, CHR 0x00,
      CHR 0x00, CHR 0x00, CHR 0x00, CHR 0x00, CHR 0x00, CHR 0x00]"
    by (simp add: one_record_archive_def central_header_signature_def eocd_signature_def numeral_eq_Suc)
  have zeros: "replicate 4 CHR 0x00 = [CHR 0x00, CHR 0x00, CHR 0x00, CHR 0x00]"
    "replicate 2 CHR 0x00 = [CHR 0x00, CHR 0x00]"
    by (simp_all add: numeral_eq_Suc)
  have len: "length one_record_archive = 68" by (simp add: bytes)
  have pos: "last_window eocd_signature one_record_archive = Some 46"
    by (simp add: bytes eocd_signature_def numeral_eq_Suc)
  have zip64: "find_zip64 one_record_archive 46 = Inr (None, 46)"
    using zeros by (simp add: find_zip64_def bytes_at_def bytes zip64_locator_signature_def)
  have rec: "narrow_record (bytes_at one_record_archive 46 22) =
      \<lparr>er_disk = 0, er_directory_disk = 0, er_on_disk = 1, er_total = 1, er_size = 46, er_offset = 0\<rparr>"
    by (simp add: narrow_record_def bytes_at_def bytes u16_at_def u32_at_def)
  let ?r = "\<lparr>er_disk = 0, er_directory_disk = 0, er_on_disk = 1, er_total = 1, er_size = 46, er_offset = 0\<rparr>"
  have dir: "directory_bytes one_record_archive ?r =
      [CHR ''P'', CHR ''K'', CHR 0x01, CHR 0x02] @ replicate 42 CHR 0x00 @
      [CHR ''P'', CHR ''K'', CHR 0x05, CHR 0x06]"
    by (simp add: directory_bytes_def saturating_add_u64_def bytes_at_def bytes)
  have walk: "walk_records 1 (directory_bytes one_record_archive ?r) 0 0 = Inr (1, 46)"
    unfolding dir
    by (subst walk_records.simps, simp add: central_header_signature_def u16_at_def bytes_at_def zeros)
      (subst walk_records.simps, simp add: central_header_signature_def)
  show ?thesis
    by (simp add: check_central_directory_def len eocd_search_window_def pos zip64 rec agreed_record_def
        saturated_def narrow_pairs_def u16_max_def u32_max_def check_directory_def checked_add_u64_def
        max_archive_entries_def walk [simplified])
qed

theorem directory_means_one_thing_witness:
  "\<exists>recs after. one_record_archive = concat recs @ after \<and> length recs = 1 \<and>
     list_all central_record recs"
proof -
  have "length one_record_archive < 2 ^ 63"
    by (simp add: one_record_archive_def central_header_signature_def eocd_signature_def)
  from directory_means_one_thing [OF one_record_checked this] show ?thesis
    by (metis append_Nil central_directory.select_convs length_0_conv)
qed

end
