(* ===== verification/Indexing.thy ===== *)
theory Indexing
  imports Purge_Safety Policy Archive
begin

text \<open>
  The push pipeline (\<open>src/src/indexing.rs\<close>): a file already in the upload area becomes a
  version of a feed, or is refused. The archive and XML readers are parameters, gathered in
  one record with the other libraries the pipeline asks: the UTF-8 check, Unicode
  lower-casing, and how a day prints. The lock on the version is not modelled: a push runs
  alone on its version, which is what the lock is for.
\<close>

section \<open>What a push is given\<close>

record libraries =
  lib_zip :: zip_library
  lib_utf8 :: "string \<Rightarrow> bool"
  lib_xml :: "string \<Rightarrow> xml_stream"
  lib_lower :: "string \<Rightarrow> string"
  lib_day :: "time \<Rightarrow> string"

definition max_readme_bytes :: nat where
  "max_readme_bytes = 1024 * 1024"

definition max_icon_bytes :: nat where
  "max_icon_bytes = 1024 * 1024"

datatype overwrite_mode = Overwrite_Disabled | Overwrite_Enabled | Overwrite_Prerelease | Overwrite_Pending

definition overwrite_allows :: "overwrite_mode \<Rightarrow> bool \<Rightarrow> bool" where
  "overwrite_allows mode prerelease =
     (case mode of
        Overwrite_Disabled \<Rightarrow> False | Overwrite_Pending \<Rightarrow> False
      | Overwrite_Enabled \<Rightarrow> True | Overwrite_Prerelease \<Rightarrow> prerelease)"

definition served_versions_are_immutable :: "overwrite_mode \<Rightarrow> bool" where
  "served_versions_are_immutable mode \<longleftrightarrow> mode = Overwrite_Disabled \<or> mode = Overwrite_Pending"

record reserved_prefix =
  rp_prefix :: string
  rp_feed :: string

definition prefix_covers :: "reserved_prefix \<Rightarrow> string \<Rightarrow> bool" where
  "prefix_covers r i = id_has_prefix i (rp_prefix r)"

record expected_identity =
  ei_id :: string
  ei_version :: nuget_version

record index_options =
  io_overwrite :: overwrite_mode
  io_pending :: bool
  io_license_policy :: license_policy_config
  io_expect :: "expected_identity option"
  io_reserved_elsewhere :: "reserved_prefix list"
  io_other_license_policies :: "(string \<times> license_policy_config) list"
  io_unlisted :: bool

record index_result =
  ir_id :: string
  ir_version :: nuget_version
  ir_pending :: bool
  ir_flag_reason :: "string option"

record stream_summary =
  ss_size :: nat
  ss_sha512 :: string

record sidecars =
  sc_nuspec :: string
  sc_readme :: "string option"
  sc_icon :: "string option"

section \<open>The package of a manifest\<close>

definition package_of_manifest ::
    "libraries \<Rightarrow> nuspec \<Rightarrow> nuget_version \<Rightarrow> stream_summary \<Rightarrow> string option \<Rightarrow> string option \<Rightarrow>
     time \<Rightarrow> package" where
  "package_of_manifest lib n version summary readme icon now =
     \<lparr>p_id = n_id n, p_version = version, p_listed = True, p_enabled = True,
      p_license_url = n_license_url n, p_license_expression = n_license_expression n,
      p_tags = tag_list (lib_lower lib) n, p_has_readme = (readme \<noteq> None),
      p_has_embedded_icon = (icon \<noteq> None),
      p_is_semver2 = (is_semver2 version \<or> depends_on_semver2 (n_dependency_groups n)),
      p_package_size = ss_size summary, p_package_hash = ss_sha512 summary,
      p_package_hash_algorithm = ''SHA512'', p_published = now, p_downloads = 0,
      p_dependencies = n_dependency_groups n,
      p_text =
        \<lparr>mt_authors = author_list n,
         mt_description = (case n_description n of Some d \<Rightarrow> d | None \<Rightarrow> []),
         mt_icon_url = n_icon_url n, mt_project_url = n_project_url n,
         mt_repository_url = n_repository_url n, mt_repository_type = n_repository_type n,
         mt_min_client_version = n_min_client_version n, mt_release_notes = n_release_notes n,
         mt_language = n_language n, mt_title = n_title n, mt_summary = n_summary n,
         mt_development_dependency = n_development_dependency n,
         mt_require_license_acceptance = n_require_license_acceptance n,
         mt_package_types = n_package_types n\<rparr>\<rparr>"

section \<open>Refusals\<close>

definition new_version_advice :: "libraries \<Rightarrow> nuget_version \<Rightarrow> time \<Rightarrow> string" where
  "new_version_advice lib version now =
     (let (major, minor, patch, revision) = core version
      in if \<not> is_prerelease version \<and> revision = 0
         then ''Push it as a new version, such as '' @ show_nat major @ ''.'' @ show_nat minor @ ''.''
                @ show_nat patch @ ''.'' @ lib_day lib now @ ''.''
         else ''Push it as a new version.'')"

definition taken :: "libraries \<Rightarrow> string \<Rightarrow> nuget_version \<Rightarrow> time \<Rightarrow> error" where
  "taken lib i version now =
     Conflict (Msg ''{id} {normalized} is already stored with different content; an id and version name one package across every feed. {}''
       [i, normalized version, new_version_advice lib version now])"

definition already_here ::
    "libraries \<Rightarrow> string \<Rightarrow> nuget_version \<Rightarrow> membership option \<Rightarrow> overwrite_mode \<Rightarrow> time \<Rightarrow> message" where
  "already_here lib i version state mode now =
     (let condition = (case state of
            None \<Rightarrow> []
          | Some m \<Rightarrow>
              if m_pending m then '' (waiting for approval)''
              else if \<not> m_enabled m then '' (disabled by an admin)''
              else if \<not> m_listed m
              then '' (unlisted - which is all a delete does while hard_delete_enabled is off - and still downloadable)''
              else []);
          rule = (if mode = Overwrite_Prerelease
                  then ''only pre-release versions may be overwritten (allow_overwrite = \"prerelease-only\")''
                  else ''overwriting is off (allow_overwrite = false)'')
      in Msg ''{id} {normalized} already exists in this feed{condition}, and {rule}. {} Or delete it for good first.''
           [i, normalized version, condition, rule, new_version_advice lib version now])"

section \<open>Storing\<close>

definition ok_or_none :: "'a io \<Rightarrow> 'a option io" where
  "ok_or_none m = and_then (attempt m) (\<lambda>r. ok (case r of Inr a \<Rightarrow> Some a | Inl _ \<Rightarrow> None))"

definition store_optional :: "string \<Rightarrow> string \<Rightarrow> aux_file \<Rightarrow> string option \<Rightarrow> unit io" where
  "store_optional i version kind bytes =
     (case bytes of None \<Rightarrow> ok () | Some b \<Rightarrow> store_aux i version kind b)"

definition store_sidecars :: "string \<Rightarrow> string \<Rightarrow> sidecars \<Rightarrow> unit io" where
  "store_sidecars i version sc =
     and_then (store_aux i version aux_file.Nuspec (sc_nuspec sc)) (\<lambda>_.
     and_then (store_optional i version Readme (sc_readme sc)) (\<lambda>_.
     store_optional i version Icon (sc_icon sc)))"

definition store_payload :: "string \<Rightarrow> string \<Rightarrow> path \<Rightarrow> sidecars \<Rightarrow> unit io" where
  "store_payload i version temp sc =
     and_then (store_package i version temp) (\<lambda>_. store_sidecars i version sc)"

text \<open>How an overwrite swaps the rows.\<close>

datatype swap = Swap_Any | Swap_Pending bool "(string \<times> policy_outcome) list"

definition swap_replace :: "swap \<Rightarrow> package \<Rightarrow> membership \<Rightarrow> package_file list io" where
  "swap_replace sw p m =
     (case sw of
        Swap_Any \<Rightarrow> and_then (run_db_at (\<lambda>now. replace_version now p m)) (\<lambda>_. ok [])
      | Swap_Pending drop_files others \<Rightarrow>
          run_db_at (\<lambda>now. replace_pending_version now p m drop_files others))"

definition delete_unreferenced_blobs :: "package_file list \<Rightarrow> unit io" where
  "delete_unreferenced_blobs files =
     for_each (\<lambda>sha.
         and_then (attempt (query (blob_references sha))) (\<lambda>refs.
         if refs = Inr 0 then ignoring (delete_blob sha) else ok ()))
       (sorted_blobs files)"

definition keep_aside :: "string \<Rightarrow> string \<Rightarrow> path \<Rightarrow> path option io" where
  "keep_aside i version temp =
     and_then (attempt (get_package i version)) (\<lambda>r. case r of
         Inl _ \<Rightarrow> ok None
       | Inr current \<Rightarrow>
           and_then (fresh_name ''previous'') (\<lambda>name.
           let backup = butlast temp @ [name]
           in and_then (attempt (fs_hard_link current backup)) (\<lambda>r.
              ok (if is_ok r then Some backup else None))))"

definition drop_backup :: "path option \<Rightarrow> unit io" where
  "drop_backup backup =
     (case backup of None \<Rightarrow> ok () | Some b \<Rightarrow> ignoring (fs_remove_file b))"

definition read_when :: "bool \<Rightarrow> 'a io \<Rightarrow> 'a option io" where
  "read_when b m = (if b then ok_or_none m else ok None)"

text \<open>The previous build is put back: its payload, then what was read of its sidecars.\<close>

definition put_back ::
    "string \<Rightarrow> string \<Rightarrow> sidecars \<Rightarrow> path option \<Rightarrow> string option \<Rightarrow> string option \<Rightarrow> string option \<Rightarrow>
     unit io" where
  "put_back i version sc backup old_nuspec old_readme old_icon =
     and_then (case backup of
                 None \<Rightarrow> ok ()
               | Some b \<Rightarrow> and_then (attempt (store_package i version b)) (\<lambda>r.
                            if is_ok r then ok () else ignoring (fs_remove_file b))) (\<lambda>_.
     case old_nuspec of
       None \<Rightarrow> ok ()
     | Some old \<Rightarrow> ignoring (store_sidecars i version
                     \<lparr>sc_nuspec = old, sc_readme = old_readme, sc_icon = old_icon\<rparr>))"

definition overwrite ::
    "path \<Rightarrow> package \<Rightarrow> package \<Rightarrow> membership \<Rightarrow> sidecars \<Rightarrow> swap \<Rightarrow> package_file list io" where
  "overwrite temp p existing m sc sw =
     (let i = p_id p; version = normalized_version p in
      and_then (keep_aside i version temp) (\<lambda>backup.
      and_then (ok_or_none (get_aux i version aux_file.Nuspec)) (\<lambda>old_nuspec.
      and_then (read_when (p_has_readme existing) (get_aux i version Readme)) (\<lambda>old_readme.
      and_then (read_when (p_has_embedded_icon existing) (get_aux i version Icon)) (\<lambda>old_icon.
      and_then (on_err (store_package i version temp) (\<lambda>_. drop_backup backup)) (\<lambda>_.
      and_then (attempt (and_then (store_sidecars i version sc) (\<lambda>_. swap_replace sw p m))) (\<lambda>r.
      case r of
        Inr dropped \<Rightarrow> and_then (drop_backup backup) (\<lambda>_. ok dropped)
      | Inl e \<Rightarrow> and_then (put_back i version sc backup old_nuspec old_readme old_icon) (\<lambda>_.
                 fail e))))))))"

section \<open>Reading the file\<close>

definition read_archive_at :: "libraries \<Rightarrow> path \<Rightarrow> archive_contents io" where
  "read_archive_at lib temp =
     and_then (fs_read temp) (\<lambda>bytes.
     lift_result (map_err from_pkg_error (read_archive (lib_zip lib) (lib_utf8 lib) bytes)))"

definition extract_sidecar ::
    "libraries \<Rightarrow> path \<Rightarrow> archive_contents \<Rightarrow> string option \<Rightarrow> nat \<Rightarrow> string option io" where
  "extract_sidecar lib temp archive name limit =
     (case name of
        None \<Rightarrow> ok None
      | Some path \<Rightarrow>
          if archive_contains archive path
          then and_then (fs_read temp) (\<lambda>bytes.
               lift_result (map_err from_pkg_error (extract_file (lib_zip lib) bytes path limit)))
          else ok None)"

definition check_identity :: "index_options \<Rightarrow> string \<Rightarrow> nuget_version \<Rightarrow> unit result" where
  "check_identity opts i version =
     (case find (\<lambda>r. prefix_covers r i) (io_reserved_elsewhere opts) of
        Some r \<Rightarrow>
          Inl (Forbidden (Msg ''package id {id} is under the prefix {:?}, reserved for feed {:?}''
                 [i, rp_prefix r, rp_feed r]))
      | None \<Rightarrow>
          (case io_expect opts of
             None \<Rightarrow> Inr ()
           | Some want \<Rightarrow>
               if \<not> eq_ignore_ascii_case (ei_id want) i \<or> cmp_version (ei_version want) version \<noteq> Equal
               then Inl (InvalidPackage (Msg ''manifest declares {}/{} but {}/{} was requested''
                      [i, normalized version, ei_id want, normalized (ei_version want)]))
               else Inr ()))"

text \<open>Steps 1 to 3: the package a file declares, its sidecars and the policy's verdict.\<close>

record incoming =
  in_package :: package
  in_sidecars :: sidecars
  in_outcome :: policy_outcome

definition read_incoming ::
    "libraries \<Rightarrow> path \<Rightarrow> stream_summary \<Rightarrow> index_options \<Rightarrow> incoming io" where
  "read_incoming lib temp summary opts =
     and_then (read_archive_at lib temp) (\<lambda>archive.
     and_then (lift_result (map_err from_pkg_error (parse_nuspec (lib_xml lib) (ac_nuspec_xml archive)))) (\<lambda>manifest.
     and_then (lift_result (validate_package_id (n_id manifest))) (\<lambda>_.
     and_then (lift_result (map_err (\<lambda>e. InvalidPackage (Msg ''invalid <version>: {e}'' [e]))
                              (parse_version (n_version manifest)))) (\<lambda>version.
     and_then (lift_result (check_identity opts (n_id manifest) version)) (\<lambda>_.
     and_then (extract_sidecar lib temp archive (n_readme manifest) max_readme_bytes) (\<lambda>readme.
     and_then (extract_sidecar lib temp archive (n_icon manifest) max_icon_bytes) (\<lambda>icon.
     and_then (look w_now) (\<lambda>now.
     let p = package_of_manifest lib manifest version summary readme icon now;
         outcome = evaluate_license (io_license_policy opts) p
     in if \<not> po_allowed outcome
        then fail (PolicyViolation (Msg ''{}''
               [case po_violation outcome of Some why \<Rightarrow> why | None \<Rightarrow> ''license policy'']))
        else ok \<lparr>in_package = p,
                  in_sidecars = \<lparr>sc_nuspec = ac_nuspec_xml archive, sc_readme = readme, sc_icon = icon\<rparr>,
                  in_outcome = outcome\<rparr>))))))))"

section \<open>The push\<close>

definition new_membership :: "string \<Rightarrow> index_options \<Rightarrow> incoming \<Rightarrow> membership" where
  "new_membership feed opts inc =
     (active_membership feed (in_package inc))
       \<lparr>m_listed := \<not> io_unlisted opts, m_pending := io_pending opts,
        m_flagged := (po_violation (in_outcome inc) \<noteq> None),
        m_flag_reason := po_violation (in_outcome inc)\<rparr>"

definition index_result_of :: "bool \<Rightarrow> incoming \<Rightarrow> index_result" where
  "index_result_of pending inc =
     \<lparr>ir_id = p_id (in_package inc), ir_version = p_version (in_package inc), ir_pending = pending,
      ir_flag_reason = po_violation (in_outcome inc)\<rparr>"

text \<open>Step 4: what a failed purge left is finished off first.\<close>

definition finish_purge ::
    "string \<Rightarrow> package \<Rightarrow> (package option \<times> membership option) io" where
  "finish_purge feed p =
     (let i = p_id p; v = p_version p in
      and_then (query_result (get_package_data i v)) (\<lambda>existing.
      and_then (query (get_membership feed i v)) (\<lambda>previous.
      and_then (if existing = None then ok existing
                else and_then (query (feed_count i v)) (\<lambda>n.
                     if n = 0 then and_then (purge_global_data i v) (\<lambda>_. ok None)
                     else ok existing)) (\<lambda>existing.
      if existing = None \<and> previous \<noteq> None
      then and_then (run_db (remove_membership feed i v)) (\<lambda>_. ok (existing, None))
      else ok (existing, previous)))))"

text \<open>Step 5a: a version new to the server.\<close>

definition index_new :: "string \<Rightarrow> path \<Rightarrow> index_options \<Rightarrow> incoming \<Rightarrow> index_result io" where
  "index_new feed temp opts inc =
     (let p = in_package inc; i = p_id p; v = p_version p in
      and_then (store_payload i (normalized v) temp (in_sidecars inc)) (\<lambda>_.
      and_then (on_err (run_db_at (\<lambda>now. add_version now p (new_membership feed opts inc))) (\<lambda>_.
                  and_then (unwrap_or 0 (query (feed_count i v))) (\<lambda>n.
                  io_when (n = 0)
                    (and_then (ignoring (run_db (delete_package_data i v))) (\<lambda>_.
                     ignoring (storage_delete i (normalized v))))))) (\<lambda>_.
      ok (index_result_of (io_pending opts) inc))))"

text \<open>Step 5b: another feed holds it.\<close>

definition index_shared ::
    "libraries \<Rightarrow> string \<Rightarrow> path \<Rightarrow> index_options \<Rightarrow> incoming \<Rightarrow> package \<Rightarrow> bool \<Rightarrow> index_result io" where
  "index_shared lib feed temp opts inc existing payload_present =
     (let p = in_package inc; i = p_id p; v = p_version p in
      if p_package_hash existing \<noteq> p_package_hash p
      then and_then (look w_now) (\<lambda>now. fail (taken lib i v now))
      else
        and_then (if payload_present then ignoring (fs_remove_file temp)
                  else store_payload i (normalized v) temp (in_sidecars inc)) (\<lambda>_.
        and_then (run_db_at (\<lambda>now. add_version now existing (new_membership feed opts inc))) (\<lambda>_.
        ok (index_result_of (io_pending opts) inc))))"

text \<open>Step 5c: the version is in this feed already.\<close>

definition may_overwrite ::
    "libraries \<Rightarrow> index_options \<Rightarrow> incoming \<Rightarrow> package \<Rightarrow> membership \<Rightarrow> bool \<Rightarrow> unit io" where
  "may_overwrite lib opts inc existing previous same_content =
     (let p = in_package inc; i = p_id p; v = p_version p;
          pending_only = (io_overwrite opts = Overwrite_Pending)
      in and_then (if pending_only
                   then and_then (query (approved_in i v)) (\<lambda>approved.
                        if approved \<noteq> [] then fail (VersionExists (approved_refusal existing approved))
                        else ok ())
                   else if \<not> overwrite_allows (io_overwrite opts) (is_prerelease v)
                   then and_then (look w_now) (\<lambda>now.
                        fail (VersionExists (already_here lib i v (Some previous) (io_overwrite opts) now)))
                   else ok ()) (\<lambda>_.
         if \<not> same_content \<and> \<not> pending_only
         then and_then (query (feed_count i v)) (\<lambda>n.
              if 1 < n then and_then (look w_now) (\<lambda>now. fail (taken lib i v now)) else ok ())
         else ok ()))"

definition replaced_membership ::
    "string \<Rightarrow> index_options \<Rightarrow> incoming \<Rightarrow> membership \<Rightarrow> bool \<Rightarrow> membership" where
  "replaced_membership feed opts inc previous same_content =
     (active_membership feed (in_package inc))
       \<lparr>m_listed := m_listed previous, m_listing_set := m_listing_set previous,
        m_enabled := m_enabled previous,
        m_pending := m_pending previous \<or> io_pending opts \<and> \<not> same_content,
        m_flagged := (po_violation (in_outcome inc) \<noteq> None),
        m_flag_reason := po_violation (in_outcome inc), m_pinned := m_pinned previous\<rparr>"

definition swap_for :: "string \<Rightarrow> index_options \<Rightarrow> incoming \<Rightarrow> bool \<Rightarrow> swap" where
  "swap_for feed opts inc same_content =
     (if io_overwrite opts = Overwrite_Pending
      then Swap_Pending (\<not> same_content)
             (if same_content then []
              else map (\<lambda>(name, pol). (name, evaluate_license pol (in_package inc)))
                     (filter (\<lambda>(name, _). name \<noteq> feed) (io_other_license_policies opts)))
      else Swap_Any)"

definition index_again ::
    "libraries \<Rightarrow> string \<Rightarrow> path \<Rightarrow> index_options \<Rightarrow> incoming \<Rightarrow> package \<Rightarrow> membership \<Rightarrow> bool \<Rightarrow>
     index_result io" where
  "index_again lib feed temp opts inc existing previous payload_present =
     (let p = in_package inc; i = p_id p; v = p_version p;
          same_content = (p_package_hash existing = p_package_hash p);
          m = replaced_membership feed opts inc previous same_content;
          sw = swap_for feed opts inc same_content;
          result = index_result_of (m_pending m) inc
      in and_then (may_overwrite lib opts inc existing previous same_content) (\<lambda>_.
         if same_content \<and> payload_present
         then and_then (ignoring (fs_remove_file temp)) (\<lambda>_.
              and_then (swap_replace sw existing m) (\<lambda>_. ok result))
         else
           and_then (overwrite temp p existing m (in_sidecars inc) sw) (\<lambda>dropped.
           and_then (io_when (dropped \<noteq> []) (delete_unreferenced_blobs dropped)) (\<lambda>_.
           and_then (io_when (\<not> same_content) (purge_symbols i v)) (\<lambda>_. ok result)))))"

definition index_incoming ::
    "libraries \<Rightarrow> string \<Rightarrow> path \<Rightarrow> index_options \<Rightarrow> incoming \<Rightarrow> index_result io" where
  "index_incoming lib feed temp opts inc =
     (let p = in_package inc in
      and_then (finish_purge feed p) (\<lambda>(existing, previous).
      case existing of
        None \<Rightarrow> index_new feed temp opts inc
      | Some existing \<Rightarrow>
          and_then (package_exists (p_id p) (normalized (p_version p))) (\<lambda>payload_present.
          case previous of
            None \<Rightarrow> index_shared lib feed temp opts inc existing payload_present
          | Some previous \<Rightarrow>
              index_again lib feed temp opts inc existing previous payload_present)))"

definition index_inner ::
    "libraries \<Rightarrow> string \<Rightarrow> path \<Rightarrow> stream_summary \<Rightarrow> index_options \<Rightarrow> index_result io" where
  "index_inner lib feed temp summary opts =
     and_then (read_incoming lib temp summary opts) (index_incoming lib feed temp opts)"

definition index_package ::
    "libraries \<Rightarrow> string \<Rightarrow> path \<Rightarrow> stream_summary \<Rightarrow> index_options \<Rightarrow> index_result io" where
  "index_package lib feed temp summary opts =
     on_err (index_inner lib feed temp summary opts) (\<lambda>_. ignoring (fs_remove_file temp))"

end
