(* ===== verification/Index_Safety.thy ===== *)
theory Index_Safety
  imports Indexing
begin

text \<open>
  What a push promises. A world is sound when its database has its invariant and every
  member of every feed is served; a push, accepted or refused, with any faults on the way,
  leaves a sound world sound, and an accepted one leaves the version in its feed, in the
  state it reports.
\<close>

section \<open>Triples\<close>

named_theorems triple \<open>rules for hoare\<close>

lemma hoareD:
  "hoare P m Q E \<Longrightarrow> P w \<Longrightarrow> m w = (r, w') \<Longrightarrow> (case r of Inr a \<Rightarrow> Q a w' | Inl e \<Rightarrow> E e w')"
  by (cases r) (force simp: hoare_def)+

lemma hoareI:
  "(\<And>w r w'. P w \<Longrightarrow> m w = (r, w') \<Longrightarrow> (case r of Inr a \<Rightarrow> Q a w' | Inl e \<Rightarrow> E e w')) \<Longrightarrow> hoare P m Q E"
  by (force simp: hoare_def split: prod.splits sum.splits)

lemma hoare_weaken:
  assumes "hoare P m Q E" "\<And>w. P' w \<Longrightarrow> P w" "\<And>a w. Q a w \<Longrightarrow> Q' a w" "\<And>e w. E e w \<Longrightarrow> E' e w"
  shows "hoare P' m Q' E'"
proof (rule hoareI)
  fix w r w' assume "P' w" and m: "m w = (r, w')"
  then show "case r of Inr a \<Rightarrow> Q' a w' | Inl e \<Rightarrow> E' e w'"
    using hoareD [OF assms(1) _ m] assms(2-4) by (auto split: sum.splits)
qed

lemma hoare_bind:
  assumes "hoare P m R E" "\<And>a. hoare (R a) (f a) Q E"
  shows "hoare P (and_then m f) Q E"
proof (rule hoareI)
  fix w r w' assume P: "P w" and run: "and_then m f w = (r, w')"
  obtain r1 w1 where m: "m w = (r1, w1)" by (cases "m w")
  show "case r of Inr a \<Rightarrow> Q a w' | Inl e \<Rightarrow> E e w'"
    using hoareD [OF assms(1) P m] run hoareD [OF assms(2), of _ w1 r w']
    by (cases r1) (auto simp: and_then_def m)
qed

lemma hoare_attempt:
  assumes "hoare P m (\<lambda>a. Q (Inr a)) (\<lambda>e. Q (Inl e))"
  shows "hoare P (attempt m) Q E"
proof (rule hoareI)
  fix w r w' assume P: "P w" and run: "attempt m w = (r, w')"
  obtain r1 w1 where m: "m w = (r1, w1)" by (cases "m w")
  show "case r of Inr a \<Rightarrow> Q a w' | Inl e \<Rightarrow> E e w'"
    using hoareD [OF assms P m] run by (cases r1) (auto simp: attempt_def m)
qed

lemma hoare_ok [triple]: "(\<And>w. P w \<Longrightarrow> Q a w) \<Longrightarrow> hoare P (ok a) Q E"
  by (simp add: hoare_def ok_def)

lemma hoare_fail [triple]: "(\<And>w. P w \<Longrightarrow> E e w) \<Longrightarrow> hoare P (fail e) Q E"
  by (simp add: hoare_def fail_def)

lemma hoare_lift: "(\<And>a w. P w \<Longrightarrow> r = Inr a \<Longrightarrow> Q a w) \<Longrightarrow> (\<And>e w. P w \<Longrightarrow> E e w) \<Longrightarrow> hoare P (lift_result r) Q E"
  by (cases r) (simp_all add: hoare_def lift_result_def)

lemma hoare_if [triple]: "(b \<Longrightarrow> hoare P m Q E) \<Longrightarrow> (\<not> b \<Longrightarrow> hoare P n Q E) \<Longrightarrow> hoare P (if b then m else n) Q E"
  by simp

lemma hoare_keeps: "keeps P m \<Longrightarrow> hoare P m (\<lambda>_. P) (\<lambda>_. P)"
  by (force simp: hoare_def keeps_def split: prod.splits sum.splits)

lemma keeps_then: "keeps P m \<Longrightarrow> (\<And>a. hoare P (f a) Q (\<lambda>_. P)) \<Longrightarrow> hoare P (and_then m f) Q (\<lambda>_. P)"
  by (rule hoare_bind [OF hoare_keeps])

text \<open>Before a step that keeps what it starts from, when the errors only owe less.\<close>

lemma keeps_then_weak:
  assumes "keeps P m" "\<And>w. P w \<Longrightarrow> E w" "\<And>a. hoare P (f a) Q (\<lambda>_. E)"
  shows "hoare P (and_then m f) Q (\<lambda>_. E)"
proof (rule hoare_bind)
  show "hoare P m (\<lambda>_. P) (\<lambda>_. E)" by (rule hoare_weaken [OF hoare_keeps [OF assms(1)]]) (use assms(2) in auto)
qed (rule assms(3))

lemma hoare_false: "hoare (\<lambda>_. False) m Q E"
  by (simp add: hoare_def)

lemma on_stateI: "Q (w_db w) (file_at_path w) \<Longrightarrow> on_state Q w"
  by (simp add: on_state_def)

lemma hoare_run_db:
  assumes "\<And>d fs a d'. P d fs \<Longrightarrow> oper d = Inr (a, d') \<Longrightarrow> Q a d' fs"
    and "\<And>d fs. P d fs \<Longrightarrow> E d fs"
  shows "hoare (on_state P) (run_db oper) (\<lambda>a. on_state (Q a)) (\<lambda>_. on_state E)"
proof (rule hoareI)
  fix w r w' assume "on_state P w" "run_db oper w = (r, w')"
  then show "case r of Inr a \<Rightarrow> on_state (Q a) w' | Inl e \<Rightarrow> on_state E w'"
    using assms by (cases rule: run_db_cases [OF \<open>run_db oper w = (r, w')\<close>]) (auto simp: on_state_def)
qed

lemma hoare_run_db_at:
  assumes "\<And>now d fs a d'. P d fs \<Longrightarrow> oper now d = Inr (a, d') \<Longrightarrow> Q a d' fs"
    and "\<And>d fs. P d fs \<Longrightarrow> E d fs"
  shows "hoare (on_state P) (run_db_at oper) (\<lambda>a. on_state (Q a)) (\<lambda>_. on_state E)"
  unfolding run_db_at_def
  by (rule hoare_bind [where R = "\<lambda>_. on_state P"])
    (simp add: hoare_def look_def, rule hoare_run_db, use assms in auto)

lemma hoare_query:
  assumes "\<And>d fs. P d fs \<Longrightarrow> E d fs"
  shows "hoare (on_state P) (query q) (\<lambda>a. on_state (\<lambda>d fs. P d fs \<and> q d = a)) (\<lambda>_. on_state E)"
  unfolding query_def query_result_def by (rule hoare_run_db) (use assms in auto)

lemma hoare_query_result:
  assumes "\<And>d fs. P d fs \<Longrightarrow> E d fs"
  shows "hoare (on_state P) (query_result q) (\<lambda>a. on_state (\<lambda>d fs. P d fs \<and> q d = Inr a)) (\<lambda>_. on_state E)"
  unfolding query_result_def by (rule hoare_run_db) (use assms in \<open>auto simp: result_ok\<close>)

section \<open>Steps that only add files\<close>

text \<open>
  Nothing that was there outside the upload area is gone afterwards, and the database is
  untouched: so are all of a push's steps on the files, but for the purges.
\<close>

definition additive :: "'a io \<Rightarrow> bool" where
  "additive m \<longleftrightarrow>
     (\<forall>w. let w' = snd (m w) in w_db w' = w_db w \<and>
        (\<forall>p. \<not> staged p \<longrightarrow> file_at_path w p \<noteq> None \<longrightarrow> file_at_path w' p \<noteq> None))"

definition grows :: "(db \<Rightarrow> files_view \<Rightarrow> bool) \<Rightarrow> bool" where
  "grows Q \<longleftrightarrow>
     (\<forall>d fs fs'. Q d fs \<longrightarrow> (\<forall>p. \<not> staged p \<longrightarrow> fs p \<noteq> None \<longrightarrow> fs' p \<noteq> None) \<longrightarrow> Q d fs')"

named_theorems adding \<open>rules for additive\<close>

lemma additiveD:
  "additive m \<Longrightarrow> m w = (r, w') \<Longrightarrow>
   w_db w' = w_db w \<and> (\<forall>p. \<not> staged p \<longrightarrow> file_at_path w p \<noteq> None \<longrightarrow> file_at_path w' p \<noteq> None)"
  unfolding additive_def Let_def by (metis snd_conv)

lemma additiveI:
  "(\<And>w r w'. m w = (r, w') \<Longrightarrow> w_db w' = w_db w \<and>
      (\<forall>p. \<not> staged p \<longrightarrow> file_at_path w p \<noteq> None \<longrightarrow> file_at_path w' p \<noteq> None)) \<Longrightarrow> additive m"
  unfolding additive_def Let_def by (metis prod.collapse)

lemma keeps_additive: "additive m \<Longrightarrow> grows Q \<Longrightarrow> keeps (on_state Q) m"
  unfolding keeps_def on_state_def grows_def additive_def Let_def by metis

lemma additive_touching: "only_touches staged m \<Longrightarrow> additive m"
  by (rule additiveI) (metis only_touchesD)

lemma additive_calls [adding]:
  "additive (fs_read p)" "additive (fs_metadata_len p)" "additive (fs_exists p)"
  "additive (fs_create_dirs p)" "additive (fs_sync_file p)" "additive (fresh_name prefix)"
  "staged q \<Longrightarrow> additive (fs_create_new q)" "staged q \<Longrightarrow> additive (fs_remove_file q)"
  "staged q \<Longrightarrow> additive (fs_write_all q bytes)" "staged q \<Longrightarrow> additive (fs_copy p q)"
  "staged q \<Longrightarrow> additive (fs_hard_link p q)"
  by (simp_all add: additive_touching touching)

lemma additive_and_then [adding]:
  assumes "additive m" "\<And>a. additive (f a)"
  shows "additive (and_then m f)"
proof (rule additiveI)
  fix w r w' assume run: "and_then m f w = (r, w')"
  obtain r1 w1 where m: "m w = (r1, w1)" by (cases "m w")
  show "w_db w' = w_db w \<and>
      (\<forall>p. \<not> staged p \<longrightarrow> file_at_path w p \<noteq> None \<longrightarrow> file_at_path w' p \<noteq> None)"
    using additiveD [OF assms(1) m] run additiveD [OF assms(2), of _ w1 r w']
    by (cases r1) (auto simp: and_then_def m)
qed

lemma additive_attempt [adding]: "additive m \<Longrightarrow> additive (attempt m)"
  by (simp add: additive_def attempt_def Let_def split: prod.splits) (metis snd_conv)

lemma additive_pure [adding]:
  "additive (ok a)" "additive (fail e)" "additive (lift_result r)" "additive (look f)"
  by (simp_all add: additive_def io_simps)

lemma additive_ignoring [adding]: "additive m \<Longrightarrow> additive (ignoring m)"
  unfolding ignoring_def by (intro adding)

lemma additive_if [adding]: "additive m \<Longrightarrow> additive n \<Longrightarrow> additive (if b then m else n)"
  by simp

lemma additive_case_sum [adding]:
  "(\<And>e. additive (g e)) \<Longrightarrow> (\<And>a. additive (f a)) \<Longrightarrow> additive (case x of Inl e \<Rightarrow> g e | Inr a \<Rightarrow> f a)"
  by (cases x) simp_all

lemma additive_case_option [adding]:
  "additive m \<Longrightarrow> (\<And>a. additive (f a)) \<Longrightarrow> additive (case x of None \<Rightarrow> m | Some a \<Rightarrow> f a)"
  by (cases x) simp_all

lemma additive_on_err [adding]: "additive m \<Longrightarrow> (\<And>e. additive (h e)) \<Longrightarrow> additive (on_err m h)"
  unfolding on_err_def by (intro adding)

lemma additive_rename: "staged src \<Longrightarrow> additive (fs_rename src dest)"
  by (rule additiveI, frule rename_result)
    (auto simp: fs_rename_def fs_call_def no_trace_def fs_fault_fields split: prod.splits option.splits
        sum.splits)

lemma additive_staging:
  assumes "\<And>p. staged p \<Longrightarrow> additive (f p)"
  shows "additive (and_then staging_path f)"
proof -
  have "additive (f (staging_dir @ [name]))" for name
    by (rule assms) (simp add: staged_def staging_dir_def under_def)
  then show ?thesis
    unfolding staging_path_def and_then_assoc by (auto intro!: adding)
qed

lemma additive_move [adding]: "staged temp \<Longrightarrow> additive (move_into_place temp dest)"
  unfolding move_into_place_def copy_into_place_def
  by (intro adding additive_staging additive_rename)

lemma additive_write_atomically [adding]: "additive (write_atomically dest bytes)"
  unfolding write_atomically_def
  by (intro adding additive_staging additive_rename)

lemma additive_store_package [adding]: "staged temp \<Longrightarrow> additive (store_package i v temp)"
  unfolding store_package_def by (intro adding)

lemma additive_store_aux [adding]: "additive (store_aux i v kind bytes)"
  unfolding store_aux_def by (intro adding)

lemma additive_store_sidecars [adding]: "additive (store_sidecars i v sc)"
  unfolding store_sidecars_def store_optional_def by (intro adding)

section \<open>Sound worlds\<close>

definition sound :: "db \<Rightarrow> files_view \<Rightarrow> bool" where
  "sound d fs \<longleftrightarrow> serves d fs \<and> db_ok d"

text \<open>No row of a version, nobody holding it, and a version held with its payload in place.\<close>

definition absent :: "key \<Rightarrow> db \<Rightarrow> files_view \<Rightarrow> bool" where
  "absent k d fs \<longleftrightarrow> sound d fs \<and> \<not> has_row r_key k (db_packages d)"

definition unheld :: "key \<Rightarrow> db \<Rightarrow> files_view \<Rightarrow> bool" where
  "unheld k d fs \<longleftrightarrow> serves_without k d fs \<and> db_ok d"

definition arrived :: "string \<Rightarrow> string \<Rightarrow> nuget_version \<Rightarrow> bool \<Rightarrow> db \<Rightarrow> files_view \<Rightarrow> bool" where
  "arrived feed i v pending d fs \<longleftrightarrow>
     sound d fs \<and> map_option m_pending (get_membership feed i v d) = Some pending \<and>
     on_disk fs (package_path i (normalized v))"

lemma on_disk_grows:
  assumes "on_disk fs (package_path i v)" "\<forall>p. \<not> staged p \<longrightarrow> fs p \<noteq> None \<longrightarrow> fs' p \<noteq> None"
  shows "on_disk fs' (package_path i v)"
  using assms package_path_dir [of i v] by (force simp: on_disk_def staged_def split: sum.splits)

lemma serves_grows:
  assumes "serves d fs" "\<forall>p. \<not> staged p \<longrightarrow> fs p \<noteq> None \<longrightarrow> fs' p \<noteq> None"
  shows "serves d fs'"
proof -
  have blob: "on_disk fs' (blob_path s)" if "on_disk fs (blob_path s)" for s
    using that assms(2) blob_path_eq [of s] by (force simp: on_disk_def staged_def split: sum.splits)
  show ?thesis
    using assms on_disk_grows blob unfolding serves_def by blast
qed

lemma grows_sound: "grows sound"
  using serves_grows unfolding grows_def sound_def by blast

lemma grows_absent: "grows (absent k)"
  using grows_sound unfolding grows_def absent_def by blast

lemma grows_and: "grows P \<Longrightarrow> grows Q \<Longrightarrow> grows (\<lambda>d fs. P d fs \<and> Q d fs)"
  unfolding grows_def by blast

lemma grows_db: "grows (\<lambda>d fs. R d)"
  by (simp add: grows_def)

lemma grows_path: "grows (\<lambda>d fs. on_disk fs (package_path i v))"
  using on_disk_grows unfolding grows_def by blast

lemma grows_arrived: "grows (arrived feed i v b)"
  unfolding arrived_def by (intro grows_and grows_sound grows_db grows_path)

lemma absent_unheld: "absent k d fs \<Longrightarrow> unheld k d fs"
  by (auto simp: absent_def unheld_def sound_def serves_without_def held_iff db_ok_def refs_ok_def
      refers_def)

lemma absent_no_files: "absent k d fs \<Longrightarrow> f \<in> set (db_files d) \<Longrightarrow> file_version f \<noteq> k"
  by (auto simp: absent_def sound_def db_ok_def refs_ok_def refers_def)

lemma unheld_sound: "unheld k d fs \<Longrightarrow> sound d fs"
  by (simp add: unheld_def sound_def serves_without_def)

section \<open>Finishing a purge\<close>

lemma touching_storage_delete:
  "only_touches (under [to_ascii_lowercase i, to_ascii_lowercase x]) (storage_delete i x)"
  unfolding storage_delete_def
  by (rule touching_lift) (auto intro!: touching dest!: version_dir_Inr)

lemma db_ok_delete_symbols: "db_ok d \<Longrightarrow> delete_symbols i v d = Inr (x, d') \<Longrightarrow> db_ok d'"
  by (auto simp: delete_symbols_def db_ok_defs distinct_delete_rows)

lemma keeps_db_ok_purge_symbols: "keeps (on_state (\<lambda>d fs. db_ok d)) (purge_symbols i v)"
  unfolding purge_symbols_def
  by (intro keeping keeps_db_pred [OF touching_delete_symbol] keeps_run_db)
    (rule db_ok_delete_symbols)

lemma keeps_unheld_symbols: "keeps (on_state (unheld k)) (purge_symbols i v)"
  unfolding unheld_def on_state_and by (intro keeps_and keeping keeps_db_ok_purge_symbols)

lemma keeps_unheld_blobs: "keeps (on_state (unheld (version_key i v))) (purge_file_blobs i v)"
proof -
  have "keeps (on_state (\<lambda>d fs. db_ok d)) (purge_file_blobs i v)"
    unfolding purge_file_blobs_def Let_def
    by (intro keeping keeps_db_pred [OF touching_delete_blob])
  then show ?thesis
    unfolding unheld_def on_state_and by (intro keeps_and keeps_purge_file_blobs)
qed

lemma keeps_unheld_delete: "keeps (on_state (unheld (version_key i v))) (storage_delete i (normalized v))"
  unfolding unheld_def on_state_and
  by (intro keeps_and keeps_storage_delete keeps_db_pred [OF touching_storage_delete])

lemma unheld_delete_data:
  assumes "unheld k d fs" "delete_package_data i v d = Inr (a, d')"
  shows "unheld k d' fs" "\<not> has_row r_key (version_key i v) (db_packages d')"
proof -
  have "set (db_members d') \<subseteq> set (db_members d)" "set (db_files d') \<subseteq> set (db_files d)"
    using assms(2) by (auto simp: delete_package_data_def Let_def split: if_splits)
  then show "unheld k d' fs"
    using assms serves_fewer db_ok_delete_package_data
    by (fastforce simp: unheld_def serves_without_def held_iff)
  show "\<not> has_row r_key (version_key i v) (db_packages d')"
    using assms(2) by (auto simp: delete_package_data_def Let_def has_row_iff split: if_splits)
qed

lemma keeps_unheld_data: "keeps (on_state (unheld k)) (run_db (delete_package_data i v))"
  by (rule keeps_run_db) (rule unheld_delete_data(1))

lemma purge_leaves_absent:
  "hoare (on_state (unheld (version_key i v))) (purge_global_data i v)
     (\<lambda>_. on_state (absent (version_key i v))) (\<lambda>_. on_state (unheld (version_key i v)))"
  unfolding purge_global_data_def
proof (rule keeps_then [OF keeps_unheld_symbols], rule keeps_then [OF keeps_unheld_blobs],
    rule keeps_then [OF keeps_unheld_delete], rule hoare_bind)
  show "hoare (on_state (unheld (version_key i v))) (run_db (delete_package_data i v))
     (\<lambda>_. on_state (absent (version_key i v))) (\<lambda>_. on_state (unheld (version_key i v)))"
    by (rule hoare_run_db) (auto simp: absent_def unheld_delete_data(2) intro: unheld_sound unheld_delete_data(1))
qed (rule hoare_ok)

text \<open>What step 4 leaves: a version nobody has data of, or one some feed holds.\<close>

definition settled :: "key \<Rightarrow> bool \<Rightarrow> db \<Rightarrow> files_view \<Rightarrow> bool" where
  "settled k stored d fs \<longleftrightarrow> (if stored then sound d fs \<and> held d k else absent k d fs)"

lemma get_package_data_None:
  "get_package_data i v d = Inr None \<Longrightarrow> \<not> has_row r_key (version_key i v) (db_packages d)"
  by (auto simp: get_package_data_def row_at_None result_ok split: option.splits)

lemma settled_sound: "settled k b d fs \<Longrightarrow> sound d fs"
  by (simp add: settled_def absent_def split: if_splits)

lemma remove_absent:
  assumes "settled k b d fs" "\<not> b" "remove_membership feed i v d = Inr (x, d')"
  shows "settled k b d' fs"
proof -
  have "set (db_members d') \<subseteq> set (db_members d)" "set (db_files d') \<subseteq> set (db_files d)"
    "db_packages d' = db_packages d"
    using assms(3) by (auto simp: remove_membership_def)
  then show ?thesis
    using assms serves_fewer db_ok_remove_membership
    by (fastforce simp: settled_def absent_def sound_def)
qed

lemma finish_purge_settles:
  "hoare (on_state sound) (finish_purge feed p)
     (\<lambda>(existing, previous). on_state (settled (version_key (p_id p) (p_version p)) (existing \<noteq> None)))
     (\<lambda>_. on_state sound)"
proof -
  define i v k where "i = p_id p" and "v = p_version p" and "k = version_key i v"
  note defs = i_def [symmetric] v_def [symmetric] k_def [symmetric]
  have purge: "hoare (on_state (\<lambda>d fs. sound d fs \<and> feed_count i v d = 0)) (purge_global_data i v)
      (\<lambda>_. on_state (absent k)) (\<lambda>_. on_state sound)"
    by (rule hoare_weaken [OF purge_leaves_absent [of i v, folded k_def]])
      (auto simp: on_state_def unheld_def sound_def serves_without_def feed_count_held k_def)
  have third: "hoare (on_state (\<lambda>d fs. sound d fs \<and> get_package_data i v d = Inr existing))
      (if existing = None then ok existing
       else and_then (query (feed_count i v)) (\<lambda>n.
              if n = 0 then and_then (purge_global_data i v) (\<lambda>_. ok None) else ok existing))
      (\<lambda>ex. on_state (settled k (ex \<noteq> None))) (\<lambda>_. on_state sound)" for existing
  proof (rule hoare_if)
    assume "existing = None"
    then show "hoare (on_state (\<lambda>d fs. sound d fs \<and> get_package_data i v d = Inr existing)) (ok existing)
        (\<lambda>ex. on_state (settled k (ex \<noteq> None))) (\<lambda>_. on_state sound)"
      by (intro hoare_ok) (auto simp: on_state_def settled_def absent_def k_def dest: get_package_data_None)
  next
    assume some: "existing \<noteq> None"
    show "hoare (on_state (\<lambda>d fs. sound d fs \<and> get_package_data i v d = Inr existing))
        (and_then (query (feed_count i v)) (\<lambda>n.
           if n = 0 then and_then (purge_global_data i v) (\<lambda>_. ok None) else ok existing))
        (\<lambda>ex. on_state (settled k (ex \<noteq> None))) (\<lambda>_. on_state sound)"
    proof (rule hoare_bind [OF hoare_query], simp, rule hoare_if)
      fix n :: nat assume n: "n = 0"
      show "hoare (on_state (\<lambda>d fs. (sound d fs \<and> get_package_data i v d = Inr existing) \<and> feed_count i v d = n))
          (and_then (purge_global_data i v) (\<lambda>_. ok None))
          (\<lambda>ex. on_state (settled k (ex \<noteq> None))) (\<lambda>_. on_state sound)"
        by (rule hoare_bind [where R = "\<lambda>_. on_state (absent k)"], rule hoare_weaken [OF purge])
          (auto simp: on_state_def n settled_def intro!: hoare_ok)
    next
      fix n :: nat assume n: "n \<noteq> 0"
      then show "hoare (on_state (\<lambda>d fs. (sound d fs \<and> get_package_data i v d = Inr existing) \<and> feed_count i v d = n))
          (ok existing) (\<lambda>ex. on_state (settled k (ex \<noteq> None))) (\<lambda>_. on_state sound)"
        using some
        by (intro hoare_ok) (auto simp: on_state_def settled_def k_def, metis feed_count_held neq0_conv)
    qed
  qed
  have fourth: "hoare (on_state (settled k (ex \<noteq> None)))
      (if ex = None \<and> prev \<noteq> None then and_then (run_db (remove_membership feed i v)) (\<lambda>_. ok (ex, None))
       else ok (ex, prev))
      (\<lambda>(existing, previous). on_state (settled k (existing \<noteq> None))) (\<lambda>_. on_state sound)" for ex prev
  proof (rule hoare_if, rule hoare_bind)
    assume "ex = None \<and> prev \<noteq> None"
    then show "hoare (on_state (settled k (ex \<noteq> None))) (run_db (remove_membership feed i v))
        (\<lambda>_. on_state (settled k (ex \<noteq> None))) (\<lambda>_. on_state sound)"
      by (intro hoare_run_db) (auto intro: remove_absent settled_sound)
  qed (auto intro!: hoare_ok)
  show ?thesis
    unfolding finish_purge_def Let_def defs
  proof (rule hoare_bind [OF hoare_query_result], simp, rule hoare_bind [OF _ hoare_bind [OF third fourth]])
    fix existing
    show "hoare (on_state (\<lambda>d fs. sound d fs \<and> get_package_data i v d = Inr existing))
        (query (get_membership feed i v))
        (\<lambda>_. on_state (\<lambda>d fs. sound d fs \<and> get_package_data i v d = Inr existing)) (\<lambda>_. on_state sound)"
      by (rule hoare_weaken [OF hoare_query [where E = sound]]) (auto simp: on_state_def)
  qed
qed

section \<open>Adding and replacing rows\<close>

text \<open>A membership of a package's version, with an id the store accepts.\<close>

definition joins :: "string \<Rightarrow> package \<Rightarrow> membership \<Rightarrow> bool" where
  "joins feed p m \<longleftrightarrow>
     m_feed m = feed \<and> m_lower_id m = lower_id p \<and> m_normalized_version m = normalized_version p \<and>
     validate_package_id (p_id p) = Inr ()"

lemma lower_id_word:
  assumes "validate_package_id (p_id p) = Inr ()"
  shows "hd (lower_id p) \<noteq> CHR ''.''"
proof -
  have "is_word (hd (p_id p))" "p_id p \<noteq> []"
    using validate_package_id_plain [OF assms] by (auto simp: plain_name_def)
  then show ?thesis
    by (cases "p_id p") (auto simp: lower_id_def canonical_id_def ascii_lower_eq_nonletter char_eval is_word_def)
qed

lemma joins_row:
  assumes "joins feed p m"
  shows "member_ok (member_row_of now m 0)" "member_version (member_row_of now m 0) = version_key (p_id p) (p_version p)"
    "member_key (member_row_of now m 0) = (feed, version_key (p_id p) (p_version p))"
    "membership.truncate (member_row_of now m n) = m"
  using assms lower_id_word [of p]
  by (simp_all add: joins_def member_ok_def member_row_of_def membership.defs member_version_def
      member_key_def version_key_def lower_id_def normalized_version_def canonical_id_def)

lemma lower_path:
  assumes "validate_package_id (p_id p) = Inr ()" "on_disk fs (package_path (p_id p) x)"
  shows "on_disk fs (package_path (lower_id p) x)"
proof -
  have "safe_segment (p_id p) = Inr (p_id p)"
    by (rule safe_segment_plain [OF validate_package_id_plain(1) [OF assms(1)]])
  then show ?thesis
    using assms(2)
    by (cases "safe_segment (lower_id p)"; cases "safe_segment x")
      (auto simp: package_path_def version_dir_def versioned_name_def on_disk_def lower_id_def canonical_id_def
        dest!: safe_segment_Inr)
qed

text \<open>One more member, whose payload is there and whose attached files are.\<close>

lemma serves_member:
  assumes "serves d fs" "member_ok row"
    and "on_disk fs (package_path (m_lower_id row) (m_normalized_version row))"
    and "\<And>f. f \<in> set (db_files d) \<Longrightarrow> file_version f = member_version row \<Longrightarrow> held d (member_version row)"
    and "\<And>m. m \<in> set (db_members d') \<Longrightarrow> m \<in> set (db_members d) \<or>
           m_lower_id m = m_lower_id row \<and> m_normalized_version m = m_normalized_version row"
    and "set (db_files d') \<subseteq> set (db_files d)"
  shows "serves d' fs"
  unfolding serves_def
proof (intro conjI ballI impI)
  fix m assume "m \<in> set (db_members d')"
  from assms(5) [OF this]
  have "member_ok m \<and> on_disk fs (package_path (m_lower_id m) (m_normalized_version m))"
  proof
    assume "m \<in> set (db_members d)"
    then show ?thesis using assms(1) by (simp add: serves_def)
  next
    assume eq: "m_lower_id m = m_lower_id row \<and> m_normalized_version m = m_normalized_version row"
    then have "member_ok m = member_ok row" by (simp add: member_ok_def)
    then show ?thesis using eq assms(2,3) by simp
  qed
  then show "member_ok m" "on_disk fs (package_path (m_lower_id m) (m_normalized_version m))" by auto
next
  fix f assume f: "f \<in> set (db_files d')" "held d' (file_version f)"
  then obtain m where m: "m \<in> set (db_members d')" "member_version m = file_version f"
    by (auto simp: held_iff)
  from assms(5) [OF m(1)] have "held d (file_version f)"
  proof
    assume "m \<in> set (db_members d)"
    then show ?thesis using m(2) by (auto simp: held_iff)
  next
    assume "m_lower_id m = m_lower_id row \<and> m_normalized_version m = m_normalized_version row"
    then have "file_version f = member_version row" using m(2) by (simp add: member_version_def)
    moreover have "f \<in> set (db_files d)" using f(1) assms(6) by blast
    ultimately show ?thesis using assms(4) by simp
  qed
  then show "on_disk fs (blob_path (f_sha256 f))" using assms(1,6) f(1) by (auto simp: serves_def)
qed

lemma joins_path:
  assumes "joins feed p m" "on_disk fs (package_path (p_id p) (normalized (p_version p)))"
  shows "on_disk fs (package_path (m_lower_id (member_row_of now m 0)) (m_normalized_version (member_row_of now m 0)))"
proof -
  have "m_lower_id (member_row_of now m 0) = lower_id p"
    "m_normalized_version (member_row_of now m 0) = normalized (p_version p)"
    using assms(1) by (simp_all add: joins_def member_row_of_def membership.defs lower_id_def normalized_version_def)
  then show ?thesis using lower_path assms by (simp add: joins_def)
qed

lemma insert_package_keeps:
  assumes "insert_package q d = (x, d')"
  shows "db_members d' = db_members d" "db_files d' = db_files d"
  using assms by (auto simp: insert_package_def split: if_splits)

lemma add_version_arrives:
  assumes "sound d fs" and m: "joins feed p m" and path: "on_disk fs (package_path (p_id p) (normalized (p_version p)))"
    and files: "\<And>f. f \<in> set (db_files d) \<Longrightarrow> file_version f = version_key (p_id p) (p_version p) \<Longrightarrow>
          held d (version_key (p_id p) (p_version p))"
    and add: "add_version now q m d = Inr (x, d')"
  shows "arrived feed (p_id p) (p_version p) (m_pending m) d' fs"
proof -
  let ?row = "member_row_of now m 0"
  obtain y d1 where ins: "insert_package q d = (y, d1)" by (cases "insert_package q d")
  note keep = insert_package_keeps [OF ins]
  have d': "db_members d' = db_members d @ [?row]" "db_files d' = db_files d"
    and new: "\<not> has_row member_key (member_key ?row) (db_members d)"
    using add keep by (auto simp: add_version_def ins insert_membership_def Let_def bind_result_def
        split: if_splits)
  have "serves d' fs"
    by (rule serves_member [of d fs ?row])
      (use assms(1) joins_row [OF m] joins_path [OF m path] files d' in \<open>auto simp: sound_def\<close>)
  moreover have "db_ok d'" using assms(1) db_ok_add_version add by (auto simp: sound_def)
  moreover have "get_membership feed (p_id p) (p_version p) d' = Some m"
    using new joins_row(3,4) [OF m, of now] d'(1)
    by (simp add: get_membership_def row_at_None [symmetric])
  ultimately show ?thesis using path by (simp add: arrived_def sound_def)
qed

lemma put_member_rows:
  "r \<in> set (put_member row rows) \<Longrightarrow> r \<in> set rows \<or> (\<exists>n. r = row\<lparr>mr_downloads := n\<rparr>)"
  by (auto simp: put_member_def update_rows_def split: if_splits intro: exI [of _ "mr_downloads row"])

lemma row_at_put_member:
  "\<exists>n. row_at member_key (member_key row) (put_member row rows) = Some (row\<lparr>mr_downloads := n\<rparr>)"
proof (cases "has_row member_key (member_key row) rows")
  case True
  then obtain r where r: "row_at member_key (member_key row) rows = Some r"
    using row_at_None by (metis not_Some_eq)
  have "row_at member_key k (update_rows (\<lambda>r. member_key r = member_key row)
          (\<lambda>r. row\<lparr>mr_downloads := mr_downloads r\<rparr>) rows)
      = map_option (\<lambda>r. if member_key r = member_key row then row\<lparr>mr_downloads := mr_downloads r\<rparr> else r)
          (row_at member_key k rows)" for k
    by (induction rows) (auto simp: row_at_def update_rows_def member_key_def)
  then show ?thesis using True r row_at_Some [OF r] by (auto simp: put_member_def)
next
  case False
  then have "row_at member_key (member_key row) (put_member row rows) = Some (row\<lparr>mr_downloads := mr_downloads row\<rparr>)"
    using row_at_None [of member_key "member_key row" rows] False by (simp add: put_member_def)
  then show ?thesis by blast
qed

lemma replace_version_arrives:
  assumes "sound d fs" and m: "joins feed p m" and path: "on_disk fs (package_path (p_id p) (normalized (p_version p)))"
    and "held d (version_key (p_id p) (p_version p))"
    and rep: "replace_version now q m d = Inr (x, d')"
  shows "arrived feed (p_id p) (p_version p) (m_pending m) d' fs"
proof -
  let ?row = "member_row_of now m 0"
  have d': "db_members d' = put_member ?row (db_members d)" "db_files d' = db_files d"
    using rep by (auto simp: replace_version_def split: if_splits)
  have "serves d' fs"
  proof (rule serves_member [of d fs ?row])
    fix r assume "r \<in> set (db_members d')"
    then show "r \<in> set (db_members d) \<or>
        m_lower_id r = m_lower_id ?row \<and> m_normalized_version r = m_normalized_version ?row"
      using put_member_rows [of r ?row "db_members d"] d'(1) by auto
  qed (use assms(1,4) joins_row [OF m] joins_path [OF m path] d' in \<open>auto simp: sound_def\<close>)
  moreover have "db_ok d'" using assms(1) db_ok_replace_version rep by (auto simp: sound_def)
  moreover obtain n where "row_at member_key (member_key ?row) (db_members d') = Some (?row\<lparr>mr_downloads := n\<rparr>)"
    using row_at_put_member d'(1) by metis
  then have "map_option m_pending (get_membership feed (p_id p) (p_version p) d') = Some (m_pending m)"
    using joins_row(3) [OF m, of now]
    by (simp add: get_membership_def membership.defs member_row_of_def)
  ultimately show ?thesis using path by (simp add: arrived_def sound_def)
qed

text \<open>Flags of the other feeds and the files dropped with the old build.\<close>

lemma set_flag_fields [simp]:
  "member_key (set_flag o' m) = member_key m" "m_pending (set_flag o' m) = m_pending m"
  "m_lower_id (set_flag o' m) = m_lower_id m" "m_normalized_version (set_flag o' m) = m_normalized_version m"
  by (simp_all add: set_flag_def member_key_def)

lemma flagged_arrives:
  assumes "arrived feed i v b d fs"
  shows "arrived feed i v b (d\<lparr>db_members := update_rows (\<lambda>r. member_key r = key) (set_flag o') (db_members d)\<rparr>) fs"
proof -
  let ?d = "d\<lparr>db_members := update_rows (\<lambda>r. member_key r = key) (set_flag o') (db_members d)\<rparr>"
  have held: "held ?d k = held d k" for k
    by (simp add: held_def has_row_image flip: set_map) (simp add: member_version_def)
  have "serves d fs" using assms by (simp add: arrived_def sound_def)
  then have "serves ?d fs"
    unfolding serves_def by (auto simp: held set_update_rows member_ok_def)
  moreover have "db_ok ?d" using assms by (simp add: arrived_def sound_def db_ok_members_updated)
  moreover have "map_option m_pending (get_membership feed i v ?d) = map_option m_pending (get_membership feed i v d)"
    by (simp add: get_membership_def row_at_update option.map_comp comp_def membership.defs if_distrib
        cong: option.map_cong)
  ultimately show ?thesis using assms by (simp add: arrived_def sound_def)
qed

lemma flags_arrive:
  "arrived feed i v b d fs \<Longrightarrow>
   arrived feed i v b (foldl (\<lambda>d (feed, o'). d\<lparr>db_members := update_rows (\<lambda>r. member_key r = (feed, k))
                    (set_flag o') (db_members d)\<rparr>) d verdicts) fs"
  by (induction verdicts arbitrary: d) (auto simp: flagged_arrives)

lemma dropped_arrives:
  assumes "arrived feed i v b d fs"
  shows "arrived feed i v b (d\<lparr>db_files := delete_rows P (db_files d)\<rparr>) fs"
proof -
  have "serves (d\<lparr>db_files := delete_rows P (db_files d)\<rparr>) fs"
    by (rule serves_fewer [of d]) (use assms in \<open>auto simp: arrived_def sound_def\<close>)
  then show ?thesis using assms db_ok_drop_files by (auto simp: arrived_def sound_def get_membership_def)
qed

lemma replace_pending_arrives:
  assumes "sound d fs" "joins feed p m" "on_disk fs (package_path (p_id p) (normalized (p_version p)))"
    and "held d (version_key (p_id p) (p_version p))"
    and rep: "replace_pending_version now q m drops others d = Inr (x, d')"
  shows "arrived feed (p_id p) (p_version p) (m_pending m) d' fs"
proof -
  obtain u d1 verdicts where d1: "replace_version now q m d = Inr (u, d1)"
    and d': "d' = foldl (\<lambda>d (feed, o'). d\<lparr>db_members := update_rows
                  (\<lambda>r. member_key r = (feed, package_key q)) (set_flag o') (db_members d)\<rparr>) d1 verdicts \<or>
             (\<exists>P. d' = (let d = foldl (\<lambda>d (feed, o'). d\<lparr>db_members := update_rows
                  (\<lambda>r. member_key r = (feed, package_key q)) (set_flag o') (db_members d)\<rparr>) d1 verdicts
                in d\<lparr>db_files := delete_rows P (db_files d)\<rparr>))"
    using rep
    by (auto simp: replace_pending_version_def Let_def result_ok split: if_splits option.splits)
  note arr = flags_arrive [OF replace_version_arrives [OF assms(1-4) d1]]
  from d' show ?thesis
    unfolding Let_def by (elim disjE exE) (simp_all only: arr dropped_arrives)
qed

section \<open>Putting a payload in place\<close>

lemma hoare_metadata:
  "hoare (on_state Q) (fs_metadata_len p) (\<lambda>_. on_state (\<lambda>d fs. Q d fs \<and> fs p \<noteq> None)) (\<lambda>_. on_state Q)"
proof (rule hoareI)
  fix w r w' assume Q: "on_state Q w" and run: "fs_metadata_len p w = (r, w')"
  have "w_db w' = w_db w" "file_at_path w' = file_at_path w"
    using only_touchesD [OF touching_reads(2) run] metadata_result [OF run] by auto
  then show "case r of Inr _ \<Rightarrow> on_state (\<lambda>d fs. Q d fs \<and> fs p \<noteq> None) w' | Inl _ \<Rightarrow> on_state Q w'"
    using Q run
    by (auto simp: on_state_def fs_metadata_len_def fs_call_def no_trace_def fs_fault_fields
        split: sum.splits prod.splits option.splits)
qed

lemma store_package_present:
  assumes "grows Q" "staged temp"
  shows "hoare (on_state Q) (store_package i x temp)
     (\<lambda>_. on_state (\<lambda>d fs. Q d fs \<and> on_disk fs (package_path i x))) (\<lambda>_. on_state Q)"
  unfolding store_package_def
proof (rule keeps_then, rule keeps_lift, rule keeps_then)
  show "keeps (on_state Q) (fs_create_dirs dir)" for dir
    by (rule keeps_additive [OF _ assms(1)]) (rule adding)
  have move: "keeps (on_state Q) (move_into_place temp dest)" for dest
    by (rule keeps_additive [OF additive_move [OF assms(2)] assms(1)])
  show "hoare (on_state Q) (and_then (lift_result (package_path i x)) (\<lambda>dest.
      and_then (move_into_place temp dest) (\<lambda>_. fs_metadata_len dest)))
     (\<lambda>_. on_state (\<lambda>d fs. Q d fs \<and> on_disk fs (package_path i x))) (\<lambda>_. on_state Q)"
  proof (cases "package_path i x")
    case (Inl e)
    then show ?thesis by (simp add: and_then_lift hoare_fail)
  next
    case (Inr dest)
    show ?thesis
      unfolding Inr and_then_lift
      by (rule keeps_then [OF move], rule hoare_weaken [OF hoare_metadata])
        (auto simp: on_state_def on_disk_def)
  qed
qed

lemma store_payload_present:
  assumes "grows Q" "staged temp"
  shows "hoare (on_state Q) (store_payload i x temp sc)
     (\<lambda>_. on_state (\<lambda>d fs. Q d fs \<and> on_disk fs (package_path i x))) (\<lambda>_. on_state Q)"
  unfolding store_payload_def
proof (rule hoare_bind [OF store_package_present [OF assms]])
  have "grows (\<lambda>d fs. Q d fs \<and> on_disk fs (package_path i x))"
    by (intro grows_and assms grows_path)
  from hoare_keeps [OF keeps_additive [OF additive_store_sidecars this]]
  show "hoare (on_state (\<lambda>d fs. Q d fs \<and> on_disk fs (package_path i x))) (store_sidecars i x sc)
      (\<lambda>_. on_state (\<lambda>d fs. Q d fs \<and> on_disk fs (package_path i x))) (\<lambda>_. on_state Q)"
    by (rule hoare_weaken) (auto simp: on_state_def)
qed

lemma package_exists_present:
  assumes "grows Q"
  shows "hoare (on_state Q) (package_exists i x)
     (\<lambda>b. on_state (\<lambda>d fs. Q d fs \<and> (if b then on_disk fs (package_path i x) else True))) (\<lambda>_. on_state Q)"
proof (rule hoareI)
  fix w r w' assume Q: "on_state Q w" and run: "package_exists i x w = (r, w')"
  have "additive (package_exists i x)"
    unfolding package_exists_def by (intro adding)
  from keepsD [OF keeps_additive [OF this assms] Q run] have Q': "on_state Q w'" .
  have "on_disk (file_at_path w') (package_path i x)" if "r = Inr True"
    using run that
    by (cases "package_path i x")
      (auto simp: package_exists_def on_disk_def fs_exists_def and_then_def attempt_def ok_def fs_call_def
        no_trace_def look_def fs_fault_fields split: prod.splits option.splits sum.splits)
  then show "case r of Inr b \<Rightarrow> on_state (\<lambda>d fs. Q d fs \<and>
      (if b then on_disk fs (package_path i x) else True)) w' | Inl _ \<Rightarrow> on_state Q w'"
    using Q' by (auto simp: on_state_def split: sum.splits)
qed

section \<open>The three ways in\<close>

lemma hoare_on_err:
  assumes "hoare P m Q R" "\<And>e. keeps (R e) (h e)" "\<And>e w. R e w \<Longrightarrow> E w"
  shows "hoare P (on_err m h) Q (\<lambda>_. E)"
  unfolding on_err_def
proof (rule hoare_bind [where R = "\<lambda>r. case r of Inr a \<Rightarrow> Q a | Inl e \<Rightarrow> R e"])
  show "hoare P (attempt m) (\<lambda>r. case r of Inr a \<Rightarrow> Q a | Inl e \<Rightarrow> R e) (\<lambda>_. E)"
    by (rule hoare_attempt) (use assms(1) in simp)
  fix r
  show "hoare (case r of Inr a \<Rightarrow> Q a | Inl e \<Rightarrow> R e)
      (case r of Inr a \<Rightarrow> ok a | Inl e \<Rightarrow> and_then (h e) (\<lambda>_. fail e)) Q (\<lambda>_. E)"
  proof (cases r)
    case (Inl e)
    have "hoare (R e) (and_then (h e) (\<lambda>_. fail e)) Q (\<lambda>_. E)"
      by (rule keeps_then_weak [OF assms(2)]) (use assms(3) in \<open>auto intro!: hoare_fail\<close>)
    then show ?thesis by (simp add: Inl)
  qed (simp add: hoare_ok)
qed

definition fits :: "incoming \<Rightarrow> bool" where
  "fits inc \<longleftrightarrow> validate_package_id (p_id (in_package inc)) = Inr ()"

lemma new_joins: "fits inc \<Longrightarrow> joins feed (in_package inc) (new_membership feed opts inc)"
  by (simp add: joins_def fits_def new_membership_def active_membership_def)

lemma replaced_joins: "fits inc \<Longrightarrow> joins feed (in_package inc) (replaced_membership feed opts inc previous same)"
  by (simp add: joins_def fits_def replaced_membership_def active_membership_def)

lemma index_new_arrives:
  assumes "fits inc" "staged temp"
  defines "i \<equiv> p_id (in_package inc)" and "v \<equiv> p_version (in_package inc)"
  shows "hoare (on_state (absent (version_key i v))) (index_new feed temp opts inc)
     (\<lambda>r. on_state (arrived feed i v (ir_pending r))) (\<lambda>_. on_state sound)"
  unfolding index_new_def Let_def i_def [symmetric] v_def [symmetric]
proof (rule hoare_bind)
  let ?k = "version_key i v"
  let ?stored = "\<lambda>d fs. absent ?k d fs \<and> on_disk fs (package_path i (normalized v))"
  show "hoare (on_state (absent ?k)) (store_payload i (normalized v) temp (in_sidecars inc))
     (\<lambda>_. on_state ?stored) (\<lambda>_. on_state sound)"
    by (rule hoare_weaken [OF store_payload_present [OF grows_absent assms(2)]])
      (auto simp: on_state_def absent_def)
  have add: "hoare (on_state ?stored) (run_db_at (\<lambda>now. add_version now (in_package inc) (new_membership feed opts inc)))
     (\<lambda>_. on_state (arrived feed i v (io_pending opts))) (\<lambda>_. on_state (unheld ?k))"
  proof (rule hoare_run_db_at)
    fix now d fs a d'
    assume st: "?stored d fs" and add: "add_version now (in_package inc) (new_membership feed opts inc) d = Inr (a, d')"
    have no: "file_version f \<noteq> ?k" if "f \<in> set (db_files d)" for f
      using st that absent_no_files by blast
    have "sound d fs" using st by (simp add: absent_def)
    then have "arrived feed i v (m_pending (new_membership feed opts inc)) d' fs"
      unfolding i_def v_def
      by (rule add_version_arrives [OF _ new_joins [OF assms(1)] _ _ add])
        (use st no in \<open>auto simp: i_def v_def\<close>)
    then show "arrived feed i v (io_pending opts) d' fs" by (simp add: new_membership_def)
  qed (auto intro: absent_unheld)
  have undo: "keeps (on_state (unheld ?k)) (and_then (unwrap_or 0 (query (feed_count i v))) (\<lambda>n.
      io_when (n = 0) (and_then (ignoring (run_db (delete_package_data i v))) (\<lambda>_.
        ignoring (storage_delete i (normalized v))))))"
    by (intro keeping keeps_unheld_data keeps_unheld_delete)
  show "hoare (on_state ?stored)
      (and_then (on_err (run_db_at (\<lambda>now. add_version now (in_package inc) (new_membership feed opts inc))) (\<lambda>_.
          and_then (unwrap_or 0 (query (feed_count i v))) (\<lambda>n.
          io_when (n = 0) (and_then (ignoring (run_db (delete_package_data i v))) (\<lambda>_.
            ignoring (storage_delete i (normalized v))))))) (\<lambda>_.
       ok (index_result_of (io_pending opts) inc)))
     (\<lambda>r. on_state (arrived feed i v (ir_pending r))) (\<lambda>_. on_state sound)"
    by (rule hoare_bind [OF hoare_on_err [OF add undo]])
      (auto simp: on_state_def index_result_of_def intro: unheld_sound intro!: hoare_ok)
qed

text \<open>A version some feed holds; whether its payload was seen to be there.\<close>

definition stocked :: "key \<Rightarrow> bool \<Rightarrow> path result \<Rightarrow> db \<Rightarrow> files_view \<Rightarrow> bool" where
  "stocked k seen path d fs \<longleftrightarrow> sound d fs \<and> held d k \<and> (if seen then on_disk fs path else True)"

lemma grows_stocked: "grows (stocked k seen (package_path i x))"
proof -
  have "grows (\<lambda>d fs. if seen then on_disk fs (package_path i x) else True)"
    using grows_path by (cases seen) (auto simp: grows_def)
  then show ?thesis unfolding stocked_def by (intro grows_and grows_sound grows_db)
qed

lemma stocked_sound: "stocked k seen path d fs \<Longrightarrow> sound d fs"
  by (simp add: stocked_def)

lemma hoare_look: "(\<And>a. hoare P (f a) Q E) \<Longrightarrow> hoare P (and_then (look g) f) Q E"
  by (simp add: hoare_def and_then_def look_def)

lemma refused: "hoare (on_state (stocked k seen path)) (and_then (look w_now) (\<lambda>now. fail (e now))) Q (\<lambda>_. on_state sound)"
  by (rule hoare_look, rule hoare_fail) (auto simp: on_state_def stocked_def)

lemma index_shared_arrives:
  assumes "fits inc" "staged temp"
  defines "i \<equiv> p_id (in_package inc)" and "v \<equiv> p_version (in_package inc)"
  shows "hoare (on_state (stocked (version_key i v) seen (package_path i (normalized v))))
     (index_shared lib feed temp opts inc existing seen)
     (\<lambda>r. on_state (arrived feed i v (ir_pending r))) (\<lambda>_. on_state sound)"
  unfolding index_shared_def Let_def i_def [symmetric] v_def [symmetric]
proof (rule hoare_if, rule refused, rule hoare_bind)
  let ?path = "package_path i (normalized v)" and ?k = "version_key i v"
  show "hoare (on_state (stocked ?k seen ?path))
      (if seen then ignoring (fs_remove_file temp)
       else store_payload i (normalized v) temp (in_sidecars inc))
      (\<lambda>_. on_state (stocked ?k True ?path)) (\<lambda>_. on_state sound)"
  proof (rule hoare_if)
    assume seen
    have "additive (ignoring (fs_remove_file temp))" by (intro adding assms(2))
    from hoare_keeps [OF keeps_additive [OF this grows_stocked]]
    show "hoare (on_state (stocked ?k seen ?path)) (ignoring (fs_remove_file temp))
        (\<lambda>_. on_state (stocked ?k True ?path)) (\<lambda>_. on_state sound)"
      by (rule hoare_weaken) (use \<open>seen\<close> in \<open>auto simp: on_state_def stocked_sound\<close>)
  next
    show "hoare (on_state (stocked ?k seen ?path)) (store_payload i (normalized v) temp (in_sidecars inc))
        (\<lambda>_. on_state (stocked ?k True ?path)) (\<lambda>_. on_state sound)"
      by (rule hoare_weaken [OF store_payload_present [OF grows_stocked assms(2)]])
        (auto simp: on_state_def stocked_def)
  qed
  show "hoare (on_state (stocked ?k True ?path))
      (and_then (run_db_at (\<lambda>now. add_version now existing (new_membership feed opts inc)))
         (\<lambda>_. ok (index_result_of (io_pending opts) inc)))
      (\<lambda>r. on_state (arrived feed i v (ir_pending r))) (\<lambda>_. on_state sound)"
  proof (rule hoare_bind [where R = "\<lambda>_. on_state (arrived feed i v (io_pending opts))"],
      rule hoare_run_db_at)
    fix now d fs a d'
    assume st: "stocked ?k True ?path d fs"
      and add: "add_version now existing (new_membership feed opts inc) d = Inr (a, d')"
    have "arrived feed i v (m_pending (new_membership feed opts inc)) d' fs"
      unfolding i_def v_def
      by (rule add_version_arrives [OF _ new_joins [OF assms(1)] _ _ add])
        (use st in \<open>auto simp: i_def v_def stocked_def\<close>)
    then show "arrived feed i v (io_pending opts) d' fs" by (simp add: new_membership_def)
  qed (auto simp: on_state_def index_result_of_def stocked_sound intro!: hoare_ok)
qed

lemma swap_replace_arrives:
  assumes "joins feed p m"
  defines "i \<equiv> p_id p" and "v \<equiv> p_version p"
  shows "hoare (on_state (stocked (version_key i v) True (package_path i (normalized v))))
     (swap_replace sw q m) (\<lambda>_. on_state (arrived feed i v (m_pending m)))
     (\<lambda>_. on_state (stocked (version_key i v) True (package_path i (normalized v))))"
proof (cases sw)
  case Swap_Any
  show ?thesis
    unfolding swap_replace_def Swap_Any swap.case
    by (rule hoare_bind [where R = "\<lambda>_. on_state (arrived feed i v (m_pending m))"],
        rule hoare_run_db_at)
      (auto simp: stocked_def i_def v_def intro: replace_version_arrives [OF _ assms(1)] intro!: hoare_ok)
next
  case (Swap_Pending drops others)
  show ?thesis
    unfolding swap_replace_def Swap_Pending swap.case
    by (rule hoare_run_db_at)
      (auto simp: stocked_def i_def v_def intro: replace_pending_arrives [OF _ assms(1)])
qed

text \<open>An overwrite: the payload stays in place throughout, the old one or the new one.\<close>

definition is_backup :: "path option \<Rightarrow> bool" where
  "is_backup b = (case b of None \<Rightarrow> True | Some b \<Rightarrow> staged b)"

lemma staged_sibling: "staged temp \<Longrightarrow> staged (butlast temp @ [name])"
  by (cases temp rule: rev_cases) (auto simp: staged_def under_def staging_dir_def)

lemma hoare_ok_or_none: "hoare P (attempt m) (\<lambda>_. Q) E \<Longrightarrow> hoare P (ok_or_none m) (\<lambda>_. Q) E"
  unfolding ok_or_none_def by (rule hoare_bind) (auto intro: hoare_ok)

lemma keep_aside_backup:
  assumes "staged temp" "grows Q"
  shows "hoare (on_state Q) (keep_aside i x temp) (\<lambda>b w. on_state Q w \<and> is_backup b) (\<lambda>_. on_state Q)"
  unfolding keep_aside_def
proof (rule keeps_then)
  have "additive (get_package i x)"
    unfolding get_package_def get_if_exists_def by (intro adding)
  then show "keeps (on_state Q) (attempt (get_package i x))"
    by (intro keeping keeps_additive assms(2))
  fix r
  have link: "keeps (on_state Q) (attempt (fs_hard_link current (butlast temp @ [name])))" for current name
    by (intro keeping keeps_additive [OF _ assms(2)] adding staged_sibling assms(1))
  have name: "keeps (on_state Q) (fresh_name ''previous'')"
    by (rule keeps_additive [OF _ assms(2)]) (rule adding)
  show "hoare (on_state Q) (case r of
         Inl _ \<Rightarrow> ok None
       | Inr current \<Rightarrow>
           and_then (fresh_name ''previous'') (\<lambda>name.
           let backup = butlast temp @ [name]
           in and_then (attempt (fs_hard_link current backup)) (\<lambda>r.
              ok (if is_ok r then Some backup else None))))
      (\<lambda>b w. on_state Q w \<and> is_backup b) (\<lambda>_. on_state Q)"
  proof (cases r)
    case (Inr current)
    show ?thesis
      unfolding Inr sum.case Let_def
      by (rule keeps_then [OF name], rule keeps_then [OF link], rule hoare_ok)
        (simp add: is_backup_def staged_sibling [OF assms(1)])
  qed (simp add: hoare_ok is_backup_def)
qed

lemma additive_ok_or_none [adding]: "additive m \<Longrightarrow> additive (ok_or_none m)"
  unfolding ok_or_none_def by (intro adding)

lemma additive_read_when [adding]: "additive m \<Longrightarrow> additive (read_when b m)"
  unfolding read_when_def by (intro adding)

lemma additive_get_aux [adding]: "additive (get_aux i x kind)"
  unfolding get_aux_def by (intro adding)

lemma additive_drop_backup: "is_backup b \<Longrightarrow> additive (drop_backup b)"
  unfolding drop_backup_def is_backup_def by (cases b) (auto intro!: adding)

lemma additive_put_back: "is_backup b \<Longrightarrow> additive (put_back i x sc b n r c)"
  unfolding put_back_def is_backup_def
  by (cases b; cases n) (auto intro!: adding)

lemma overwrite_arrives:
  assumes "joins feed p m" "staged temp"
  defines "i \<equiv> p_id p" and "v \<equiv> p_version p"
  shows "hoare (on_state (stocked (version_key i v) seen (package_path i (normalized v))))
     (overwrite temp p existing m sc sw) (\<lambda>_. on_state (arrived feed i v (m_pending m))) (\<lambda>_. on_state sound)"
proof -
  let ?path = "package_path i (normalized v)" and ?k = "version_key i v"
  let ?S = "on_state (stocked ?k seen ?path)"
  let ?T = "on_state (stocked ?k True ?path)"
  have keep: "keeps ?S m" if "additive m" for m :: "'b io"
    by (rule keeps_additive [OF that grows_stocked])
  have keepT: "keeps ?T m" if "additive m" for m :: "'b io"
    by (rule keeps_additive [OF that grows_stocked])
  have keepA: "keeps (on_state (arrived feed i v (m_pending m))) m'" if "additive m'" for m' :: "'b io"
    by (rule keeps_additive [OF that grows_arrived])
  have S: "?S w \<Longrightarrow> on_state sound w" and T: "?T w \<Longrightarrow> on_state sound w"
    and A: "on_state (arrived feed i v (m_pending m)) w \<Longrightarrow> on_state sound w" for w
    by (auto simp: on_state_def stocked_def arrived_def)
  have stored: "hoare ?S (on_err (store_package i (normalized v) temp) (\<lambda>_. drop_backup b)) (\<lambda>_. ?T) (\<lambda>_. on_state sound)"
    if "is_backup b" for b
    by (rule hoare_on_err [where R = "\<lambda>_. ?S"],
        rule hoare_weaken [OF store_package_present [OF grows_stocked assms(2)]])
      (auto simp: on_state_def stocked_def intro!: keep additive_drop_backup that)
  have swapped: "hoare ?T (attempt (and_then (store_sidecars i (normalized v) sc) (\<lambda>_. swap_replace sw q m)))
      (\<lambda>r. case r of Inr _ \<Rightarrow> on_state (arrived feed i v (m_pending m)) | Inl _ \<Rightarrow> ?T) (\<lambda>_. on_state sound)" for q
    unfolding i_def v_def
    by (rule hoare_attempt, simp,
        rule keeps_then [OF keepT [OF additive_store_sidecars, unfolded i_def v_def]],
        rule swap_replace_arrives [OF assms(1)])
  show ?thesis
    unfolding overwrite_def Let_def i_def [symmetric] v_def [symmetric] normalized_version_def
  proof (rule hoare_bind [OF hoare_weaken [OF keep_aside_backup [OF assms(2) grows_stocked]]],
      assumption, assumption, erule S)
    fix b
    let ?rest = "\<lambda>old_nuspec old_readme old_icon.
      and_then (on_err (store_package i (normalized v) temp) (\<lambda>_. drop_backup b)) (\<lambda>_.
      and_then (attempt (and_then (store_sidecars i (normalized v) sc) (\<lambda>_. swap_replace sw p m))) (\<lambda>r.
      case r of
        Inr dropped \<Rightarrow> and_then (drop_backup b) (\<lambda>_. ok dropped)
      | Inl e \<Rightarrow> and_then (put_back i (normalized v) sc b old_nuspec old_readme old_icon) (\<lambda>_. fail e)))"
    have rest: "hoare ?S (?rest n r c) (\<lambda>_. on_state (arrived feed i v (m_pending m))) (\<lambda>_. on_state sound)"
      if b: "is_backup b" for n r c
    proof (rule hoare_bind [OF stored [OF b]], rule hoare_bind [OF swapped])
      fix res :: "package_file list result"
      show "hoare (case res of Inl _ \<Rightarrow> ?T | Inr _ \<Rightarrow> on_state (arrived feed i v (m_pending m)))
          (case res of Inl e \<Rightarrow> and_then (put_back i (normalized v) sc b n r c) (\<lambda>_. fail e)
           | Inr dropped \<Rightarrow> and_then (drop_backup b) (\<lambda>_. ok dropped))
          (\<lambda>_. on_state (arrived feed i v (m_pending m))) (\<lambda>_. on_state sound)"
        by (cases res; simp)
          (rule keeps_then_weak [OF keepT [OF additive_put_back [OF b]]], erule T, rule hoare_fail, erule T,
           rule keeps_then_weak [OF keepA [OF additive_drop_backup [OF b]]], erule A, rule hoare_ok, assumption)
    qed
    show "hoare (\<lambda>w. ?S w \<and> is_backup b)
        (and_then (ok_or_none (get_aux i (normalized v) aux_file.Nuspec)) (\<lambda>old_nuspec.
         and_then (read_when (p_has_readme existing) (get_aux i (normalized v) Readme)) (\<lambda>old_readme.
         and_then (read_when (p_has_embedded_icon existing) (get_aux i (normalized v) Icon)) (\<lambda>old_icon.
         ?rest old_nuspec old_readme old_icon))))
        (\<lambda>_. on_state (arrived feed i v (m_pending m))) (\<lambda>_. on_state sound)"
    proof (cases "is_backup b")
      case True
      show ?thesis
        by (rule hoare_weaken [where P = ?S],
            rule keeps_then_weak [OF keep], intro adding, erule S,
            rule keeps_then_weak [OF keep], intro adding, erule S,
            rule keeps_then_weak [OF keep], intro adding, erule S, rule rest [OF True]) auto
    qed (simp add: hoare_false)
  qed
qed

end
