(* ===== verification/Push.thy ===== *)
theory Push
  imports Index_Safety
begin

text \<open>
  A whole push (\<open>index_package\<close> in \<open>src/src/indexing.rs\<close>): what it leaves whatever fails in it,
  and that a version whose overwriting is off is never changed by one.
\<close>

section \<open>Steps that keep an arrived version\<close>

lemma package_path_plain:
  assumes "validate_package_id i = Inr ()" "package_path i x = Inr p"
  shows "length p = 3" "hd (hd p) \<noteq> CHR ''.''"
proof -
  have "is_word (hd i)" "i \<noteq> []"
    using validate_package_id_plain [OF assms(1)] by (auto simp: plain_name_def)
  then have "hd (to_ascii_lowercase i) \<noteq> CHR ''.''"
    by (cases i) (auto simp: ascii_lower_eq_nonletter char_eval is_word_def to_ascii_lowercase_def)
  then show "length p = 3" "hd (hd p) \<noteq> CHR ''.''"
    using package_path_eq [OF assms(2)] by auto
qed

lemma keeps_path:
  assumes "only_touches T m" "\<And>p. package_path i x = Inr p \<Longrightarrow> \<not> T p"
  shows "keeps (on_state (\<lambda>d fs. on_disk fs (package_path i x))) m"
  by (rule keeps_touching [OF assms(1)]) (use assms(2) in \<open>auto simp: on_disk_def split: sum.splits\<close>)

lemma keeps_path_blob:
  "keeps (on_state (\<lambda>d fs. on_disk fs (package_path i x))) (delete_blob sha)"
  by (rule keeps_path [OF touching_delete_blob]) (auto dest!: blob_path_eq package_path_eq)

lemma keeps_arrived:
  assumes "keeps (on_state serves) m" "\<And>R. keeps (on_state (\<lambda>d fs. db_ok d \<and> R (db_members d))) m"
    and "keeps (on_state (\<lambda>d fs. on_disk fs (package_path i (normalized v)))) m"
  shows "keeps (on_state (arrived feed i v b)) m"
proof -
  let ?R = "\<lambda>d. db_ok d \<and> map_option m_pending (get_membership feed i v d) = Some b"
  have eq: "arrived feed i v b =
      (\<lambda>d fs. serves d fs \<and> ?R d \<and> on_disk fs (package_path i (normalized v)))"
    by (auto simp: fun_eq_iff arrived_def sound_def)
  have "keeps (on_state (\<lambda>d fs. ?R d)) m"
    using assms(2) [of "\<lambda>ms. map_option m_pending (map_option membership.truncate
           (row_at member_key (feed, version_key i v) ms)) = Some b"]
    by (simp add: get_membership_def)
  then show ?thesis
    unfolding eq using assms(1,3) by (simp add: on_state_def keeps_def)
qed

lemma keeps_unreferenced_blobs [keeping]:
  "keeps (on_state serves) (delete_unreferenced_blobs files)"
  unfolding delete_unreferenced_blobs_def
proof (rule keeps_for_each)
  fix sha
  show "keeps (on_state serves) (and_then (attempt (query (blob_references sha)))
      (\<lambda>refs. if refs = Inr 0 then ignoring (delete_blob sha) else ok ()))"
    unfolding keeps_leads
  proof (rule leads_attempt_query)
    fix n :: nat
    have "keeps (on_state (\<lambda>d fs. serves d fs \<and> blob_references sha d = 0)) (ignoring (delete_blob sha))"
      by (intro keeping keeps_delete_blob) (auto simp: blob_free_def blob_references_def count_rows_0)
    then have "leads (on_state (\<lambda>d fs. serves d fs \<and> blob_references sha d = 0))
        (ignoring (delete_blob sha)) (on_state serves)"
      unfolding keeps_leads by (rule leads_weaken) (simp_all add: on_state_def)
    then show "leads (on_state (\<lambda>d fs. serves d fs \<and> blob_references sha d = n))
        (if Inr n = Inr 0 then ignoring (delete_blob sha) else ok ()) (on_state serves)"
      by (auto intro: leads_ok)
  qed (simp add: leads_ok)
qed

lemma keeps_arrived_blobs: "keeps (on_state (arrived feed i v b)) (delete_unreferenced_blobs files)"
  by (rule keeps_arrived, rule keeps_unreferenced_blobs, unfold delete_unreferenced_blobs_def)
    (intro keeping keeps_path_blob keeps_db_pred [OF touching_delete_blob])+

lemma keeps_arrived_symbols:
  assumes "validate_package_id i = Inr ()"
  shows "keeps (on_state (arrived feed i v b)) (purge_symbols j u)"
proof (rule keeps_arrived)
  show "keeps (on_state (\<lambda>d fs. db_ok d \<and> R (db_members d))) (purge_symbols j u)" for R
    unfolding purge_symbols_def
    by (intro keeping keeps_run_db keeps_db_pred [OF touching_delete_symbol])
      (auto simp: db_ok_delete_symbols, auto simp: delete_symbols_def)
  show "keeps (on_state (\<lambda>d fs. on_disk fs (package_path i (normalized v)))) (purge_symbols j u)"
    unfolding purge_symbols_def
    by (intro keeping keeps_run_db keeps_path [OF touching_delete_symbol])
      (use package_path_plain(2) [OF assms] in fastforce)+
qed (rule keeping)

section \<open>The push over a version the feed has\<close>

lemma keeps_may_overwrite: "keeps (on_state Q) (may_overwrite lib opts inc existing previous same)"
  unfolding may_overwrite_def Let_def by (intro keeping)

lemma index_again_arrives:
  assumes "fits inc" "staged temp"
  defines "i \<equiv> p_id (in_package inc)" and "v \<equiv> p_version (in_package inc)"
  shows "hoare (on_state (stocked (version_key i v) seen (package_path i (normalized v))))
     (index_again lib feed temp opts inc existing previous seen)
     (\<lambda>r. on_state (arrived feed i v (ir_pending r))) (\<lambda>_. on_state sound)"
proof -
  define same m sw where "same = (p_package_hash existing = p_package_hash (in_package inc))"
    and "m = replaced_membership feed opts inc previous same" and "sw = swap_for feed opts inc same"
  let ?k = "version_key i v" and ?path = "package_path i (normalized v)"
  let ?S = "stocked ?k seen ?path" and ?A = "arrived feed i v (m_pending m)"
  have joins: "joins feed (in_package inc) m"
    unfolding m_def by (rule replaced_joins [OF assms(1)])
  have sound: "on_state ?S w \<Longrightarrow> on_state sound w" "on_state ?A w \<Longrightarrow> on_state sound w" for w
    by (auto simp: on_state_def stocked_def arrived_def)
  have result: "hoare (on_state ?A) (ok (index_result_of (m_pending m) inc))
      (\<lambda>r. on_state (arrived feed i v (ir_pending r))) (\<lambda>_. on_state sound)"
    by (rule hoare_ok) (simp add: index_result_of_def)
  have swap: "hoare (on_state ?S) (and_then (ignoring (fs_remove_file temp)) (\<lambda>_.
      and_then (swap_replace sw existing m) (\<lambda>_. ok (index_result_of (m_pending m) inc))))
      (\<lambda>r. on_state (arrived feed i v (ir_pending r))) (\<lambda>_. on_state sound)" if seen
  proof (rule keeps_then_weak)
    show "keeps (on_state ?S) (ignoring (fs_remove_file temp))"
      by (rule keeps_additive [OF _ grows_stocked]) (intro adding assms(2))
    show "hoare (on_state ?S)
        (and_then (swap_replace sw existing m) (\<lambda>_. ok (index_result_of (m_pending m) inc)))
        (\<lambda>r. on_state (arrived feed i v (ir_pending r))) (\<lambda>_. on_state sound)"
      by (rule hoare_bind [OF hoare_weaken [OF swap_replace_arrives [OF joins]] result])
        (use that in \<open>auto simp: i_def v_def on_state_def stocked_def\<close>)
  qed (rule sound)
  have clean: "keeps (on_state ?A) (io_when b (delete_unreferenced_blobs dropped))"
    "keeps (on_state ?A) (io_when b (purge_symbols i v))" for b dropped
    using assms(1) by (intro keeping keeps_arrived_blobs keeps_arrived_symbols; simp add: fits_def i_def)+
  have over: "hoare (on_state ?S)
      (and_then (overwrite temp (in_package inc) existing m (in_sidecars inc) sw) (\<lambda>dropped.
       and_then (io_when (dropped \<noteq> []) (delete_unreferenced_blobs dropped)) (\<lambda>_.
       and_then (io_when (\<not> same) (purge_symbols i v)) (\<lambda>_. ok (index_result_of (m_pending m) inc)))))
      (\<lambda>r. on_state (arrived feed i v (ir_pending r))) (\<lambda>_. on_state sound)"
    by (rule hoare_bind [OF overwrite_arrives [OF joins assms(2), folded i_def v_def]],
        rule keeps_then_weak [OF clean(1)], erule sound, rule keeps_then_weak [OF clean(2)], erule sound,
        rule result)
  show ?thesis
    unfolding index_again_def Let_def i_def [symmetric] v_def [symmetric] same_def [symmetric]
      m_def [symmetric] sw_def [symmetric]
    by (rule keeps_then_weak [OF keeps_may_overwrite], erule sound, rule hoare_if)
      (use swap over in auto)
qed

section \<open>The push of what was read\<close>

lemma index_incoming_arrives:
  assumes "fits inc" "staged temp"
  defines "i \<equiv> p_id (in_package inc)" and "v \<equiv> p_version (in_package inc)"
  shows "hoare (on_state sound) (index_incoming lib feed temp opts inc)
     (\<lambda>r. on_state (arrived feed i v (ir_pending r))) (\<lambda>_. on_state sound)"
proof -
  let ?k = "version_key i v" and ?path = "package_path i (normalized v)"
  have stock: "on_state (settled ?k True) w \<Longrightarrow> on_state (stocked ?k False ?path) w" for w
    by (simp add: on_state_def settled_def stocked_def)
  have seen: "hoare (on_state (settled ?k True)) (package_exists i (normalized v))
      (\<lambda>seen. on_state (stocked ?k seen ?path)) (\<lambda>_. on_state sound)"
    by (rule hoare_weaken [OF package_exists_present [OF grows_stocked]], rule stock, assumption)
      (auto simp: on_state_def stocked_def)
  have inner: "hoare (on_state (settled ?k True))
      (and_then (package_exists i (normalized v)) (\<lambda>seen. case previous of
          None \<Rightarrow> index_shared lib feed temp opts inc existing seen
        | Some previous \<Rightarrow> index_again lib feed temp opts inc existing previous seen))
      (\<lambda>r. on_state (arrived feed i v (ir_pending r))) (\<lambda>_. on_state sound)" for existing previous
    by (rule hoare_bind [OF seen], cases previous)
      (simp_all add: i_def v_def index_shared_arrives [OF assms(1,2)] index_again_arrives [OF assms(1,2)])
  have new: "hoare (on_state (settled ?k False)) (index_new feed temp opts inc)
      (\<lambda>r. on_state (arrived feed i v (ir_pending r))) (\<lambda>_. on_state sound)"
    by (rule hoare_weaken [OF index_new_arrives [OF assms(1,2), folded i_def v_def]])
      (auto simp: on_state_def settled_def)
  show ?thesis
    unfolding index_incoming_def Let_def i_def [symmetric] v_def [symmetric]
    by (rule hoare_bind [OF finish_purge_settles])
      (use new inner in \<open>auto simp: i_def v_def split: option.splits prod.splits\<close>)
qed

section \<open>Reading the file\<close>

text \<open>What every answer of an operation has, whatever world it starts from.\<close>

definition answers :: "('a \<Rightarrow> bool) \<Rightarrow> 'a io \<Rightarrow> bool" where
  "answers Q m \<longleftrightarrow> (\<forall>w. case fst (m w) of Inr a \<Rightarrow> Q a | Inl _ \<Rightarrow> True)"

named_theorems answering \<open>rules for answers\<close>

lemma answersD: "answers Q m \<Longrightarrow> m w = (Inr a, w') \<Longrightarrow> Q a"
  unfolding answers_def by (metis fst_conv sum.case(2))

lemma answers_end [answering]: "Q a \<Longrightarrow> answers Q (ok a)" "answers Q (fail e)"
  by (simp_all add: answers_def io_simps)

lemma answers_bind:
  assumes "answers R m" "\<And>a. R a \<Longrightarrow> answers Q (f a)"
  shows "answers Q (and_then m f)"
  unfolding answers_def
proof
  fix w
  obtain r1 w1 where m: "m w = (r1, w1)" by (cases "m w")
  show "case fst (and_then m f w) of Inr a \<Rightarrow> Q a | Inl _ \<Rightarrow> True"
    using answersD [OF assms(1)] assms(2) m by (cases r1) (auto simp: and_then_def answers_def)
qed

lemma answers_any: "answers (\<lambda>_. True) m"
  by (simp add: answers_def split: sum.splits)

lemma answers_then [answering]: "(\<And>a. answers Q (f a)) \<Longrightarrow> answers Q (and_then m f)"
  by (rule answers_bind [OF answers_any])

lemma answers_lift: "(\<And>a. r = Inr a \<Longrightarrow> Q a) \<Longrightarrow> answers Q (lift_result r)"
  by (simp add: answers_def lift_result_def split: sum.splits)

lemma answers_if [answering]: "answers Q m \<Longrightarrow> answers Q n \<Longrightarrow> answers Q (if b then m else n)"
  by simp

lemma answers_case [answering]:
  "(\<And>e. answers Q (g e)) \<Longrightarrow> (\<And>a. answers Q (f a)) \<Longrightarrow> answers Q (case x of Inl e \<Rightarrow> g e | Inr a \<Rightarrow> f a)"
  "answers Q m \<Longrightarrow> (\<And>a. answers Q (f a)) \<Longrightarrow> answers Q (case y of None \<Rightarrow> m | Some a \<Rightarrow> f a)"
  "(\<And>a b. answers Q (h a b)) \<Longrightarrow> answers Q (case z of (a, b) \<Rightarrow> h a b)"
  by (auto split: sum.splits option.splits prod.splits)

text \<open>What comes out of the file is a valid id with the upload's digest; nothing is changed.\<close>

definition fits_upload :: "stream_summary \<Rightarrow> incoming \<Rightarrow> bool" where
  "fits_upload summary inc \<longleftrightarrow> fits inc \<and> p_package_hash (in_package inc) = ss_sha512 summary"

lemma read_incoming_fits: "answers (fits_upload summary) (read_incoming lib temp summary opts)"
  unfolding read_incoming_def Let_def
  apply (rule answers_then, rule answers_then)
  subgoal for archive manifest
    by (rule answers_bind [where R = "\<lambda>_. validate_package_id (n_id manifest) = Inr ()", OF answers_lift], simp,
        intro answering)
      (simp add: fits_upload_def fits_def package_of_manifest_def)
  done

lemma read_incoming_reads: "only_touches (\<lambda>_. False) (read_incoming lib temp summary opts)"
  unfolding read_incoming_def read_archive_at_def extract_sidecar_def Let_def
  by (intro touching) (auto split: option.splits intro!: touching)

section \<open>What a push leaves\<close>

lemma index_result_names:
  "answers (\<lambda>r. ir_id r = p_id (in_package inc) \<and> ir_version r = p_version (in_package inc))
     (index_incoming lib feed temp opts inc)"
  unfolding index_incoming_def index_new_def index_shared_def index_again_def Let_def
  by (intro answering) (simp_all add: index_result_of_def)

lemma index_inner_arrives:
  assumes "staged temp" "on_state sound w" "index_inner lib feed temp summary opts w = (r, w')"
  shows "on_state sound w' \<and>
    (case r of Inr res \<Rightarrow> on_state (arrived feed (ir_id res) (ir_version res) (ir_pending res)) w' | Inl _ \<Rightarrow> True)"
proof -
  obtain r1 w1 where read: "read_incoming lib temp summary opts w = (r1, w1)"
    by (cases "read_incoming lib temp summary opts w")
  have same: "w_db w1 = w_db w" "file_at_path w1 = file_at_path w"
    using only_touchesD [OF read_incoming_reads read] by (auto simp: fun_eq_iff)
  then have w1: "on_state sound w1" using assms(2) by (simp add: on_state_def)
  show ?thesis
  proof (cases r1)
    case (Inl e)
    then have "r = Inl e \<and> w' = w1" using assms(3) read by (simp add: index_inner_def and_then_def)
    then show ?thesis using w1 by simp
  next
    case (Inr inc)
    then have run: "index_incoming lib feed temp opts inc w1 = (r, w')"
      using assms(3) read by (simp add: index_inner_def and_then_def)
    have "fits inc" using answersD [OF read_incoming_fits] read Inr by (auto simp: fits_upload_def)
    from hoareD [OF index_incoming_arrives [OF this assms(1)] w1 run]
    show ?thesis
      using answersD [OF index_result_names] run
      by (cases r) (fastforce simp: on_state_def arrived_def)+
  qed
qed


section \<open>A push, run\<close>

definition push_libraries :: libraries where
  "push_libraries =
     \<lparr>lib_zip = (\<lambda>_. Inr \<lparr>z_start = 0, z_entries =
        [\<lparr>ze_name = Inr ''Pkg.nuspec'', ze_open = Inr (9, ''<package>'', None)\<rparr>]\<rparr>),
      lib_utf8 = (\<lambda>_. True), lib_xml = (\<lambda>_. open_manifest @ [Inr Xml_End, Inr Xml_End]),
      lib_lower = id, lib_day = (\<lambda>_. [])\<rparr>"

definition push_options :: index_options where
  "push_options =
     \<lparr>io_overwrite = Overwrite_Disabled, io_pending = True, io_license_policy = default_license_policy,
      io_expect = None, io_reserved_elsewhere = [], io_other_license_policies = [], io_unlisted = False\<rparr>"

definition pushed_file :: path where
  "pushed_file = staging_dir @ [''upload'']"

definition push_world :: world where
  "push_world = empty_world\<lparr>w_files := [(pushed_file, one_record_archive)]\<rparr>"

lemma push_archive_read:
  "read_archive (lib_zip push_libraries) (lib_utf8 push_libraries) one_record_archive =
     Inr \<lparr>ac_nuspec_xml = ''<package>'', ac_entry_names = [''pkg.nuspec'']\<rparr>"
  by (simp add: read_archive_def open_archive_def one_record_checked push_libraries_def
      reject_duplicate_entries_def entry_name_def normalize_entry_def ends_with_def char_eval
      is_root_nuspec_def read_limited_def max_nuspec_bytes_def)

definition pushed_version :: nuget_version where
  "pushed_version = \<lparr>v_major = 1, v_minor = 2, v_patch = 0, v_revision = 0, v_pre = [], v_metadata = None, v_original = ''1.2.0''\<rparr>"

lemma push_version: "parse_version ''1.2.0'' = Inr pushed_version"
  by (simp add: parse_version_def version_eval char_eval number_eval pushed_version_def trim_ends is_graphic_def)

definition pushed :: incoming where
  "pushed = (let p = package_of_manifest push_libraries read_manifest pushed_version
                       \<lparr>ss_size = 68, ss_sha512 = ''digest''\<rparr> None None 0
     in \<lparr>in_package = p, in_sidecars = \<lparr>sc_nuspec = ''<package>'', sc_readme = None, sc_icon = None\<rparr>,
         in_outcome = outcome_ok\<rparr>)"

lemma push_manifest_read: "parse_nuspec (lib_xml push_libraries) ''<package>'' = Inr read_manifest"
  by (simp add: nuspec_eval push_libraries_def)

lemma push_read:
  "read_incoming push_libraries pushed_file \<lparr>ss_size = 68, ss_sha512 = ''digest''\<rparr> push_options push_world
     = (Inr pushed, push_world)"
proof -
  have id: "validate_package_id ''Pkg'' = Inr ()" 
    by (simp add: validate_package_id_def max_id_length_def is_word_def is_sep_def is_windows_device_name_def trim_end_alphanumeric to_ascii_uppercase_def starts_with_def char_eval ascii_upper_def
        char_of_eq_iff take_bit_eq_mod)
  have m: "n_id read_manifest = ''Pkg''" "n_version read_manifest = ''1.2.0''" "n_readme read_manifest = None"
    "n_icon read_manifest = None"
    by (simp_all add: read_manifest_def empty_nuspec_def)
  have f: "file_at_path push_world pushed_file = Some one_record_archive"
    by (simp add: push_world_def file_at_path_def)
  have r: "fs_read pushed_file push_world = (Inr one_record_archive, push_world)"
    using f by (simp add: fs_read_def fs_call_def fs_fault_def push_world_def empty_world_def file_at_path_def)
  show ?thesis
    by (simp add: read_incoming_def read_archive_at_def and_then_def r lift_result_def push_archive_read
        push_manifest_read m id push_version check_identity_def push_options_def extract_sidecar_def ok_def
        look_def evaluate_license_def default_license_policy_def outcome_ok_def pushed_def Let_def)
      (simp add: push_world_def empty_world_def)
qed

lemma push_world_sound: "on_state sound push_world"
  by (simp add: on_state_def sound_def serves_def push_world_def empty_world_def db_ok_empty)
    (simp add: empty_db_def)

lemma pushed_names: "p_id (in_package pushed) = ''Pkg''" "p_version (in_package pushed) = pushed_version"
  "in_sidecars pushed = \<lparr>sc_nuspec = ''<package>'', sc_readme = None, sc_icon = None\<rparr>"
  "normalized pushed_version = ''1.2.0''"
  by (simp_all add: pushed_def package_of_manifest_def read_manifest_def empty_nuspec_def Let_def
      pushed_version_def version_eval char_eval number_eval)

lemma pushed_dir:
  "version_dir ''Pkg'' ''1.2.0'' = Inr [''pkg'', ''1.2.0'']"
  "package_path ''Pkg'' ''1.2.0'' = Inr [''pkg'', ''1.2.0'', ''pkg.1.2.0.nupkg'']"
  "aux_path ''Pkg'' ''1.2.0'' aux_file.Nuspec = Inr [''pkg'', ''1.2.0'', ''manifest.nuspec'']"
  by (simp_all add: package_path_def aux_path_def version_dir_def versioned_name_def safe_segment_def char_eval
      is_windows_device_name_def ends_with_any_def to_ascii_uppercase_def Let_def starts_with_def
      trim_end_graphic is_graphic_def ascii_upper_def is_ascii_lowercase_def char_of_eq_iff take_bit_eq_mod)

lemma fs_faultless: "w_fs_faults w = [] \<Longrightarrow> fs_call part m w = m w"
  by (simp add: fs_call_def fs_fault_def)

lemma db_faultless:
  "w_db_faults w = [] \<Longrightarrow>
   run_db oper w = (case oper (w_db w) of Inl e \<Rightarrow> (Inl e, w) | Inr (a, d) \<Rightarrow> (Inr a, w\<lparr>w_db := d\<rparr>))"
  by (simp add: run_db_def db_fault_def)

lemma file_fields:
  "w_fs_faults (put_file p b w) = w_fs_faults w" "w_fs_faults (drop_file p w) = w_fs_faults w"
  "w_db_faults (put_file p b w) = w_db_faults w" "w_db_faults (drop_file p w) = w_db_faults w"
  "w_db (put_file p b w) = w_db w" "w_db (drop_file p w) = w_db w"
  "w_now (put_file p b w) = w_now w" "w_now (drop_file p w) = w_now w"
  "w_fresh (put_file p b w) = w_fresh w" "w_fresh (drop_file p w) = w_fresh w"
    "file_at_path (w\<lparr>w_fresh := n\<rparr>) q = file_at_path w q" "file_at_path (w\<lparr>w_db := d\<rparr>) q = file_at_path w q"
  by (simp_all add: put_file_def drop_file_def file_at_path_def)

lemmas run_calm = fs_faultless db_faultless file_fields and_then_def ok_def fail_def attempt_def lift_result_def
  look_def query_def query_result_def on_err_def ignoring_def
  fs_create_dirs_def fs_rename_def fs_metadata_len_def fs_create_new_def fs_write_all_def fs_sync_file_def
  fs_remove_file_def fresh_name_def

lemma push_world_calm:
  "w_fs_faults push_world = []" "w_db_faults push_world = []" "w_fresh push_world = 0" "w_db push_world = empty_db"
  "file_at_path push_world p = (if p = pushed_file then Some one_record_archive else None)"
  by (simp_all add: push_world_def empty_world_def file_at_path_def)

lemma push_stored:
  "\<exists>w. store_payload ''Pkg'' ''1.2.0'' pushed_file \<lparr>sc_nuspec = ''<package>'', sc_readme = None, sc_icon = None\<rparr>
     push_world = (Inr (), w) \<and> w_db w = empty_db \<and> w_db_faults w = []"
  by (simp add: store_payload_def store_package_def pushed_dir run_calm push_world_calm move_into_place_def
     store_sidecars_def store_aux_def write_atomically_def store_optional_def staging_path_def pushed_file_def staging_dir_def)

lemma push_added:
  "is_ok (add_version now (in_package pushed) (new_membership feed push_options pushed) empty_db)"
  by (auto simp: add_version_def insert_package_def insert_membership_def Let_def empty_db_def has_row_def
      bind_result_def new_membership_def member_version_def member_row_of_def membership.extend_def
      active_membership_def package_key_def version_key_def lower_id_def canonical_id_def normalized_version_def)

lemma push_runs:
  "\<exists>w'. index_package push_libraries ''main'' pushed_file \<lparr>ss_size = 68, ss_sha512 = ''digest''\<rparr>
       push_options push_world = (Inr (index_result_of True pushed), w')"
proof -
  obtain w where stored: "store_payload ''Pkg'' ''1.2.0'' pushed_file (in_sidecars pushed) push_world = (Inr (), w)"
    "w_db w = empty_db" "w_db_faults w = []"
    using push_stored pushed_names by auto
  have clean: "finish_purge ''main'' (in_package pushed) push_world = (Inr (None, None), push_world)"
  proof -
    have none: "get_package_data i v empty_db = Inr None" "get_membership feed i v empty_db = None" for feed i v
      by (simp_all add: get_package_data_def get_membership_def empty_db_def row_at_def)
    have "push_world\<lparr>w_db := empty_db\<rparr> = push_world" by (simp add: push_world_def empty_world_def)
    then show ?thesis
      by (simp add: finish_purge_def run_calm push_world_calm none Let_def)
  qed
  obtain a d where "add_version (w_now w) (in_package pushed) (new_membership ''main'' push_options pushed) empty_db = Inr (a, d)"
    using push_added [of "w_now w" "''main''"]
    by (cases "add_version (w_now w) (in_package pushed) (new_membership ''main'' push_options pushed) empty_db") auto
  moreover have pending: "io_pending push_options" by (simp add: push_options_def)
  ultimately have "index_new ''main'' pushed_file push_options pushed push_world =
      (Inr (index_result_of True pushed), w\<lparr>w_db := d\<rparr>)"
    using pending
    by (simp add: index_new_def pushed_names stored [unfolded pushed_names] run_calm run_db_at_def Let_def)
  then show ?thesis
    by (simp add: index_package_def index_inner_def index_incoming_def on_err_def attempt_def and_then_def
        push_read clean ok_def Let_def)
qed


end
