(* ===== verification/Auth.thy ===== *)
theory Auth
  imports Request_Guard Errors
begin

unbundle bit_operations_syntax

text \<open>
  The keys of a feed and the tokens of its admin forms (\<open>src/src/auth.rs\<close>): push, read and
  admin keys, what a request offers, and the CSRF token. Bytes are characters. SHA-256,
  base64 and the UTF-8 check are libraries, gathered in one record.
\<close>

section \<open>Libraries\<close>

record crypto =
  cr_sha256 :: "string \<Rightarrow> string"
  cr_base64 :: "string \<Rightarrow> string option"
  cr_base64url :: "string \<Rightarrow> string option"
  cr_base64url_encode :: "string \<Rightarrow> string"
  cr_utf8 :: "string \<Rightarrow> bool"

text \<open>What is documented of them: 32-byte digests, and an encoding in the URL-safe alphabet that decodes.\<close>

definition crypto_ok :: "crypto \<Rightarrow> bool" where
  "crypto_ok cr \<longleftrightarrow>
     (\<forall>s. length (cr_sha256 cr s) = 32) \<and>
     (\<forall>s. cr_base64url cr (cr_base64url_encode cr s) = Some s) \<and>
     (\<forall>s. list_all is_graphic (cr_base64url_encode cr s))"

section \<open>Comparing secrets\<close>

definition byte_xor :: "char \<Rightarrow> char \<Rightarrow> char" where
  "byte_xor a b = char_of (byte a XOR byte b)"

text \<open>Every pair is looked at; the differences are collected in one byte.\<close>

definition digests_eq :: "string \<Rightarrow> string \<Rightarrow> bool" where
  "digests_eq a b \<longleftrightarrow>
     foldl (\<lambda>diff (x, y). diff OR ((word_of_nat (byte x) :: 8 word) XOR word_of_nat (byte y))) 0 (List.zip a b) = 0"

definition constant_time_eq :: "crypto \<Rightarrow> string \<Rightarrow> string \<Rightarrow> bool" where
  "constant_time_eq cr a b = digests_eq (cr_sha256 cr a) (cr_sha256 cr b)"

section \<open>What a request carries\<close>

definition api_key_header :: string where
  "api_key_header = ''x-nuget-apikey''"

definition strip_prefix :: "string \<Rightarrow> string \<Rightarrow> string option" where
  "strip_prefix p s = (if take (length p) s = p then Some (drop (length p) s) else None)"

definition basic_password :: "crypto \<Rightarrow> string \<Rightarrow> string option" where
  "basic_password cr value =
     (case (case strip_prefix ''Basic '' value of
              Some s \<Rightarrow> Some s | None \<Rightarrow> strip_prefix ''basic '' value) of
        None \<Rightarrow> None
      | Some b64 \<Rightarrow>
          (case cr_base64 cr (trim b64) of
             None \<Rightarrow> None
           | Some creds \<Rightarrow>
               if \<not> cr_utf8 cr creds then None
               else map_option (\<lambda>(_, pass). trim pass) (split_once CHR '':'' creds)))"

definition presented_key :: "headers \<Rightarrow> string option" where
  "presented_key hs = map_option trim (header_get hs api_key_header)"

definition presented_password :: "crypto \<Rightarrow> headers \<Rightarrow> string option" where
  "presented_password cr hs = Option.bind (header_get hs ''authorization'') (basic_password cr)"

definition offered_keys :: "crypto \<Rightarrow> headers \<Rightarrow> string list" where
  "offered_keys cr hs =
     filter (\<lambda>k. k \<noteq> [])
       ((case presented_key hs of None \<Rightarrow> [] | Some k \<Rightarrow> [k]) @
        (case presented_password cr hs of None \<Rightarrow> [] | Some k \<Rightarrow> [k]))"

definition bearer_matches :: "crypto \<Rightarrow> headers \<Rightarrow> string \<Rightarrow> bool" where
  "bearer_matches cr hs expected \<longleftrightarrow>
     (case header_get hs ''authorization'' of
        None \<Rightarrow> False
      | Some v \<Rightarrow>
          (case split_once CHR '' '' (trim v) of
             None \<Rightarrow> False
           | Some (scheme, token) \<Rightarrow>
               eq_ignore_ascii_case scheme ''bearer'' \<and> constant_time_eq cr (trim token) expected))"

section \<open>Keys\<close>

definition trimmed_key :: "string option \<Rightarrow> string option" where
  "trimmed_key key = (case map_option trim key of Some k \<Rightarrow> if k = [] then None else Some k | None \<Rightarrow> None)"

record api_key_auth =
  aa_expected :: "string list"

definition api_key_auth_new :: "string list \<Rightarrow> api_key_auth" where
  "api_key_auth_new expected = \<lparr>aa_expected = filter (\<lambda>k. k \<noteq> []) expected\<rparr>"

definition api_enabled :: "api_key_auth \<Rightarrow> bool" where
  "api_enabled a \<longleftrightarrow> aa_expected a \<noteq> []"

definition api_check :: "crypto \<Rightarrow> api_key_auth \<Rightarrow> string option \<Rightarrow> bool" where
  "api_check cr a presented =
     (if aa_expected a = [] then True
      else case presented of
             None \<Rightarrow> False
           | Some p \<Rightarrow> foldl (\<lambda>good e. good \<or> constant_time_eq cr p e) False (aa_expected a))"

definition api_is_key :: "crypto \<Rightarrow> api_key_auth \<Rightarrow> string \<Rightarrow> bool" where
  "api_is_key cr a key \<longleftrightarrow> api_enabled a \<and> api_check cr a (Some key)"

definition api_check_headers :: "crypto \<Rightarrow> api_key_auth \<Rightarrow> headers \<Rightarrow> bool" where
  "api_check_headers cr a hs = api_check cr a (presented_key hs)"

record read_auth =
  ra_expected :: "string option"

definition read_auth_new :: "string option \<Rightarrow> read_auth" where
  "read_auth_new expected = \<lparr>ra_expected = trimmed_key expected\<rparr>"

definition read_enabled :: "read_auth \<Rightarrow> bool" where
  "read_enabled a \<longleftrightarrow> ra_expected a \<noteq> None"

definition read_check_headers :: "crypto \<Rightarrow> read_auth \<Rightarrow> headers \<Rightarrow> bool" where
  "read_check_headers cr a hs =
     (case ra_expected a of
        None \<Rightarrow> True
      | Some expected \<Rightarrow>
          if (case presented_key hs of None \<Rightarrow> False | Some key \<Rightarrow> constant_time_eq cr key expected) then True
          else (case presented_password cr hs of
                  None \<Rightarrow> False | Some p \<Rightarrow> constant_time_eq cr p expected))"

definition read_presented :: "crypto \<Rightarrow> read_auth \<Rightarrow> headers \<Rightarrow> bool" where
  "read_presented cr a hs \<longleftrightarrow> ra_expected a \<noteq> None \<and> read_check_headers cr a hs"

record admin_auth =
  ad_expected :: "string option"

definition admin_auth_new :: "string option \<Rightarrow> admin_auth" where
  "admin_auth_new expected = \<lparr>ad_expected = trimmed_key expected\<rparr>"

definition admin_enabled :: "admin_auth \<Rightarrow> bool" where
  "admin_enabled a \<longleftrightarrow> ad_expected a \<noteq> None"

definition admin_is_key :: "crypto \<Rightarrow> admin_auth \<Rightarrow> string \<Rightarrow> bool" where
  "admin_is_key cr a key =
     (case ad_expected a of None \<Rightarrow> False | Some expected \<Rightarrow> constant_time_eq cr key expected)"

definition admin_check_headers :: "crypto \<Rightarrow> admin_auth \<Rightarrow> headers \<Rightarrow> bool" where
  "admin_check_headers cr a hs =
     (case ad_expected a of
        None \<Rightarrow> False
      | Some expected \<Rightarrow>
          (case presented_password cr hs of
             None \<Rightarrow> False | Some p \<Rightarrow> constant_time_eq cr p expected))"

section \<open>CSRF tokens\<close>

definition hmac_block :: nat where
  "hmac_block = 64"

definition hmac_key :: "crypto \<Rightarrow> string \<Rightarrow> string" where
  "hmac_key cr key =
     (let k = (if hmac_block < length key then cr_sha256 cr key else key)
      in k @ replicate (hmac_block - length k) (CHR 0x00))"

definition hmac_sha256 :: "crypto \<Rightarrow> string \<Rightarrow> string list \<Rightarrow> string" where
  "hmac_sha256 cr key parts =
     (let block = hmac_key cr key;
          inner = cr_sha256 cr (map (\<lambda>b. byte_xor b (CHR 0x36)) block @ concat parts)
      in cr_sha256 cr (map (\<lambda>b. byte_xor b (CHR 0x5C)) block @ inner))"

definition csrf_token_ttl_secs :: nat where
  "csrf_token_ttl_secs = 12 * 60 * 60"

definition csrf_mac :: "crypto \<Rightarrow> string \<Rightarrow> string \<Rightarrow> nat \<Rightarrow> string" where
  "csrf_mac cr secret admin_key issued =
     hmac_sha256 cr secret
       [''yanuget-admin-csrf-v2'' @ [CHR 0x00], admin_key, [CHR 0x00], show_nat issued]"

definition csrf_token_at :: "crypto \<Rightarrow> string \<Rightarrow> admin_auth \<Rightarrow> nat \<Rightarrow> string option" where
  "csrf_token_at cr secret a issued =
     map_option (\<lambda>expected. show_nat issued @ ''.'' @ cr_base64url_encode cr (csrf_mac cr secret expected issued))
       (ad_expected a)"

definition check_csrf_at :: "crypto \<Rightarrow> string \<Rightarrow> admin_auth \<Rightarrow> string option \<Rightarrow> nat \<Rightarrow> bool" where
  "check_csrf_at cr secret a presented now =
     (case (ad_expected a, presented) of
        (Some expected, Some presented) \<Rightarrow>
          (case split_once CHR ''.'' (trim presented) of
             None \<Rightarrow> False
           | Some (issued, mac) \<Rightarrow>
               if issued = [] \<or> \<not> list_all is_ascii_digit issued then False
               else case parse_u64 issued of
                      None \<Rightarrow> False
                    | Some issued \<Rightarrow>
                        let fresh = (issued \<le> min (now + 60) u64_max \<and> now - issued \<le> csrf_token_ttl_secs)
                        in (case cr_base64url cr mac of
                              None \<Rightarrow> False
                            | Some mac \<Rightarrow>
                                if length mac \<noteq> 32 then False
                                else let matches = digests_eq mac (csrf_mac cr secret expected issued)
                                     in fresh \<and> matches))
      | _ \<Rightarrow> False)"

section \<open>Comparisons\<close>

lemma foldl_or_zero:
  "foldl (\<lambda>diff (x, y). diff OR ((word_of_nat (byte x) :: 8 word) XOR word_of_nat (byte y))) d zs = 0 \<longleftrightarrow>
   d = 0 \<and> (\<forall>(x, y) \<in> set zs. x = y)"
proof (induction zs arbitrary: d)
  case (Cons z zs)
  have or0: "a OR b = 0 \<longleftrightarrow> a = 0 \<and> b = 0" for a b :: "8 word"
    by (metis or.left_neutral or.right_neutral or_eq_0_iff)
  have char: "(word_of_nat (byte x) :: 8 word) XOR word_of_nat (byte y) = 0 \<longleftrightarrow> x = y" for x y
  proof -
    have "(word_of_nat (byte x) :: 8 word) XOR word_of_nat (byte y) = 0 \<longleftrightarrow>
        (word_of_nat (byte x) :: 8 word) = word_of_nat (byte y)"
      by (auto simp: bit_eq_iff bit_xor_iff)
    also have "\<dots> \<longleftrightarrow> x = y"
      using byte_less_256 [of x] byte_less_256 [of y]
      by (simp add: word_of_nat_eq_iff take_bit_nat_eq_self byte_eq_iff)
    finally show ?thesis .
  qed
  show ?case by (cases z) (auto simp: Cons.IH or0 char)
qed simp

lemma digests_eq_iff: "length a = length b \<Longrightarrow> digests_eq a b \<longleftrightarrow> a = b"
  unfolding digests_eq_def foldl_or_zero by (induction a b rule: list_induct2) auto

text \<open>No two secrets of the comparison have one digest.\<close>

definition told_apart :: "crypto \<Rightarrow> string \<Rightarrow> string \<Rightarrow> bool" where
  "told_apart cr a b \<longleftrightarrow> (cr_sha256 cr a = cr_sha256 cr b) = (a = b)"

lemma constant_time_eq_iff:
  "crypto_ok cr \<Longrightarrow> told_apart cr a b \<Longrightarrow> constant_time_eq cr a b \<longleftrightarrow> a = b"
  by (simp add: constant_time_eq_def digests_eq_iff crypto_ok_def told_apart_def)

lemma foldl_or_ex: "foldl (\<lambda>good e. good \<or> P e) b es \<longleftrightarrow> b \<or> list_ex P es"
  by (induction es arbitrary: b) auto

lemma api_check_iff:
  "api_check cr a presented \<longleftrightarrow> aa_expected a = [] \<or>
     (\<exists>p. presented = Some p \<and> list_ex (constant_time_eq cr p) (aa_expected a))"
  by (auto simp: api_check_def foldl_or_ex split: option.splits)

section \<open>Tokens\<close>

lemma length_csrf_mac: "crypto_ok cr \<Longrightarrow> length (csrf_mac cr secret key n) = 32"
  by (simp add: csrf_mac_def hmac_sha256_def Let_def crypto_ok_def)

lemma graphic_digit: "is_ascii_digit c \<Longrightarrow> is_graphic c"
  by (rule graphic_alphanumeric) (simp add: is_ascii_alphanumeric_def)

text \<open>
  C20: a form token works for its own feed and its own time. The token issued at one second is
  accepted at another exactly when that is at most a minute before it was issued and at most
  twelve hours after; and any token accepted carries, in its own words, a time within that
  window and the MAC, under the process's secret, of the feed's admin key and of that time.
\<close>
theorem csrf_tokens:
  assumes "crypto_ok cr" and "ad_expected a = Some key" and "csrf_token_at cr secret a issued = Some token"
    and "issued < 2 ^ 64" and "now < 2 ^ 64"
  shows "(check_csrf_at cr secret a (Some token) now \<longleftrightarrow>
            issued \<le> now + 60 \<and> now \<le> issued + csrf_token_ttl_secs) \<and>
         (if check_csrf_at cr secret a (Some other) now
          then \<exists>digits mac n. trim other = digits @ ''.'' @ mac \<and> parse_u64 digits = Some n \<and>
            n \<le> now + 60 \<and> now \<le> n + csrf_token_ttl_secs \<and>
            cr_base64url cr mac = Some (csrf_mac cr secret key n)
          else True)"
proof
  let ?mac = "csrf_mac cr secret key issued"
  let ?enc = "cr_base64url_encode cr ?mac"
  have token: "token = show_nat issued @ ''.'' @ ?enc" using assms(2,3) by (simp add: csrf_token_at_def)
  have "list_all is_graphic token"
    using assms(1) set_show_nat graphic_digit
    by (auto simp: token crypto_ok_def list_all_iff is_graphic_def)
  then have trim: "trim token = token" by (simp add: trim_graphic list_all_iff)
  have split: "split_once CHR ''.'' token = Some (show_nat issued, ?enc)"
  proof -
    have "CHR ''.'' \<notin> set (show_nat issued)" using set_show_nat by (fastforce simp: is_ascii_digit_def)
    then show ?thesis by (simp add: token split_once_append)
  qed
  have u64: "parse_u64 (show_nat issued) = Some issued" using assms(4) by (simp add: parse_u64_show_nat)
  show "check_csrf_at cr secret a (Some token) now \<longleftrightarrow>
      issued \<le> now + 60 \<and> now \<le> issued + csrf_token_ttl_secs"
    using assms(1,2,4) length_csrf_mac [OF assms(1)]
    by (auto simp: check_csrf_at_def trim split u64 crypto_ok_def digests_eq_iff u64_max_def Let_def)
  show "if check_csrf_at cr secret a (Some other) now
      then \<exists>digits mac n. trim other = digits @ ''.'' @ mac \<and> parse_u64 digits = Some n \<and>
        n \<le> now + 60 \<and> now \<le> n + csrf_token_ttl_secs \<and>
        cr_base64url cr mac = Some (csrf_mac cr secret key n)
      else True"
  proof (cases "check_csrf_at cr secret a (Some other) now")
    case True
    then obtain digits enc where split: "split_once CHR ''.'' (trim other) = Some (digits, enc)"
      using assms(2) by (auto simp: check_csrf_at_def split: option.splits)
    from True obtain n where u64: "parse_u64 digits = Some n"
      using assms(2) by (auto simp: check_csrf_at_def split split: option.splits if_splits)
    from True obtain mac where "cr_base64url cr enc = Some mac"
      using assms(2) by (auto simp: check_csrf_at_def split u64 Let_def split: option.splits if_splits)
    moreover from True this have "n \<le> min (now + 60) u64_max" and "now - n \<le> csrf_token_ttl_secs"
        and "length mac = 32" and "digests_eq mac (csrf_mac cr secret key n)"
      using assms(2) by (auto simp: check_csrf_at_def split u64 Let_def split: if_splits)
    moreover from this have "mac = csrf_mac cr secret key n"
      by (simp add: digests_eq_iff length_csrf_mac [OF assms(1)])
    moreover note split u64
    ultimately have "trim other = digits @ ''.'' @ enc \<and> parse_u64 digits = Some n \<and>
        n \<le> now + 60 \<and> now \<le> n + csrf_token_ttl_secs \<and>
        cr_base64url cr enc = Some (csrf_mac cr secret key n)"
      by (simp add: split_once_Some)
    with True show ?thesis by auto
  qed simp
qed

text \<open>Libraries to run with: a digest of the first bytes, an encoding by half-bytes.\<close>

fun unpair :: "string \<Rightarrow> string option" where
  "unpair [] = Some []"
| "unpair [_] = None"
| "unpair (a # b # s) = map_option ((#) (char_of (16 * (byte a - 65) + (byte b - 65)))) (unpair s)"

definition sample_crypto :: crypto where
  "sample_crypto =
     \<lparr>cr_sha256 = (\<lambda>s. take 32 (s @ replicate 32 (CHR 0x00))), cr_base64 = Some, cr_base64url = unpair,
      cr_base64url_encode = (\<lambda>s. concat (map (\<lambda>c. [char_of (65 + byte c div 16), char_of (65 + byte c mod 16)]) s)),
      cr_utf8 = (\<lambda>_. True)\<rparr>"

lemma sample_crypto_ok: "crypto_ok sample_crypto"
proof -
  have half: "byte c div 16 < 16" "16 * (byte c div 16) + byte c mod 16 = byte c" for c
    using byte_less_256 [of c] by (simp_all add: less_mult_imp_div_less)
  have small: "65 + byte c div 16 < 256" "65 + byte c mod 16 < 256" for c
    using half(1) [of c] by auto
  have "unpair (concat (map (\<lambda>c. [char_of (65 + byte c div 16), char_of (65 + byte c mod 16)]) s)) = Some s" for s
    by (induction s) (simp_all add: byte_char_of small half(2))
  moreover have "is_graphic (char_of (65 + byte c div 16))" "is_graphic (char_of (65 + byte c mod 16))" for c
    using half(1) [of c] small by (simp_all add: is_graphic_def byte_char_of)
  moreover have "min (length s) 32 + (32 - length s) = 32" for s :: string by simp
  ultimately show ?thesis
    by (simp add: crypto_ok_def sample_crypto_def list_all_iff)
qed

lemma csrf_tokens_witness:
  "\<exists>token. csrf_token_at sample_crypto ''s'' \<lparr>ad_expected = Some ''key''\<rparr> 1000 = Some token \<and>
     check_csrf_at sample_crypto ''s'' \<lparr>ad_expected = Some ''key''\<rparr> (Some token) 44200 \<and>
     \<not> check_csrf_at sample_crypto ''s'' \<lparr>ad_expected = Some ''key''\<rparr> (Some token) 44201"
proof -
  obtain token where token: "csrf_token_at sample_crypto ''s'' \<lparr>ad_expected = Some ''key''\<rparr> 1000 = Some token"
    by (simp add: csrf_token_at_def)
  then show ?thesis
    using csrf_tokens [OF sample_crypto_ok _ token, of "''key''" 44200]
      csrf_tokens [OF sample_crypto_ok _ token, of "''key''" 44201]
    by (simp add: csrf_token_ttl_secs_def)
qed

end
