(* ===== verification/File_Response.thy ===== *)
theory File_Response
  imports Auth World
begin

text \<open>
  Answers that carry a stored file (\<open>src/src/web/files.rs\<close>): cache policies, byte ranges,
  conditional requests and the response itself. An open file is its bytes: no stored file is
  ever written in place. Formatting a date, percent-encoding and the check a header value
  goes through are libraries, gathered in one record.
\<close>

section \<open>Libraries and responses\<close>

record http_lib =
  hl_http_date :: "time \<Rightarrow> string"
  hl_percent :: "string \<Rightarrow> string"
  hl_value :: "string \<Rightarrow> bool"

record file_response =
  fr_status :: nat
  fr_headers :: "(string \<times> string) list"
  fr_body :: string

text \<open>What a builder makes: an error when a value is not one a header may have.\<close>

definition response_of :: "http_lib \<Rightarrow> nat \<Rightarrow> (string \<times> string) list \<Rightarrow> string \<Rightarrow> file_response result" where
  "response_of lib status hs body =
     (if list_all (\<lambda>(_, v). hl_value lib v) hs
      then Inr \<lparr>fr_status = status, fr_headers = hs, fr_body = body\<rparr>
      else Inl (Other (Msg ''failed to build response'' [])))"

section \<open>Cache policies and file metadata\<close>

record cache_policy =
  cp_private :: bool
  cp_immutable :: bool

definition header_value :: "cache_policy \<Rightarrow> string" where
  "header_value p =
     (case (cp_private p, cp_immutable p) of
        (False, True) \<Rightarrow> ''public, max-age=31536000, immutable''
      | (True, True) \<Rightarrow> ''private, max-age=31536000, immutable''
      | (False, False) \<Rightarrow> ''public, no-cache''
      | (True, False) \<Rightarrow> ''private, no-cache'')"

record file_meta =
  fm_download_name :: "string option"
  fm_etag :: "string option"
  fm_cache :: cache_policy
  fm_last_modified :: "time option"
  fm_sha256_base64 :: "string option"

definition default_meta :: file_meta where
  "default_meta =
     \<lparr>fm_download_name = None, fm_etag = None, fm_cache = \<lparr>cp_private = False, cp_immutable = False\<rparr>,
      fm_last_modified = None, fm_sha256_base64 = None\<rparr>"

definition content_disposition :: "http_lib \<Rightarrow> string \<Rightarrow> string" where
  "content_disposition lib name =
     (let safe = filter (\<lambda>c. is_ascii_alphanumeric c \<or> c \<in> {CHR ''.'', CHR ''-'', CHR ''_'', CHR ''+''}) name;
          safe = (if safe = [] then ''package.nupkg'' else safe)
      in ''attachment; filename=\"'' @ safe @ ''\"; filename*=UTF-8'' @ [CHR 0x27, CHR 0x27] @ hl_percent lib name)"

section \<open>Ranges\<close>

datatype range_result = Range_None | Satisfiable nat nat | Unsatisfiable

definition range_pos :: "string \<Rightarrow> nat option" where
  "range_pos s = (if s = [] \<or> \<not> list_all is_ascii_digit s then None else parse_u64 s)"

definition parse_byte_range :: "headers \<Rightarrow> nat \<Rightarrow> range_result" where
  "parse_byte_range hs len =
     (case header_get hs ''range'' of
        None \<Rightarrow> Range_None
      | Some v \<Rightarrow>
     (case strip_prefix ''bytes='' v of
        None \<Rightarrow> Range_None
      | Some spec \<Rightarrow>
          if CHR '','' \<in> set spec then Range_None
          else case split_once CHR ''-'' spec of
                 None \<Rightarrow> Range_None
               | Some (start_s, end_s) \<Rightarrow>
                   if len = 0 then Unsatisfiable
                   else let highest = len - 1
                        in if trim start_s = [] then
                             (case range_pos (trim end_s) of
                                None \<Rightarrow> Range_None
                              | Some n \<Rightarrow> if n = 0 then Unsatisfiable else Satisfiable (len - n) highest)
                           else if trim end_s = [] then
                             (case range_pos (trim start_s) of
                                None \<Rightarrow> Range_None
                              | Some start \<Rightarrow> if start \<le> highest then Satisfiable start highest else Unsatisfiable)
                           else
                             (case (range_pos (trim start_s), range_pos (trim end_s)) of
                                (Some start, Some ending) \<Rightarrow>
                                  if ending < start then Range_None
                                  else if start \<le> highest then Satisfiable start (min ending highest)
                                  else Unsatisfiable
                              | _ \<Rightarrow> Range_None)))"

section \<open>Conditions\<close>

definition if_range_holds :: "headers \<Rightarrow> string option \<Rightarrow> string option \<Rightarrow> bool" where
  "if_range_holds hs etag last_modified =
     (case header_get hs ''if-range'' of
        None \<Rightarrow> True
      | Some v \<Rightarrow>
          let v = trim v
          in if starts_with v [CHR 0x22] then etag = Some v
             else if starts_with v ''W/'' then False
             else last_modified = Some v)"

definition if_none_match_hits :: "headers \<Rightarrow> string \<Rightarrow> bool" where
  "if_none_match_hits hs quoted =
     (case header_get hs ''if-none-match'' of
        None \<Rightarrow> False
      | Some raw \<Rightarrow>
          list_ex (\<lambda>candidate.
              let c = trim candidate;
                  c = (case strip_prefix ''W/'' c of Some d \<Rightarrow> d | None \<Rightarrow> c)
              in c = ''*'' \<or> c = quoted)
            (split CHR '','' raw))"

definition counts_as_download :: "string \<Rightarrow> headers \<Rightarrow> bool" where
  "counts_as_download verb hs =
     (if verb \<noteq> ''GET'' then False
      else case header_get hs ''range'' of
             None \<Rightarrow> True
           | Some asked \<Rightarrow>
               (case strip_prefix ''bytes='' (trim asked) of
                  None \<Rightarrow> False
                | Some spec \<Rightarrow> starts_with (trim_start spec) ''0-''))"

definition sends_content :: "file_response \<Rightarrow> bool" where
  "sends_content r \<longleftrightarrow> fr_status r = 200 \<or> fr_status r = 206"

section \<open>The response\<close>

definition quote :: "string \<Rightarrow> string" where
  "quote tag = CHR 0x22 # tag @ [CHR 0x22]"

definition slice :: "nat \<Rightarrow> nat \<Rightarrow> string \<Rightarrow> string" where
  "slice start ending bytes = take (ending - start + 1) (drop start bytes)"

definition common_headers :: "http_lib \<Rightarrow> string \<Rightarrow> file_meta \<Rightarrow> (string \<times> string) list" where
  "common_headers lib content_type meta =
     [(''content-type'', content_type), (''accept-ranges'', ''bytes'')] @
     (case fm_download_name meta of
        None \<Rightarrow> [] | Some name \<Rightarrow> [(''content-disposition'', content_disposition lib name)]) @
     (case fm_last_modified meta of
        None \<Rightarrow> [] | Some date \<Rightarrow> [(''last-modified'', hl_http_date lib date)]) @
     (case fm_sha256_base64 meta of
        None \<Rightarrow> [] | Some digest \<Rightarrow> [(''repr-digest'', ''sha-256=:'' @ digest @ '':'')]) @
     [(''cache-control'', header_value (fm_cache meta))] @
     (case fm_etag meta of None \<Rightarrow> [] | Some tag \<Rightarrow> [(''etag'', quote tag)])"

definition serve_range ::
    "http_lib \<Rightarrow> (string \<times> string) list \<Rightarrow> string \<Rightarrow> nat \<Rightarrow> range_result \<Rightarrow> file_response io" where
  "serve_range lib builder bytes len asked =
     (case asked of
        Range_None \<Rightarrow>
          lift_result (response_of lib 200 (builder @ [(''content-length'', show_nat len)]) bytes)
      | Satisfiable start ending \<Rightarrow>
          and_then (fs_call no_trace (ok ())) (\<lambda>_.
            lift_result (response_of lib 206
              (builder @ [(''content-length'', show_nat (ending - start + 1)),
                 (''content-range'',
                   ''bytes '' @ show_nat start @ ''-'' @ show_nat ending @ ''/'' @ show_nat len)])
              (slice start ending bytes)))
      | Unsatisfiable \<Rightarrow>
          lift_result (response_of lib 416 (builder @ [(''content-range'', ''bytes */'' @ show_nat len)]) []))"

definition serve_open_file ::
    "http_lib \<Rightarrow> string \<Rightarrow> headers \<Rightarrow> string \<Rightarrow> file_meta \<Rightarrow> file_response io" where
  "serve_open_file lib bytes hs content_type meta =
     and_then (fs_call no_trace (ok (length bytes))) (\<lambda>len.
       let quoted = map_option quote (fm_etag meta);
           last_modified = map_option (hl_http_date lib) (fm_last_modified meta)
       in case quoted of
            Some q \<Rightarrow>
              if if_none_match_hits hs q
              then lift_result (response_of lib 304
                     [(''etag'', q), (''cache-control'', header_value (fm_cache meta))] [])
              else serve_range lib (common_headers lib content_type meta) bytes len
                     (if if_range_holds hs quoted last_modified then parse_byte_range hs len else Range_None)
          | None \<Rightarrow>
              serve_range lib (common_headers lib content_type meta) bytes len
                (if if_range_holds hs quoted last_modified then parse_byte_range hs len else Range_None))"

text \<open>\<open>open\<close>, and the two together: any failure to open is a missing file.\<close>

definition open_file :: "path \<Rightarrow> string io" where
  "open_file p = and_then (attempt (fs_read p)) (\<lambda>r.
     case r of Inr bytes \<Rightarrow> ok bytes | Inl _ \<Rightarrow> fail PackageNotFound)"

definition serve_local_file ::
    "http_lib \<Rightarrow> path \<Rightarrow> headers \<Rightarrow> string \<Rightarrow> file_meta \<Rightarrow> file_response io" where
  "serve_local_file lib p hs content_type meta =
     and_then (open_file p) (\<lambda>bytes. serve_open_file lib bytes hs content_type meta)"

section \<open>Well-formed answers\<close>

definition printable :: "char \<Rightarrow> bool" where
  "printable c \<longleftrightarrow> 32 \<le> byte c \<and> byte c < 127"

text \<open>What is documented of the libraries: printable text is a header value; a date and an encoding are printable.\<close>

definition http_ok :: "http_lib \<Rightarrow> bool" where
  "http_ok lib \<longleftrightarrow>
     (\<forall>s. list_all printable s \<longrightarrow> hl_value lib s) \<and>
     (\<forall>t. list_all printable (hl_http_date lib t)) \<and>
     (\<forall>s. list_all printable (hl_percent lib s))"

definition printable_option :: "string option \<Rightarrow> bool" where
  "printable_option s \<longleftrightarrow> (case s of None \<Rightarrow> True | Some t \<Rightarrow> list_all printable t)"

definition header_of :: "file_response \<Rightarrow> string \<Rightarrow> string option" where
  "header_of r name = map_of (fr_headers r) name"

definition whole_file :: "string \<Rightarrow> file_response \<Rightarrow> bool" where
  "whole_file bytes r \<longleftrightarrow>
     fr_status r = 200 \<and> fr_body r = bytes \<and> header_of r ''content-range'' = None \<and>
     header_of r ''content-length'' = Some (show_nat (length (fr_body r)))"

definition file_part :: "string \<Rightarrow> file_response \<Rightarrow> bool" where
  "file_part bytes r \<longleftrightarrow>
     fr_status r = 206 \<and>
     (\<exists>start ending. start \<le> ending \<and> ending < length bytes \<and> fr_body r = slice start ending bytes \<and>
        header_of r ''content-range'' =
          Some (''bytes '' @ show_nat start @ ''-'' @ show_nat ending @ ''/'' @ show_nat (length bytes)) \<and>
        header_of r ''content-length'' = Some (show_nat (length (fr_body r))))"

definition no_such_part :: "string \<Rightarrow> file_response \<Rightarrow> bool" where
  "no_such_part bytes r \<longleftrightarrow>
     fr_status r = 416 \<and> fr_body r = [] \<and>
     header_of r ''content-range'' = Some (''bytes */'' @ show_nat (length bytes))"

definition not_modified :: "headers \<Rightarrow> file_response \<Rightarrow> bool" where
  "not_modified hs r \<longleftrightarrow>
     fr_status r = 304 \<and> fr_body r = [] \<and>
     (case header_of r ''etag'' of None \<Rightarrow> False | Some q \<Rightarrow> if_none_match_hits hs q)"

lemma length_slice:
  "start \<le> ending \<Longrightarrow> ending < length bytes \<Longrightarrow> length (slice start ending bytes) = ending - start + 1"
  by (auto simp: slice_def min_def)

lemma parse_range_bounds:
  "parse_byte_range hs len = Satisfiable start ending \<Longrightarrow> start \<le> ending \<and> ending < len"
  by (auto simp: parse_byte_range_def Let_def split: option.splits if_splits prod.splits)

lemma printable_digit: "is_ascii_digit c \<Longrightarrow> printable c"
  by (simp add: is_ascii_digit_def printable_def)

lemma printable_show_nat [simp]: "list_all printable (show_nat n)"
  using set_show_nat printable_digit by (auto simp: list_all_iff)

lemma printable_header_value: "list_all printable (header_value p)"
  by (cases "cp_private p"; cases "cp_immutable p") (simp_all add: header_value_def printable_def)

lemma printable_disposition: "http_ok lib \<Longrightarrow> list_all printable (content_disposition lib name)"
  by (auto simp: content_disposition_def Let_def http_ok_def printable_def list_all_iff
      is_ascii_alphanumeric_def is_ascii_digit_def is_ascii_lowercase_def is_ascii_uppercase_def)

definition meta_ok :: "file_meta \<Rightarrow> bool" where
  "meta_ok meta \<longleftrightarrow> printable_option (fm_etag meta) \<and> printable_option (fm_sha256_base64 meta)"

lemma printable_quote: "list_all printable (quote tag) \<longleftrightarrow> list_all printable tag"
  by (simp add: quote_def printable_def)

lemma common_headers_accepted:
  assumes "http_ok lib" and "list_all printable content_type" and "meta_ok meta"
  shows "list_all (\<lambda>(_, v). hl_value lib v) (common_headers lib content_type meta)"
proof -
  have "list_all printable v" if "(n, v) \<in> set (common_headers lib content_type meta)" for n v
    using that assms printable_disposition [OF assms(1)] printable_header_value
    by (auto simp: common_headers_def http_ok_def meta_ok_def printable_option_def printable_quote
        split: option.splits) (simp_all add: printable_def)
  with assms(1) show ?thesis by (auto simp: list_all_iff http_ok_def)
qed

lemma common_headers_names:
  "map_of (common_headers lib ct meta) ''content-range'' = None"
  "map_of (common_headers lib ct meta) ''content-length'' = None"
  "map_of (common_headers lib ct meta) ''cache-control'' = Some (header_value (fm_cache meta))"
  "map_of (common_headers lib ct meta) ''etag'' = map_option quote (fm_etag meta)"
  by (auto simp: common_headers_def split: option.splits)

lemma common_headers_distinct:
  "distinct (map fst (common_headers lib ct meta) @ [''content-length'', ''content-range''])"
  by (auto simp: common_headers_def split: option.splits)

text \<open>A well-formed answer for a file: one of the four kinds, each header once, the policy and tag of the file.\<close>

definition answer_ok :: "headers \<Rightarrow> string \<Rightarrow> file_meta \<Rightarrow> file_response \<Rightarrow> bool" where
  "answer_ok hs bytes meta r \<longleftrightarrow>
     distinct (map fst (fr_headers r)) \<and>
     header_of r ''cache-control'' = Some (header_value (fm_cache meta)) \<and>
     header_of r ''etag'' = map_option quote (fm_etag meta) \<and>
     (whole_file bytes r \<or> file_part bytes r \<or> no_such_part bytes r \<or> not_modified hs r)"

lemma serve_range_ok:
  assumes lib: "http_ok lib" and accepted: "list_all (\<lambda>(_, v). hl_value lib v) (common_headers lib ct meta)"
    and bounds: "\<And>start ending. asked = Satisfiable start ending \<Longrightarrow> start \<le> ending \<and> ending < length bytes"
    and calm: "list_all (\<lambda>f. f = None) (w_fs_faults w)"
  shows "\<exists>r w'. serve_range lib (common_headers lib ct meta) bytes (length bytes) asked w = (Inr r, w') \<and>
     answer_ok hs bytes meta r \<and>
     (case asked of Range_None \<Rightarrow> whole_file bytes r | Unsatisfiable \<Rightarrow> no_such_part bytes r
      | Satisfiable start ending \<Rightarrow> file_part bytes r \<and> fr_body r = slice start ending bytes)"
proof (cases asked)
  case Range_None
  have "hl_value lib (show_nat (length bytes))" using lib by (simp add: http_ok_def)
  with Range_None accepted show ?thesis
    using common_headers_distinct [of lib ct meta]
    by (simp add: serve_range_def lift_result_def response_of_def answer_ok_def whole_file_def
        header_of_def common_headers_names map_add_def split: option.splits)
next
  case (Satisfiable start ending)
  note b = bounds [OF Satisfiable]
  have "list_all printable (''bytes '' @ show_nat start @ ''-'' @ show_nat ending @ ''/'' @ show_nat (length bytes))"
    by (simp add: printable_def)
  then have "hl_value lib (''bytes '' @ show_nat start @ ''-'' @ show_nat ending @ ''/'' @ show_nat (length bytes))"
    "hl_value lib (show_nat (ending - start + 1))"
    using lib by (simp_all add: http_ok_def)
  with accepted calm b show ?thesis
    using common_headers_distinct [of lib ct meta]
    by (auto simp: Satisfiable serve_range_def and_then_def fs_call_def fs_fault_def ok_def lift_result_def
        response_of_def answer_ok_def file_part_def header_of_def common_headers_names map_add_def length_slice
        split: list.splits option.splits)
next
  case Unsatisfiable
  have "list_all printable (''bytes */'' @ show_nat (length bytes))" by (simp add: printable_def)
  then have "hl_value lib (''bytes */'' @ show_nat (length bytes))" using lib by (simp add: http_ok_def)
  with Unsatisfiable accepted show ?thesis
    using common_headers_distinct [of lib ct meta]
    by (simp add: serve_range_def lift_result_def response_of_def answer_ok_def no_such_part_def
        header_of_def common_headers_names map_add_def split: option.splits)
qed

lemma not_modified_ok:
  assumes lib: "http_ok lib" and "meta_ok meta" and tag: "fm_etag meta = Some tag"
    and hit: "if_none_match_hits hs (quote tag)"
  shows "\<exists>r. response_of lib 304 [(''etag'', quote tag), (''cache-control'', header_value (fm_cache meta))] [] = Inr r \<and>
     not_modified hs r \<and> answer_ok hs bytes meta r"
proof -
  have "hl_value lib (quote tag)" "hl_value lib (header_value (fm_cache meta))"
    using assms(1,2) tag printable_header_value
    by (auto simp: http_ok_def meta_ok_def printable_option_def printable_quote)
  with hit show ?thesis
    by (auto simp: response_of_def answer_ok_def not_modified_def header_of_def tag)
qed

text \<open>What is served, by the request's conditions.\<close>

definition asked_part :: "http_lib \<Rightarrow> headers \<Rightarrow> string \<Rightarrow> file_meta \<Rightarrow> range_result" where
  "asked_part lib hs bytes meta =
     (if if_range_holds hs (map_option quote (fm_etag meta)) (map_option (hl_http_date lib) (fm_last_modified meta))
      then parse_byte_range hs (length bytes) else Range_None)"

definition revalidates :: "headers \<Rightarrow> file_meta \<Rightarrow> bool" where
  "revalidates hs meta \<longleftrightarrow> (case fm_etag meta of None \<Rightarrow> False | Some tag \<Rightarrow> if_none_match_hits hs (quote tag))"

lemma serve_open_file_cases:
  assumes "http_ok lib" and "list_all printable ct" and "meta_ok meta"
    and calm: "list_all (\<lambda>f. f = None) (w_fs_faults w)"
  shows "\<exists>r w'. serve_open_file lib bytes hs ct meta w = (Inr r, w') \<and> answer_ok hs bytes meta r \<and>
     (if revalidates hs meta then not_modified hs r
      else case asked_part lib hs bytes meta of
             Range_None \<Rightarrow> whole_file bytes r
           | Unsatisfiable \<Rightarrow> no_such_part bytes r
           | Satisfiable start ending \<Rightarrow> file_part bytes r \<and> fr_body r = slice start ending bytes)"
proof -
  obtain w1 where len: "fs_call no_trace (ok (length bytes)) w = (Inr (length bytes), w1)"
      and calm1: "list_all (\<lambda>f. f = None) (w_fs_faults w1)"
    using calm by (cases "w_fs_faults w") (auto simp: fs_call_def fs_fault_def ok_def)
  show ?thesis
  proof (cases "revalidates hs meta")
    case True
    then obtain tag where tag: "fm_etag meta = Some tag" and hit: "if_none_match_hits hs (quote tag)"
      by (auto simp: revalidates_def split: option.splits)
    from not_modified_ok [OF assms(1,3) tag hit, of bytes] True show ?thesis
      by (auto simp: serve_open_file_def and_then_def len tag hit lift_result_def Let_def)
  next
    case False
    have bounds: "start \<le> ending \<and> ending < length bytes"
      if "asked_part lib hs bytes meta = Satisfiable start ending" for start ending
      using that parse_range_bounds by (auto simp: asked_part_def split: if_splits)
    have "serve_open_file lib bytes hs ct meta w =
        serve_range lib (common_headers lib ct meta) bytes (length bytes) (asked_part lib hs bytes meta) w1"
      using False
      by (auto simp: serve_open_file_def and_then_def len asked_part_def revalidates_def Let_def split: option.splits)
    with serve_range_ok [OF assms(1) common_headers_accepted [OF assms(1-3)] bounds calm1, where hs = hs] False
    show ?thesis by simp
  qed
qed

text \<open>
  C21: every answer for a stored file is well formed. With no fault of the file system, any
  request headers get an answer: 200 with the whole file, 206 with exactly the bytes its
  \<open>Content-Range\<close> names, 416 with none or, when \<open>If-None-Match\<close> names the file's tag, 304
  with none; \<open>Content-Length\<close> is the length of the bytes sent, no header is repeated, and the
  cache policy and the tag are the file's.
\<close>
theorem file_answers_well_formed:
  assumes "http_ok lib" and "list_all printable ct" and "meta_ok meta"
    and "list_all (\<lambda>f. f = None) (w_fs_faults w)"
  shows "\<exists>r w'. serve_open_file lib bytes hs ct meta w = (Inr r, w') \<and> answer_ok hs bytes meta r"
  using serve_open_file_cases [OF assms, of bytes hs] by blast

definition sample_http :: http_lib where
  "sample_http = \<lparr>hl_http_date = (\<lambda>_. ''Sun, 06 Nov 1994 08:49:37 GMT''), hl_percent = (\<lambda>_. ''p''),
     hl_value = list_all printable\<rparr>"

lemma sample_http_ok: "http_ok sample_http"
  by (simp add: http_ok_def sample_http_def printable_def)

definition sample_meta :: file_meta where
  "sample_meta = default_meta\<lparr>fm_etag := Some ''v2''\<rparr>"

lemma sample_meta_ok: "meta_ok sample_meta"
  by (simp add: meta_ok_def printable_option_def sample_meta_def default_meta_def printable_def)

definition quiet_world :: world where
  "quiet_world = \<lparr>w_db = empty_db, w_files = [], w_now = 0, w_fresh = 0, w_db_faults = [], w_fs_faults = [], w_stops = []\<rparr>"

lemma file_answers_well_formed_witness:
  "\<exists>r w'. serve_open_file sample_http ''contents'' [(''range'', Some ''bytes=3-5'')] ''application/xml'' sample_meta
      quiet_world = (Inr r, w') \<and> answer_ok [(''range'', Some ''bytes=3-5'')] ''contents'' sample_meta r"
  by (rule file_answers_well_formed [OF sample_http_ok _ sample_meta_ok])
    (simp_all add: printable_def quiet_world_def)

lemma parse_range_rest:
  assumes "header_get hs ''range'' = Some (''bytes='' @ show_nat n @ ''-'')" and "n < 2 ^ 64"
  shows "parse_byte_range hs len = (if n < len then Satisfiable n (len - 1) else Unsatisfiable)"
proof -
  have digits: "list_all is_graphic (show_nat n)"
    using set_show_nat graphic_digit by (auto simp: list_all_iff)
  have free: "CHR ''-'' \<notin> set (show_nat n)" "CHR '','' \<notin> set (show_nat n)"
    using set_show_nat by (fastforce simp: is_ascii_digit_def)+
  have split: "split_once CHR ''-'' (show_nat n @ ''-'') = Some (show_nat n, [])"
    using split_once_append [OF free(1), of "[]"] by simp
  have "strip_prefix ''bytes='' (''bytes='' @ show_nat n @ ''-'') = Some (show_nat n @ ''-'')"
    by (simp add: strip_prefix_def)
  then show ?thesis
    using assms free
    by (auto simp: parse_byte_range_def split trim_graphic [OF digits] range_pos_def parse_u64_show_nat Let_def)
qed

lemma trim_quote: "trim (quote tag) = quote tag"
  by (rule trim_ends) (simp add: quote_def is_graphic_def)

text \<open>
  C22: a resumed download never mixes two files. A client that holds the first bytes of the
  file some tag names, and asks for the rest with that tag as \<open>If-Range\<close>, ends up with the
  file as it is now: what a 206 sends completes what it holds, a 200 sends everything, and a
  416 says that it holds everything already; a tag that no longer names the file gets a 200.
\<close>
theorem resumed_download_is_one_file:
  assumes "http_ok lib" and "list_all printable ct" and "meta_ok meta"
    and "list_all (\<lambda>f. f = None) (w_fs_faults w)"
    and asks: "header_get hs ''range'' = Some (''bytes='' @ show_nat (length held) @ ''-'')" "length held < 2 ^ 64"
      "header_get hs ''if-range'' = Some (quote tag)" "header_get hs ''if-none-match'' = None"
    and holds: "fm_etag meta = Some tag \<Longrightarrow> take (length held) bytes = held"
  shows "\<exists>r w'. serve_open_file lib bytes hs ct meta w = (Inr r, w') \<and>
     (if fm_etag meta \<noteq> Some tag then fr_status r = 200 \<and> fr_body r = bytes
      else if length held < length bytes then fr_status r = 206 \<and> held @ fr_body r = bytes
      else fr_status r = 416 \<and> held = bytes)"
proof -
  have fresh: "\<not> revalidates hs meta"
    using asks(4) by (auto simp: revalidates_def if_none_match_hits_def split: option.splits)
  have same: "if_range_holds hs (map_option quote (fm_etag meta)) d \<longleftrightarrow> fm_etag meta = Some tag" for d
    using asks(3) by (auto simp: if_range_holds_def trim_quote Let_def starts_with_def) (auto simp: quote_def)
  obtain r w' where serve: "serve_open_file lib bytes hs ct meta w = (Inr r, w')"
      and kind: "case asked_part lib hs bytes meta of
             Range_None \<Rightarrow> whole_file bytes r
           | Unsatisfiable \<Rightarrow> no_such_part bytes r
           | Satisfiable start ending \<Rightarrow> file_part bytes r \<and> fr_body r = slice start ending bytes"
    using serve_open_file_cases [OF assms(1-4), of bytes hs] fresh by auto
  have part: "asked_part lib hs bytes meta =
      (if fm_etag meta \<noteq> Some tag then Range_None
       else if length held < length bytes then Satisfiable (length held) (length bytes - 1) else Unsatisfiable)"
    by (simp add: asked_part_def same parse_range_rest [OF asks(1,2)])
  have rest: "held @ slice (length held) (length bytes - 1) bytes = bytes"
    if "fm_etag meta = Some tag" "length held < length bytes"
    using holds that append_take_drop_id [of "length held" bytes] by (simp add: slice_def)
  from serve kind part rest holds show ?thesis
    by (auto simp: whole_file_def file_part_def no_such_part_def split: if_splits)
qed

lemma resumed_download_is_one_file_witness:
  "\<exists>r w'. serve_open_file sample_http ''contents''
      [(''range'', Some (''bytes='' @ show_nat 3 @ ''-'')), (''if-range'', Some (quote ''v2''))] ''application/xml''
      sample_meta quiet_world = (Inr r, w') \<and> fr_status r = 206 \<and> ''con'' @ fr_body r = ''contents''"
  using resumed_download_is_one_file [OF sample_http_ok _ sample_meta_ok, where w = quiet_world and held = "''con''"
      and tag = "''v2''" and bytes = "''contents''" and ct = "''application/xml''" and
      hs = "[(''range'', Some (''bytes='' @ show_nat 3 @ ''-'')), (''if-range'', Some (quote ''v2''))]"]
  by (simp add: printable_def quiet_world_def header_get_def header_get_all_def sample_meta_def)

text \<open>An \<open>If-Range\<close> that is not visible ASCII is read as absent: the range is honoured.\<close>

lemma unreadable_if_range_honoured:
  "if_range_holds ((''if-range'', None) # hs) etag date"
  by (simp add: if_range_holds_def header_get_def header_get_all_def)

end
