(* ===== verification/Downloads.thy ===== *)
theory Downloads
  imports Push File_Response
begin

text \<open>
  Downloads: what a feed is served with and who may fetch what (\<open>src/src/web/state.rs\<close>), the
  checks of a request's names (\<open>src/src/web/helpers.rs\<close>), and the handlers for package content
  and symbols (\<open>src/src/web/protocol.rs\<close>). The upstream mirror is an argument: what fetching
  one version does, if the feed has one. The write that counts a download runs after the answer.
\<close>

section \<open>A feed as it is served\<close>

record feed_context =
  fc_name :: string
  fc_prefix :: string
  fc_auth :: api_key_auth
  fc_read_auth :: read_auth
  fc_preview_auth :: read_auth
  fc_admin :: admin_auth
  fc_allow_overwrite :: overwrite_mode
  fc_hard_delete_enabled :: bool
  fc_requires_approval :: bool
  fc_promotes_to :: "string option"
  fc_license_policy :: license_policy_config
  fc_retention :: retention_config
  fc_reserved_elsewhere :: "reserved_prefix list"
  fc_allowed_extensions :: "string list"

definition content_cache :: "feed_context \<Rightarrow> cache_policy" where
  "content_cache feed =
     \<lparr>cp_private = read_enabled (fc_read_auth feed),
      cp_immutable = served_versions_are_immutable (fc_allow_overwrite feed)\<rparr>"

datatype access = Public | Preview

definition mark :: "access \<Rightarrow> file_response \<Rightarrow> file_response" where
  "mark a r =
     (if a = Preview then r\<lparr>fr_headers := fr_headers r @ [(''vary'', ''Authorization, X-NuGet-ApiKey'')]\<rparr> else r)"

definition access_cache :: "access \<Rightarrow> feed_context \<Rightarrow> cache_policy" where
  "access_cache a feed =
     (case a of Public \<Rightarrow> content_cache feed | Preview \<Rightarrow> \<lparr>cp_private = True, cp_immutable = False\<rparr>)"

section \<open>The names in a request\<close>

definition content_length :: "headers \<Rightarrow> nat option" where
  "content_length hs = Option.bind (header_get hs ''content-length'') (\<lambda>v. parse_u64 (trim v))"

definition check_id :: "string \<Rightarrow> unit result" where
  "check_id i = map_err (\<lambda>_. PackageNotFound) (validate_package_id i)"

definition request_version :: "string \<Rightarrow> nuget_version result" where
  "request_version raw =
     map_err (\<lambda>e. InvalidVersion (Msg ''{e}'' [e]))
       (case parse_version raw of
          Inr v \<Rightarrow> Inr v
        | Inl e \<Rightarrow>
            (case trim_start raw of
               c # _ \<Rightarrow> if c = CHR ''v'' \<or> c = CHR ''V'' then Inl e else parse_stored raw
             | [] \<Rightarrow> parse_stored raw))"

definition stored_version :: "string \<Rightarrow> nuget_version result" where
  "stored_version raw = map_err (\<lambda>e. InvalidVersion (Msg ''{e}'' [e])) (parse_stored raw)"

definition is_semver2_level :: "string option \<Rightarrow> bool" where
  "is_semver2_level level =
     (case level of
        None \<Rightarrow> False
      | Some l \<Rightarrow> (case parse_version l of Inr v \<Rightarrow> 2 \<le> fst (core v) | Inl _ \<Rightarrow> False))"

section \<open>Who may fetch what\<close>

definition require_read :: "crypto \<Rightarrow> feed_context \<Rightarrow> headers \<Rightarrow> unit result" where
  "require_read cr feed hs =
     (if read_check_headers cr (fc_read_auth feed) hs then Inr () else Inl Unauthorized)"

definition download_access ::
    "crypto \<Rightarrow> feed_context \<Rightarrow> headers \<Rightarrow> string \<Rightarrow> nuget_version \<Rightarrow> access option io" where
  "download_access cr feed hs i v =
     (if read_presented cr (fc_preview_auth feed) hs
      then and_then (query (get_membership (fc_name feed) i v)) (\<lambda>held.
             ok (case held of None \<Rightarrow> None | Some m \<Rightarrow> if m_enabled m then Some Preview else None))
      else and_then (lift_result (require_read cr feed hs)) (\<lambda>_.
           and_then (query (is_servable (fc_name feed) i v)) (\<lambda>servable.
             ok (if servable then Some Public else None))))"

definition download_miss :: "crypto \<Rightarrow> feed_context \<Rightarrow> headers \<Rightarrow> error" where
  "download_miss cr feed hs =
     (let guessed = list_ex (\<lambda>k. \<not> api_is_key cr (fc_auth feed) k \<and> \<not> admin_is_key cr (fc_admin feed) k)
                      (offered_keys cr hs)
      in if read_enabled (fc_preview_auth feed) \<and> \<not> read_presented cr (fc_preview_auth feed) hs \<and>
            \<not> read_presented cr (fc_read_auth feed) hs \<and> guessed
         then Unauthorized else PackageNotFound)"

text \<open>What the mirror does for one version, when the feed has one and may hold the id.\<close>

type_synonym mirror_fetch = "(string \<Rightarrow> nuget_version \<Rightarrow> unit io) option"

definition mirror_version :: "feed_context \<Rightarrow> mirror_fetch \<Rightarrow> string \<Rightarrow> nuget_version \<Rightarrow> unit io" where
  "mirror_version feed mirror i v =
     (case mirror of
        None \<Rightarrow> ok ()
      | Some fetch \<Rightarrow>
          if list_ex (\<lambda>r. prefix_covers r i) (fc_reserved_elsewhere feed) then ok ()
          else ignoring (fetch i v))"

definition access_or_mirror ::
    "crypto \<Rightarrow> feed_context \<Rightarrow> mirror_fetch \<Rightarrow> headers \<Rightarrow> string \<Rightarrow> nuget_version \<Rightarrow> access io" where
  "access_or_mirror cr feed mirror hs i v =
     and_then (download_access cr feed hs i v) (\<lambda>found.
       case found of
         Some a \<Rightarrow> ok a
       | None \<Rightarrow>
           and_then (mirror_version feed mirror i v) (\<lambda>_.
           and_then (download_access cr feed hs i v) (\<lambda>again.
             case again of Some a \<Rightarrow> ok a | None \<Rightarrow> fail (download_miss cr feed hs))))"

section \<open>Package content\<close>

definition nupkg_content_type :: string where
  "nupkg_content_type = ''application/octet-stream''"

text \<open>
  The file opened between two reads of its row; what the row says of it is used only when both
  agree. \<open>meanwhile1\<close> and \<open>meanwhile2\<close> are what other requests do at the two awaits.
\<close>

definition agreed_row :: "package option result \<Rightarrow> package option result \<Rightarrow> bool \<Rightarrow> nat \<Rightarrow> package option" where
  "agreed_row before after is_nuspec len =
     (case (before, after) of
        (Inr (Some b), Inr (Some a)) \<Rightarrow>
          if p_package_hash b = p_package_hash a \<and> p_published b = p_published a \<and>
             (is_nuspec \<or> p_package_size a = len)
          then Some a else None
      | _ \<Rightarrow> None)"

definition open_validated ::
    "unit io \<Rightarrow> unit io \<Rightarrow> string \<Rightarrow> string \<Rightarrow> nuget_version \<Rightarrow> path \<Rightarrow> bool \<Rightarrow> (string \<times> package option) io" where
  "open_validated meanwhile1 meanwhile2 feed i v p is_nuspec =
     and_then (attempt (query_result (find_version feed i v))) (\<lambda>before.
     and_then meanwhile1 (\<lambda>_.
     and_then (open_file p) (\<lambda>bytes.
     and_then meanwhile2 (\<lambda>_.
     and_then (attempt (query_result (find_version feed i v))) (\<lambda>after.
     and_then (fs_call no_trace (ok (length bytes))) (\<lambda>len.
       ok (bytes, agreed_row before after is_nuspec len)))))))"

definition content_meta :: "access \<Rightarrow> feed_context \<Rightarrow> bool \<Rightarrow> package option \<Rightarrow> file_meta" where
  "content_meta a feed is_nuspec package =
     default_meta\<lparr>fm_etag := map_option (\<lambda>p. if is_nuspec then p_package_hash p @ ''-nuspec''
                                           else p_package_hash p) package,
       fm_last_modified := map_option p_published package, fm_cache := access_cache a feed\<rparr>"

definition insert_header :: "string \<Rightarrow> string \<Rightarrow> file_response \<Rightarrow> file_response" where
  "insert_header n v r = r\<lparr>fr_headers := filter (\<lambda>(m, _). m \<noteq> n) (fr_headers r) @ [(n, v)]\<rparr>"

definition serve_version ::
    "http_lib \<Rightarrow> feed_context \<Rightarrow> string \<Rightarrow> headers \<Rightarrow> string \<Rightarrow> nuget_version \<Rightarrow> string \<Rightarrow> access \<Rightarrow>
     file_response io" where
  "serve_version lib feed verb hs i v filename a =
     (let is_nuspec = ends_with (to_ascii_lowercase filename) ''.nuspec''
      in and_then (if is_nuspec then aux_content i (normalized v) Nuspec else get_package i (normalized v)) (\<lambda>p.
         and_then (open_validated (ok ()) (ok ()) (fc_name feed) i v p is_nuspec) (\<lambda>(bytes, package).
         let meta = content_meta a feed is_nuspec package
         in if is_nuspec
            then and_then (serve_open_file lib bytes hs ''application/xml''
                             (meta\<lparr>fm_download_name := Some ''manifest.nuspec''\<rparr>)) (\<lambda>r.
                   ok (mark a (insert_header ''content-security-policy''
                                 (''default-src '' @ [CHR 0x27] @ ''none'' @ [CHR 0x27]) r)))
            else and_then (serve_open_file lib bytes hs nupkg_content_type
                             (meta\<lparr>fm_download_name :=
                                Some (to_ascii_lowercase i @ ''.'' @ to_ascii_lowercase (normalized v) @ ''.nupkg'')\<rparr>))
                   (\<lambda>r. let r = mark a r
                        in if a = Public \<and> counts_as_download verb hs \<and> sends_content r
                           then and_then (ignoring (run_db (increment_downloads (fc_name feed) i v))) (\<lambda>_. ok r)
                           else ok r))))"

definition download_package ::
    "crypto \<Rightarrow> http_lib \<Rightarrow> feed_context \<Rightarrow> mirror_fetch \<Rightarrow> string \<Rightarrow> headers \<Rightarrow> string \<Rightarrow> string \<Rightarrow> string \<Rightarrow>
     file_response io" where
  "download_package cr lib feed mirror verb hs i raw_version filename =
     and_then (lift_result (check_id i)) (\<lambda>_.
     and_then (if read_presented cr (fc_preview_auth feed) hs then ok ()
               else lift_result (require_read cr feed hs)) (\<lambda>_.
     and_then (lift_result (request_version raw_version)) (\<lambda>v.
     and_then (access_or_mirror cr feed mirror hs i v) (\<lambda>a.
       serve_version lib feed verb hs i v filename a))))"

section \<open>Symbols\<close>

definition download_symbol ::
    "crypto \<Rightarrow> http_lib \<Rightarrow> feed_context \<Rightarrow> headers \<Rightarrow> string \<Rightarrow> string \<Rightarrow> string \<Rightarrow> file_response io" where
  "download_symbol cr lib feed hs file key file2 =
     and_then (lift_result (require_read cr feed hs)) (\<lambda>_.
     if \<not> eq_ignore_ascii_case file file2 then fail PackageNotFound
     else and_then (query (find_symbol key file)) (\<lambda>owner.
          case owner of
            None \<Rightarrow> fail PackageNotFound
          | Some (owner_id, owner_raw) \<Rightarrow>
              and_then (lift_result (stored_version owner_raw)) (\<lambda>owner_version.
              and_then (query (is_servable (fc_name feed) owner_id owner_version)) (\<lambda>servable.
              if \<not> servable then fail PackageNotFound
              else and_then (get_symbol key file) (\<lambda>p.
                   serve_local_file lib p hs nupkg_content_type
                     (default_meta\<lparr>fm_etag := Some key, fm_cache := content_cache feed\<rparr>))))))"

section \<open>Operations that only look\<close>

definition still :: "'a io \<Rightarrow> bool" where
  "still m \<longleftrightarrow> (\<forall>w r w'. m w = (r, w') \<longrightarrow> w_db w' = w_db w \<and> file_at_path w' = file_at_path w)"

lemma stillD: "still m \<Longrightarrow> m w = (r, w') \<Longrightarrow> w_db w' = w_db w \<and> file_at_path w' = file_at_path w"
  by (simp add: still_def)

lemma and_then_Inr:
  assumes "and_then m f w = (Inr r, w')"
  obtains a w1 where "m w = (Inr a, w1)" "f a w1 = (Inr r, w')"
  using assms by (auto simp: and_then_def split: prod.splits sum.splits)

named_theorems stilling \<open>rules for still\<close>

lemma still_pure [stilling]: "still (ok a)" "still (fail e)" "still (lift_result r)" "still (look f)"
  by (simp_all add: still_def io_simps)

lemma still_and_then [stilling]: "still m \<Longrightarrow> (\<And>a. still (f a)) \<Longrightarrow> still (and_then m f)"
  unfolding still_def and_then_def by (fastforce split: prod.splits sum.splits)

lemma still_attempt [stilling]: "still m \<Longrightarrow> still (attempt m)"
  by (fastforce simp: still_def attempt_def split: prod.splits)

lemma still_touching: "only_touches (\<lambda>_. False) m \<Longrightarrow> still m"
  unfolding still_def by (auto dest: only_touchesD)

lemma still_query_result [stilling]: "still (query_result q)"
  unfolding still_def query_result_def
proof (intro allI impI)
  fix w r w' assume "run_db (\<lambda>d. map_result (\<lambda>a. (a, d)) (q d)) w = (r, w')"
  then show "w_db w' = w_db w \<and> file_at_path w' = file_at_path w"
    by (cases rule: run_db_cases) (auto simp: result_ok)
qed

lemma still_query [stilling]: "still (query q)"
  unfolding query_def by (rule still_query_result)

lemma still_fs_call [stilling]: "still m \<Longrightarrow> still (fs_call no_trace m)"
  unfolding still_def
proof (intro allI impI)
  fix w r w' assume m: "\<forall>w r w'. m w = (r, w') \<longrightarrow> w_db w' = w_db w \<and> file_at_path w' = file_at_path w"
    and run: "fs_call no_trace m w = (r, w')"
  obtain f w1 where f: "fs_fault w = (f, w1)" by (cases "fs_fault w")
  have "w_db w1 = w_db w \<and> file_at_path w1 = file_at_path w"
    using f by (auto simp: fs_fault_def file_at_path_def fun_eq_iff split: list.splits)
  with m run show "w_db w' = w_db w \<and> file_at_path w' = file_at_path w"
    by (cases f) (auto simp: fs_call_def f no_trace_def)
qed

lemma still_fs_read [stilling]: "still (fs_read p)"
  unfolding fs_read_def by (rule still_fs_call) (auto simp: still_def split: option.splits)

lemma still_if [stilling]: "still m \<Longrightarrow> still n \<Longrightarrow> still (if b then m else n)"
  by simp

lemma still_case_option [stilling]:
  "still m \<Longrightarrow> (\<And>a. still (f a)) \<Longrightarrow> still (case x of None \<Rightarrow> m | Some a \<Rightarrow> f a)"
  by (cases x) simp_all

lemma still_case_sum [stilling]:
  "(\<And>e. still (g e)) \<Longrightarrow> (\<And>a. still (f a)) \<Longrightarrow> still (case x of Inl e \<Rightarrow> g e | Inr a \<Rightarrow> f a)"
  by (cases x) simp_all

lemma still_fs_exists [stilling]: "still (fs_exists p)"
  unfolding fs_exists_def by (intro stilling)

lemma still_paths [stilling]: "still (get_package i n)" "still (aux_content i n kind)" "still (get_symbol key name)"
  unfolding get_package_def aux_content_def get_symbol_def get_if_exists_def by (intro stilling)+

lemma still_open [stilling]: "still (open_file p)"
  unfolding open_file_def by (intro stilling)

lemma still_serve_open_file [stilling]: "still (serve_open_file lib bytes hs ct meta)"
proof -
  have "still (serve_range lib b bytes len asked)" for b len asked
    unfolding serve_range_def by (cases asked) (auto intro!: stilling)
  then show ?thesis
    unfolding serve_open_file_def Let_def by (intro stilling)
qed

lemma still_open_validated: "still (open_validated (ok ()) (ok ()) feed i v p n)"
  unfolding open_validated_def by (intro stilling)

lemma still_download_access: "still (download_access cr feed hs i v)"
  unfolding download_access_def by (intro stilling)

section \<open>What an answer that carries bytes shows\<close>

definition part_of :: "string \<Rightarrow> string \<Rightarrow> bool" where
  "part_of body bytes \<longleftrightarrow> (\<exists>before after. bytes = before @ body @ after)"

lemma part_of_slice: "part_of (slice start ending bytes) bytes"
proof -
  have "bytes = take start bytes @ slice start ending bytes @ drop (ending - start + 1) (drop start bytes)"
    unfolding slice_def append_take_drop_id by simp
  then show ?thesis unfolding part_of_def by blast
qed

lemma part_of_refl: "part_of bytes bytes"
  unfolding part_of_def by (metis append_Nil append_Nil2)

lemma serve_open_file_sends:
  assumes "serve_open_file lib bytes hs ct meta w = (Inr r, w')" and "sends_content r"
  shows "header_of r ''cache-control'' = Some (header_value (fm_cache meta)) \<and> header_of r ''vary'' = None \<and>
     part_of (fr_body r) bytes"
proof -
  have varyless: "map_of (common_headers lib ct meta) ''vary'' = None"
    by (auto simp: common_headers_def split: option.splits)
  have sent: "header_of r ''cache-control'' = Some (header_value (fm_cache meta)) \<and> header_of r ''vary'' = None \<and>
      part_of (fr_body r) bytes"
    if "serve_range lib (common_headers lib ct meta) bytes len asked w1 = (Inr r, w')" for len asked w1
    using that assms(2) varyless part_of_slice part_of_refl
    by (cases asked) (auto simp: serve_range_def lift_result_def response_of_def header_of_def common_headers_names
        map_add_def sends_content_def elim!: and_then_Inr split: if_splits option.splits)
  from assms show ?thesis
    by (auto simp: serve_open_file_def Let_def lift_result_def response_of_def sends_content_def
        elim!: and_then_Inr dest: sent split: option.splits if_splits)
qed

lemma get_package_path: "get_package i n w = (Inr p, w') \<Longrightarrow> package_path i n = Inr p"
  by (auto simp: get_package_def get_if_exists_def lift_result_def ok_def fail_def
      elim!: and_then_Inr split: if_splits)

lemma aux_content_path: "aux_content i n kind w = (Inr p, w') \<Longrightarrow> aux_path i n kind = Inr p"
  by (auto simp: aux_content_def get_if_exists_def lift_result_def ok_def fail_def
      elim!: and_then_Inr split: if_splits)

lemma open_file_bytes: "open_file p w = (Inr bytes, w') \<Longrightarrow> file_at_path w p = Some bytes"
  by (auto simp: open_file_def fs_read_def fs_call_def fs_fault_def file_at_path_def attempt_def ok_def fail_def
      elim!: and_then_Inr split: option.splits list.splits sum.splits prod.splits)

lemma open_validated_bytes:
  assumes "open_validated (ok ()) (ok ()) feed i v p n w = (Inr (bytes, package), w')"
  shows "file_at_path w p = Some bytes"
proof -
  from assms obtain before w1 w2 where look: "attempt (query_result (find_version feed i v)) w = (Inr before, w1)"
      and "open_file p w1 = (Inr bytes, w2)"
    by (auto simp: open_validated_def ok_def elim!: and_then_Inr)
  then have "file_at_path w1 p = Some bytes" by (auto dest: open_file_bytes)
  moreover have "still (attempt (query_result (find_version feed i v)))" by (intro stilling)
  ultimately show ?thesis using look by (auto dest: stillD)
qed

text \<open>Whom a version may be given to.\<close>

definition permitted ::
    "crypto \<Rightarrow> feed_context \<Rightarrow> headers \<Rightarrow> string \<Rightarrow> nuget_version \<Rightarrow> access \<Rightarrow> db \<Rightarrow> bool" where
  "permitted cr feed hs i v a d \<longleftrightarrow>
     (\<exists>m \<in> set (db_members d). member_at (fc_name feed) i v m \<and> m_enabled m \<and>
        (case a of
           Preview \<Rightarrow> read_presented cr (fc_preview_auth feed) hs
         | Public \<Rightarrow> read_check_headers cr (fc_read_auth feed) hs \<and> \<not> m_pending m))"

lemma query_Inr: "query q w = (Inr a, w') \<Longrightarrow> a = q (w_db w)"
  unfolding query_def query_result_def by (auto elim: run_db_cases)

lemma row_at_member:
  "row_at member_key (feed, version_key i v) rows = Some m \<Longrightarrow> m \<in> set rows \<and> member_at feed i v m"
  by (auto simp: row_at_def member_at_def find_Some_iff)

lemma download_access_permitted:
  assumes "download_access cr feed hs i v w = (Inr (Some a), w')"
  shows "permitted cr feed hs i v a (w_db w') \<and> (a = Preview \<longleftrightarrow> read_presented cr (fc_preview_auth feed) hs)"
proof -
  have d: "w_db w' = w_db w" using stillD [OF still_download_access assms] by simp
  show ?thesis
  proof (cases "read_presented cr (fc_preview_auth feed) hs")
    case True
    with assms obtain m w1 where "query (get_membership (fc_name feed) i v) w = (Inr (Some m), w1)"
        and "m_enabled m" and "a = Preview"
      by (auto simp: download_access_def ok_def elim!: and_then_Inr split: option.splits if_splits)
    then have "get_membership (fc_name feed) i v (w_db w) = Some m" by (auto dest: query_Inr)
    then obtain row where "row_at member_key (fc_name feed, version_key i v) (db_members (w_db w)) = Some row"
        and "m = membership.truncate row"
      by (auto simp: get_membership_def)
    moreover from this \<open>m_enabled m\<close> have "m_enabled row" by (simp add: membership.truncate_def)
    ultimately show ?thesis
      using True \<open>a = Preview\<close> d
      by (auto simp: permitted_def dest!: row_at_member)
  next
    case False
    with assms obtain w1 w2 where "query (is_servable (fc_name feed) i v) w1 = (Inr True, w2)" and "w1 = w"
        and "read_check_headers cr (fc_read_auth feed) hs" and "a = Public"
      by (auto simp: download_access_def require_read_def lift_result_def ok_def
          elim!: and_then_Inr split: if_splits)
    moreover from this have "is_servable (fc_name feed) i v (w_db w)" by (auto dest: query_Inr)
    ultimately show ?thesis
      using False d by (auto simp: permitted_def is_servable_def list_ex_iff)
  qed
qed

lemma access_or_mirror_permitted:
  assumes "access_or_mirror cr feed mirror hs i v w = (Inr a, w')"
  shows "permitted cr feed hs i v a (w_db w') \<and> (a = Preview \<longleftrightarrow> read_presented cr (fc_preview_auth feed) hs)"
proof -
  from assms obtain w1 where "download_access cr feed hs i v w1 = (Inr (Some a), w')"
    by (auto simp: access_or_mirror_def ok_def fail_def elim!: and_then_Inr split: option.splits)
  then show ?thesis by (rule download_access_permitted)
qed

lemma permitted_counted:
  assumes "permitted cr feed hs i v a d" and "increment_downloads feed' i' v' d = Inr (u, d')"
  shows "permitted cr feed hs i v a d'"
proof -
  let ?count = "\<lambda>m. if member_at feed' i' v' m then m\<lparr>mr_downloads := mr_downloads m + 1\<rparr> else m"
  have d': "db_members d' = map ?count (db_members d)"
    using assms(2) by (auto simp: increment_downloads_def update_rows_def)
  have same: "member_at (fc_name feed) i v (?count m) = member_at (fc_name feed) i v m" "m_enabled (?count m) = m_enabled m"
    "m_pending (?count m) = m_pending m" for m
    by (auto simp: member_at_def member_key_def member_version_def)
  show ?thesis
    using assms(1) unfolding permitted_def d' set_map bex_simps(7) same .
qed

text \<open>What goes out with a version's bytes.\<close>

definition labelled :: "feed_context \<Rightarrow> access \<Rightarrow> file_response \<Rightarrow> bool" where
  "labelled feed a r \<longleftrightarrow>
     header_of r ''cache-control'' = Some (header_value (access_cache a feed)) \<and>
     header_of r ''vary'' = (if a = Preview then Some ''Authorization, X-NuGet-ApiKey'' else None)"

lemma labelled_mark:
  assumes "header_of r ''cache-control'' = Some (header_value (access_cache a feed))" and "header_of r ''vary'' = None"
  shows "labelled feed a (mark a r)" "labelled feed a (mark a (insert_header ''content-security-policy'' p r))"
proof -
  have "map_of (filter (\<lambda>(m, _). m \<noteq> x) hs) n = map_of hs n" if "n \<noteq> x" for x n and hs :: "(string \<times> string) list"
    using that by (induction hs) auto
  with assms show "labelled feed a (mark a r)"
    "labelled feed a (mark a (insert_header ''content-security-policy'' p r))"
    by (auto simp: labelled_def mark_def insert_header_def header_of_def map_add_def)
qed

lemma mark_body [simp]: "fr_body (mark a r) = fr_body r" "sends_content (mark a r) = sends_content r"
  "fr_body (insert_header n p r) = fr_body r" "sends_content (insert_header n p r) = sends_content r"
  by (simp_all add: mark_def insert_header_def sends_content_def)

lemma serve_version_sends:
  assumes run: "serve_version lib feed verb hs i v filename a w = (Inr r, w')" and "sends_content r"
    and "permitted cr feed hs i v a (w_db w)"
  shows "permitted cr feed hs i v a (w_db w') \<and> labelled feed a r \<and>
     (\<exists>p bytes. (package_path i (normalized v) = Inr p \<or> aux_path i (normalized v) Nuspec = Inr p) \<and>
        file_at_path w' p = Some bytes \<and> part_of (fr_body r) bytes)"
proof -
  let ?nuspec = "ends_with (to_ascii_lowercase filename) ''.nuspec''"
  from run obtain p w1 bytes package w2 where
      path: "(if ?nuspec then aux_content i (normalized v) Nuspec else get_package i (normalized v)) w = (Inr p, w1)"
      and opened: "open_validated (ok ()) (ok ()) (fc_name feed) i v p ?nuspec w1 = (Inr (bytes, package), w2)"
    by (auto simp: serve_version_def Let_def elim!: and_then_Inr split: if_splits prod.splits)
  obtain ct meta r0 w3 where served: "serve_open_file lib bytes hs ct meta w2 = (Inr r0, w3)"
      and cache: "fm_cache meta = access_cache a feed"
      and done': "r = mark a r0 \<or> (\<exists>policy. r = mark a (insert_header ''content-security-policy'' policy r0))"
      and end': "w' = w3 \<or> (\<exists>x. ignoring (run_db (increment_downloads (fc_name feed) i v)) w3 = (x, w'))"
  proof (cases ?nuspec)
    case True
    let ?meta = "(content_meta a feed True package)\<lparr>fm_download_name := Some ''manifest.nuspec''\<rparr>"
    have "fm_cache ?meta = access_cache a feed" by (simp add: content_meta_def)
    moreover from run path opened True obtain r0 policy where
        "serve_open_file lib bytes hs ''application/xml'' ?meta w2 = (Inr r0, w')"
        "r = mark a (insert_header ''content-security-policy'' policy r0)"
      by (auto simp: serve_version_def Let_def ok_def and_then_def split: prod.splits sum.splits)
    ultimately show ?thesis using that by blast
  next
    case False
    let ?meta = "(content_meta a feed False package)\<lparr>fm_download_name :=
        Some (to_ascii_lowercase i @ ''.'' @ to_ascii_lowercase (normalized v) @ ''.nupkg'')\<rparr>"
    have "fm_cache ?meta = access_cache a feed" by (simp add: content_meta_def)
    moreover from run path opened False obtain r0 w3 where
        "serve_open_file lib bytes hs nupkg_content_type ?meta w2 = (Inr r0, w3)" "r = mark a r0"
        "w' = w3 \<or> (\<exists>x. ignoring (run_db (increment_downloads (fc_name feed) i v)) w3 = (x, w'))"
      by (auto simp: serve_version_def Let_def ok_def and_then_def split: prod.splits sum.splits if_splits)
    ultimately show ?thesis using that by blast
  qed
  have sent: "sends_content r0" and body: "fr_body r = fr_body r0" using done' assms(2) by auto
  note r0 = serve_open_file_sends [OF served sent]
  have "labelled feed a r" using done' r0 labelled_mark cache by auto
  have "still (if ?nuspec then aux_content i (normalized v) Nuspec else get_package i (normalized v))"
    by (intro stilling)
  then have s: "w_db w3 = w_db w" "file_at_path w3 = file_at_path w1"
    using stillD path stillD [OF still_open_validated opened] stillD [OF still_serve_open_file served] by auto
  have kept: "permitted cr feed hs i v a (w_db w') \<and> file_at_path w' = file_at_path w3"
  proof (cases "w' = w3")
    case True
    with assms(3) s show ?thesis by simp
  next
    case False
    then obtain u w4 where "run_db (increment_downloads (fc_name feed) i v) w3 = (u, w4)" "w' = w4"
      using end' by (auto simp: ignoring_def attempt_def and_then_def ok_def split: prod.splits)
    then show ?thesis
      using assms(3) s by (cases rule: run_db_cases) (auto dest: permitted_counted)
  qed
  have "package_path i (normalized v) = Inr p \<or> aux_path i (normalized v) Nuspec = Inr p"
    using path get_package_path aux_content_path by (auto split: if_splits)
  moreover have "file_at_path w' p = Some bytes"
    using open_validated_bytes [OF opened] kept s by simp
  ultimately show ?thesis
    using kept r0 body \<open>labelled feed a r\<close> by auto
qed

text \<open>
  C4: only who may fetch a version gets its bytes. Whatever the mirror does, an answer of
  \<open>download_package\<close> that carries bytes carries part of the version's payload or manifest as
  stored; the feed holds the version, enabled; the request showed the feed's preview key, or
  passed the read key's check and the version is not pending. Under the preview key the answer
  is marked private, never immutable and varying with the credentials, and otherwise it has the
  feed's own cache policy.
\<close>
theorem only_permitted_downloads:
  assumes "download_package cr lib feed mirror verb hs i raw filename w = (Inr r, w')" and "sends_content r"
  shows "\<exists>v a p bytes. request_version raw = Inr v \<and> permitted cr feed hs i v a (w_db w') \<and>
     (a = Preview \<longleftrightarrow> read_presented cr (fc_preview_auth feed) hs) \<and> labelled feed a r \<and>
     (package_path i (normalized v) = Inr p \<or> aux_path i (normalized v) Nuspec = Inr p) \<and>
     file_at_path w' p = Some bytes \<and> part_of (fr_body r) bytes"
proof -
  from assms(1) obtain v a w1 where v: "request_version raw = Inr v"
      and access: "access_or_mirror cr feed mirror hs i v w = (Inr a, w1)"
      and serve: "serve_version lib feed verb hs i v filename a w1 = (Inr r, w')"
    by (auto simp: download_package_def lift_result_def ok_def elim!: and_then_Inr split: if_splits)
  from access_or_mirror_permitted [OF access] serve_version_sends [OF serve assms(2)] v show ?thesis by blast
qed

text \<open>A feed with a read key that holds one version, and a request with the key.\<close>

definition keyed_feed :: feed_context where
  "keyed_feed = \<lparr>fc_name = ''main'', fc_prefix = [], fc_auth = \<lparr>aa_expected = []\<rparr>,
     fc_read_auth = \<lparr>ra_expected = Some ''key''\<rparr>, fc_preview_auth = \<lparr>ra_expected = None\<rparr>,
     fc_admin = \<lparr>ad_expected = None\<rparr>, fc_allow_overwrite = Overwrite_Disabled, fc_hard_delete_enabled = False,
     fc_requires_approval = False, fc_promotes_to = None, fc_license_policy = default_license_policy,
     fc_retention = \<lparr>rc_enabled = False, rc_prune_on_push = False, rc_interval_hours = 24,
        rc_keep_latest_stable = None, rc_keep_latest_prerelease = None, rc_max_age_days = None,
        rc_exclude_id_prefixes = []\<rparr>,
     fc_reserved_elsewhere = [], fc_allowed_extensions = []\<rparr>"

definition one_version_world :: world where
  "one_version_world =
     \<lparr>w_db = empty_db\<lparr>db_members :=
        [\<lparr>m_feed = ''main'', m_lower_id = ''pkg'', m_normalized_version = ''1.2.0'', m_listed = True,
          m_listing_set = False, m_enabled = True, m_pending = False, m_flagged = False, m_flag_reason = None,
          m_pinned = False, mr_added = 0, mr_downloads = 0\<rparr>]\<rparr>,
      w_files = [([''pkg'', ''1.2.0'', ''pkg.1.2.0.nupkg''], ''payload'')], w_now = 0, w_fresh = 0,
      w_db_faults = [], w_fs_faults = [], w_stops = []\<rparr>"

definition key_headers :: headers where
  "key_headers = [(''x-nuget-apikey'', Some ''key'')]"

lemma one_version_calm:
  "w_fs_faults one_version_world = []" "w_db_faults one_version_world = []"
  "file_at_path one_version_world p = (if p = [''pkg'', ''1.2.0'', ''pkg.1.2.0.nupkg''] then Some ''payload'' else None)"
  by (simp_all add: one_version_world_def file_at_path_def)

lemma one_version_member: "member_at ''main'' ''Pkg'' pushed_version m \<longleftrightarrow> member_key m = (''main'', ''pkg'', ''1.2.0'')"
  by (auto simp: member_at_def version_key_def canonical_id_def pushed_names char_eval)

lemma one_version_served: "is_servable ''main'' ''Pkg'' pushed_version (w_db one_version_world)"
  by (simp add: is_servable_def one_version_world_def one_version_member member_key_def member_version_def)

lemma one_version_found: "find_version ''main'' ''Pkg'' pushed_version (w_db one_version_world) = Inr None"
  by (simp add: find_version_def feed_rows_def one_version_world_def List.map_filter_def join_row_def row_at_def empty_db_def)

lemma keyed_request:
  "read_presented cr (fc_preview_auth keyed_feed) hs = False"
  "crypto_ok cr \<Longrightarrow> require_read cr keyed_feed key_headers = Inr ()"
  by (simp_all add: keyed_feed_def read_presented_def require_read_def read_check_headers_def key_headers_def
      presented_key_def header_get_def header_get_all_def api_key_header_def trim_graphic is_graphic_def
      constant_time_eq_def digests_eq_iff crypto_ok_def)

lemma serve_version_steps:
  assumes "\<not> ends_with (to_ascii_lowercase filename) ''.nuspec''" and "get_package i (normalized v) w = (Inr p, w1)"
    and "open_validated (ok ()) (ok ()) (fc_name feed) i v p False w1 = (Inr (bytes, package), w2)"
    and "serve_open_file lib bytes hs nupkg_content_type
       ((content_meta a feed False package)\<lparr>fm_download_name :=
          Some (to_ascii_lowercase i @ ''.'' @ to_ascii_lowercase (normalized v) @ ''.nupkg'')\<rparr>) w2 = (Inr r, w3)"
  shows "\<exists>w'. serve_version lib feed verb hs i v filename a w = (Inr (mark a r), w')"
  using assms unfolding serve_version_def Let_def
  by (simp add: and_then_def ignoring_def attempt_def ok_def split: prod.splits)

lemma one_version_download:
  "\<exists>r w'. download_package sample_crypto sample_http keyed_feed None ''GET'' key_headers ''Pkg'' ''1.2.0'' ''pkg.1.2.0.nupkg''
     one_version_world = (Inr r, w') \<and> sends_content r"
proof -
  have id: "check_id ''Pkg'' = Inr ()" 
    by (simp add: check_id_def validate_package_id_def max_id_length_def is_word_def is_sep_def is_windows_device_name_def
        trim_end_alphanumeric to_ascii_uppercase_def starts_with_def char_eval ascii_upper_def
        char_of_eq_iff take_bit_eq_mod)
  have v: "request_version ''1.2.0'' = Inr pushed_version" by (simp add: request_version_def push_version)
  have n: "\<not> ends_with (to_ascii_lowercase ''pkg.1.2.0.nupkg'') ''.nuspec''"
    by (simp add: ends_with_def char_eval)
  have none: "header_get key_headers ''if-range'' = None" "header_get key_headers ''range'' = None"
    by (simp_all add: key_headers_def header_get_def header_get_all_def)
  have name: "fc_name keyed_feed = ''main''" by (simp add: keyed_feed_def)
  have access: "access_or_mirror sample_crypto keyed_feed None key_headers ''Pkg'' pushed_version one_version_world
      = (Inr Public, one_version_world)"
    using one_version_served
    by (simp add: access_or_mirror_def download_access_def keyed_request sample_crypto_ok run_calm one_version_calm name)
  have opened: "open_validated (ok ()) (ok ()) ''main'' ''Pkg'' pushed_version [''pkg'', ''1.2.0'', ''pkg.1.2.0.nupkg'']
      False one_version_world = (Inr (''payload'', None), one_version_world)"
    by (simp add: open_validated_def run_calm one_version_calm one_version_found open_file_def fs_read_def agreed_row_def)
  have calm: "list_all (\<lambda>f. f = None) (w_fs_faults one_version_world)" by (simp add: one_version_calm)
  let ?meta = "(content_meta Public keyed_feed False None)\<lparr>fm_download_name :=
      Some (to_ascii_lowercase ''Pkg'' @ ''.'' @ to_ascii_lowercase (normalized pushed_version) @ ''.nupkg'')\<rparr>"
  have meta: "meta_ok ?meta" "\<not> revalidates key_headers ?meta"
    "asked_part sample_http key_headers ''payload'' ?meta = Range_None"
    by (simp_all add: meta_ok_def content_meta_def default_meta_def printable_option_def revalidates_def
        asked_part_def parse_byte_range_def none)
  have type: "list_all printable nupkg_content_type" by (simp add: nupkg_content_type_def printable_def)
  obtain r w' where served: "serve_open_file sample_http ''payload'' key_headers nupkg_content_type ?meta one_version_world
      = (Inr r, w')" and whole: "whole_file ''payload'' r"
    using serve_open_file_cases [OF sample_http_ok type meta(1) calm, of "''payload''" key_headers] meta by auto
  have got: "get_package ''Pkg'' (normalized pushed_version) one_version_world
      = (Inr [''pkg'', ''1.2.0'', ''pkg.1.2.0.nupkg''], one_version_world)"
    by (simp add: pushed_names get_package_def get_if_exists_def pushed_dir fs_exists_def run_calm one_version_calm)
  from serve_version_steps [OF n got opened [folded name] served] obtain w2 where
    "serve_version sample_http keyed_feed ''GET'' key_headers ''Pkg'' pushed_version ''pkg.1.2.0.nupkg'' Public
       one_version_world = (Inr (mark Public r), w2)" by blast
  moreover have "sends_content (mark Public r)" using whole by (simp add: sends_content_def whole_file_def mark_def)
  ultimately show ?thesis
    by (simp add: download_package_def id v keyed_request sample_crypto_ok access and_then_def lift_result_def ok_def)
qed

lemma only_permitted_downloads_witness:
  "\<exists>v a p bytes w'. request_version ''1.2.0'' = Inr v \<and>
     permitted sample_crypto keyed_feed key_headers ''Pkg'' v a (w_db w') \<and>
     (package_path ''Pkg'' (normalized v) = Inr p \<or> aux_path ''Pkg'' (normalized v) Nuspec = Inr p) \<and>
     file_at_path w' p = Some bytes"
proof -
  obtain r w' where "download_package sample_crypto sample_http keyed_feed None ''GET'' key_headers ''Pkg'' ''1.2.0''
      ''pkg.1.2.0.nupkg'' one_version_world = (Inr r, w')" and "sends_content r"
    using one_version_download by blast
  from only_permitted_downloads [OF this] show ?thesis by blast
qed

text \<open>
  The two reads of the row do not notice an overwrite in progress whose new payload is as long
  as the old one: the payload is in place before the rows change, and goes out with the old tag.
\<close>

lemma overwrite_in_progress_unnoticed:
  assumes row: "find_version feed i v (w_db w) = Inr (Some package)" and "p_package_size package = length new"
    and "meanwhile w = (Inr (), w1)" and "w_db w1 = w_db w" and "file_at_path w1 p = Some new"
    and "w_db_faults w = []" and "w_db_faults w1 = []" and "w_fs_faults w1 = []"
  shows "open_validated meanwhile (ok ()) feed i v p False w = (Inr (new, Some package), w1)"
  using assms by (simp add: open_validated_def run_calm open_file_def fs_read_def agreed_row_def)

end
