(* ===== verification/Upload_Streams.thy ===== *)
theory Upload_Streams
  imports Downloads
begin

text \<open>
  Bodies on their way to disk: the space promised to writes in progress
  (\<open>src/src/space.rs\<close>) and the appending, hashing writer (\<open>src/src/streaming.rs\<close>). A body is
  the list of what arrives: chunks, then its end, a broken connection or a silence longer
  than the idle limit. The free space a measurement finds is an argument, a function of the
  world. A running hash is the bytes fed to it. The writer takes each chunk in one write.
\<close>

section \<open>What goes wrong with a body\<close>

datatype stream_error =
    Invalid_Data message
  | Timed_Out message
  | Storage_Full message
  | Stream_Io io_kind

definition map_upload_err :: "stream_error \<Rightarrow> error" where
  "map_upload_err e =
     (case e of
        Invalid_Data m \<Rightarrow> PayloadTooLarge m
      | Timed_Out m \<Rightarrow> UploadTimeout m
      | Storage_Full m \<Rightarrow> InsufficientStorage m
      | Stream_Io k \<Rightarrow> Io k)"

definition stream_io :: "error \<Rightarrow> stream_error" where
  "stream_io e = (case e of Io k \<Rightarrow> Stream_Io k | _ \<Rightarrow> Stream_Io Io_OtherKind)"

datatype body_event = Chunk string | Broken | Stalled

section \<open>Space\<close>

text \<open>
  \<open>sg_promised\<close> is what every reservation still held adds up to, \<open>sg_available\<close> the measurement.
\<close>

record space_guard =
  sg_reserve :: nat
  sg_promised :: nat
  sg_resumable :: bool
  sg_available :: "world \<Rightarrow> nat option"

definition i64_max :: nat where
  "i64_max = 2 ^ 63 - 1"

definition saturating_add :: "nat \<Rightarrow> nat \<Rightarrow> nat" where
  "saturating_add a b = min (a + b) u64_max"

definition reserve_check_interval :: nat where
  "reserve_check_interval = 64 * 1024 * 1024"

definition resumable_hold :: nat where
  "resumable_hold = 60 * 60"

definition reserve :: "space_guard \<Rightarrow> nat \<Rightarrow> nat \<times> space_guard" where
  "reserve sg bytes =
     (let bytes = min bytes i64_max in (bytes, sg\<lparr>sg_promised := sg_promised sg + bytes\<rparr>))"

definition consumed :: "space_guard \<Rightarrow> nat \<Rightarrow> nat \<Rightarrow> nat \<times> space_guard" where
  "consumed sg share n =
     (let taken = min n share in (share - taken, sg\<lparr>sg_promised := sg_promised sg - taken\<rparr>))"

definition release :: "space_guard \<Rightarrow> nat \<Rightarrow> space_guard" where
  "release sg share = sg\<lparr>sg_promised := sg_promised sg - share\<rparr>"

definition space_check :: "space_guard \<Rightarrow> nat \<Rightarrow> unit io" where
  "space_check sg incoming =
     (if sg_reserve sg = 0 then ok ()
      else and_then (look (sg_available sg)) (\<lambda>measured. case measured of
        None \<Rightarrow> ok ()
      | Some available \<Rightarrow>
          and_then (if sg_resumable sg
                    then and_then (look w_now) (\<lambda>now.
                           query (outstanding_upload_bytes now (now - int resumable_hold)))
                    else ok 0) (\<lambda>resumable.
          let pool = sg_promised sg;
              in_flight = pool - incoming;
              needed = saturating_add (saturating_add (max pool incoming) resumable) (sg_reserve sg)
          in if available < needed
             then fail (InsufficientStorage
               (Msg ''{available} bytes free on the storage volume, {needed} needed: {incoming} incoming, {in_flight} promised, {resumable} held, reserve {}''
                  [show_nat available, show_nat needed, show_nat incoming, show_nat in_flight,
                   show_nat resumable, show_nat (sg_reserve sg)]))
             else ok ())))"

definition admit_write :: "space_guard \<Rightarrow> nat option \<Rightarrow> (nat \<times> space_guard) io" where
  "admit_write sg incoming =
     (let n = (case incoming of None \<Rightarrow> 0 | Some n \<Rightarrow> n); (share, sg') = reserve sg n
      in and_then (space_check sg' n) (\<lambda>_. ok (share, sg')))"

section \<open>The guarded writer\<close>

text \<open>What a writer held to the reserve keeps: the bytes since its last measurement, its reservation.\<close>

record disk_reserve =
  dr_space :: space_guard
  dr_unchecked :: nat
  dr_held :: nat

definition guard_writer :: "space_guard \<Rightarrow> nat \<Rightarrow> disk_reserve" where
  "guard_writer sg share = \<lparr>dr_space = sg, dr_unchecked = 0, dr_held = share\<rparr>"

definition poll_check :: "disk_reserve \<Rightarrow> world \<Rightarrow> (stream_error + unit) \<times> disk_reserve" where
  "poll_check dr w =
     (let needed = sg_reserve (dr_space dr)
      in if needed = 0 then (Inr (), dr)
         else if dr_unchecked dr < reserve_check_interval then (Inr (), dr)
         else let dr = dr\<lparr>dr_unchecked := 0\<rparr>
              in case sg_available (dr_space dr) w of
                   None \<Rightarrow> (Inr (), dr)
                 | Some available \<Rightarrow>
                     if available < needed
                     then (Inl (Storage_Full
                             (Msg ''{available} bytes free on the storage volume, {reserve} needed (the configured reserve)''
                                [show_nat available, show_nat needed])), dr)
                     else (Inr (), dr))"

definition written_through :: "disk_reserve \<Rightarrow> nat \<Rightarrow> disk_reserve" where
  "written_through dr n =
     (let (share, sg) = consumed (dr_space dr) (dr_held dr) n
      in dr\<lparr>dr_space := sg, dr_unchecked := dr_unchecked dr + n, dr_held := share\<rparr>)"

text \<open>Bytes added at the end of an open file.\<close>

definition add_bytes :: "path \<Rightarrow> string \<Rightarrow> world \<Rightarrow> world" where
  "add_bytes p bytes w =
     (case file_at_path w p of None \<Rightarrow> w | Some old \<Rightarrow> put_file p (old @ bytes) w)"

definition fs_append :: "path \<Rightarrow> string \<Rightarrow> unit io" where
  "fs_append p bytes = fs_call (\<lambda>n. add_bytes p (take n bytes)) (\<lambda>w. (Inr (), add_bytes p bytes w))"

section \<open>Appending a body\<close>

record appended =
  ap_written :: nat
  ap_hashed :: string
  ap_result :: "stream_error + unit"
  ap_writer :: disk_reserve

fun append_hashed ::
    "path \<Rightarrow> nat \<Rightarrow> string \<Rightarrow> body_event list \<Rightarrow> disk_reserve \<Rightarrow> nat \<Rightarrow> string \<Rightarrow> world \<Rightarrow> appended \<times> world" where
  "append_hashed p remaining idle [] dr written hashed w =
     (case fs_call no_trace (ok ()) w of
        (Inr _, w) \<Rightarrow> (\<lparr>ap_written = written, ap_hashed = hashed, ap_result = Inr (), ap_writer = dr\<rparr>, w)
      | (Inl e, w) \<Rightarrow>
          (\<lparr>ap_written = written, ap_hashed = hashed, ap_result = Inl (stream_io e), ap_writer = dr\<rparr>, w))"
| "append_hashed p remaining idle (Broken # es) dr written hashed w =
     (\<lparr>ap_written = written, ap_hashed = hashed, ap_result = Inl (Stream_Io Io_OtherKind), ap_writer = dr\<rparr>, w)"
| "append_hashed p remaining idle (Stalled # es) dr written hashed w =
     (\<lparr>ap_written = written, ap_hashed = hashed,
       ap_result = Inl (Timed_Out (Msg ''no data arrived for {} s'' [idle])), ap_writer = dr\<rparr>, w)"
| "append_hashed p remaining idle (Chunk c # es) dr written hashed w =
     (if remaining < saturating_add written (length c)
      then (\<lparr>ap_written = written, ap_hashed = hashed,
              ap_result = Inl (Invalid_Data (Msg ''more than the {remaining} bytes expected'' [show_nat remaining])),
              ap_writer = dr\<rparr>, w)
      else case poll_check dr w of
             (Inl e, dr) \<Rightarrow> (\<lparr>ap_written = written, ap_hashed = hashed, ap_result = Inl e, ap_writer = dr\<rparr>, w)
           | (Inr _, dr) \<Rightarrow>
               (case fs_append p c w of
                  (Inl e, w) \<Rightarrow>
                    (\<lparr>ap_written = written, ap_hashed = hashed, ap_result = Inl (stream_io e), ap_writer = dr\<rparr>, w)
                | (Inr _, w) \<Rightarrow>
                    append_hashed p remaining idle es (written_through dr (length c)) (written + length c)
                      (hashed @ c) w))"

text \<open>The whole of a body into a new file, with its size and hash.\<close>

definition stream_to_writer_sha256 ::
    "(string \<Rightarrow> string) \<Rightarrow> path \<Rightarrow> nat option \<Rightarrow> string \<Rightarrow> body_event list \<Rightarrow> disk_reserve \<Rightarrow> world \<Rightarrow>
     ((stream_error + nat \<times> string) \<times> disk_reserve) \<times> world" where
  "stream_to_writer_sha256 sha256_hex p max_bytes idle body dr w =
     (case append_hashed p (case max_bytes of None \<Rightarrow> u64_max | Some n \<Rightarrow> n) idle body dr 0 [] w of
        (a, w) \<Rightarrow>
          ((case ap_result a of
              Inl e \<Rightarrow> Inl e
            | Inr _ \<Rightarrow> Inr (ap_written a, sha256_hex (ap_hashed a)), ap_writer a), w))"

section \<open>What a body leaves behind\<close>

text \<open>The bytes that arrive before a body ends, breaks or falls silent.\<close>

fun arriving :: "body_event list \<Rightarrow> string" where
  "arriving (Chunk c # es) = c @ arriving es"
| "arriving _ = []"

fun whole_body :: "body_event list \<Rightarrow> bool" where
  "whole_body (Chunk c # es) = whole_body es"
| "whole_body es = (es = [])"

lemma file_add_bytes:
  "file_at_path w p = Some old \<Longrightarrow> file_at_path (add_bytes p bytes w) q = (if q = p then Some (old @ bytes) else file_at_path w q)"
  by (simp add: add_bytes_def)

lemma add_bytes_fields [simp]:
  "w_db (add_bytes p bytes w) = w_db w" "w_now (add_bytes p bytes w) = w_now w"
  "w_db_faults (add_bytes p bytes w) = w_db_faults w" "w_fresh (add_bytes p bytes w) = w_fresh w"
  "w_fs_faults (add_bytes p bytes w) = w_fs_faults w"
  by (simp_all add: add_bytes_def put_file_def split: option.splits)

lemma touching_append [touching]: "T p \<Longrightarrow> only_touches T (fs_append p bytes)"
  unfolding fs_append_def
  by (rule touching_fs_call) (auto simp: only_touches_def Let_def add_bytes_def split: option.splits)

lemma fs_append_result:
  assumes "fs_append p bytes w = (r, w')" and "file_at_path w p = Some old"
  shows "case r of Inr _ \<Rightarrow> file_at_path w' p = Some (old @ bytes)
         | Inl e \<Rightarrow> (\<exists>extra. file_at_path w' p = Some (old @ extra))"
proof -
  obtain f w1 where f: "fs_fault w = (f, w1)" by (cases "fs_fault w")
  then have "file_at_path w1 p = Some old" using assms(2) by simp
  from file_add_bytes [OF this] show ?thesis
    using assms(1) f by (cases f) (auto simp: fs_append_def fs_call_def)
qed

text \<open>
  Whatever goes wrong, the file is what was there and then what was counted, perhaps with a
  torn chunk at its end; the hash has seen exactly what was counted, the beginning of what
  arrived, and all of it when the copy succeeds. Nothing else is touched.
\<close>

definition copied :: "string \<Rightarrow> body_event list \<Rightarrow> nat \<Rightarrow> string \<Rightarrow> path \<Rightarrow> appended \<Rightarrow> world \<Rightarrow> bool" where
  "copied base body written hashed p a w' \<longleftrightarrow>
     (\<exists>sent extra. ap_written a = written + length sent \<and> ap_hashed a = hashed @ sent \<and>
        file_at_path w' p = Some (base @ sent @ extra) \<and> (\<exists>more. arriving body = sent @ more) \<and>
        (if is_ok (ap_result a) then sent = arriving body \<and> extra = [] else True))"

lemma copied_more:
  assumes "copied (base @ c) es (written + length c) (hashed @ c) p a w'"
  shows "copied base (Chunk c # es) written hashed p a w'"
proof -
  from assms obtain sent extra more where sent: "ap_written a = written + length c + length sent"
      "ap_hashed a = (hashed @ c) @ sent" "file_at_path w' p = Some ((base @ c) @ sent @ extra)"
      "arriving es = sent @ more" "if is_ok (ap_result a) then sent = arriving es \<and> extra = [] else True"
    unfolding copied_def by blast
  show ?thesis
    unfolding copied_def
  proof (rule exI [of _ "c @ sent"], rule exI [of _ extra], intro conjI)
    show "\<exists>more. arriving (Chunk c # es) = (c @ sent) @ more" using sent(4) by simp
    show "if is_ok (ap_result a) then c @ sent = arriving (Chunk c # es) \<and> extra = [] else True"
      using sent(5) by (cases "is_ok (ap_result a)") simp_all
  qed (use sent(1-3) in simp_all)
qed

lemma append_copies:
  assumes "append_hashed p remaining idle body dr written hashed w = (a, w')" and "file_at_path w p = Some base"
  shows "copied base body written hashed p a w'"
  using assms
proof (induction p remaining idle body dr written hashed w arbitrary: base rule: append_hashed.induct)
  case (1 p remaining idle dr written hashed w)
  obtain r w1 where done': "fs_call no_trace (ok ()) w = (r, w1)" by (cases "fs_call no_trace (ok ()) w")
  have "only_touches (\<lambda>_. False) (fs_call no_trace (ok ()))" by (intro touching)
  from only_touchesD [OF this done'] "1.prems"(2) have "file_at_path w1 p = Some base" by simp
  with "1.prems"(1) done' show ?case by (cases r) (auto simp: copied_def is_ok_def)
next
  case (4 p remaining idle c es dr written hashed w)
  show ?case
  proof (cases "remaining < saturating_add written (length c)")
    case True
    with "4.prems" show ?thesis by (auto simp: copied_def is_ok_def)
  next
    case fits: False
    obtain r1 dr1 where check: "poll_check dr w = (r1, dr1)" by (cases "poll_check dr w")
    obtain r2 w2 where add: "fs_append p c w = (r2, w2)" by (cases "fs_append p c w")
    note added = fs_append_result [OF add "4.prems"(2)]
    show ?thesis
    proof (cases r1)
      case (Inl e)
      with "4.prems" fits check show ?thesis by (auto simp: copied_def is_ok_def)
    next
      case r1: (Inr u)
      show ?thesis
      proof (cases r2)
        case (Inl e)
        with "4.prems" fits check r1 add added show ?thesis by (auto simp: copied_def is_ok_def)
      next
        case (Inr v)
        with "4.prems"(1) fits check r1 add
        have "append_hashed p remaining idle es (written_through dr1 (length c)) (written + length c) (hashed @ c) w2 =
            (a, w')" by simp
        moreover from added Inr have "file_at_path w2 p = Some (base @ c)" by simp
        ultimately have "copied (base @ c) es (written + length c) (hashed @ c) p a w'"
          using "4.IH" [OF fits check [symmetric] r1 add [symmetric] Inr] by blast
        then show ?thesis by (rule copied_more)
      qed
    qed
  qed
qed (auto simp: copied_def is_ok_def)

definition only_file :: "path \<Rightarrow> world \<Rightarrow> world \<Rightarrow> bool" where
  "only_file p w w' \<longleftrightarrow>
     w_db w' = w_db w \<and> w_now w' = w_now w \<and> w_db_faults w' = w_db_faults w \<and> w_fresh w \<le> w_fresh w' \<and>
     (\<forall>q. q \<noteq> p \<longrightarrow> file_at_path w' q = file_at_path w q)"

lemma only_file_refl [simp]: "only_file p w w"
  by (simp add: only_file_def)

lemma only_file_trans: "only_file p w w1 \<Longrightarrow> only_file p w1 w2 \<Longrightarrow> only_file p w w2"
  by (auto simp: only_file_def)

lemma touches_only_file: "only_touches (\<lambda>q. q = p) m \<Longrightarrow> m w = (r, w') \<Longrightarrow> only_file p w w'"
  using only_touchesD [of "\<lambda>q. q = p" m w r w'] by (simp add: only_file_def)

lemma append_frame: "append_hashed p remaining idle body dr written hashed w = (a, w') \<Longrightarrow> only_file p w w'"
proof (induction p remaining idle body dr written hashed w rule: append_hashed.induct)
  case (1 p remaining idle dr written hashed w)
  have "only_touches (\<lambda>q. q = p) (fs_call no_trace (ok ()))" by (intro touching)
  with 1 show ?case by (auto dest: touches_only_file split: prod.splits sum.splits)
next
  case (4 p remaining idle c es dr written hashed w)
  have "only_touches (\<lambda>q. q = p) (fs_append p c)" by (rule touching_append) simp
  note one = touches_only_file [OF this]
  show ?case
  proof (cases "remaining < saturating_add written (length c)")
    case True
    with "4.prems" show ?thesis by auto
  next
    case fits: False
    obtain r1 dr1 where check: "poll_check dr w = (r1, dr1)" by (cases "poll_check dr w")
    obtain r2 w2 where add: "fs_append p c w = (r2, w2)" by (cases "fs_append p c w")
    show ?thesis
    proof (cases r1)
      case (Inl e)
      with "4.prems" fits check show ?thesis by auto
    next
      case r1: (Inr u)
      show ?thesis
      proof (cases r2)
        case (Inl e)
        with "4.prems" fits check r1 add one [OF add] show ?thesis by auto
      next
        case (Inr v)
        with "4.prems" fits check r1 add
        have "append_hashed p remaining idle es (written_through dr1 (length c)) (written + length c) (hashed @ c) w2 =
            (a, w')" by simp
        with "4.IH" [OF fits check [symmetric] r1 add [symmetric] Inr] one [OF add] show ?thesis
          by (blast intro: only_file_trans)
      qed
    qed
  qed
qed auto

section \<open>Promises are given back\<close>

text \<open>
  What a writer still holds is part of the pool, and the pool less that is what the others
  promised: released at the end, it is as it was before the request.
\<close>

definition promises :: "nat \<Rightarrow> disk_reserve \<Rightarrow> bool" where
  "promises others dr \<longleftrightarrow> sg_promised (dr_space dr) = others + dr_held dr"

lemma promises_through: "promises others dr \<Longrightarrow> promises others (written_through dr n)"
  by (auto simp: promises_def written_through_def consumed_def Let_def)

lemma promises_check: "promises others dr \<Longrightarrow> poll_check dr w = (r, dr') \<Longrightarrow> promises others dr'"
  by (auto simp: promises_def poll_check_def Let_def split: if_splits option.splits)

lemma append_promises:
  "append_hashed p remaining idle body dr written hashed w = (a, w') \<Longrightarrow> promises others dr \<Longrightarrow>
     promises others (ap_writer a)"
  by (induction p remaining idle body dr written hashed w rule: append_hashed.induct)
    (auto intro: promises_through dest: promises_check split: prod.splits sum.splits if_splits)

lemma space_given_back:
  assumes "reserve sg n = (share, sg1)"
    and "append_hashed p remaining idle body (guard_writer sg1 share) written hashed w = (a, w')"
  shows "sg_promised (release (dr_space (ap_writer a)) (dr_held (ap_writer a))) = sg_promised sg"
proof -
  have "promises (sg_promised sg) (guard_writer sg1 share)"
    using assms(1) by (auto simp: promises_def guard_writer_def reserve_def Let_def)
  from append_promises [OF assms(2) this] show ?thesis by (simp add: promises_def release_def)
qed

section \<open>A copy nothing disturbs\<close>

definition room_for_writes :: "space_guard \<Rightarrow> bool" where
  "room_for_writes sg \<longleftrightarrow> (\<forall>w. case sg_available sg w of None \<Rightarrow> True | Some n \<Rightarrow> sg_reserve sg \<le> n)"

lemma roomy_check: "room_for_writes (dr_space dr) \<Longrightarrow>
    \<exists>dr'. poll_check dr w = (Inr (), dr') \<and> room_for_writes (dr_space (written_through dr' n))"
  by (auto simp: poll_check_def room_for_writes_def written_through_def consumed_def Let_def
      split: option.splits) (metis leD option.simps(5))+

lemma append_calm:
  assumes "w_fs_faults w = []" and "room_for_writes (dr_space dr)" and "whole_body body"
    and "written + length (arriving body) \<le> remaining" and "file_at_path w p = Some base"
    and "append_hashed p remaining idle body dr written hashed w = (a, w')"
  shows "ap_result a = Inr () \<and> w_fs_faults w' = []"
  using assms
proof (induction p remaining idle body dr written hashed w arbitrary: base rule: append_hashed.induct)
  case (1 p remaining idle dr written hashed w)
  then show ?case by (auto simp: fs_call_def fs_fault_def ok_def)
next
  case (4 p remaining idle c es dr written hashed w)
  have fits: "\<not> remaining < saturating_add written (length c)"
    using "4.prems"(4) by (simp add: saturating_add_def)
  obtain dr1 where check: "poll_check dr w = (Inr (), dr1)" "room_for_writes (dr_space (written_through dr1 (length c)))"
    using roomy_check [OF "4.prems"(2)] by blast
  have add: "fs_append p c w = (Inr (), add_bytes p c w)"
    using "4.prems"(1) by (simp add: fs_append_def fs_call_def fs_fault_def)
  have "append_hashed p remaining idle es (written_through dr1 (length c)) (written + length c) (hashed @ c)
      (add_bytes p c w) = (a, w')"
    using "4.prems"(6) fits check(1) add by simp
  then show ?case
    using "4.IH" [OF fits check(1) [symmetric] refl add [symmetric] refl, of "base @ c"] "4.prems" check(2)
    by (simp add: file_add_bytes)
qed auto

end
