(* ===== verification/Hosted.thy ===== *)
theory Hosted
  imports Upload_Streams
begin

text \<open>
  Files attached to versions (\<open>src/src/web/hosted.rs\<close>): who may change them, attaching and
  detaching, the upload in one request and the resumable upload of the tus protocol, over the
  database, the store and the disk-space guard. A request runs alone but for the requests
  another writer of its upload makes, an argument. The digest in hex, the URLs, the JSON
  documents and the digest for a header are libraries.
\<close>

section \<open>A feed's file service\<close>

record feed_meta =
  fe_name :: string
  fe_prefix :: string
  fe_requires_approval :: bool
  fe_allow_overwrite :: overwrite_mode
  fe_license_policy :: license_policy_config
  fe_admin :: admin_auth

record hosting =
  ho_feed :: feed_context
  ho_feeds :: "feed_meta list"
  ho_enabled :: bool
  ho_max_size :: "nat option"
  ho_idle :: string
  ho_expiry_hours :: nat
  ho_max_open :: nat
  ho_space :: space_guard
  ho_crypto :: crypto
  ho_lib :: http_lib
  ho_sha256_hex :: "string \<Rightarrow> string"
  ho_digest_base64 :: "string \<Rightarrow> string option"
  ho_upload_url :: "string \<Rightarrow> string"
  ho_files_json :: "package_file list \<Rightarrow> file_response"

definition octet_stream :: string where
  "octet_stream = ''application/octet-stream''"

definition tus_version :: string where
  "tus_version = ''1.0.0''"

definition tus_extensions :: string where
  "tus_extensions = ''creation,expiration,termination''"

section \<open>Downloads\<close>

definition file_cache :: "hosting \<Rightarrow> access \<Rightarrow> cache_policy" where
  "file_cache st a =
     (case a of
        Public \<Rightarrow> \<lparr>cp_private = read_enabled (fc_read_auth (ho_feed st)), cp_immutable = False\<rparr>
      | Preview \<Rightarrow> access_cache a (ho_feed st))"

definition files_index :: "hosting \<Rightarrow> string \<Rightarrow> nuget_version \<Rightarrow> file_response io" where
  "files_index st i v = and_then (query (files_for i v)) (\<lambda>files. ok (ho_files_json st files))"

definition download_file ::
    "hosting \<Rightarrow> string \<Rightarrow> headers \<Rightarrow> string \<Rightarrow> string \<Rightarrow> string \<Rightarrow> file_response io" where
  "download_file st verb hs i raw_version name =
     (let cr = ho_crypto st; feed = ho_feed st in
      and_then (lift_result (check_id i)) (\<lambda>_.
      and_then (if read_presented cr (fc_preview_auth feed) hs then ok ()
                else lift_result (require_read cr feed hs)) (\<lambda>_.
      if \<not> ho_enabled st then fail PackageNotFound
      else
      and_then (lift_result (request_version raw_version)) (\<lambda>v.
      and_then (download_access cr feed hs i v) (\<lambda>found.
      case found of
        None \<Rightarrow> fail (download_miss cr feed hs)
      | Some a \<Rightarrow>
          if eq_ignore_ascii_case name ''index.json''
          then and_then (files_index st i v) (\<lambda>r.
                 ok (mark a (if a = Preview then insert_header ''cache-control'' ''private, no-store'' r else r)))
          else
          and_then (query (get_file i v name)) (\<lambda>row.
          case row of
            None \<Rightarrow> fail PackageNotFound
          | Some f \<Rightarrow>
              and_then (get_blob (f_sha256 f)) (\<lambda>p.
              and_then (serve_local_file (ho_lib st) p hs octet_stream
                \<lparr>fm_download_name = Some (f_name f), fm_etag = Some (f_sha256 f), fm_cache = file_cache st a,
                 fm_last_modified = Some (f_uploaded f), fm_sha256_base64 = ho_digest_base64 st (f_sha256 f)\<rparr>) (\<lambda>r.
              let r = mark a (insert_header ''content-security-policy''
                                (''default-src '' @ [CHR 0x27] @ ''none'' @ [CHR 0x27]) r)
              in if a = Public \<and> counts_as_download verb hs \<and> sends_content r
                 then and_then (ignoring (run_db (increment_file_downloads i v name))) (\<lambda>_. ok r)
                 else ok r))))))))"

section \<open>Who may change the files of a version\<close>

definition authorize_upload :: "hosting \<Rightarrow> headers \<Rightarrow> unit result" where
  "authorize_upload st hs =
     (if \<not> ho_enabled st then Inl PackageNotFound
      else if \<not> api_enabled (fc_auth (ho_feed st))
      then Inl (Forbidden (Msg ''attached files need a push key: set api_key for this feed'' []))
      else if \<not> api_check_headers (ho_crypto st) (fc_auth (ho_feed st)) hs then Inl Unauthorized
      else Inr ())"

definition version_in_feed :: "hosting \<Rightarrow> string \<Rightarrow> nuget_version \<Rightarrow> unit io" where
  "version_in_feed st i v =
     and_then (query (member_exists (fc_name (ho_feed st)) i v)) (\<lambda>there.
       if there then ok () else fail PackageNotFound)"

record approval_guard =
  ag_any :: bool
  ag_reviewing :: "string list"
  ag_admin_of :: "string list"
  ag_feed :: string

definition reviews :: "bool \<Rightarrow> overwrite_mode \<Rightarrow> bool" where
  "reviews requires_approval mode \<longleftrightarrow> requires_approval \<or> mode = Overwrite_Pending"

definition for_request :: "hosting \<Rightarrow> headers \<Rightarrow> approval_guard" where
  "for_request st hs =
     (let own = ho_feed st;
          others = filter (\<lambda>m. fe_name m \<noteq> fc_name own) (ho_feeds st)
      in \<lparr>ag_any = (fc_allow_overwrite own = Overwrite_Pending),
          ag_reviewing =
            map fe_name (filter (\<lambda>m. reviews (fe_requires_approval m) (fe_allow_overwrite m)) others) @
            (if reviews (fc_requires_approval own) (fc_allow_overwrite own) then [fc_name own] else []),
          ag_admin_of =
            map fe_name (filter (\<lambda>m. admin_check_headers (ho_crypto st) (fe_admin m) hs) others) @
            (if admin_check_headers (ho_crypto st) (fc_admin own) hs then [fc_name own] else []),
          ag_feed = fc_name own\<rparr>)"

definition without_credentials :: "bool \<Rightarrow> string list \<Rightarrow> approval_guard" where
  "without_credentials keep_approved reviewing =
     \<lparr>ag_any = keep_approved, ag_reviewing = reviewing, ag_admin_of = [], ag_feed = []\<rparr>"

definition guard_holds :: "approval_guard \<Rightarrow> string \<Rightarrow> bool" where
  "guard_holds g feed \<longleftrightarrow> ag_any g \<or> feed \<in> set (ag_reviewing g)"

definition may_override :: "approval_guard \<Rightarrow> string \<Rightarrow> bool" where
  "may_override g feed \<longleftrightarrow>
     feed \<in> set (ag_admin_of g) \<or> (feed \<notin> set (ag_reviewing g) \<and> ag_feed g \<in> set (ag_admin_of g))"

definition check_not_approved :: "string \<Rightarrow> nuget_version \<Rightarrow> approval_guard \<Rightarrow> string list io" where
  "check_not_approved i v g =
     and_then (query (approved_in i v)) (\<lambda>feeds.
       let approved = filter (guard_holds g) feeds;
           missing = filter (\<lambda>f. \<not> may_override g f) approved
       in if approved = [] then ok approved
          else if missing = [] then ok approved
          else fail (Forbidden (Msg ''{id} {} is approved in {}; changing its files takes the admin key of {}''
                 ([i, normalized v] @ approved @ missing))))"

section \<open>Attaching and detaching\<close>

datatype attached = New_File package_file | Same_File package_file

definition attach_locked ::
    "string \<Rightarrow> approval_guard \<Rightarrow> string \<Rightarrow> nuget_version \<Rightarrow> string \<Rightarrow> path \<Rightarrow> string \<Rightarrow> nat \<Rightarrow> attached io" where
  "attach_locked feed g i v name temp sha len =
     and_then (query (member_exists feed i v)) (\<lambda>there.
     if \<not> there then fail PackageNotFound else
     and_then (query (package_data_exists i v)) (\<lambda>data.
     if \<not> data then fail PackageNotFound else
     and_then (query (get_file i v name)) (\<lambda>existing.
     case existing of
       Some f \<Rightarrow>
         if f_sha256 f = sha then ok (Same_File f)
         else fail (Conflict (Msg ''{id} {} already has a different file named {name}; delete it first''
                [i, normalized v, name]))
     | None \<Rightarrow>
         and_then (check_not_approved i v g) (\<lambda>overridden.
         and_then (store_blob sha temp) (\<lambda>stored.
         and_then (look w_now) (\<lambda>now.
         let f = \<lparr>f_lower_id = to_ascii_lowercase i, f_normalized_version = normalized v, f_name = name,
                  f_sha256 = sha, f_size = len, f_uploaded = now, f_downloads = 0\<rparr>
         in and_then (attempt (run_db (add_file f))) (\<lambda>added.
            case added of
              Inr _ \<Rightarrow> ok (New_File f)
            | Inl e \<Rightarrow>
                and_then (attempt (query (blob_references sha))) (\<lambda>refs.
                and_then (io_when (refs = Inr 0) (ignoring (delete_blob sha))) (\<lambda>_.
                fail (if e = PackageAlreadyExists
                      then Conflict (Msg ''{name} was attached by another upload just now'' [name])
                      else e))))))))))"

definition attach_guarded ::
    "string \<Rightarrow> approval_guard \<Rightarrow> string \<Rightarrow> nuget_version \<Rightarrow> string \<Rightarrow> path \<Rightarrow> string \<Rightarrow> nat \<Rightarrow> attached io" where
  "attach_guarded feed g i v name temp sha len =
     and_then (attempt (attach_locked feed g i v name temp sha len)) (\<lambda>r.
     and_then (io_when (case r of Inr (New_File _) \<Rightarrow> False | _ \<Rightarrow> True) (ignoring (fs_remove_file temp))) (\<lambda>_.
     lift_result r))"

definition attach_to ::
    "string \<Rightarrow> bool \<Rightarrow> string list \<Rightarrow> string \<Rightarrow> nuget_version \<Rightarrow> string \<Rightarrow> path \<Rightarrow> string \<Rightarrow> nat \<Rightarrow> attached io" where
  "attach_to feed keep_approved reviewing = attach_guarded feed (without_credentials keep_approved reviewing)"

text \<open>A temporary file goes with its owner, whatever became of it.\<close>

definition dropping :: "path \<Rightarrow> 'a io \<Rightarrow> 'a io" where
  "dropping temp m =
     and_then (attempt m) (\<lambda>r. and_then (ignoring (fs_remove_file temp)) (\<lambda>_. lift_result r))"

definition detach :: "hosting \<Rightarrow> string \<Rightarrow> nuget_version \<Rightarrow> string \<Rightarrow> approval_guard \<Rightarrow> unit io" where
  "detach st i v name g =
     and_then (version_in_feed st i v) (\<lambda>_.
     and_then (check_not_approved i v g) (\<lambda>overridden.
     and_then (run_db (delete_file i v name)) (\<lambda>row.
     case row of
       None \<Rightarrow> fail PackageNotFound
     | Some f \<Rightarrow>
         and_then (attempt (query (blob_references (f_sha256 f)))) (\<lambda>refs.
         io_when (refs = Inr 0) (ignoring (delete_blob (f_sha256 f)))))))"

section \<open>What a request says of its file\<close>

definition parse_sha256 :: "string \<Rightarrow> string result" where
  "parse_sha256 raw =
     (let hex = to_ascii_lowercase (trim raw)
      in if length hex = 64 \<and> list_all is_hex_lower hex then Inr hex
         else Inl (BadRequest (Msg ''not a SHA-256 in hex: {:?}'' [take 80 raw])))"

definition check_size :: "hosting \<Rightarrow> nat option \<Rightarrow> unit result" where
  "check_size st declared =
     (case (declared, ho_max_size st) of
        (Some len, Some limit) \<Rightarrow>
          if limit < len
          then Inl (PayloadTooLarge (Msg ''{size} bytes is over the {limit}-byte limit for files''
                      [show_nat len, show_nat limit]))
          else Inr ()
      | _ \<Rightarrow> Inr ())"

definition header_u64 :: "headers \<Rightarrow> string \<Rightarrow> nat result" where
  "header_u64 hs name =
     (case Option.bind (header_get hs name) (\<lambda>v. parse_u64 (trim v)) of
        Some n \<Rightarrow> Inr n
      | None \<Rightarrow> Inl (BadRequest (Msg ''missing or invalid {name} header'' [name])))"

fun metadata_pairs :: "crypto \<Rightarrow> string list \<Rightarrow> (string \<times> string) list \<Rightarrow> (string \<times> string) list result" where
  "metadata_pairs cr [] out = Inr out"
| "metadata_pairs cr (pair # pairs) out =
     (let (key, encoded) = (case split_once CHR '' '' pair of Some kv \<Rightarrow> kv | None \<Rightarrow> (pair, []))
      in case Option.bind (cr_base64 cr (trim encoded)) (\<lambda>b. if cr_utf8 cr b then Some b else None) of
           None \<Rightarrow> Inl (BadRequest (Msg ''Upload-Metadata {key:?} is not base64 UTF-8'' [key]))
         | Some decoded \<Rightarrow> metadata_pairs cr pairs (AList.update key decoded out))"

definition parse_metadata :: "crypto \<Rightarrow> string \<Rightarrow> (string \<times> string) list result" where
  "parse_metadata cr raw = metadata_pairs cr (filter (\<lambda>p. p \<noteq> []) (map trim (split CHR '','' raw))) []"

definition metadata_field :: "(string \<times> string) list \<Rightarrow> string \<Rightarrow> string result" where
  "metadata_field meta k =
     (case map_of meta k of
        Some v \<Rightarrow> Inr v | None \<Rightarrow> Inl (BadRequest (Msg ''Upload-Metadata needs {k:?}'' [k])))"

text \<open>A checksum the client gave, if any.\<close>

definition expected_sha256 :: "string option \<Rightarrow> string option result" where
  "expected_sha256 given =
     (case given of None \<Rightarrow> Inr None | Some raw \<Rightarrow> map_result Some (parse_sha256 raw))"

definition differs :: "string option \<Rightarrow> string \<Rightarrow> bool" where
  "differs expected sha \<longleftrightarrow> (case expected of None \<Rightarrow> False | Some want \<Rightarrow> want \<noteq> sha)"

section \<open>Upload in one request\<close>

text \<open>\<open>File::create\<close>: an empty file, whatever was there.\<close>

definition fs_create :: "path \<Rightarrow> unit io" where
  "fs_create p = fs_call no_trace (\<lambda>w. (Inr (), put_file p [] w))"

definition create_temp :: "path io" where
  "create_temp =
     and_then (fresh_name ''upload'') (\<lambda>name.
     and_then (fs_create (staging_dir @ [name])) (\<lambda>_. ok (staging_dir @ [name])))"

text \<open>The body into the temporary file; the reservation goes with it.\<close>

definition receive_file ::
    "hosting \<Rightarrow> path \<Rightarrow> body_event list \<Rightarrow> nat \<Rightarrow> space_guard \<Rightarrow> (nat \<times> string) io" where
  "receive_file st temp body share sg w =
     (case stream_to_writer_sha256 (ho_sha256_hex st) temp (ho_max_size st) (ho_idle st) body
             (guard_writer sg share) w of
        ((r, dr), w) \<Rightarrow> (map_err map_upload_err r, w))"

definition put_hosted ::
    "hosting \<Rightarrow> headers \<Rightarrow> string \<Rightarrow> string \<Rightarrow> string \<Rightarrow> body_event list \<Rightarrow> (nat \<times> package_file) io" where
  "put_hosted st hs i raw_version name body =
     and_then (lift_result (check_id i)) (\<lambda>_.
     and_then (lift_result (authorize_upload st hs)) (\<lambda>_.
     and_then (lift_result (request_version raw_version)) (\<lambda>v.
     and_then (lift_result (validate_file_name name (fc_allowed_extensions (ho_feed st)))) (\<lambda>_.
     and_then (version_in_feed st i v) (\<lambda>_.
     let g = for_request st hs in
     and_then (check_not_approved i v g) (\<lambda>_.
     and_then (lift_result (expected_sha256 (header_get hs ''x-checksum-sha256''))) (\<lambda>expected.
     let declared = content_length hs in
     and_then (lift_result (check_size st declared)) (\<lambda>_.
     and_then (admit_write (ho_space st) declared) (\<lambda>(share, sg).
     and_then create_temp (\<lambda>temp.
     dropping temp
       (and_then (receive_file st temp body share sg) (\<lambda>(len, sha).
        and_then (fs_sync_file temp) (\<lambda>_.
        if differs expected sha
        then fail (BadRequest (Msg ''checksum mismatch: the body's SHA-256 is {sha256}'' [sha]))
        else and_then (attach_guarded (fc_name (ho_feed st)) g i v name temp sha len) (\<lambda>a.
             case a of New_File f \<Rightarrow> ok (201, f) | Same_File f \<Rightarrow> ok (200, f)))))))))))))))"

definition delete_hosted :: "hosting \<Rightarrow> headers \<Rightarrow> string \<Rightarrow> string \<Rightarrow> string \<Rightarrow> nat io" where
  "delete_hosted st hs i raw_version name =
     and_then (lift_result (check_id i)) (\<lambda>_.
     and_then (lift_result (authorize_upload st hs)) (\<lambda>_.
     and_then (lift_result (request_version raw_version)) (\<lambda>v.
     and_then (detach st i v name (for_request st hs)) (\<lambda>_. ok 204))))"

section \<open>Resumable uploads\<close>

text \<open>The running hash of an upload between requests; one slot for each, none after a restart.\<close>

record hashing =
  hg_received :: nat
  hg_fed :: string

type_synonym slots = "string \<Rightarrow> hashing option"

definition forget_slot :: "string \<Rightarrow> slots \<Rightarrow> slots" where
  "forget_slot u slots = slots(u := None)"

definition part_path :: "string \<Rightarrow> path" where
  "part_path u = staging_dir @ [u @ ''.part'']"

definition tus_response :: "hosting \<Rightarrow> nat \<Rightarrow> (string \<times> string) list \<Rightarrow> string \<Rightarrow> file_response result" where
  "tus_response st status extra body =
     response_of (ho_lib st) status ([(''tus-resumable'', tus_version), (''cache-control'', ''no-store'')] @ extra) body"

text \<open>An answer built from constants; \<open>unwrap_or_default\<close> is an empty 200.\<close>

definition constant_response :: "hosting \<Rightarrow> nat \<Rightarrow> (string \<times> string) list \<Rightarrow> string \<Rightarrow> file_response" where
  "constant_response st status extra body =
     (case tus_response st status extra body of
        Inr r \<Rightarrow> r | Inl _ \<Rightarrow> \<lparr>fr_status = 200, fr_headers = [], fr_body = []\<rparr>)"

definition wrong_tus_version :: "hosting \<Rightarrow> headers \<Rightarrow> file_response option" where
  "wrong_tus_version st hs =
     (if header_get hs ''tus-resumable'' = Some tus_version then None
      else Some (constant_response st 412 [(''tus-version'', tus_version)] ''this server speaks tus 1.0.0''))"

definition tus_options :: "hosting \<Rightarrow> file_response result" where
  "tus_options st =
     tus_response st 204
       ([(''tus-version'', tus_version), (''tus-extension'', tus_extensions)] @
        (case ho_max_size st of None \<Rightarrow> [] | Some n \<Rightarrow> [(''tus-max-size'', show_nat n)])) []"

text \<open>A new upload's id is a fresh UUID.\<close>

definition fresh_upload :: "string io" where
  "fresh_upload w = (Inr (''upload-'' @ show_nat (w_fresh w)), w\<lparr>w_fresh := Suc (w_fresh w)\<rparr>)"

definition tus_create :: "hosting \<Rightarrow> headers \<Rightarrow> file_response io" where
  "tus_create st hs =
     (case wrong_tus_version st hs of
        Some r \<Rightarrow> ok r
      | None \<Rightarrow>
     and_then (lift_result (authorize_upload st hs)) (\<lambda>_.
     and_then (lift_result (header_u64 hs ''upload-length'')) (\<lambda>len.
     and_then (lift_result (parse_metadata (ho_crypto st)
       (case header_get hs ''upload-metadata'' of None \<Rightarrow> [] | Some m \<Rightarrow> m))) (\<lambda>meta.
     and_then (lift_result (metadata_field meta ''id'')) (\<lambda>i.
     and_then (lift_result (check_id i)) (\<lambda>_.
     and_then (lift_result (bind_result (metadata_field meta ''version'') request_version)) (\<lambda>v.
     and_then (lift_result (metadata_field meta ''filename'')) (\<lambda>name.
     and_then (lift_result (validate_file_name name (fc_allowed_extensions (ho_feed st)))) (\<lambda>_.
     and_then (lift_result (expected_sha256 (map_of meta ''sha256''))) (\<lambda>expected.
     and_then (version_in_feed st i v) (\<lambda>_.
     and_then (check_not_approved i v (for_request st hs)) (\<lambda>_.
     and_then (query (get_file i v name)) (\<lambda>existing.
     if existing \<noteq> None
     then fail (Conflict (Msg ''{id} {} already has a file named {name}'' [i, normalized v, name]))
     else
     and_then (lift_result (check_size st (Some len))) (\<lambda>_.
     and_then (look w_now) (\<lambda>now.
     let limit = ho_max_open st; feed = fc_name (ho_feed st) in
     and_then (if 0 < limit then query (open_uploads feed now) else ok 0) (\<lambda>opened.
     if 0 < limit \<and> limit \<le> opened
     then fail (TooManyUploads (Msg ''this feed already has {limit} unfinished resumable uploads'' [show_nat limit]))
     else
     and_then (admit_write (ho_space st) (Some len)) (\<lambda>_.
     and_then fresh_upload (\<lambda>u.
     and_then (fs_create (part_path u)) (\<lambda>_.
     let expires = now + 3600 * int (min (ho_expiry_hours st) (24 * 365)) in
     and_then (run_db (create_upload
       \<lparr>u_id = u, u_feed = feed, u_lower_id = to_ascii_lowercase i, u_normalized_version = normalized v,
        u_name = name, u_length = len, u_received = 0, u_expected_sha256 = expected, u_expires = expires,
        u_held_since = Some now\<rparr>)) (\<lambda>_.
     lift_result (tus_response st 201
       [(''location'', ho_upload_url st u), (''upload-expires'', hl_http_date (ho_lib st) expires)] [])
     ))))))))))))))))))))"

definition upload_session_of :: "hosting \<Rightarrow> string \<Rightarrow> upload_session io" where
  "upload_session_of st u =
     and_then (query (get_upload u)) (\<lambda>row.
     and_then (look w_now) (\<lambda>now.
     case row of
       Some s \<Rightarrow> if u_feed s = fc_name (ho_feed st) \<and> now < u_expires s then ok s else fail PackageNotFound
     | None \<Rightarrow> fail PackageNotFound))"

definition tus_head :: "hosting \<Rightarrow> headers \<Rightarrow> string \<Rightarrow> file_response io" where
  "tus_head st hs u =
     (case wrong_tus_version st hs of
        Some r \<Rightarrow> ok r
      | None \<Rightarrow>
     and_then (lift_result (authorize_upload st hs)) (\<lambda>_.
     and_then (upload_session_of st u) (\<lambda>s.
     lift_result (tus_response st 200
       [(''upload-offset'', show_nat (u_received s)), (''upload-length'', show_nat (u_length s)),
        (''upload-expires'', hl_http_date (ho_lib st) (u_expires s))] []))))"

text \<open>A step of a request that holds a slot: its error ends the request with the slots as given.\<close>

definition in_slot :: "'a io \<Rightarrow> slots \<Rightarrow> ('a \<Rightarrow> ('b result \<times> slots) io) \<Rightarrow> ('b result \<times> slots) io" where
  "in_slot m slots f =
     and_then (attempt m) (\<lambda>r. case r of Inl e \<Rightarrow> ok (Inl e, slots) | Inr a \<Rightarrow> f a)"

definition read_buffer :: nat where
  "read_buffer = 256 * 1024"

text \<open>The reads that rebuild a hash: what is left of the open file, and of the bytes to feed.\<close>

function hash_rest :: "string \<Rightarrow> nat \<Rightarrow> string \<Rightarrow> string io" where
  "hash_rest bytes left fed =
     (if left = 0 then ok fed
      else and_then (fs_call no_trace (ok ())) (\<lambda>_.
        let got = take (min read_buffer left) bytes; n = length got
        in if n = 0 then fail (Other (Msg ''partial upload is shorter than recorded'' []))
           else hash_rest (drop n bytes) (left - n) (fed @ got)))"
  by pat_completeness auto

termination by (relation "measure (\<lambda>(_, left, _). left)") auto

declare hash_rest.simps [simp del]

definition resume_hash :: "hashing option \<Rightarrow> path \<Rightarrow> nat \<Rightarrow> hashing io" where
  "resume_hash hashing part received =
     (case hashing of
        Some h \<Rightarrow>
          if hg_received h = received then ok h
          else and_then (fs_read part) (\<lambda>bytes.
               and_then (hash_rest bytes received []) (\<lambda>fed. ok \<lparr>hg_received = received, hg_fed = fed\<rparr>))
      | None \<Rightarrow>
          and_then (fs_read part) (\<lambda>bytes.
          and_then (hash_rest bytes received []) (\<lambda>fed. ok \<lparr>hg_received = received, hg_fed = fed\<rparr>)))"

text \<open>Opening for writing, and the length set: cut, or filled with zeros.\<close>

definition fs_open_write :: "path \<Rightarrow> unit io" where
  "fs_open_write p = fs_call no_trace (\<lambda>w.
     if file_at_path w p = None then (Inl (Io Io_NotFound), w) else (Inr (), w))"

definition fs_set_len :: "path \<Rightarrow> nat \<Rightarrow> unit io" where
  "fs_set_len p n = fs_call no_trace (\<lambda>w.
     case file_at_path w p of
       None \<Rightarrow> (Inr (), w)
     | Some bytes \<Rightarrow> (Inr (), put_file p (take n bytes @ replicate (n - length bytes) (CHR 0x00)) w))"

section \<open>Finishing an upload\<close>

definition finish :: "hosting \<Rightarrow> upload_session \<Rightarrow> path \<Rightarrow> string \<Rightarrow> approval_guard \<Rightarrow> unit io" where
  "finish st s part hashed g =
     (let sha = ho_sha256_hex st hashed in
      and_then (fresh_name ''tus'') (\<lambda>name.
      let finished = staging_dir @ [name] in
      dropping finished
        (and_then (fs_rename part finished) (\<lambda>_.
         and_then (run_db (delete_upload (u_id s))) (\<lambda>_.
         if differs (u_expected_sha256 s) sha
         then fail (BadRequest (Msg ''checksum mismatch: the upload's SHA-256 is {sha256}; it was discarded'' [sha]))
         else
         and_then (lift_result (stored_version (u_normalized_version s))) (\<lambda>v.
         and_then (attach_guarded (fc_name (ho_feed st)) g (u_lower_id s) v (u_name s) finished sha (u_length s)) (\<lambda>_.
         ok ())))))))"

section \<open>Appending to an upload\<close>

text \<open>
  A PATCH up to its body: the checks, the space it promises, the hash brought up to date and
  the file cut to what was counted. What goes on has the session, the hash, the guarded writer
  and the slots, this upload's empty.
\<close>

definition patch_begin ::
    "hosting \<Rightarrow> (string \<Rightarrow> bool) \<Rightarrow> slots \<Rightarrow> headers \<Rightarrow> string \<Rightarrow>
     (upload_session \<Rightarrow> hashing \<Rightarrow> disk_reserve \<Rightarrow> slots \<Rightarrow> (file_response result \<times> slots) io) \<Rightarrow>
     (file_response result \<times> slots) io" where
  "patch_begin st writing slots hs u continue =
     (case wrong_tus_version st hs of
        Some r \<Rightarrow> ok (Inr r, slots)
      | None \<Rightarrow>
     in_slot (lift_result (authorize_upload st hs)) slots (\<lambda>_.
     if \<not> starts_with (case header_get hs ''content-type'' of None \<Rightarrow> [] | Some t \<Rightarrow> t)
            ''application/offset+octet-stream''
     then ok (Inr (constant_response st 415 [] ''PATCH bodies are application/offset+octet-stream''), slots)
     else
     in_slot (lift_result (header_u64 hs ''upload-offset'')) slots (\<lambda>offset.
     in_slot (upload_session_of st u) slots (\<lambda>_.
     if writing u then ok (Inl (Conflict (Msg ''another request is writing this upload'' [])), slots)
     else
     in_slot (upload_session_of st u) (forget_slot u slots) (\<lambda>s.
     if offset \<noteq> u_received s
     then ok (tus_response st 409 [(''upload-offset'', show_nat (u_received s))] [], slots)
     else
     let rest = u_length s - u_received s; (share, sg) = reserve (ho_space st) rest in
     in_slot (run_db (set_upload_held u None)) slots (\<lambda>_.
     in_slot (on_err (space_check sg rest)
                (\<lambda>_. ignoring (run_db (set_upload_held u (u_held_since s))))) slots (\<lambda>_.
     in_slot (resume_hash (slots u) (part_path u) (u_received s)) slots (\<lambda>h.
     in_slot (and_then (fs_open_write (part_path u)) (\<lambda>_.
              and_then (fs_set_len (part_path u) (u_received s)) (\<lambda>_.
              fs_call no_trace (ok ())))) (forget_slot u slots) (\<lambda>_.
     continue s h (guard_writer sg share) (forget_slot u slots))))))))))"

definition patch_append ::
    "hosting \<Rightarrow> string \<Rightarrow> body_event list \<Rightarrow> upload_session \<Rightarrow> hashing \<Rightarrow> disk_reserve \<Rightarrow> appended io" where
  "patch_append st u body s h dr w =
     (case append_hashed (part_path u) (u_length s - u_received s) (ho_idle st) body dr 0 (hg_fed h) w of
        (a, w) \<Rightarrow> (Inr a, w))"

definition patch_answer :: "hosting \<Rightarrow> upload_session \<Rightarrow> nat \<Rightarrow> file_response result" where
  "patch_answer st s received =
     tus_response st 204 [(''upload-offset'', show_nat received),
       (''upload-expires'', hl_http_date (ho_lib st) (u_expires s))] []"

definition patch_record ::
    "hosting \<Rightarrow> headers \<Rightarrow> string \<Rightarrow> upload_session \<Rightarrow> appended \<Rightarrow> slots \<Rightarrow> (file_response result \<times> slots) io" where
  "patch_record st hs u s a slots =
     (let received = u_received s + ap_written a;
          slots = slots(u := Some \<lparr>hg_received = received, hg_fed = ap_hashed a\<rparr>) in
      and_then (ignoring (fs_call no_trace (ok ()))) (\<lambda>_.
      in_slot (run_db_at (\<lambda>now. set_upload_received now u received)) slots (\<lambda>_.
      case ap_result a of
        Inl e \<Rightarrow> ok (Inl (map_upload_err e), slots)
      | Inr _ \<Rightarrow>
          if received = u_length s
          then in_slot (fs_sync_file (part_path u)) slots (\<lambda>_.
               in_slot (finish st s (part_path u) (ap_hashed a) (for_request st hs)) (forget_slot u slots) (\<lambda>_.
               ok (patch_answer st s received, forget_slot u slots)))
          else ok (patch_answer st s received, slots))))"

definition tus_patch ::
    "hosting \<Rightarrow> (string \<Rightarrow> bool) \<Rightarrow> slots \<Rightarrow> headers \<Rightarrow> string \<Rightarrow> body_event list \<Rightarrow>
     (file_response result \<times> slots) io" where
  "tus_patch st writing slots hs u body =
     patch_begin st writing slots hs u (\<lambda>s h dr slots.
       and_then (patch_append st u body s h dr) (\<lambda>a. patch_record st hs u s a slots))"

text \<open>A request dropped while its body comes in: nothing after the last byte written happens.\<close>

definition tus_patch_dropped ::
    "hosting \<Rightarrow> (string \<Rightarrow> bool) \<Rightarrow> slots \<Rightarrow> headers \<Rightarrow> string \<Rightarrow> body_event list \<Rightarrow>
     (file_response result \<times> slots) io" where
  "tus_patch_dropped st writing slots hs u body =
     patch_begin st writing slots hs u (\<lambda>s h dr slots.
       and_then (patch_append st u (body @ [Broken]) s h dr) (\<lambda>_. ok (Inl (Io Io_OtherKind), slots)))"

definition tus_delete ::
    "hosting \<Rightarrow> (string \<Rightarrow> bool) \<Rightarrow> slots \<Rightarrow> headers \<Rightarrow> string \<Rightarrow> (file_response result \<times> slots) io" where
  "tus_delete st writing slots hs u =
     (case wrong_tus_version st hs of
        Some r \<Rightarrow> ok (Inr r, slots)
      | None \<Rightarrow>
     in_slot (lift_result (authorize_upload st hs)) slots (\<lambda>_.
     in_slot (upload_session_of st u) slots (\<lambda>_.
     if writing u then ok (Inl (Conflict (Msg ''the upload is being written'' [])), slots)
     else
     in_slot (upload_session_of st u) (forget_slot u slots) (\<lambda>_.
     and_then (ignoring (fs_remove_file (part_path u))) (\<lambda>_.
     in_slot (run_db (delete_upload u)) slots (\<lambda>_.
     ok (tus_response st 204 [] [], forget_slot u slots)))))))"

section \<open>Expired uploads\<close>

fun sweep_uploads :: "(string \<Rightarrow> bool) \<Rightarrow> upload_session list \<Rightarrow> slots \<Rightarrow> nat \<Rightarrow> (nat \<times> slots) io" where
  "sweep_uploads writing [] slots removed = ok (removed, slots)"
| "sweep_uploads writing (s # ss) slots removed =
     (if writing (u_id s) then sweep_uploads writing ss slots removed
      else and_then (ignoring (fs_remove_file (part_path (u_id s)))) (\<lambda>_.
           and_then (attempt (run_db (delete_upload (u_id s)))) (\<lambda>r.
           sweep_uploads writing ss (forget_slot (u_id s) slots) (if is_ok r then Suc removed else removed))))"

definition sweep_expired_uploads :: "(string \<Rightarrow> bool) \<Rightarrow> slots \<Rightarrow> (nat \<times> slots) io" where
  "sweep_expired_uploads writing slots =
     and_then (look w_now) (\<lambda>now.
     and_then (attempt (query (expired_uploads now))) (\<lambda>r. case r of
         Inl e \<Rightarrow> ok (0, slots)
       | Inr expired \<Rightarrow> sweep_uploads writing expired slots 0))"

section \<open>The files of a reviewed version stay\<close>

lemma keeps_still: "still m \<Longrightarrow> keeps (on_state P) m"
  unfolding keeps_def on_state_def by (metis prod.collapse stillD)

text \<open>A feed whose approval is a review, of which the request does not show the admin key.\<close>

definition reviewed_without_key :: "hosting \<Rightarrow> headers \<Rightarrow> string \<Rightarrow> bool" where
  "reviewed_without_key st hs f \<longleftrightarrow>
     (if f = fc_name (ho_feed st)
      then reviews (fc_requires_approval (ho_feed st)) (fc_allow_overwrite (ho_feed st)) \<and>
           \<not> admin_check_headers (ho_crypto st) (fc_admin (ho_feed st)) hs
      else list_ex (\<lambda>m. fe_name m = f \<and> reviews (fe_requires_approval m) (fe_allow_overwrite m)) (ho_feeds st) \<and>
           \<not> list_ex (\<lambda>m. fe_name m = f \<and> admin_check_headers (ho_crypto st) (fe_admin m) hs) (ho_feeds st))"

lemma review_stands:
  "reviewed_without_key st hs f \<Longrightarrow> guard_holds (for_request st hs) f \<and> \<not> may_override (for_request st hs) f"
  by (auto simp: reviewed_without_key_def guard_holds_def may_override_def for_request_def Let_def list_ex_iff
      split: if_splits)

text \<open>A version a feed approved, these files attached, and the stored files outside the upload area.\<close>

definition sealed_files ::
    "string \<Rightarrow> key \<Rightarrow> package_file list \<Rightarrow> (path \<Rightarrow> string option) \<Rightarrow> db \<Rightarrow> (path \<Rightarrow> string option) \<Rightarrow> bool" where
  "sealed_files f k files stored d fs \<longleftrightarrow>
     (\<exists>m \<in> set (db_members d). m_feed m = f \<and> member_version m = k \<and> \<not> m_pending m) \<and> db_files d = files \<and>
     (\<forall>q. \<not> staged q \<longrightarrow> fs q = stored q)"

lemma sealed_approved: "sealed_files f (version_key i v) files stored d fs \<Longrightarrow> f \<in> set (approved_in i v d)"
  by (auto simp: sealed_files_def approved_in_def sort_names_def)

lemma keeps_sealed_staged: "only_touches staged m \<Longrightarrow> keeps (on_state (sealed_files f k files stored)) m"
  by (rule keeps_touching) (auto simp: sealed_files_def)

lemma check_refuses:
  assumes "guard_holds g f" and "\<not> may_override g f"
  shows "hoare (on_state (sealed_files f (version_key i v) files stored)) (check_not_approved i v g)
     (\<lambda>_ _. False) (\<lambda>_. on_state (sealed_files f (version_key i v) files stored))"
  unfolding check_not_approved_def
proof (rule hoare_bind [OF hoare_query])
  fix feeds
  show "hoare (on_state (\<lambda>d fs. sealed_files f (version_key i v) files stored d fs \<and> approved_in i v d = feeds))
      (let approved = filter (guard_holds g) feeds; missing = filter (\<lambda>f. \<not> may_override g f) approved
       in if approved = [] then ok approved
          else if missing = [] then ok approved
          else fail (Forbidden (Msg ''{id} {} is approved in {}; changing its files takes the admin key of {}''
                 ([i, normalized v] @ approved @ missing))))
      (\<lambda>_ _. False) (\<lambda>_. on_state (sealed_files f (version_key i v) files stored))"
  proof (cases "f \<in> set feeds")
    case True
    with assms have "filter (guard_holds g) feeds \<noteq> []"
        "filter (\<lambda>f. \<not> may_override g f) (filter (guard_holds g) feeds) \<noteq> []"
      by (auto simp: filter_empty_conv)
    then show ?thesis by (auto simp: Let_def intro!: hoare_fail simp: on_state_def)
  next
    case False
    then show ?thesis by (auto simp: hoare_def on_state_def dest: sealed_approved)
  qed
qed simp

lemma attach_sealed:
  assumes "guard_holds g f" and "\<not> may_override g f"
  shows "keeps (on_state (sealed_files f (version_key i v) files stored)) (attach_locked feed g i v name temp sha len)"
proof -
  let ?P = "on_state (sealed_files f (version_key i v) files stored)"
  have stop: "keeps ?P (and_then (check_not_approved i v g) m)" for m :: "string list \<Rightarrow> attached io"
    unfolding keeps_def
  proof (intro allI impI)
    fix w assume w: "?P w"
    obtain r w' where run: "check_not_approved i v g w = (r, w')" by (cases "check_not_approved i v g w")
    from hoareD [OF check_refuses [OF assms] w run] run show "?P (snd (and_then (check_not_approved i v g) m w))"
      by (cases r) (simp_all add: and_then_def)
  qed
  show ?thesis
    unfolding attach_locked_def
    by (intro keeps_and_then keeps_if keeps_case_option keeps_fail keeps_ok stop keeps_still stilling)
qed

lemma keeps_dropping: "keeps (on_state P) m \<Longrightarrow> keeps (on_state P) (ignoring (fs_remove_file temp)) \<Longrightarrow>
    keeps (on_state P) (dropping temp m)"
  unfolding dropping_def by (intro keeps_and_then keeps_attempt keeps_lift)

lemma attach_guarded_sealed:
  assumes "guard_holds g f" and "\<not> may_override g f" and "staged temp"
  shows "keeps (on_state (sealed_files f (version_key i v) files stored)) (attach_guarded feed g i v name temp sha len)"
  unfolding attach_guarded_def
  by (intro keeps_and_then keeps_attempt keeps_when keeps_lift attach_sealed assms keeps_sealed_staged touching)

lemma keeps_sealed_delete_upload: "keeps (on_state (sealed_files f k files stored)) (run_db (delete_upload u))"
  unfolding keeps_def
proof (intro allI impI)
  fix w assume w: "on_state (sealed_files f k files stored) w"
  obtain r w' where run: "run_db (delete_upload u) w = (r, w')" by (cases "run_db (delete_upload u) w")
  show "on_state (sealed_files f k files stored) (snd (run_db (delete_upload u) w))"
  proof (cases rule: run_db_cases [OF run])
    case (3 a)
    then have "db_members (w_db w') = db_members (w_db w)" "db_files (w_db w') = db_files (w_db w)"
      by (auto simp: delete_upload_def dest: arg_cong [where f = db_members] arg_cong [where f = db_files])
    with 3 w run show ?thesis by (simp add: on_state_def sealed_files_def)
  qed (use w run in \<open>simp_all add: on_state_def\<close>)
qed

lemma finish_sealed:
  assumes "guard_holds g f" and "\<not> may_override g f" and "u_lower_id s = canonical_id i"
    and "stored_version (u_normalized_version s) = Inr v" and "staged part"
  shows "keeps (on_state (sealed_files f (version_key i v) files stored)) (finish st s part hashed g)"
proof -
  have staged: "staged (staging_dir @ [name])" for name by (simp add: staged_def staging_dir_def under_def)
  have key: "version_key i v = version_key (u_lower_id s) v" by (simp add: assms(3) version_key_def)
  show ?thesis
    unfolding finish_def Let_def assms(4) and_then_lift key
    by (intro keeps_and_then keeps_dropping keeps_if keeps_fail keeps_ok keeps_sealed_delete_upload attach_guarded_sealed
        keeps_sealed_staged touching assms staged)
qed

text \<open>The two requests that change files at once: refused, with nothing changed.\<close>

definition refused_unchanged :: "'a io \<Rightarrow> world \<Rightarrow> bool" where
  "refused_unchanged m w \<longleftrightarrow>
     (case m w of (r, w') \<Rightarrow> \<not> is_ok r \<and> w_db w' = w_db w \<and> file_at_path w' = file_at_path w)"

definition files_unchanged :: "'a io \<Rightarrow> world \<Rightarrow> bool" where
  "files_unchanged m w \<longleftrightarrow>
     (case m w of (r, w') \<Rightarrow> db_files (w_db w') = db_files (w_db w) \<and>
        (\<forall>q. \<not> staged q \<longrightarrow> file_at_path w' q = file_at_path w q))"

lemma refused_then: "still m \<Longrightarrow> (\<And>a w1. m w = (Inr a, w1) \<Longrightarrow> refused_unchanged (k a) w1) \<Longrightarrow> refused_unchanged (and_then m k) w"
proof -
  assume still: "still m" and next': "\<And>a w1. m w = (Inr a, w1) \<Longrightarrow> refused_unchanged (k a) w1"
  obtain r w1 where run: "m w = (r, w1)" by (cases "m w")
  show "refused_unchanged (and_then m k) w"
    using stillD [OF still run] next' run
    by (cases r) (auto simp: refused_unchanged_def and_then_def is_ok_def split: prod.splits)
qed

lemma still_check [stilling]: "still (check_not_approved i v g)"
  unfolding check_not_approved_def Let_def by (intro stilling)

lemma still_version_in_feed [stilling]: "still (version_in_feed st i v)"
  unfolding version_in_feed_def by (intro stilling)

lemma check_refused:
  assumes "f \<in> set (approved_in i v (w_db w))" and "guard_holds g f" and "\<not> may_override g f"
  shows "refused_unchanged (and_then (check_not_approved i v g) k) w"
proof (rule refused_then [OF still_check])
  fix a w1 assume "check_not_approved i v g w = (Inr a, w1)"
  then obtain feeds w2 where "query (approved_in i v) w = (Inr feeds, w2)"
      and "\<forall>x \<in> set feeds. guard_holds g x \<longrightarrow> may_override g x"
    by (auto simp: check_not_approved_def Let_def ok_def fail_def filter_empty_conv elim!: and_then_Inr split: if_splits)
  with assms show "refused_unchanged (k a) w1" by (auto dest!: query_Inr)
qed

text \<open>
  C10: the files of a reviewed version stay as reviewed. While a feed that reviews what it serves
  has a version approved, a request without that feed's admin key neither uploads a file to the
  version nor deletes one, through whichever feed and with whichever faults: both are refused
  and nothing is changed. The last request of a resumable upload to it, started before the
  approval, leaves the attached files and every stored file as they are.
\<close>
theorem approved_files_kept:
  assumes "f \<in> set (approved_in i v (w_db w))" and "reviewed_without_key st hs f"
    and "request_version raw = Inr v" and "stored_version (u_normalized_version s) = Inr v" and "u_lower_id s = canonical_id i"
  shows "refused_unchanged (put_hosted st hs i raw name body) w \<and> refused_unchanged (delete_hosted st hs i raw name) w \<and>
     files_unchanged (finish st s (part_path u) hashed (for_request st hs)) w"
proof (intro conjI)
  let ?g = "for_request st hs"
  note stands = review_stands [OF assms(2)]
  have same: "w_db w' = w_db w" if "still m" "m w = (r, w')" for m :: "'x io" and r w' using stillD [OF that] by simp
  have refused: "refused_unchanged (and_then (check_not_approved i v ?g) k) w'" if "w_db w' = w_db w" for k :: "string list \<Rightarrow> 'x io" and w'
    by (rule check_refused) (use assms(1) stands that in auto)
  show "refused_unchanged (put_hosted st hs i raw name body) w"
    unfolding put_hosted_def assms(3) and_then_lift Let_def
  proof (rule refused_then [OF still_pure(3)], rule refused_then [OF still_pure(3)], rule refused_then [OF still_pure(3)],
      rule refused_then [OF still_version_in_feed], rule refused)
    fix w1 w2 w3 w4 a b c d
    assume "lift_result (check_id i) w = (Inr a, w1)" "lift_result (authorize_upload st hs) w1 = (Inr b, w2)"
      "lift_result (validate_file_name name (fc_allowed_extensions (ho_feed st))) w2 = (Inr c, w3)"
      "version_in_feed st i v w3 = (Inr d, w4)"
    then show "w_db w4 = w_db w" by (auto simp: lift_result_def dest: stillD [OF still_version_in_feed])
  qed
  show "refused_unchanged (delete_hosted st hs i raw name) w"
    unfolding delete_hosted_def assms(3) and_then_lift detach_def and_then_assoc
  proof (rule refused_then [OF still_pure(3)], rule refused_then [OF still_pure(3)],
      rule refused_then [OF still_version_in_feed], rule refused)
    fix w1 w2 w3 a b c
    assume "lift_result (check_id i) w = (Inr a, w1)" "lift_result (authorize_upload st hs) w1 = (Inr b, w2)"
      "version_in_feed st i v w2 = (Inr c, w3)"
    then show "w_db w3 = w_db w" by (auto simp: lift_result_def dest: stillD [OF still_version_in_feed])
  qed
  have "staged (part_path u)" by (simp add: part_path_def staged_def staging_dir_def under_def)
  from finish_sealed [OF _ _ assms(5,4) this] stands
  have keep: "keeps (on_state (sealed_files f (version_key i v) (db_files (w_db w)) (file_at_path w))) (finish st s (part_path u) hashed ?g)"
    by blast
  have "on_state (sealed_files f (version_key i v) (db_files (w_db w)) (file_at_path w)) w"
    using assms(1) by (auto simp: on_state_def sealed_files_def approved_in_def sort_names_def)
  with keep show "files_unchanged (finish st s (part_path u) hashed ?g) w"
    by (auto simp: keeps_def files_unchanged_def on_state_def sealed_files_def split: prod.splits)
qed

text \<open>A feed with a push key, one that reviews, and a version it approved.\<close>

definition sample_hosting :: hosting where
  "sample_hosting =
     \<lparr>ho_feed = keyed_feed\<lparr>fc_auth := \<lparr>aa_expected = [''key'']\<rparr>\<rparr>, ho_feeds = [], ho_enabled = True, ho_max_size = None,
      ho_idle = ''300'', ho_expiry_hours = 72, ho_max_open = 32,
      ho_space = \<lparr>sg_reserve = 10, sg_promised = 0, sg_resumable = True, sg_available = (\<lambda>_. Some 1000)\<rparr>,
      ho_crypto = sample_crypto, ho_lib = sample_http, ho_sha256_hex = (\<lambda>_. replicate 64 CHR ''a''),
      ho_digest_base64 = Some, ho_upload_url = (\<lambda>u. u), ho_files_json = (\<lambda>_. \<lparr>fr_status = 200, fr_headers = [], fr_body = []\<rparr>)\<rparr>"

definition reviewing_hosting :: hosting where
  "reviewing_hosting = sample_hosting\<lparr>ho_feed := keyed_feed\<lparr>fc_auth := \<lparr>aa_expected = [''key'']\<rparr>, fc_requires_approval := True\<rparr>\<rparr>"

lemma approved_files_kept_witness:
  "refused_unchanged (put_hosted reviewing_hosting key_headers ''Pkg'' ''1.2.0'' ''base.wim'' [Chunk ''virus'']) one_version_world"
proof -
  have "''main'' \<in> set (approved_in ''Pkg'' pushed_version (w_db one_version_world))"
    by (simp add: approved_in_def sort_names_def one_version_world_def member_version_def version_key_def canonical_id_def
        pushed_names char_eval)
  moreover have "reviewed_without_key reviewing_hosting key_headers ''main''"
    by (simp add: reviewed_without_key_def reviewing_hosting_def sample_hosting_def keyed_feed_def reviews_def
        admin_check_headers_def)
  moreover have "request_version ''1.2.0'' = Inr pushed_version" by (simp add: request_version_def push_version)
  moreover have "stored_version ''1.2.0'' = Inr pushed_version"
    by (simp add: stored_version_def parse_stored_def push_version map_err_def)
  moreover have "canonical_id ''pkg'' = canonical_id ''Pkg''" by (simp add: canonical_id_def char_eval)
  ultimately show ?thesis
    using approved_files_kept [of "''main''" "''Pkg''" pushed_version one_version_world reviewing_hosting key_headers
        "''1.2.0''" "\<lparr>u_id = [], u_feed = [], u_lower_id = canonical_id ''Pkg'', u_normalized_version = ''1.2.0'', u_name = [],
           u_length = 0, u_received = 0, u_expected_sha256 = None, u_expires = 0, u_held_since = None\<rparr>"]
    by simp
qed

end
