(* ===== verification/Resumable.thy ===== *)
theory Resumable
  imports Hosted
begin

text \<open>
  A resumable upload reaches its end: what an upload keeps between its requests, that every
  request broken off before the last byte keeps it, whatever fails on the way, and that one
  undisturbed request with the rest then attaches the file.
\<close>

section \<open>What an upload keeps\<close>

text \<open>
  The row says that \<open>n\<close> bytes were received, and the partial file begins with them; it may be
  longer. A hash in the slot has seen the beginning of the content, as much as it says.
\<close>

definition row_of :: "upload_session \<Rightarrow> nat \<Rightarrow> upload_session \<Rightarrow> bool" where
  "row_of s n row \<longleftrightarrow> (\<exists>since. row = s\<lparr>u_received := n, u_held_since := since\<rparr>)"

definition received :: "upload_session \<Rightarrow> string \<Rightarrow> nat \<Rightarrow> db \<Rightarrow> bool" where
  "received s u n d \<longleftrightarrow> (\<exists>row. get_upload u d = Some row \<and> row_of s n row)"

definition part_holds :: "string \<Rightarrow> string \<Rightarrow> nat \<Rightarrow> (path \<Rightarrow> string option) \<Rightarrow> bool" where
  "part_holds u content n fs \<longleftrightarrow>
     (\<exists>bytes. fs (part_path u) = Some bytes \<and> n \<le> length bytes \<and> take n bytes = take n content)"

definition kept_upload :: "upload_session \<Rightarrow> string \<Rightarrow> string \<Rightarrow> nat \<Rightarrow> nat \<Rightarrow> db \<Rightarrow> (path \<Rightarrow> string option) \<Rightarrow> bool" where
  "kept_upload s u content n m d fs \<longleftrightarrow> received s u n d \<and> n \<le> m \<and> part_holds u content m fs"

definition slot_ok :: "string \<Rightarrow> hashing option \<Rightarrow> bool" where
  "slot_ok content h \<longleftrightarrow>
     (case h of None \<Rightarrow> True | Some h \<Rightarrow> hg_fed h = take (hg_received h) content \<and> hg_received h \<le> length content)"

definition upload_open :: "upload_session \<Rightarrow> string \<Rightarrow> string \<Rightarrow> slots \<times> world \<Rightarrow> bool" where
  "upload_open s u content x \<longleftrightarrow>
     u_length s = length content \<and> slot_ok content (fst x u) \<and>
     (\<exists>n < length content. on_state (kept_upload s u content n n) (snd x))"

section \<open>Interruptions\<close>

text \<open>A body that carries the content from the offset its request names, and stops before its end.\<close>

definition carries :: "string \<Rightarrow> headers \<Rightarrow> body_event list \<Rightarrow> bool" where
  "carries content hs body \<longleftrightarrow>
     (case header_u64 hs ''upload-offset'' of
        Inl _ \<Rightarrow> True
      | Inr n \<Rightarrow> (\<exists>rest. drop n content = arriving body @ rest \<and> rest \<noteq> []))"

text \<open>
  What can come between an upload and its end: a PATCH with part of what is missing, answered
  or dropped while its body comes in; a restart, which loses every slot; and anything that
  leaves the upload's row, its partial file and its slot alone, the clock and the faults to
  come included.
\<close>

inductive interrupted ::
    "hosting \<Rightarrow> string \<Rightarrow> string \<Rightarrow> slots \<times> world \<Rightarrow> slots \<times> world \<Rightarrow> bool"
  for st u content where
  answered: "carries content hs body \<Longrightarrow> tus_patch st writing slots hs u body w = (Inr (r, slots'), w') \<Longrightarrow>
    interrupted st u content (slots, w) (slots', w')"
| dropped: "carries content hs body \<Longrightarrow>
    tus_patch_dropped st writing slots hs u body w = (Inr (r, slots'), w') \<Longrightarrow>
    interrupted st u content (slots, w) (slots', w')"
| restarted: "interrupted st u content (slots, w) (\<lambda>_. None, w)"
| elsewhere: "slots' u = slots u \<Longrightarrow> get_upload u (w_db w') = get_upload u (w_db w) \<Longrightarrow>
    file_at_path w' (part_path u) = file_at_path w (part_path u) \<Longrightarrow>
    interrupted st u content (slots, w) (slots', w')"

inductive_cases interruptedE: "interrupted st u content (slots, w) y"

section \<open>Every step of a request keeps the upload\<close>

lemma hoare_in_slot:
  assumes "hoare P m R (\<lambda>_. Q slots)" and "\<And>a. hoare (R a) (f a) (\<lambda>x. Q (snd x)) (\<lambda>_ _. False)"
  shows "hoare P (in_slot m slots f) (\<lambda>x. Q (snd x)) (\<lambda>_ _. False)"
  unfolding in_slot_def
proof (rule hoare_bind [OF hoare_attempt])
  show "hoare P m (\<lambda>a. (\<lambda>r w. case r of Inr a \<Rightarrow> R a w | Inl e \<Rightarrow> Q slots w) (Inr a))
      (\<lambda>e. (\<lambda>r w. case r of Inr a \<Rightarrow> R a w | Inl e \<Rightarrow> Q slots w) (Inl e))"
    using assms(1) by simp
  show "hoare ((\<lambda>r w. case r of Inr a \<Rightarrow> R a w | Inl e \<Rightarrow> Q slots w) r)
      (case r of Inl e \<Rightarrow> ok (Inl e, slots) | Inr a \<Rightarrow> f a) (\<lambda>x. Q (snd x)) (\<lambda>_ _. False)" for r
    using assms(2) by (cases r) (auto intro: hoare_ok)
qed

text \<open>After a request: the slots it leaves are in order and the upload is still short of its end.\<close>

definition left_open :: "upload_session \<Rightarrow> string \<Rightarrow> string \<Rightarrow> slots \<Rightarrow> world \<Rightarrow> bool" where
  "left_open s u content slots w \<longleftrightarrow> upload_open s u content (slots, w)"

lemma slot_ok_forget: "slot_ok content (slots u) \<Longrightarrow> slot_ok content (forget_slot u slots u)"
  by (simp add: forget_slot_def slot_ok_def)

lemma open_again:
  "u_length s = length content \<Longrightarrow> slot_ok content (slots u) \<Longrightarrow> n < length content \<Longrightarrow>
     on_state (kept_upload s u content n m) w \<Longrightarrow> left_open s u content slots w"
  by (auto simp: left_open_def upload_open_def on_state_def kept_upload_def part_holds_def min_def
      intro!: exI [of _ n] dest: arg_cong [where f = "take n"])

lemma kept_session:
  "hoare (on_state (kept_upload s u content n n)) (upload_session_of st u)
     (\<lambda>row w. row_of s n row \<and> on_state (kept_upload s u content n n) w) (\<lambda>_. on_state (kept_upload s u content n n))"
  unfolding upload_session_of_def
proof (rule hoare_bind [OF hoare_query])
  fix found
  let ?P = "on_state (\<lambda>d fs. kept_upload s u content n n d fs \<and> get_upload u d = found)"
  show "hoare ?P (and_then (look w_now) (\<lambda>now. case found of None \<Rightarrow> fail PackageNotFound
        | Some s' \<Rightarrow> if u_feed s' = fc_name (ho_feed st) \<and> now < u_expires s' then ok s' else fail PackageNotFound))
      (\<lambda>row w. row_of s n row \<and> on_state (kept_upload s u content n n) w) (\<lambda>_. on_state (kept_upload s u content n n))"
    by (auto simp: hoare_def io_simps on_state_def kept_upload_def received_def split: option.splits)
qed

lemma received_update:
  assumes "received s u n d" and "\<And>x. u_id (f x) = u_id x" and "\<And>x. row_of s n x \<Longrightarrow> row_of s k (f x)"
  shows "received s u k (d\<lparr>db_uploads := update_rows (\<lambda>x. u_id x = u) f (db_uploads d)\<rparr>)"
proof -
  from assms(1) obtain row where row: "get_upload u d = Some row" "row_of s n row"
    unfolding received_def by blast
  then have "u_id row = u" by (auto simp: get_upload_def dest: row_at_Some)
  with row show ?thesis
    using assms(3) [OF row(2)] by (simp add: received_def get_upload_def row_at_update assms(2))
qed

lemma row_of_updates:
  "row_of s n x \<Longrightarrow> row_of s n (x\<lparr>u_held_since := since\<rparr>)"
  "row_of s n x \<Longrightarrow> row_of s k (x\<lparr>u_received := k, u_held_since := since\<rparr>)"
  by (auto simp: row_of_def)

lemma kept_held: "keeps (on_state (kept_upload s u content n m)) (run_db (set_upload_held u since))"
  unfolding keeps_def
proof (intro allI impI)
  fix w assume kept: "on_state (kept_upload s u content n m) w"
  obtain r w' where run: "run_db (set_upload_held u since) w = (r, w')"
    by (cases "run_db (set_upload_held u since) w")
  have "received s u n (w_db w\<lparr>db_uploads := update_rows (\<lambda>x. u_id x = u) (\<lambda>x. x\<lparr>u_held_since := since\<rparr>)
      (db_uploads (w_db w))\<rparr>)"
    by (rule received_update [of s u n]) (use kept in \<open>auto simp: on_state_def kept_upload_def row_of_updates\<close>)
  with kept run show "on_state (kept_upload s u content n m) (snd (run_db (set_upload_held u since) w))"
    by (cases rule: run_db_cases [OF run]) (auto simp: on_state_def kept_upload_def set_upload_held_def)
qed

lemma hash_rest_feeds:
  "hoare (on_state P) (hash_rest bytes left fed)
     (\<lambda>all w. on_state P w \<and> left \<le> length bytes \<and> all = fed @ take left bytes) (\<lambda>_. on_state P)"
proof (induction bytes left fed rule: hash_rest.induct)
  case (1 bytes left fed)
  let ?got = "take (min read_buffer left) bytes"
  show ?case
  proof (cases "left = 0")
    case True
    then show ?thesis by (simp add: hash_rest.simps hoare_ok)
  next
    case left: False
    have "still (fs_call no_trace (ok ()))" by (intro stilling)
    note reading = hoare_keeps [OF keeps_still [OF this]]
    show ?thesis
    proof (cases "length ?got = 0")
      case True
      then have "hoare (on_state P)
          (let got = ?got; n = length got
           in if n = 0 then fail (Other (Msg ''partial upload is shorter than recorded'' []))
              else hash_rest (drop n bytes) (left - n) (fed @ got))
          (\<lambda>all w. on_state P w \<and> left \<le> length bytes \<and> all = fed @ take left bytes) (\<lambda>_. on_state P)"
        unfolding Let_def if_P [OF True] by (simp add: hoare_fail)
      then show ?thesis
        unfolding hash_rest.simps [of bytes left] if_not_P [OF left] by (rule hoare_bind [OF reading])
    next
      case False
      have "hoare (on_state P) (hash_rest (drop (length ?got) bytes) (left - length ?got) (fed @ ?got))
          (\<lambda>all w. on_state P w \<and> left \<le> length bytes \<and> all = fed @ take left bytes) (\<lambda>_. on_state P)"
      proof (rule hoare_weaken [OF "1.IH" [OF left refl refl False]])
        fix all w
        assume "on_state P w \<and> left - length ?got \<le> length (drop (length ?got) bytes) \<and>
          all = (fed @ ?got) @ take (left - length ?got) (drop (length ?got) bytes)"
        moreover have "?got @ take (left - length ?got) (drop (length ?got) bytes) = take left bytes"
          if "left - length ?got \<le> length (drop (length ?got) bytes)"
        proof -
          have "?got = take (length ?got) bytes" by (simp add: min_def)
          moreover have "length ?got \<le> left" by simp
          ultimately show ?thesis by (metis take_add le_add_diff_inverse)
        qed
        ultimately show "on_state P w \<and> left \<le> length bytes \<and> all = fed @ take left bytes"
          using False by (auto simp: min_def split: if_splits)
      qed simp_all
      then have "hoare (on_state P)
          (let got = ?got; n = length got
           in if n = 0 then fail (Other (Msg ''partial upload is shorter than recorded'' []))
              else hash_rest (drop n bytes) (left - n) (fed @ got))
          (\<lambda>all w. on_state P w \<and> left \<le> length bytes \<and> all = fed @ take left bytes) (\<lambda>_. on_state P)"
        unfolding Let_def if_not_P [OF False] .
      then show ?thesis
        unfolding hash_rest.simps [of bytes left] if_not_P [OF left] by (rule hoare_bind [OF reading])
    qed
  qed
qed

lemma resume_hash_seen:
  assumes "slot_ok content h" and "n \<le> length content"
  shows "hoare (on_state (kept_upload s u content n n)) (resume_hash h (part_path u) n)
     (\<lambda>h w. hg_fed h = take n content \<and> on_state (kept_upload s u content n n) w)
     (\<lambda>_. on_state (kept_upload s u content n n))"
proof -
  let ?P = "on_state (kept_upload s u content n n)"
  have opens: "hoare ?P (fs_read (part_path u))
      (\<lambda>bytes w. take n bytes = take n content \<and> ?P w) (\<lambda>_. ?P)"
  proof (rule hoareI)
    fix w r w' assume w: "?P w" and run: "fs_read (part_path u) w = (r, w')"
    have "?P w'" using keeps_still [OF still_fs_read] w run by (rule keepsD)
    moreover have "r = Inr bytes \<Longrightarrow> file_at_path w (part_path u) = Some bytes" for bytes
      using run by (auto simp: fs_read_def fs_call_def no_trace_def split: prod.splits option.splits
          dest: fs_fault_fields(6) [where p = "part_path u"])
    ultimately show "case r of Inr bytes \<Rightarrow> take n bytes = take n content \<and> ?P w' | Inl e \<Rightarrow> ?P w'"
      using w by (auto simp: on_state_def kept_upload_def part_holds_def split: sum.splits)
  qed
  have reading: "hoare ?P (and_then (fs_read (part_path u)) (\<lambda>bytes.
        and_then (hash_rest bytes n []) (\<lambda>fed. ok \<lparr>hg_received = n, hg_fed = fed\<rparr>)))
      (\<lambda>h w. hg_fed h = take n content \<and> ?P w) (\<lambda>_. ?P)"
  proof (rule hoare_bind [OF opens])
    fix bytes
    show "hoare (\<lambda>w. take n bytes = take n content \<and> ?P w)
        (and_then (hash_rest bytes n []) (\<lambda>fed. ok \<lparr>hg_received = n, hg_fed = fed\<rparr>))
        (\<lambda>h w. hg_fed h = take n content \<and> ?P w) (\<lambda>_. ?P)"
    proof (cases "take n bytes = take n content")
      case True
      have "hoare ?P (and_then (hash_rest bytes n []) (\<lambda>fed. ok \<lparr>hg_received = n, hg_fed = fed\<rparr>))
          (\<lambda>h w. hg_fed h = take n content \<and> ?P w) (\<lambda>_. ?P)"
        by (rule hoare_bind [OF hash_rest_feeds], rule hoare_ok) (simp add: True)
      then show ?thesis by (simp add: True)
    qed (simp add: hoare_false)
  qed
  show ?thesis
  proof (cases h)
    case None
    with reading show ?thesis by (simp add: resume_hash_def)
  next
    case (Some x)
    with reading assms show ?thesis by (auto simp: resume_hash_def slot_ok_def intro!: hoare_ok)
  qed
qed

text \<open>The file is cut to what was counted.\<close>

definition cut_upload :: "upload_session \<Rightarrow> string \<Rightarrow> string \<Rightarrow> nat \<Rightarrow> db \<Rightarrow> (path \<Rightarrow> string option) \<Rightarrow> bool" where
  "cut_upload s u content n d fs \<longleftrightarrow> received s u n d \<and> fs (part_path u) = Some (take n content)"

lemma opened_and_cut:
  assumes "n \<le> length content"
  shows "hoare (on_state (kept_upload s u content n n))
     (and_then (fs_open_write (part_path u)) (\<lambda>_.
      and_then (fs_set_len (part_path u) n) (\<lambda>_. fs_call no_trace (ok ()))))
     (\<lambda>_. on_state (cut_upload s u content n)) (\<lambda>_. on_state (kept_upload s u content n n))"
proof -
  let ?P = "on_state (kept_upload s u content n n)" and ?Q = "on_state (cut_upload s u content n)"
  have "still (fs_open_write (part_path u))"
    unfolding fs_open_write_def by (rule still_fs_call) (simp add: still_def)
  note opens = hoare_keeps [OF keeps_still [OF this, of "kept_upload s u content n n"]]
  have cut: "hoare ?P (fs_set_len (part_path u) n) (\<lambda>_. ?Q) (\<lambda>_. ?P)"
  proof (rule hoareI)
    fix w r w' assume w: "?P w" and run: "fs_set_len (part_path u) n w = (r, w')"
    obtain f w1 where f: "fs_fault w = (f, w1)" by (cases "fs_fault w")
    have "file_at_path w1 = file_at_path w" by (rule ext) (rule fs_fault_fields(6) [OF f])
    with w f have w1: "?P w1" by (simp add: on_state_def fs_fault_fields)
    then obtain bytes where bytes: "file_at_path w1 (part_path u) = Some bytes" "n \<le> length bytes"
        "take n bytes = take n content" "received s u n (w_db w1)"
      by (auto simp: on_state_def kept_upload_def part_holds_def)
    show "case r of Inr _ \<Rightarrow> ?Q w' | Inl e \<Rightarrow> ?P w'"
    proof (cases f)
      case None
      with run f bytes show ?thesis by (auto simp: fs_set_len_def fs_call_def on_state_def cut_upload_def)
    next
      case (Some kn)
      with run f w1 show ?thesis by (cases kn) (auto simp: fs_set_len_def fs_call_def no_trace_def)
    qed
  qed
  have weaker: "kept_upload s u content n n d fs" if "cut_upload s u content n d fs" for d fs
    using that assms by (simp add: kept_upload_def cut_upload_def part_holds_def)
  have seeking: "hoare ?Q (fs_call no_trace (ok ())) (\<lambda>_. ?Q) (\<lambda>_. ?P)"
    by (rule hoare_weaken [OF hoare_keeps [OF keeps_still [OF still_fs_call [OF still_pure(1)],
          where P = "cut_upload s u content n"]]])
      (use weaker in \<open>auto simp: on_state_def\<close>)
  show ?thesis by (rule hoare_bind [OF opens hoare_bind [OF cut seeking]])
qed

section \<open>The body\<close>

lemma appended_upload:
  assumes "drop n content = arriving body @ rest" and "n \<le> length content" and "hg_fed h = take n content"
  shows "hoare (on_state (cut_upload s u content n)) (patch_append st u body s' h dr)
     (\<lambda>a w. ap_written a \<le> length (arriving body) \<and> ap_hashed a = take (n + ap_written a) content \<and>
        on_state (kept_upload s u content n (n + ap_written a)) w) E"
proof (rule hoareI)
  fix w r w'
  assume w: "on_state (cut_upload s u content n) w" and run: "patch_append st u body s' h dr w = (r, w')"
  obtain a where a: "append_hashed (part_path u) (u_length s' - u_received s') (ho_idle st) body dr 0 (hg_fed h) w = (a, w')"
      and r: "r = Inr a"
    using run by (auto simp: patch_append_def split: prod.splits)
  from w have whole: "file_at_path w (part_path u) = Some (take n content)" "received s u n (w_db w)"
    by (simp_all add: on_state_def cut_upload_def)
  from append_copies [OF a whole(1)] obtain sent extra more where
      sent: "ap_written a = length sent" "ap_hashed a = take n content @ sent"
        "file_at_path w' (part_path u) = Some (take n content @ sent @ extra)" "arriving body = sent @ more"
    by (auto simp: copied_def assms(3))
  have "take (n + length sent) content = take n content @ sent"
    using assms(1) sent(4) by (simp add: take_add)
  moreover have "n + length sent \<le> length (take n content @ sent @ extra)" using assms(2) by simp
  moreover have "received s u n (w_db w')" using append_frame [OF a] whole(2) by (simp add: only_file_def)
  ultimately show "case r of
      Inr a \<Rightarrow> ap_written a \<le> length (arriving body) \<and> ap_hashed a = take (n + ap_written a) content \<and>
        on_state (kept_upload s u content n (n + ap_written a)) w'
    | Inl e \<Rightarrow> E e w'"
    using sent assms(2) by (simp add: r on_state_def kept_upload_def part_holds_def)
qed

section \<open>Interrupted requests\<close>

lemma begun_keeps:
  assumes len: "u_length s = length content" and slot: "slot_ok content (slots u)" and n: "n < length content"
    and carries: "carries content hs body"
    and go: "\<And>row h dr. row_of s n row \<Longrightarrow> hg_fed h = take n content \<Longrightarrow> (\<exists>rest. drop n content = arriving body @ rest \<and> rest \<noteq> []) \<Longrightarrow>
      hoare (on_state (cut_upload s u content n)) (continue row h dr (forget_slot u slots))
        (\<lambda>x. left_open s u content (snd x)) (\<lambda>_ _. False)"
  shows "hoare (on_state (kept_upload s u content n n)) (patch_begin st writing slots hs u continue)
     (\<lambda>x. left_open s u content (snd x)) (\<lambda>_ _. False)"
proof -
  let ?P = "on_state (kept_upload s u content n n)"
  have fine: "left_open s u content slots w" "left_open s u content (forget_slot u slots) w" if "?P w" for w
    using that open_again [OF len _ n] slot slot_ok_forget [of content slots u] by blast+
  have end': "hoare ?P (ok (r, slots)) (\<lambda>x. left_open s u content (snd x)) (\<lambda>_ _. False)" for r
    by (rule hoare_ok) (simp add: fine)
  have pure: "hoare ?P (lift_result r) (\<lambda>a w. ?P w \<and> r = Inr a) (\<lambda>_. left_open s u content slots)" for r :: "'x result"
    by (rule hoare_lift) (simp_all add: fine)
  have keeping: "hoare ?P m (\<lambda>_. ?P) (\<lambda>_. left_open s u content slots)" if "keeps ?P m" for m :: "'x io"
    by (rule hoare_weaken [OF hoare_keeps [OF that]]) (auto intro: fine)
  have session: "hoare ?P (upload_session_of st u) (\<lambda>row w. row_of s n row \<and> ?P w) (\<lambda>_. left_open s u content sl)"
    if "sl = slots \<or> sl = forget_slot u slots" for sl
    by (rule hoare_weaken [OF kept_session]) (use fine that in auto)
  have given: "hoare (\<lambda>w. ?P w \<and> b) m Q E" if "b \<Longrightarrow> hoare ?P m Q E" for b Q E and m :: "'x io"
    using that by (cases b) (simp_all add: hoare_false)
  have given': "hoare (\<lambda>w. b \<and> ?P w) m Q E" if "b \<Longrightarrow> hoare ?P m Q E" for b Q E and m :: "'x io"
    using that by (cases b) (simp_all add: hoare_false)
  have checked: "keeps ?P (on_err (space_check sg k) (\<lambda>_. ignoring (run_db (set_upload_held u since))))" for sg k since
  proof -
    have "still (space_check sg k)"
      unfolding space_check_def Let_def by (intro stilling)
    then show ?thesis by (intro keeps_on_err keeps_ignoring kept_held keeps_still)
  qed
  have seen: "hoare ?P (resume_hash (slots u) (part_path u) n) (\<lambda>h w. hg_fed h = take n content \<and> ?P w)
      (\<lambda>_. left_open s u content slots)"
    by (rule hoare_weaken [OF resume_hash_seen [OF slot]]) (use n fine in auto)
  have cutting: "hoare ?P (and_then (fs_open_write (part_path u)) (\<lambda>_.
      and_then (fs_set_len (part_path u) n) (\<lambda>_. fs_call no_trace (ok ()))))
      (\<lambda>_. on_state (cut_upload s u content n)) (\<lambda>_. left_open s u content (forget_slot u slots))"
    by (rule hoare_weaken [OF opened_and_cut]) (use n fine in auto)
  show ?thesis
  proof (cases "wrong_tus_version st hs")
    case (Some r)
    with end' show ?thesis by (simp add: patch_begin_def)
  next
    case None
    have rest: "\<exists>rest. drop n content = arriving body @ rest \<and> rest \<noteq> []" if "header_u64 hs ''upload-offset'' = Inr n"
      using carries that by (simp add: carries_def)
    have row: "u_received row = n" if "row_of s n row" for row using that by (auto simp: row_of_def)
    note step = hoare_in_slot [where Q = "left_open s u content"]
    show ?thesis
      unfolding patch_begin_def None option.case
      apply (rule step [OF pure], rule given, rule hoare_if, rule end')
      apply (rule step [OF pure], rule given)
      apply (rule step [OF session], simp, rule given', rule hoare_if, rule end')
      apply (rule step [OF session], simp, rule given', rule hoare_if, rule end')
      apply (simp add: row Let_def split_def)
      apply (rule step [OF keeping [OF kept_held]])
      apply (rule step [OF keeping [OF checked]])
      apply (rule step [OF seen], rule given')
      apply (rule step [OF cutting])
      apply (erule (1) go, rule rest, simp)
      done
  qed
qed

lemma counted_keeps:
  assumes len: "u_length s = length content" and row: "row_of s n row" and m: "n + ap_written a < length content"
    and hashed: "ap_hashed a = take (n + ap_written a) content"
  shows "hoare (on_state (kept_upload s u content n (n + ap_written a))) (patch_record st hs u row a slots)
     (\<lambda>x. left_open s u content (snd x)) (\<lambda>_ _. False)"
proof -
  let ?m = "n + ap_written a" and ?slots = "slots(u := Some \<lparr>hg_received = n + ap_written a, hg_fed = ap_hashed a\<rparr>)"
  have slot: "slot_ok content (?slots u)" using m by (simp add: slot_ok_def hashed)
  have fine: "left_open s u content ?slots w" if "on_state (kept_upload s u content k ?m) w" "k < length content" for k w
    using that open_again [where slots = ?slots and u = u, OF len slot] by blast
  have counting: "hoare (on_state (kept_upload s u content n ?m)) (run_db_at (\<lambda>now. set_upload_received now u ?m))
      (\<lambda>_. on_state (kept_upload s u content ?m ?m)) (\<lambda>_. left_open s u content ?slots)"
  proof (rule hoare_weaken [OF hoare_run_db_at [where P = "kept_upload s u content n ?m" and
          Q = "\<lambda>_. kept_upload s u content ?m ?m" and E = "kept_upload s u content n ?m"]])
    fix now d fs x d'
    assume kept: "kept_upload s u content n ?m d fs" and run: "set_upload_received now u ?m d = Inr (x, d')"
    from kept have "received s u n d" by (simp add: kept_upload_def)
    from received_update [OF this, of "\<lambda>x. x\<lparr>u_received := ?m, u_held_since := Some now\<rparr>" ?m]
    show "kept_upload s u content ?m ?m d' fs"
      using kept run by (auto simp: kept_upload_def set_upload_received_def row_of_updates)
  qed (use fine m in auto)
  have flushing: "hoare (on_state (kept_upload s u content n ?m)) (ignoring (fs_call no_trace (ok ())))
      (\<lambda>_. on_state (kept_upload s u content n ?m)) (\<lambda>_ _. False)"
  proof (rule hoareI)
    fix w r w' assume w: "on_state (kept_upload s u content n ?m) w" and run: "ignoring (fs_call no_trace (ok ())) w = (r, w')"
    have "keeps (on_state (kept_upload s u content n ?m)) (ignoring (fs_call no_trace (ok ())))"
      by (intro keeps_ignoring keeps_still still_fs_call still_pure)
    from keepsD [OF this w run] run show "case r of Inr a \<Rightarrow> on_state (kept_upload s u content n ?m) w' | Inl e \<Rightarrow> False"
      by (auto simp: ignoring_def and_then_def attempt_def ok_def split: prod.splits)
  qed
  have "u_received row = n" "u_length row \<noteq> ?m" using row len m by (auto simp: row_of_def)
  then have "hoare (on_state (kept_upload s u content ?m ?m))
      (case ap_result a of
         Inl e \<Rightarrow> ok (Inl (map_upload_err e), ?slots)
       | Inr _ \<Rightarrow>
           if ?m = u_length row
           then in_slot (fs_sync_file (part_path u)) ?slots (\<lambda>_.
                in_slot (finish st row (part_path u) (ap_hashed a) (for_request st hs)) (forget_slot u ?slots) (\<lambda>_.
                ok (patch_answer st row (?m), forget_slot u ?slots)))
           else ok (patch_answer st row (?m), ?slots))
      (\<lambda>x. left_open s u content (snd x)) (\<lambda>_ _. False)"
    using fine m by (cases "ap_result a") (auto intro!: hoare_ok)
  note step = hoare_in_slot [where Q = "left_open s u content", OF counting this]
  show ?thesis
    unfolding patch_record_def Let_def \<open>u_received row = n\<close>
    by (rule hoare_bind [OF flushing step])
qed

lemma patch_keeps:
  assumes "u_length s = length content" and "slot_ok content (slots u)" and "n < length content" and "carries content hs body"
  shows "hoare (on_state (kept_upload s u content n n)) (tus_patch st writing slots hs u body)
     (\<lambda>x. left_open s u content (snd x)) (\<lambda>_ _. False)"
  unfolding tus_patch_def
proof (rule begun_keeps [where slots = slots and u = u, OF assms])
  fix row and h :: hashing and dr
  assume row: "row_of s n row" and h: "hg_fed h = take n content"
    and more: "\<exists>rest. drop n content = arriving body @ rest \<and> rest \<noteq> []"
  then obtain rest where rest: "drop n content = arriving body @ rest" "rest \<noteq> []" by blast
  have short: "n + length (arriving body) < length content"
    using arg_cong [OF rest(1), of length] rest(2) by simp (metis add_diff_cancel_left' add_strict_left_mono
        length_greater_0_conv less_add_same_cancel1 assms(3) diff_add_inverse le_add_diff_inverse less_imp_le)
  show "hoare (on_state (cut_upload s u content n))
      (and_then (patch_append st u body row h dr) (\<lambda>a. patch_record st hs u row a (forget_slot u slots)))
      (\<lambda>x. left_open s u content (snd x)) (\<lambda>_ _. False)"
  proof (rule hoare_bind [OF appended_upload [OF rest(1) _ h]])
    fix a
    show "hoare (\<lambda>w. ap_written a \<le> length (arriving body) \<and> ap_hashed a = take (n + ap_written a) content \<and>
          on_state (kept_upload s u content n (n + ap_written a)) w)
        (patch_record st hs u row a (forget_slot u slots)) (\<lambda>x. left_open s u content (snd x)) (\<lambda>_ _. False)"
    proof (cases "ap_written a \<le> length (arriving body) \<and> ap_hashed a = take (n + ap_written a) content")
      case True
      with short have "n + ap_written a < length content" by simp
      with counted_keeps [OF assms(1) row this] True show ?thesis by (simp add: hoare_weaken)
    qed (auto simp: hoare_def)
  qed (use assms(3) in simp)
qed

lemma arriving_broken: "arriving (body @ [Broken]) = arriving body"
  by (induction body rule: arriving.induct) auto

lemma dropped_keeps:
  assumes "u_length s = length content" and "slot_ok content (slots u)" and "n < length content" and "carries content hs body"
  shows "hoare (on_state (kept_upload s u content n n)) (tus_patch_dropped st writing slots hs u body)
     (\<lambda>x. left_open s u content (snd x)) (\<lambda>_ _. False)"
  unfolding tus_patch_dropped_def
proof (rule begun_keeps [where slots = slots and u = u, OF assms])
  fix row and h :: hashing and dr
  assume h: "hg_fed h = take n content" and more: "\<exists>rest. drop n content = arriving body @ rest \<and> rest \<noteq> []"
  then obtain rest where rest: "drop n content = arriving (body @ [Broken]) @ rest" by (auto simp: arriving_broken)
  show "hoare (on_state (cut_upload s u content n))
      (and_then (patch_append st u (body @ [Broken]) row h dr) (\<lambda>_. ok (Inl (Io Io_OtherKind), forget_slot u slots)))
      (\<lambda>x. left_open s u content (snd x)) (\<lambda>_ _. False)"
    by (rule hoare_bind [OF appended_upload [OF rest less_imp_le [OF assms(3)] h]], rule hoare_ok)
      (use open_again [where slots = "forget_slot u slots" and u = u, OF assms(1) _ assms(3)]
        slot_ok_forget [of content slots u] assms(2) in auto)
qed

text \<open>However often an upload is interrupted, it stays open.\<close>

lemma interrupted_open:
  assumes "interrupted st u content x y" and "upload_open s u content x"
  shows "upload_open s u content y"
  using assms
proof (induction rule: interrupted.induct)
  case (answered hs body writing slots w r slots' w')
  then obtain n where n: "u_length s = length content" "slot_ok content (slots u)" "n < length content"
      "on_state (kept_upload s u content n n) w"
    by (auto simp: upload_open_def)
  from hoareD [OF patch_keeps [where slots = slots and u = u, OF n(1-3) answered(1)] n(4) answered(2)] show ?case by (simp add: left_open_def)
next
  case (dropped hs body writing slots w r slots' w')
  then obtain n where n: "u_length s = length content" "slot_ok content (slots u)" "n < length content"
      "on_state (kept_upload s u content n n) w"
    by (auto simp: upload_open_def)
  from hoareD [OF dropped_keeps [where slots = slots and u = u, OF n(1-3) dropped(1)] n(4) dropped(2)] show ?case by (simp add: left_open_def)
next
  case (restarted slots w)
  then show ?case by (auto simp: upload_open_def slot_ok_def)
next
  case (elsewhere slots' slots w' w)
  then show ?case
    by (auto simp: upload_open_def on_state_def kept_upload_def received_def part_holds_def)
qed

section \<open>One undisturbed request\<close>

definition calm :: "world \<Rightarrow> bool" where
  "calm w \<longleftrightarrow> w_db_faults w = [] \<and> w_fs_faults w = []"

definition patch_accepted :: "hosting \<Rightarrow> headers \<Rightarrow> nat \<Rightarrow> bool" where
  "patch_accepted st hs n \<longleftrightarrow>
     wrong_tus_version st hs = None \<and> authorize_upload st hs = Inr () \<and>
     starts_with (case header_get hs ''content-type'' of None \<Rightarrow> [] | Some t \<Rightarrow> t) ''application/offset+octet-stream'' \<and>
     header_u64 hs ''upload-offset'' = Inr n"

text \<open>The volume has room for every open upload, this content and the reserve.\<close>

definition roomy :: "hosting \<Rightarrow> string \<Rightarrow> db \<Rightarrow> bool" where
  "roomy st content d \<longleftrightarrow>
     (\<forall>w. case sg_available (ho_space st) w of
            None \<Rightarrow> True
          | Some free \<Rightarrow> sg_promised (ho_space st) + length content + sum_list (map u_length (db_uploads d)) +
                         sg_reserve (ho_space st) \<le> free)"

text \<open>The version is there, has no such file, and no approval stands in the way; nor does the checksum.\<close>

definition attachable :: "hosting \<Rightarrow> approval_guard \<Rightarrow> upload_session \<Rightarrow> nuget_version \<Rightarrow> path \<Rightarrow> string \<Rightarrow> world \<Rightarrow> bool" where
  "attachable st g s v p content w \<longleftrightarrow>
     stored_version (u_normalized_version s) = Inr v \<and>
     member_exists (fc_name (ho_feed st)) (u_lower_id s) v (w_db w) \<and> package_data_exists (u_lower_id s) v (w_db w) \<and>
     get_file (u_lower_id s) v (u_name s) (w_db w) = None \<and>
     filter (\<lambda>f. \<not> may_override g f) (filter (guard_holds g) (approved_in (u_lower_id s) v (w_db w))) = [] \<and>
     \<not> differs (u_expected_sha256 s) (ho_sha256_hex st content) \<and>
     blob_path (ho_sha256_hex st content) = Inr p \<and> file_at_path w p \<in> {None, Some content}"

definition attached_as :: "hosting \<Rightarrow> upload_session \<Rightarrow> nuget_version \<Rightarrow> path \<Rightarrow> string \<Rightarrow> world \<Rightarrow> bool" where
  "attached_as st s v p content w \<longleftrightarrow>
     (\<exists>f. get_file (u_lower_id s) v (u_name s) (w_db w) = Some f \<and>
        f_sha256 f = ho_sha256_hex st content \<and> f_size f = length content) \<and>
     file_at_path w p = Some content"

lemma query_calm: "calm w \<Longrightarrow> query q w = (Inr (q (w_db w)), w)"
  by (simp add: calm_def run_calm map_result_def)

lemma check_calm:
  assumes "calm w" and "filter (\<lambda>f. \<not> may_override g f) (filter (guard_holds g) (approved_in i v (w_db w))) = []"
  shows "\<exists>fs. check_not_approved i v g w = (Inr fs, w)"
  using assms by (auto simp: check_not_approved_def and_then_def query_calm Let_def ok_def)

lemma add_file_calm:
  assumes "get_file i v name d = None" and "package_data_exists i v d"
  shows "\<exists>d'. add_file \<lparr>f_lower_id = to_ascii_lowercase i, f_normalized_version = normalized v, f_name = name,
        f_sha256 = sha, f_size = len, f_uploaded = now, f_downloads = 0\<rparr> d = Inr ((), d') \<and>
      db_uploads d' = db_uploads d \<and>
      (\<exists>f. get_file i v name d' = Some f \<and> f_sha256 f = sha \<and> f_size f = len)"
proof -
  have "canonical_id (to_ascii_lowercase i) = canonical_id i" by (simp add: canonical_id_def)
  moreover have none: "row_at file_key ((canonical_id i, normalized v), to_ascii_lowercase name) (db_files d) = None"
    using assms(1) by (simp add: get_file_def version_key_def)
  ultimately show ?thesis
    using assms(2) row_at_None [THEN iffD1, OF none]
    by (simp add: add_file_def get_file_def none file_key_def file_version_def version_key_def package_data_exists_def Let_def)
qed

lemma store_blob_calm:
  assumes "calm w" and "blob_path sha = Inr p" and "file_at_path w temp = Some content"
    and "file_at_path w p \<in> {None, Some content}" and "temp \<noteq> p"
  shows "\<exists>n w'. store_blob sha temp w = (Inr n, w') \<and> calm w' \<and> w_db w' = w_db w \<and> w_now w' = w_now w \<and>
     file_at_path w' p = Some content"
  using assms
  by (auto simp: store_blob_def and_then_lift run_calm calm_def Let_def move_into_place_def)

lemma finish_calm:
  assumes calm: "calm w" and whole: "file_at_path w part = Some content" and part: "length part = 2"
    and ready: "attachable st g s v p content w" and len: "u_length s = length content"
  shows "\<exists>w'. finish st s part content g w = (Inr (), w') \<and> get_upload (u_id s) (w_db w') = None \<and>
     attached_as st s v p content w'"
proof -
  let ?sha = "ho_sha256_hex st content" and ?i = "u_lower_id s"
  obtain name w1 where name: "fresh_name ''tus'' w = (Inr name, w1)" and w1: "calm w1" "w_db w1 = w_db w"
      "\<And>q. file_at_path w1 q = file_at_path w q" "w_now w1 = w_now w"
    using calm by (auto simp: fresh_name_def calm_def file_at_path_def)
  let ?temp = "staging_dir @ [name]"
  have ne: "?temp \<noteq> p" "part \<noteq> p" using ready blob_path_length [of ?sha p] part
    by (auto simp: attachable_def staging_dir_def)
  obtain w2 where renamed: "fs_rename part ?temp w1 = (Inr (), w2)" and w2: "calm w2" "w_db w2 = w_db w"
      "file_at_path w2 ?temp = Some content" "file_at_path w2 p = file_at_path w p" "w_now w2 = w_now w"
    using w1 whole ne by (auto simp: run_calm calm_def)
  define w3 where "w3 = w2\<lparr>w_db := (w_db w)\<lparr>db_uploads := delete_rows (\<lambda>x. u_id x = u_id s) (db_uploads (w_db w))\<rparr>\<rparr>"
  have w3: "calm w3" "file_at_path w3 ?temp = Some content" "file_at_path w3 p = file_at_path w p"
      "get_upload (u_id s) (w_db w3) = None"
      "member_exists (fc_name (ho_feed st)) ?i v (w_db w3) = member_exists (fc_name (ho_feed st)) ?i v (w_db w)"
      "package_data_exists ?i v (w_db w3) = package_data_exists ?i v (w_db w)"
      "get_file ?i v (u_name s) (w_db w3) = get_file ?i v (u_name s) (w_db w)"
      "approved_in ?i v (w_db w3) = approved_in ?i v (w_db w)"
    using w2 by (simp_all add: w3_def calm_def run_calm get_upload_def row_at_delete_all member_exists_def
        package_data_exists_def get_file_def approved_in_def)
  have deleted: "run_db (delete_upload (u_id s)) w2 = (Inr (), w3)"
    using w2 by (simp add: db_faultless calm_def delete_upload_def w3_def)
  from ready w3 have "filter (\<lambda>f. \<not> may_override g f) (filter (guard_holds g) (approved_in ?i v (w_db w3))) = []"
    by (simp add: attachable_def)
  from check_calm [OF w3(1) this] obtain fs where checked: "check_not_approved ?i v g w3 = (Inr fs, w3)" by blast
  have "blob_path ?sha = Inr p" "file_at_path w3 p \<in> {None, Some content}"
    using ready w3(3) by (simp_all add: attachable_def)
  from store_blob_calm [OF w3(1) this(1) w3(2) this(2) ne(1)] obtain k w4 where
      stored: "store_blob ?sha ?temp w3 = (Inr k, w4)" and w4: "calm w4" "w_db w4 = w_db w3" "file_at_path w4 p = Some content"
    by blast
  have "get_file ?i v (u_name s) (w_db w4) = None" "package_data_exists ?i v (w_db w4)"
    using ready w3 w4(2) by (simp_all add: attachable_def)
  from add_file_calm [OF this, of ?sha "length content" "w_now w4"] obtain d' where
      d': "add_file \<lparr>f_lower_id = to_ascii_lowercase ?i, f_normalized_version = normalized v, f_name = u_name s,
        f_sha256 = ?sha, f_size = length content, f_uploaded = w_now w4, f_downloads = 0\<rparr> (w_db w4) = Inr ((), d')"
        "db_uploads d' = db_uploads (w_db w4)"
        "\<exists>f. get_file ?i v (u_name s) d' = Some f \<and> f_sha256 f = ?sha \<and> f_size f = length content"
    by blast
  let ?w5 = "w4\<lparr>w_db := d'\<rparr>"
  have locked: "\<exists>f. attach_locked (fc_name (ho_feed st)) g ?i v (u_name s) ?temp ?sha (u_length s) w3 = (Inr (New_File f), ?w5)"
    using ready w3 w4(1) d'(1) len
    by (simp add: attach_locked_def attachable_def and_then_def query_calm checked stored look_def attempt_def
        db_faultless calm_def Let_def ok_def)
  have gone: "\<exists>w6. ignoring (fs_remove_file ?temp) ?w5 = (Inr (), w6) \<and> w_db w6 = d' \<and> file_at_path w6 p = Some content"
    using w4 ne by (auto simp: run_calm calm_def)
  then obtain w6 where gone: "ignoring (fs_remove_file ?temp) ?w5 = (Inr (), w6)" "w_db w6 = d'" "file_at_path w6 p = Some content"
    by blast
  have "finish st s part content g w = (Inr (), w6)"
    using locked ready gone(1)
    by (auto simp: finish_def Let_def and_then_def [of "fresh_name _"] name dropping_def and_then_def attempt_def renamed
        deleted attachable_def and_then_lift lift_result_def attach_guarded_def io_when_def ok_def)
  moreover have "get_upload (u_id s) d' = None" using w3(4) w4(2) d'(2) by (simp add: get_upload_def)
  ultimately show ?thesis using gone d'(3) by (auto simp: attached_as_def)
qed

lemma in_slot_Inr: "m w = (Inr a, w1) \<Longrightarrow> in_slot m slots f w = f a w1"
  by (simp add: in_slot_def and_then_def attempt_def ok_def)

lemma in_slot_lift [simp]: "in_slot (lift_result (Inr a)) slots f = f a"
  by (simp add: fun_eq_iff in_slot_def io_simps)

lemma outstanding_bounded: "outstanding_upload_bytes now since d \<le> sum_list (map u_length (db_uploads d))"
proof -
  have "sum_list (map (\<lambda>x. u_length x - u_received x) (filter P xs)) \<le> sum_list (map u_length xs)" for P xs
    by (induction xs) auto
  then show ?thesis by (simp add: outstanding_upload_bytes_def)
qed

lemma space_check_calm:
  assumes "calm w" and "roomy st content d" and "k \<le> length content" and "reserve (ho_space st) k = (share, sg)"
    and "sum_list (map u_length (db_uploads (w_db w))) = sum_list (map u_length (db_uploads d))"
  shows "space_check sg k w = (Inr (), w)"
proof (cases "sg_reserve (ho_space st) = 0 \<or> sg_available (ho_space st) w = None")
  case True
  then show ?thesis
    using assms(4) by (auto simp: space_check_def reserve_def Let_def and_then_def look_def ok_def)
next
  case False
  then obtain free where free: "sg_available (ho_space st) w = Some free" by blast
  then have enough: "sg_promised (ho_space st) + length content + sum_list (map u_length (db_uploads (w_db w))) +
      sg_reserve (ho_space st) \<le> free"
    using assms(2,5) by (auto simp: roomy_def split: option.splits dest: spec [of _ w])
  have sg: "sg = (ho_space st)\<lparr>sg_promised := sg_promised (ho_space st) + min k i64_max\<rparr>"
    using assms(4) by (auto simp: reserve_def Let_def)
  have le: "outstanding_upload_bytes now since (w_db w) \<le> sum_list (map u_length (db_uploads (w_db w)))" for now since
    by (rule outstanding_bounded)
  have fits: "\<not> free < saturating_add (saturating_add (max (sg_promised (ho_space st) + min k i64_max) k) r)
      (sg_reserve (ho_space st))" if "r \<le> sum_list (map u_length (db_uploads (w_db w)))" for r
    using enough that assms(3) by (auto simp: saturating_add_def)
  show ?thesis
    using False free assms(1) fits [OF le] fits [of 0]
    by (simp add: space_check_def sg and_then_def look_def query_calm Let_def ok_def)
qed

lemma hash_rest_calm: "w_fs_faults w = [] \<Longrightarrow> left \<le> length bytes \<Longrightarrow> \<exists>fed'. hash_rest bytes left fed w = (Inr fed', w)"
proof (induction bytes left fed rule: hash_rest.induct)
  case (1 bytes left fed)
  show ?case
  proof (cases "left = 0")
    case True
    then show ?thesis by (simp add: hash_rest.simps ok_def)
  next
    case False
    let ?got = "take (min read_buffer left) bytes"
    have some: "length ?got \<noteq> 0" "left - length ?got \<le> length (drop (length ?got) bytes)"
      using False "1.prems"(2) by (auto simp: read_buffer_def min_def)
    have "hash_rest bytes left fed w = hash_rest (drop (length ?got) bytes) (left - length ?got) (fed @ ?got) w"
      unfolding hash_rest.simps [of bytes left fed] if_not_P [OF False] Let_def if_not_P [OF some(1)]
      using "1.prems"(1) by (simp add: and_then_def fs_faultless ok_def)
    with "1.IH" [OF False refl refl some(1) "1.prems"(1) some(2)] show ?thesis by simp
  qed
qed

lemma resume_hash_calm:
  assumes "calm w" and "on_state (kept_upload s u content n n) w" and "slot_ok content slot" and "n \<le> length content"
  shows "\<exists>h. resume_hash slot (part_path u) n w = (Inr h, w) \<and> hg_fed h = take n content"
proof -
  from assms(2) obtain bytes where bytes: "file_at_path w (part_path u) = Some bytes" "n \<le> length bytes"
    by (auto simp: on_state_def kept_upload_def part_holds_def)
  from hash_rest_calm [OF _ bytes(2), of w "[]"] assms(1) obtain fed where "hash_rest bytes n [] w = (Inr fed, w)"
    by (auto simp: calm_def)
  with bytes assms(1) have "\<exists>h. resume_hash slot (part_path u) n w = (Inr h, w)"
    by (auto simp: resume_hash_def fs_read_def fs_faultless calm_def and_then_def ok_def split: option.splits)
  then obtain h where h: "resume_hash slot (part_path u) n w = (Inr h, w)" by blast
  from hoareD [OF resume_hash_seen [OF assms(3,4)] assms(2) h] h show ?thesis by simp
qed

lemma begun_calm:
  assumes calm: "calm w" and asks: "patch_accepted st hs n" and free: "\<not> writing u"
    and row: "get_upload u (w_db w) = Some row" "row_of s n row" "u_feed s = fc_name (ho_feed st)" "w_now w < u_expires s"
    and kept: "on_state (kept_upload s u content n n) w" and slot: "slot_ok content (slots u)"
    and n: "n < length content" and len: "u_length s = length content" and room: "roomy st content (w_db w)"
  shows "\<exists>h dr w1 since. patch_begin st writing slots hs u continue w = continue row h dr (forget_slot u slots) w1 \<and>
     hg_fed h = take n content \<and> room_for_writes (dr_space dr) \<and> calm w1 \<and> w_now w1 = w_now w \<and>
     on_state (cut_upload s u content n) w1 \<and>
     w_db w1 = (w_db w)\<lparr>db_uploads := update_rows (\<lambda>x. u_id x = u) (\<lambda>x. x\<lparr>u_held_since := since\<rparr>) (db_uploads (w_db w))\<rparr> \<and>
     (\<forall>q. q \<noteq> part_path u \<longrightarrow> file_at_path w1 q = file_at_path w q)"
proof -
  have fields: "u_received row = n" "u_length row = length content" "u_feed row = fc_name (ho_feed st)" "w_now w < u_expires row"
    using row len by (auto simp: row_of_def)
  have session: "upload_session_of st u w = (Inr row, w)"
    using row(1) fields by (simp add: upload_session_of_def and_then_def query_calm [OF calm] look_def ok_def)
  obtain share sg where promise: "reserve (ho_space st) (length content - n) = (share, sg)"
    by (cases "reserve (ho_space st) (length content - n)")
  let ?w1 = "w\<lparr>w_db := (w_db w)\<lparr>db_uploads := update_rows (\<lambda>x. u_id x = u) (\<lambda>x. x\<lparr>u_held_since := None\<rparr>) (db_uploads (w_db w))\<rparr>\<rparr>"
  have held: "run_db (set_upload_held u None) w = (Inr (), ?w1)"
    using calm by (simp add: db_faultless calm_def set_upload_held_def)
  have calm1: "calm ?w1" using calm by (simp add: calm_def)
  have "map u_length (update_rows (\<lambda>x. u_id x = u) (\<lambda>x. x\<lparr>u_held_since := None\<rparr>) (db_uploads (w_db w))) =
      map u_length (db_uploads (w_db w))"
    by simp
  from arg_cong [OF this, of sum_list] have "space_check sg (length content - n) ?w1 = (Inr (), ?w1)"
    by (intro space_check_calm [OF calm1 room _ promise]) simp_all
  then have checked: "on_err (space_check sg (length content - n)) e ?w1 = (Inr (), ?w1)" for e
    by (simp add: on_err_def and_then_def attempt_def ok_def)
  have kept1: "on_state (kept_upload s u content n n) ?w1"
    using keepsD [OF kept_held kept held] .
  from resume_hash_calm [OF calm1 kept1 slot] n obtain h where
      resumed: "resume_hash (slots u) (part_path u) n ?w1 = (Inr h, ?w1)" and h: "hg_fed h = take n content" by auto
  from kept1 obtain bytes where bytes: "file_at_path ?w1 (part_path u) = Some bytes" "n \<le> length bytes"
      "take n bytes = take n content" "received s u n (w_db ?w1)"
    by (auto simp: on_state_def kept_upload_def part_holds_def)
  let ?w2 = "put_file (part_path u) (take n content) ?w1"
  have cut: "and_then (fs_open_write (part_path u)) (\<lambda>_. and_then (fs_set_len (part_path u) n) (\<lambda>_.
      fs_call no_trace (ok ()))) ?w1 = (Inr (), ?w2)"
    using calm1 bytes by (simp add: fs_open_write_def fs_set_len_def and_then_def fs_faultless calm_def file_fields ok_def)
  have "room_for_writes sg"
    using room promise unfolding roomy_def room_for_writes_def
    by (auto simp: reserve_def Let_def split: option.splits) (metis add_leE)
  moreover have "patch_begin st writing slots hs u continue w =
      continue row h (guard_writer sg share) (forget_slot u slots) ?w2"
    using asks free
    by (simp add: patch_begin_def patch_accepted_def fields in_slot_Inr session promise held checked resumed cut)
  ultimately show ?thesis
    using h calm1 bytes(4)
    by (intro exI [of _ h] exI [of _ "guard_writer sg share"] exI [of _ ?w2] exI [of _ "None :: time option"])
      (simp add: guard_writer_def calm_def file_fields on_state_def cut_upload_def)
qed

lemma patch_answered:
  assumes "http_ok (ho_lib st)"
  shows "\<exists>r. patch_answer st row k = Inr r \<and> fr_status r = 204 \<and> header_of r ''upload-offset'' = Some (show_nat k)"
proof -
  have "list_all printable ''1.0.0''" "list_all printable ''no-store''" by (simp_all add: printable_def)
  with assms show ?thesis
    by (simp add: patch_answer_def tus_response_def response_of_def http_ok_def tus_version_def header_of_def
        printable_show_nat)
qed

lemma attachable_elsewhere:
  assumes "attachable st g s v p content w" and "row_of s n row"
    and "db_members (w_db w') = db_members (w_db w)" "db_packages (w_db w') = db_packages (w_db w)"
      "db_files (w_db w') = db_files (w_db w)" "file_at_path w' p = file_at_path w p"
  shows "attachable st g row v p content w'"
  using assms by (auto simp: attachable_def row_of_def member_exists_def package_data_exists_def get_file_def approved_in_def)

lemma calm_patch:
  assumes calm: "calm w" and asks: "patch_accepted st hs n" and free: "\<not> writing u"
    and row: "get_upload u (w_db w) = Some row" "row_of s n row" "u_feed s = fc_name (ho_feed st)" "w_now w < u_expires s"
    and kept: "on_state (kept_upload s u content n n) w" and slot: "slot_ok content (slots u)"
    and n: "n < length content" and len: "u_length s = length content" and room: "roomy st content (w_db w)"
    and body: "whole_body body" "arriving body = drop n content" and lib: "http_ok (ho_lib st)"
    and ready: "attachable st (for_request st hs) s v p content w"
  shows "\<exists>r slots' w'. tus_patch st writing slots hs u body w = (Inr (Inr r, slots'), w') \<and> fr_status r = 204 \<and>
     header_of r ''upload-offset'' = Some (show_nat (length content)) \<and> slots' u = None \<and>
     get_upload u (w_db w') = None \<and> attached_as st s v p content w'"
proof -
  have fields: "u_received row = n" "u_length row = length content" using row len by (auto simp: row_of_def)
  have id: "u_id row = u" using row(1) by (auto simp: get_upload_def dest: row_at_Some)
  let ?go = "\<lambda>row h dr slots. and_then (patch_append st u body row h dr) (\<lambda>a. patch_record st hs u row a slots)"
  from begun_calm [where writing = writing and slots = slots and u = u and continue = ?go,
      OF calm asks free row kept slot n len room] obtain h dr w1 since where
      begun: "tus_patch st writing slots hs u body w = ?go row h dr (forget_slot u slots) w1"
      and h: "hg_fed h = take n content" and dr: "room_for_writes (dr_space dr)" and calm1: "calm w1"
      and cut: "on_state (cut_upload s u content n) w1"
      and db1: "w_db w1 = (w_db w)\<lparr>db_uploads := update_rows (\<lambda>x. u_id x = u) (\<lambda>x. x\<lparr>u_held_since := since\<rparr>)
        (db_uploads (w_db w))\<rparr>"
      and files1: "\<forall>q. q \<noteq> part_path u \<longrightarrow> file_at_path w1 q = file_at_path w q"
    unfolding tus_patch_def by blast
  obtain a w2 where app: "append_hashed (part_path u) (u_length row - u_received row) (ho_idle st) body dr 0 (hg_fed h) w1 =
      (a, w2)" by (cases "append_hashed (part_path u) (u_length row - u_received row) (ho_idle st) body dr 0 (hg_fed h) w1")
  have part: "file_at_path w1 (part_path u) = Some (take n content)" using cut by (simp add: on_state_def cut_upload_def)
  have done': "ap_result a = Inr () \<and> w_fs_faults w2 = []"
    by (rule append_calm [OF _ dr body(1) _ part app]) (use calm1 body(2) fields in \<open>simp_all add: calm_def\<close>)
  from append_copies [OF app part] done' have sent: "ap_written a = length content - n" "ap_hashed a = content"
      "file_at_path w2 (part_path u) = Some content"
    by (auto simp: copied_def is_ok_def body(2) h)
  note frame = append_frame [OF app, unfolded only_file_def]
  have calm2: "calm w2" using done' frame calm1 by (simp add: calm_def)
  let ?w3 = "w2\<lparr>w_db := (w_db w2)\<lparr>db_uploads := update_rows (\<lambda>x. u_id x = u)
      (\<lambda>x. x\<lparr>u_received := length content, u_held_since := Some (w_now w2)\<rparr>) (db_uploads (w_db w2))\<rparr>\<rparr>"
  have flushed: "ignoring (fs_call no_trace (ok ())) w2 = (Inr (), w2)"
    using calm2 by (simp add: run_calm calm_def)
  have counted: "run_db_at (\<lambda>now. set_upload_received now u (length content)) w2 = (Inr (), ?w3)"
    using calm2 by (simp add: run_db_at_def and_then_def look_def db_faultless calm_def set_upload_received_def)
  have part3: "file_at_path ?w3 (part_path u) = Some content" using sent(3) by (simp add: file_fields)
  have synced: "fs_sync_file (part_path u) ?w3 = (Inr (), ?w3)"
    using calm2 part3 by (simp add: fs_sync_file_def fs_faultless calm_def)
  have two: "length (part_path u) = 2" by (simp add: part_path_def staging_dir_def)
  have "p \<noteq> part_path u" using ready two blob_path_length by (auto simp: attachable_def)
  then have "file_at_path ?w3 p = file_at_path w p" using frame files1 by (simp add: file_fields)
  then have ready3: "attachable st (for_request st hs) row v p content ?w3"
    by (rule attachable_elsewhere [OF ready row(2), rotated 3]) (use frame db1 in simp_all)
  have "calm ?w3" using calm2 by (simp add: calm_def)
  from finish_calm [OF this part3 two ready3 fields(2)] obtain w4 where
      finished: "finish st row (part_path u) content (for_request st hs) ?w3 = (Inr (), w4)"
      and w4: "get_upload (u_id row) (w_db w4) = None" "attached_as st row v p content w4" by blast
  obtain r where r: "patch_answer st row (length content) = Inr r" "fr_status r = 204"
      "header_of r ''upload-offset'' = Some (show_nat (length content))"
    using patch_answered [OF lib] by blast
  let ?slots = "\<lambda>sl. sl(u := Some \<lparr>hg_received = length content, hg_fed = content\<rparr>)"
  have "n + ap_written a = length content" using sent(1) n by simp
  then have "patch_record st hs u row a (forget_slot u slots) w2 =
      (Inr (Inr r, forget_slot u (?slots (forget_slot u slots))), w4)"
    using done' by (simp add: patch_record_def Let_def and_then_def [of "ignoring _"] flushed fields sent(2)
        in_slot_Inr counted synced finished r(1) ok_def)
  then have "tus_patch st writing slots hs u body w = (Inr (Inr r, forget_slot u (?slots (forget_slot u slots))), w4)"
    using begun by (simp add: and_then_def patch_append_def app)
  moreover have "attached_as st s v p content w4" using w4(2) row(2) by (auto simp: attached_as_def row_of_def)
  ultimately show ?thesis using r w4(1) id by (auto simp: forget_slot_def)
qed


text \<open>An upload just created is open, for any content of the length it declared.\<close>

lemma not_failed:
  assumes "(if b then fail e else m) w = (Inr r, w')" and "\<not> b \<Longrightarrow> m w = (Inr r, w') \<Longrightarrow> thesis"
  shows thesis
  using assms by (cases b) (simp_all add: fail_def)

lemma created_open:
  assumes "tus_create st hs w = (Inr r, w')" and "fr_status r = 201"
    and "header_u64 hs ''upload-length'' = Inr (length content)" and "content \<noteq> []"
  shows "\<exists>u s. header_of r ''location'' = Some (ho_upload_url st u) \<and> u_feed s = fc_name (ho_feed st) \<and>
     upload_open s u content (\<lambda>_. None, w')"
proof (cases "wrong_tus_version st hs")
  case (Some r')
  then show ?thesis
    using assms(1,2)
    by (auto simp: tus_create_def ok_def wrong_tus_version_def constant_response_def tus_response_def response_of_def
        split: if_splits sum.splits)
next
  case None
  note run = assms(1) [unfolded tus_create_def None option.case assms(3) and_then_lift Let_def]
  from run obtain i v name expected u now w1 w2 w3 where created: "fs_create (part_path u) w1 = (Inr (), w2)"
      "run_db (create_upload
        \<lparr>u_id = u, u_feed = fc_name (ho_feed st), u_lower_id = to_ascii_lowercase i, u_normalized_version = normalized v,
         u_name = name, u_length = length content, u_received = 0, u_expected_sha256 = expected,
         u_expires = now + 3600 * int (min (ho_expiry_hours st) (24 * 365)), u_held_since = Some now\<rparr>) w2 = (Inr (), w3)"
      "lift_result (tus_response st 201 [(''location'', ho_upload_url st u),
         (''upload-expires'', hl_http_date (ho_lib st) (now + 3600 * int (min (ho_expiry_hours st) (24 * 365))))] []) w3 = (Inr r, w')"
    by (elim and_then_Inr not_failed) simp
  from created(2) obtain s where made: "run_db (create_upload s) w2 = (Inr (), w3)"
      and s: "u_id s = u" "u_feed s = fc_name (ho_feed st)" "u_length s = length content" "u_received s = 0"
    by (rule that) simp_all
  have w2: "file_at_path w2 (part_path u) = Some []"
    using created(1) by (auto simp: fs_create_def fs_call_def no_trace_def split: prod.splits option.splits)
  have w': "w' = w3" "header_of r ''location'' = Some (ho_upload_url st u)"
    using created(3) by (auto simp: lift_result_def tus_response_def response_of_def header_of_def split: if_splits)
  have "get_upload u (w_db w3) = Some (s\<lparr>u_lower_id := canonical_id (u_lower_id s)\<rparr>)"
    and "file_at_path w3 (part_path u) = Some []"
    using w2 s(1)
    by (cases rule: run_db_cases [OF made];
        auto simp: create_upload_def get_upload_def row_at_None [THEN iffD2] dest!: sym [of _ "w_db w3"] split: if_splits)+
  then have "upload_open (s\<lparr>u_lower_id := canonical_id (u_lower_id s)\<rparr>) u content (\<lambda>_. None, w3)"
    using s assms(4)
    by (auto simp: upload_open_def slot_ok_def on_state_def kept_upload_def received_def part_holds_def row_of_def
        intro!: exI [of _ "0 :: nat"] exI [of _ "u_held_since s"])
  with w' s(2) show ?thesis by (intro exI [of _ u] exI [of _ "s\<lparr>u_lower_id := canonical_id (u_lower_id s)\<rparr>"]) simp
qed

text \<open>
  One fault undoes a whole upload: the bytes are renamed away before the row goes, and when the
  row cannot be deleted the renamed file is removed. The row then still says that everything
  was received, and there is no file behind it.
\<close>

lemma file_db_faults [simp]: "file_at_path (w\<lparr>w_db_faults := fs\<rparr>) p = file_at_path w p"
  by (simp add: file_at_path_def)

lemma finished_upload_lost:
  assumes "w_fs_faults w = []" and "w_db_faults w = [True]" and "file_at_path w part = Some content"
  shows "\<exists>w'. finish st s part hashed g w = (Inl (Database Sqlx_Failed), w') \<and>
     get_upload (u_id s) (w_db w') = get_upload (u_id s) (w_db w) \<and> file_at_path w' part = None"
  using assms
  by (auto simp: finish_def Let_def dropping_def run_db_def db_fault_def run_calm)

text \<open>An upload of eight bytes, two of them received, then a restart and a PATCH with the other six.\<close>

definition sample_upload :: upload_session where
  "sample_upload =
     \<lparr>u_id = ''up'', u_feed = ''main'', u_lower_id = ''pkg'', u_normalized_version = ''1.2.0'', u_name = ''base.wim'',
      u_length = 8, u_received = 2, u_expected_sha256 = None, u_expires = 100, u_held_since = None\<rparr>"

definition half_uploaded :: world where
  "half_uploaded = one_version_world\<lparr>
     w_db := (w_db one_version_world)\<lparr>
       db_packages := [\<lparr>r_key = (''pkg'', ''1.2.0''), r_original = ''1.2.0'', r_prerelease = False,
                        r_package = in_package pushed\<rparr>],
       db_uploads := [sample_upload]\<rparr>,
     w_files := [(part_path ''up'', ''con'')]\<rparr>"

definition patch_headers :: headers where
  "patch_headers =
     [(''tus-resumable'', Some ''1.0.0''), (''x-nuget-apikey'', Some ''key''),
      (''content-type'', Some ''application/offset+octet-stream''), (''upload-offset'', Some (show_nat 2))]"

lemma half_uploaded_open: "upload_open sample_upload ''up'' ''contents'' (\<lambda>_. Some \<lparr>hg_received = 3, hg_fed = ''con''\<rparr>, half_uploaded)"
  by (auto simp: upload_open_def slot_ok_def on_state_def kept_upload_def received_def get_upload_def row_at_def
      half_uploaded_def sample_upload_def row_of_def part_holds_def file_at_path_def numeral_eq_Suc
      intro!: exI [of _ "Suc (Suc 0)"])

lemma patch_headers_accepted: "patch_accepted sample_hosting patch_headers 2"
proof -
  have "parse_u64 (trim (show_nat 2)) = Some 2"
  proof -
    have "list_all is_graphic (show_nat 2)" using set_show_nat graphic_digit by (auto simp: list_all_iff)
    then show ?thesis by (simp add: trim_graphic parse_u64_show_nat)
  qed
  moreover have "constant_time_eq sample_crypto ''key'' ''key''"
    using sample_crypto_ok by (simp add: constant_time_eq_def digests_eq_iff crypto_ok_def)
  ultimately show ?thesis
    by (simp add: patch_accepted_def wrong_tus_version_def patch_headers_def header_get_def header_get_all_def tus_version_def
        authorize_upload_def sample_hosting_def api_enabled_def api_check_headers_def api_check_def presented_key_def
        api_key_header_def trim_graphic is_graphic_def header_u64_def starts_with_def keyed_feed_def)
qed

lemma half_uploaded_attachable:
  "attachable sample_hosting (for_request sample_hosting patch_headers) sample_upload pushed_version
     [''.blobs'', ''sha256'', ''aa'', replicate 64 CHR ''a''] ''contents'' half_uploaded"
proof -
  have "stored_version ''1.2.0'' = Inr pushed_version"
    by (simp add: stored_version_def parse_stored_def push_version map_err_def)
  moreover have "\<not> guard_holds (for_request sample_hosting patch_headers) f" for f
    by (simp add: guard_holds_def for_request_def sample_hosting_def keyed_feed_def reviews_def Let_def)
  ultimately show ?thesis
    using sample_blob_path
    by (simp add: attachable_def sample_upload_def half_uploaded_def one_version_world_def sample_hosting_def keyed_feed_def
        member_exists_def has_row_def member_key_def version_key_def canonical_id_def pushed_names char_eval
        package_data_exists_def get_file_def row_at_def empty_db_def differs_def file_at_path_def part_path_def staging_dir_def)
qed


end
