(* ===== verification/Publish.thy ===== *)
theory Publish
  imports Resumable
begin

text \<open>
  Changing a feed through the NuGet push API (\<open>src/src/web/publish.rs\<close>): a push streamed to a
  temporary file and indexed, a delete that purges or unlists, and the relisting. The copy of a
  body with its size and hash is \<open>src/src/streaming.rs\<close>. The framework's multipart parser is a
  parameter, and so are SHA-512 in base64, percent-coding, the digests and the date arithmetic.
  A push of symbols stops at the indexing of the PDB files, which is not modelled.
\<close>

section \<open>A server's feed\<close>

text \<open>What the first field of a multipart body is: its bytes arrive as a body does.\<close>

datatype multipart = Bad_Body string | Bad_Field string | No_Field | File_Field "body_event list"

record server =
  sv_hosting :: hosting
  sv_libraries :: libraries
  sv_max_package_size :: "nat option"
  sv_multipart :: "headers \<Rightarrow> body_event list \<Rightarrow> multipart"
  sv_sha512_base64 :: "string \<Rightarrow> string"
  sv_days_before :: "nat \<Rightarrow> time \<Rightarrow> time option"
  sv_plan_digest :: "string \<Rightarrow> string"
  sv_csrf_secret :: string
  sv_percent_decode :: "string \<Rightarrow> string"
  sv_percent_encode :: "string \<Rightarrow> string"

abbreviation sv_feed :: "server \<Rightarrow> feed_context" where
  "sv_feed sv \<equiv> ho_feed (sv_hosting sv)"

abbreviation sv_name :: "server \<Rightarrow> string" where
  "sv_name sv \<equiv> fc_name (sv_feed sv)"

abbreviation sv_crypto :: "server \<Rightarrow> crypto" where
  "sv_crypto sv \<equiv> ho_crypto (sv_hosting sv)"

section \<open>Receiving a push\<close>

definition multipart_overhead :: nat where
  "multipart_overhead = 64 * 1024"

definition check_declared_size :: "nat option \<Rightarrow> nat option \<Rightarrow> bool \<Rightarrow> unit result" where
  "check_declared_size declared limit is_multipart =
     (case (declared, limit) of
        (Some len, Some limit) \<Rightarrow>
          let allowed = (if is_multipart then saturating_add limit multipart_overhead else limit)
          in if allowed < len
             then Inl (PayloadTooLarge (Msg ''the request is {size} bytes, over the {limit}-byte package size limit''
                         [show_nat len, show_nat limit]))
             else Inr ()
      | _ \<Rightarrow> Inr ())"

text \<open>The size counts a chunk before the limit is looked at, and the hash before the write.\<close>

fun copy_limited ::
    "path \<Rightarrow> nat option \<Rightarrow> string \<Rightarrow> body_event list \<Rightarrow> disk_reserve \<Rightarrow> nat \<Rightarrow> string \<Rightarrow> world \<Rightarrow>
     (stream_error + nat \<times> string) \<times> world" where
  "copy_limited p limit idle [] dr len hashed w =
     (case fs_call no_trace (ok ()) w of
        (Inr _, w) \<Rightarrow> (Inr (len, hashed), w) | (Inl e, w) \<Rightarrow> (Inl (stream_io e), w))"
| "copy_limited p limit idle (Broken # es) dr len hashed w = (Inl (Stream_Io Io_OtherKind), w)"
| "copy_limited p limit idle (Stalled # es) dr len hashed w =
     (Inl (Timed_Out (Msg ''no data arrived for {} s'' [idle])), w)"
| "copy_limited p limit idle (Chunk c # es) dr len hashed w =
     (let len = len + length c
      in if (case limit of None \<Rightarrow> False | Some n \<Rightarrow> n < len)
         then (Inl (Invalid_Data (Msg ''payload exceeds the configured limit of {limit} bytes''
                 [case limit of None \<Rightarrow> [] | Some n \<Rightarrow> show_nat n])), w)
         else case poll_check dr w of
                (Inl e, dr) \<Rightarrow> (Inl e, w)
              | (Inr _, dr) \<Rightarrow>
                  (case fs_append p c w of
                     (Inl e, w) \<Rightarrow> (Inl (stream_io e), w)
                   | (Inr _, w) \<Rightarrow>
                       copy_limited p limit idle es (written_through dr (length c)) len (hashed @ c) w))"

definition stream_to_writer_limited ::
    "(string \<Rightarrow> string) \<Rightarrow> path \<Rightarrow> nat option \<Rightarrow> string \<Rightarrow> body_event list \<Rightarrow> disk_reserve \<Rightarrow> world \<Rightarrow>
     (stream_error + stream_summary) \<times> world" where
  "stream_to_writer_limited sha512_base64 p max_bytes idle body dr w =
     (case copy_limited p max_bytes idle body dr 0 [] w of
        (Inl e, w) \<Rightarrow> (Inl e, w)
      | (Inr (len, hashed), w) \<Rightarrow> (Inr \<lparr>ss_size = len, ss_sha512 = sha512_base64 hashed\<rparr>, w))"

definition write_upload ::
    "server \<Rightarrow> headers \<Rightarrow> path \<Rightarrow> body_event list \<Rightarrow> bool \<Rightarrow> disk_reserve \<Rightarrow> stream_summary io" where
  "write_upload sv hs temp body is_multipart dr =
     (let stream = (\<lambda>body w.
            case stream_to_writer_limited (sv_sha512_base64 sv) temp (sv_max_package_size sv)
                   (ho_idle (sv_hosting sv)) body dr w of
              (r, w) \<Rightarrow> (map_err map_upload_err r, w))
      in if is_multipart
         then (case sv_multipart sv hs body of
                 Bad_Body e \<Rightarrow> fail (BadRequest (Msg ''invalid multipart body: {e}'' [e]))
               | Bad_Field e \<Rightarrow> fail (BadRequest (Msg ''invalid multipart field: {e}'' [e]))
               | No_Field \<Rightarrow> fail (BadRequest (Msg ''multipart body contained no file'' []))
               | File_Field field \<Rightarrow> stream field)
         else stream body)"

definition is_multipart :: "headers \<Rightarrow> bool" where
  "is_multipart hs \<longleftrightarrow>
     (case header_get hs ''content-type'' of None \<Rightarrow> False | Some s \<Rightarrow> starts_with s ''multipart/'')"

text \<open>What goes on with the file owns it: it is removed at the end unless it was moved away.\<close>

definition receive_push ::
    "server \<Rightarrow> headers \<Rightarrow> body_event list \<Rightarrow> (path \<Rightarrow> stream_summary \<Rightarrow> 'a io) \<Rightarrow> 'a io" where
  "receive_push sv hs body continue =
     (if \<not> api_check_headers (sv_crypto sv) (fc_auth (sv_feed sv)) hs then fail Unauthorized
      else
      let declared = content_length hs in
      and_then (lift_result (check_declared_size declared (sv_max_package_size sv) (is_multipart hs))) (\<lambda>_.
      and_then (admit_write (ho_space (sv_hosting sv)) declared) (\<lambda>(share, sg).
      and_then create_temp (\<lambda>temp.
      dropping temp
        (and_then (write_upload sv hs temp body (is_multipart hs) (guard_writer sg share)) (\<lambda>summary.
         and_then (fs_sync_file temp) (\<lambda>_. continue temp summary)))))))"

section \<open>The push\<close>

definition options_for :: "server \<Rightarrow> index_options" where
  "options_for sv =
     (let feed = sv_feed sv in
      \<lparr>io_overwrite = fc_allow_overwrite feed, io_pending = fc_requires_approval feed,
       io_license_policy = fc_license_policy feed, io_expect = None,
       io_reserved_elsewhere = fc_reserved_elsewhere feed,
       io_other_license_policies =
         (if fc_allow_overwrite feed = Overwrite_Pending
          then map (\<lambda>f. (fe_name f, fe_license_policy f))
                 (filter (\<lambda>f. fe_name f \<noteq> fc_name feed) (ho_feeds (sv_hosting sv)))
          else []),
       io_unlisted = False\<rparr>)"

definition prune_after_push :: "server \<Rightarrow> string \<Rightarrow> unit io" where
  "prune_after_push sv i =
     (let rules = fc_retention (sv_feed sv) in
      io_when (rc_enabled rules \<and> rc_prune_on_push rules)
        (ignoring (prune_package (sv_days_before sv) (sv_name sv) i (policy_of_config rules))))"

definition push_package :: "server \<Rightarrow> headers \<Rightarrow> body_event list \<Rightarrow> nat io" where
  "push_package sv hs body =
     receive_push sv hs body (\<lambda>temp summary.
       and_then (index_package (sv_libraries sv) (sv_name sv) temp summary (options_for sv)) (\<lambda>r.
       and_then (ignoring (run_db (clear_tombstone (sv_name sv) (ir_id r) (ir_version r)))) (\<lambda>_.
       and_then (prune_after_push sv (ir_id r)) (\<lambda>_. ok 201))))"

section \<open>Deleting and relisting\<close>

definition unlist_warning :: "string \<Rightarrow> nuget_version \<Rightarrow> string" where
  "unlist_warning i v =
     i @ '' '' @ normalized v @ '' was unlisted, not deleted: it can still be downloaded, and pushing '' @
     normalized v @ '' again is refused. With hard_delete_enabled, a delete removes it for good.''"

definition delete_package :: "server \<Rightarrow> headers \<Rightarrow> string \<Rightarrow> string \<Rightarrow> file_response io" where
  "delete_package sv hs i raw_version =
     and_then (lift_result (check_id i)) (\<lambda>_.
     if \<not> api_check_headers (sv_crypto sv) (fc_auth (sv_feed sv)) hs then fail Unauthorized
     else
     and_then (lift_result (request_version raw_version)) (\<lambda>v.
     let answer = \<lparr>fr_status = 204, fr_headers = [], fr_body = []\<rparr> in
     if fc_hard_delete_enabled (sv_feed sv)
     then and_then (purge_version (sv_name sv) i v) (\<lambda>removed.
          if removed then ok answer else fail PackageNotFound)
     else and_then (run_db (set_listed (sv_name sv) i v False)) (\<lambda>updated.
          if \<not> updated then fail PackageNotFound
          else ok (if hl_value (ho_lib (sv_hosting sv)) (unlist_warning i v)
                   then insert_header ''x-nuget-warning'' (unlist_warning i v) answer
                   else answer))))"

definition relist_package :: "server \<Rightarrow> headers \<Rightarrow> string \<Rightarrow> string \<Rightarrow> nat io" where
  "relist_package sv hs i raw_version =
     and_then (lift_result (check_id i)) (\<lambda>_.
     if \<not> api_check_headers (sv_crypto sv) (fc_auth (sv_feed sv)) hs then fail Unauthorized
     else
     and_then (lift_result (request_version raw_version)) (\<lambda>v.
     and_then (run_db (set_listed (sv_name sv) i v True)) (\<lambda>updated.
     if updated then ok 200 else fail PackageNotFound)))"

end
