(* ===== verification/Immutable.thy ===== *)
theory Immutable
  imports Push
begin

text \<open>
  A version some feed has approved, under a mode that does not overwrite: no push changes its
  row or the bytes its row describes, whatever it pushes and whatever fails. The download
  handlers rely on it when they let clients cache a payload for good
  (\<open>served_versions_are_immutable\<close> in \<open>src/src/config/sections.rs\<close>).
\<close>

section \<open>What the rows keep\<close>

definition kept :: "key \<Rightarrow> db \<Rightarrow> db \<Rightarrow> bool" where
  "kept k d d' \<longleftrightarrow>
     (\<forall>row. row_at r_key k (db_packages d) = Some row \<longrightarrow> row_at r_key k (db_packages d') = Some row) \<and>
     (\<forall>m \<in> set (db_members d). member_version m = k \<and> \<not> m_pending m \<longrightarrow>
        (\<exists>m' \<in> set (db_members d'). member_version m' = k \<and> \<not> m_pending m'))"

named_theorems keeping_rows \<open>what keeps the row of a version and its approval\<close>

lemma kept_trans: "kept k d d' \<Longrightarrow> kept k d' d'' \<Longrightarrow> kept k d d''"
  unfolding kept_def by meson

lemma kept_same [keeping_rows]:
  "db_packages d' = db_packages d \<Longrightarrow> set (db_members d) \<subseteq> set (db_members d') \<Longrightarrow> kept k d d'"
  by (auto simp: kept_def)

lemma kept_insert_package: "insert_package p d = (x, d') \<Longrightarrow> kept k d d'"
  by (auto simp: insert_package_def insert_tags_def kept_def split: if_splits)

lemma kept_add_version:
  assumes "add_version now p m d = Inr (x, d')"
  shows "kept k d d'"
proof -
  obtain y d1 where ins: "insert_package p d = (y, d1)" by (cases "insert_package p d")
  then have "db_packages d' = db_packages d1" "set (db_members d1) \<subseteq> set (db_members d')"
    using assms by (auto simp: add_version_def insert_membership_def bind_result_def Let_def split: if_splits)
  then show ?thesis using kept_trans [OF kept_insert_package [OF ins] kept_same] by blast
qed

lemma kept_remove: "version_key i v \<noteq> k \<Longrightarrow> remove_membership feed i v d = Inr (x, d') \<Longrightarrow> kept k d d'"
  by (auto simp: kept_def remove_membership_def member_at_def member_key_def member_version_def)

lemma kept_delete_data:
  assumes "version_key i v \<noteq> k" "delete_package_data i v d = Inr (x, d')"
  shows "kept k d d'"
proof -
  have "row_at r_key k (db_packages d') = row_at r_key k (db_packages d)"
    "set (db_members d') = {m \<in> set (db_members d). member_version m \<noteq> version_key i v} \<or> db_members d' = db_members d"
    using assms by (auto simp: delete_package_data_def Let_def row_at_delete_at split: if_splits)
  then show ?thesis using assms(1) unfolding kept_def by auto
qed

lemma kept_put_member:
  assumes "m \<in> set rows" "member_version m = k" "\<not> m_pending m" "member_version row \<noteq> k"
  shows "\<exists>m' \<in> set (put_member row rows). member_version m' = k \<and> \<not> m_pending m'"
proof -
  have "member_key m \<noteq> member_key row" using assms by (auto simp: member_version_key)
  then have "m \<in> set (put_member row rows)" using assms(1) by (auto simp: put_member_def update_rows_def image_iff)
  then show ?thesis using assms by blast
qed

lemma kept_replace:
  assumes "joins feed p m" "package_key q \<noteq> k" "version_key (p_id p) (p_version p) \<noteq> k"
    and "replace_version now q m d = Inr (x, d')"
  shows "kept k d d'"
proof -
  have d': "db_members d' = put_member (member_row_of now m 0) (db_members d)"
    "db_packages d' = put_package q (db_packages d)"
    using assms(4) by (auto simp: replace_version_def replace_rows_put insert_tags_def Let_def split: if_splits)
  have "row_at r_key k (put_package q rows) = row_at r_key k rows" for rows
    using assms(2)
    by (cases "row_at r_key k rows")
      (auto simp: put_package_def row_at_update bind_package_def dest!: row_at_Some)
  then show ?thesis
    using kept_put_member [of _ "db_members d" k "member_row_of now m 0"] joins_row(2) [OF assms(1), of now] assms(3)
    unfolding kept_def d' by auto
qed

lemma kept_flags:
  "kept k d (foldl (\<lambda>d (feed, o'). d\<lparr>db_members := update_rows (\<lambda>r. member_key r = (feed, key))
                    (set_flag o') (db_members d)\<rparr>) d verdicts)"
proof (induction verdicts arbitrary: d)
  case (Cons x verdicts)
  have "kept k d (d\<lparr>db_members := update_rows P (set_flag o') (db_members d)\<rparr>)" for P o'
  proof -
    have same: "member_version (set_flag o' m) = member_version m" for m :: member_row
      by (simp add: member_version_def)
    show ?thesis
      unfolding kept_def
    proof (intro conjI ballI impI)
      fix m assume m: "m \<in> set (db_members d)" "member_version m = k \<and> \<not> m_pending m"
      let ?m = "if P m then set_flag o' m else m"
      have "?m \<in> set (update_rows P (set_flag o') (db_members d))" using m(1) by (auto simp: set_update_rows)
      moreover have "member_version ?m = k \<and> \<not> m_pending ?m" using m(2) by (simp add: same)
      ultimately show "\<exists>m' \<in> set (db_members (d\<lparr>db_members := update_rows P (set_flag o') (db_members d)\<rparr>)).
          member_version m' = k \<and> \<not> m_pending m'"
        by auto
    qed simp
  qed
  from kept_trans [OF this Cons.IH] show ?case by (simp split: prod.splits)
qed (simp add: kept_same)

lemma kept_replace_pending:
  assumes "joins feed p m" "package_key q \<noteq> k" "version_key (p_id p) (p_version p) \<noteq> k"
    and "replace_pending_version now q m drops others d = Inr (x, d')"
  shows "kept k d d'"
proof -
  let ?flags = "\<lambda>d verdicts. foldl (\<lambda>d (feed, o'). d\<lparr>db_members := update_rows
                  (\<lambda>r. member_key r = (feed, package_key q)) (set_flag o') (db_members d)\<rparr>) d verdicts"
  obtain u d1 verdicts where d1: "replace_version now q m d = Inr (u, d1)"
    and d': "db_packages d' = db_packages (?flags d1 verdicts)" "db_members d' = db_members (?flags d1 verdicts)"
    using assms(4)
    by (auto simp: replace_pending_version_def Let_def result_ok split: if_splits option.splits)
  have "kept k (?flags d1 verdicts) d'" by (rule kept_same) (simp_all add: d')
  then show ?thesis using kept_replace [OF assms(1-3) d1] kept_flags kept_trans by meson
qed

section \<open>What is secured\<close>

text \<open>The row, an approval, and a payload with the digest the row records.\<close>

definition secured ::
    "(string \<Rightarrow> string) \<Rightarrow> string \<Rightarrow> nuget_version \<Rightarrow> package \<Rightarrow> path \<Rightarrow> db \<Rightarrow> files_view \<Rightarrow> bool" where
  "secured digest i v pkg p d fs \<longleftrightarrow>
     get_package_data i v d = Inr (Some pkg) \<and> approved_in i v d \<noteq> [] \<and>
     (\<exists>bytes. fs p = Some bytes \<and> digest bytes = p_package_hash pkg)"

lemma approved_in_iff:
  "approved_in i v d \<noteq> [] \<longleftrightarrow> (\<exists>m \<in> set (db_members d). member_version m = version_key i v \<and> \<not> m_pending m)"
  unfolding approved_in_empty by blast

lemma secured_kept:
  assumes "secured digest i v pkg p d fs" "kept (version_key i v) d d'"
  shows "secured digest i v pkg p d' fs"
proof -
  obtain row where row: "row_at r_key (version_key i v) (db_packages d) = Some row"
    using assms(1) by (auto simp: secured_def get_package_data_def split: option.splits)
  then have "row_at r_key (version_key i v) (db_packages d') = Some row" using assms(2) by (simp add: kept_def)
  then have "get_package_data i v d' = get_package_data i v d" using row by (simp add: get_package_data_def)
  moreover have "approved_in i v d' \<noteq> []"
    using assms unfolding secured_def approved_in_iff kept_def by blast
  ultimately show ?thesis using assms(1) by (simp add: secured_def)
qed

lemma keeps_secured_db:
  "(\<And>d a d'. oper d = Inr (a, d') \<Longrightarrow> kept (version_key i v) d d') \<Longrightarrow>
   keeps (on_state (secured digest i v pkg p)) (run_db oper)"
  by (rule keeps_run_db) (rule secured_kept)

lemma keeps_secured_db_at:
  "(\<And>now d a d'. oper now d = Inr (a, d') \<Longrightarrow> kept (version_key i v) d d') \<Longrightarrow>
   keeps (on_state (secured digest i v pkg p)) (run_db_at oper)"
  unfolding run_db_at_def by (intro keeping keeps_secured_db)

lemma keeps_secured_files:
  "only_touches (\<lambda>q. q \<noteq> p) m \<Longrightarrow> keeps (on_state (secured digest i v pkg p)) m"
  by (rule keeps_touching) (auto simp: secured_def)

section \<open>A push of another version\<close>

lemma other_place:
  assumes "package_path i (normalized v) = Inr p" "version_key j u \<noteq> version_key i v"
  shows "package_path j (normalized u) = Inr q \<Longrightarrow> q \<noteq> p" "aux_path j (normalized u) kind = Inr q \<Longrightarrow> q \<noteq> p"
    "under [to_ascii_lowercase j, to_ascii_lowercase (normalized u)] q \<Longrightarrow> q \<noteq> p"
  using package_path_eq [OF assms(1)] assms(2)
  by (auto simp: version_key_def canonical_id_def under_def aux_path_def result_ok
      dest!: package_path_eq version_dir_Inr)

lemma staged_place: "package_path i x = Inr p \<Longrightarrow> staged q \<Longrightarrow> q \<noteq> p"
  by (auto simp: staged_def dest!: package_path_dir)

lemma keeps_read_when [keeping]: "keeps P m \<Longrightarrow> keeps P (read_when b m)"
  unfolding read_when_def ok_or_none_def by (intro keeping)

text \<open>The version pushed is not the secured one.\<close>

definition files_apart :: "string \<Rightarrow> nuget_version \<Rightarrow> path \<Rightarrow> string \<Rightarrow> nuget_version \<Rightarrow> bool" where
  "files_apart i v p j u \<longleftrightarrow>
     package_path i (normalized v) = Inr p \<and> validate_package_id i = Inr () \<and>
     version_key j u \<noteq> version_key i v"

lemma spared_places:
  assumes "files_apart i v p j u"
  shows "blob_path sha \<noteq> Inr p" "hd p \<noteq> ''.symbols''" "staged q \<Longrightarrow> q \<noteq> p"
    "package_path j (normalized u) \<noteq> Inr p" "aux_path j (normalized u) kind \<noteq> Inr p"
    "\<not> under [to_ascii_lowercase j, to_ascii_lowercase (normalized u)] p"
proof -
  have place: "package_path i (normalized v) = Inr p" and valid: "validate_package_id i = Inr ()"
    and other: "version_key j u \<noteq> version_key i v"
    using assms by (auto simp: files_apart_def)
  show "blob_path sha \<noteq> Inr p" "hd p \<noteq> ''.symbols''"
    using package_path_plain [OF valid place] by (auto dest!: blob_path_eq)
  show "staged q \<Longrightarrow> q \<noteq> p" by (rule staged_place [OF place])
  show "package_path j (normalized u) \<noteq> Inr p" "aux_path j (normalized u) kind \<noteq> Inr p"
    "\<not> under [to_ascii_lowercase j, to_ascii_lowercase (normalized u)] p"
    using other_place [OF place other] by blast+
qed

lemma spared_files:
  fixes digest :: "string \<Rightarrow> string" and pkg :: package
  assumes "files_apart i v p j u"
  defines "safe \<equiv> on_state (secured digest i v pkg p)"
  shows "keeps safe (delete_blob sha)" "keeps safe (storage_delete_symbol key n)"
    "keeps safe (storage_delete j (normalized u))" "keeps safe (store_aux j (normalized u) kind bytes)"
    "staged temp \<Longrightarrow> keeps safe (store_package j (normalized u) temp)"
    "staged temp \<Longrightarrow> keeps safe (fs_remove_file temp)" "staged temp \<Longrightarrow> keeps safe (fs_hard_link q temp)"
    "keeps safe (get_package a x)" "keeps safe (get_aux a x kind)" "keeps safe (package_exists a x)"
    "keeps safe (fresh_name prefix)"
  unfolding safe_def store_package_def store_aux_def storage_delete_def delete_blob_def
    storage_delete_symbol_def get_package_def get_if_exists_def get_aux_def package_exists_def
  using spared_places [OF assms(1)]
  by (auto intro!: keeps_secured_files touching_lift touching split: sum.splits
      dest!: symbol_path_hd version_dir_Inr)

lemma spared_purge:
  assumes "files_apart i v p j u"
  shows "keeps (on_state (secured digest i v pkg p)) (purge_symbols j u)"
    "keeps (on_state (secured digest i v pkg p)) (run_db (delete_package_data j u))"
    "keeps (on_state (secured digest i v pkg p)) (purge_global_data j u)"
    "keeps (on_state (secured digest i v pkg p)) (run_db (remove_membership feed j u))"
proof -
  have other: "version_key j u \<noteq> version_key i v" using assms by (simp add: files_apart_def)
  show symbols: "keeps (on_state (secured digest i v pkg p)) (purge_symbols j u)"
    unfolding purge_symbols_def
    by (intro keeping spared_files [OF assms] keeps_secured_db)
      (auto simp: delete_symbols_def intro!: kept_same)
  show data: "keeps (on_state (secured digest i v pkg p)) (run_db (delete_package_data j u))"
    "keeps (on_state (secured digest i v pkg p)) (run_db (remove_membership feed j u))"
    by (rule keeps_secured_db, erule kept_delete_data [OF other] kept_remove [OF other])+
  show "keeps (on_state (secured digest i v pkg p)) (purge_global_data j u)"
    unfolding purge_global_data_def purge_file_blobs_def Let_def
    by (intro keeping spared_files [OF assms] symbols data)
qed

lemma keeps_answers:
  assumes "keeps P m" "answers R m" "\<And>a. R a \<Longrightarrow> keeps P (f a)"
  shows "keeps P (and_then m f)"
  unfolding keeps_def
proof (intro allI impI)
  fix w assume P: "P w"
  obtain r w' where m: "m w = (r, w')" by (cases "m w")
  show "P (snd (and_then m f w))"
    using keepsD [OF assms(1) P m] answersD [OF assms(2)] assms(3) m
    by (cases r) (auto simp: and_then_def keeps_def)
qed

lemma keep_aside_answers: "staged temp \<Longrightarrow> answers is_backup (keep_aside i x temp)"
  unfolding keep_aside_def Let_def
  by (intro answering) (auto simp: is_backup_def staged_sibling split: option.splits)

lemma keeps_ok_or_none [keeping]: "keeps P m \<Longrightarrow> keeps P (ok_or_none m)"
  unfolding ok_or_none_def by (intro keeping)

lemma spared_storing:
  assumes "files_apart i v p j u" "staged temp"
  shows "keeps (on_state (secured digest i v pkg p)) (store_sidecars j (normalized u) sc)"
    "keeps (on_state (secured digest i v pkg p)) (store_payload j (normalized u) temp sc)"
    "keeps (on_state (secured digest i v pkg p)) (keep_aside j (normalized u) temp)"
    "is_backup b \<Longrightarrow> keeps (on_state (secured digest i v pkg p)) (drop_backup b)"
    "is_backup b \<Longrightarrow> keeps (on_state (secured digest i v pkg p)) (put_back j (normalized u) sc b n r c)"
proof -
  note files = spared_files [OF assms(1)]
  show sidecars: "keeps (on_state (secured digest i v pkg p)) (store_sidecars j (normalized u) sc)" for sc
    unfolding store_sidecars_def store_optional_def by (intro keeping files)
  show "keeps (on_state (secured digest i v pkg p)) (store_payload j (normalized u) temp sc)"
    unfolding store_payload_def by (intro keeping files assms(2) sidecars)
  show "keeps (on_state (secured digest i v pkg p)) (keep_aside j (normalized u) temp)"
    unfolding keep_aside_def Let_def by (intro keeping files staged_sibling assms(2))
  show "keeps (on_state (secured digest i v pkg p)) (drop_backup b)" if "is_backup b"
    using that files unfolding drop_backup_def is_backup_def by (cases b) (auto intro!: keeping)
  show "keeps (on_state (secured digest i v pkg p)) (put_back j (normalized u) sc b n r c)" if "is_backup b"
    using that files sidecars unfolding put_back_def is_backup_def by (cases b; cases n) (auto intro!: keeping)
qed

lemma spared_swap:
  assumes "files_apart i v p (p_id q) (p_version q)" "joins feed q m" "package_key q' = package_key q"
  shows "keeps (on_state (secured digest i v pkg p)) (swap_replace sw q' m)"
proof -
  have other: "version_key (p_id q) (p_version q) \<noteq> version_key i v" using assms(1) by (simp add: files_apart_def)
  then have other': "package_key q' \<noteq> version_key i v"
    using assms(3) by (simp add: package_key_version_key)
  show ?thesis
  proof (cases sw)
    case Swap_Any
    show ?thesis
      unfolding swap_replace_def Swap_Any swap.case
      by (intro keeping keeps_secured_db_at) (rule kept_replace [OF assms(2) other' other])
  next
    case (Swap_Pending drops others)
    show ?thesis
      unfolding swap_replace_def Swap_Pending swap.case
      by (intro keeps_secured_db_at) (rule kept_replace_pending [OF assms(2) other' other])
  qed
qed

lemma spared_overwrite:
  assumes "files_apart i v p (p_id q) (p_version q)" "joins feed q m" "staged temp"
  shows "keeps (on_state (secured digest i v pkg p)) (overwrite temp q existing m sc sw)"
proof -
  note files = spared_files [OF assms(1)] spared_storing [OF assms(1,3)]
  have swap: "keeps (on_state (secured digest i v pkg p)) (swap_replace sw q m)"
    by (rule spared_swap [OF assms(1,2) refl])
  show ?thesis
    unfolding overwrite_def Let_def normalized_version_def
    by (rule keeps_answers [OF files(14) keep_aside_answers [OF assms(3)]])
      (intro keeping files swap assms(3))
qed


text \<open>What is read of a version's row names that version.\<close>

definition legible :: "db \<Rightarrow> bool" where
  "legible d \<longleftrightarrow> db_ok d \<and> list_all (\<lambda>r. parsed (r_package r)) (db_packages d)"

definition named :: "key \<Rightarrow> package option \<Rightarrow> bool" where
  "named k ex = (case ex of None \<Rightarrow> True | Some e \<Rightarrow> package_key e = k)"

lemma data_named:
  assumes "legible d" "get_package_data j u d = Inr ex"
  shows "named (version_key j u) ex"
proof (cases ex)
  case (Some e)
  then obtain r where r: "row_at r_key (version_key j u) (db_packages d) = Some r" "row_to_package r = Inr e"
    using assms(2) by (auto simp: get_package_data_def result_ok split: option.splits)
  have "row_ok r" "parsed (r_package r)" "r_key r = version_key j u"
    using row_at_Some [OF r(1)] assms(1) by (auto simp: legible_def db_ok_def list_all_iff)
  then have "package_key e = version_key j u"
    using r(2)
    by (auto simp: row_to_package_def build_package_def parsed_def row_ok_def package_key_def lower_id_def
        normalized_version_def)
  then show ?thesis by (simp add: named_def Some)
qed (simp add: named_def)

lemma spared_finish:
  fixes digest :: "string \<Rightarrow> string" and pkg :: package
  assumes "files_apart i v p (p_id q) (p_version q)"
  defines "safe \<equiv> on_state (secured digest i v pkg p)"
  shows "hoare (on_state (\<lambda>d fs. secured digest i v pkg p d fs \<and> legible d)) (finish_purge feed q)
     (\<lambda>(ex, _) w. safe w \<and> named (package_key q) ex) (\<lambda>_. safe)"
proof -
  note purge = spared_purge [OF assms(1)]
  let ?named = "named (package_key q)"
  have data: "hoare (on_state (\<lambda>d fs. secured digest i v pkg p d fs \<and> legible d))
      (query_result (get_package_data (p_id q) (p_version q))) (\<lambda>ex w. safe w \<and> ?named ex) (\<lambda>_. safe)"
    by (rule hoare_weaken [OF hoare_query_result
            [where P = "\<lambda>d fs. secured digest i v pkg p d fs \<and> legible d" and E = "secured digest i v pkg p"]])
      (auto simp: safe_def on_state_def package_key_version_key [symmetric] dest: data_named)
  have rest: "hoare (\<lambda>w. safe w \<and> ?named ex)
     (and_then (query (get_membership feed (p_id q) (p_version q))) (\<lambda>previous.
      and_then (if ex = None then ok ex
                else and_then (query (feed_count (p_id q) (p_version q))) (\<lambda>n.
                     if n = 0 then and_then (purge_global_data (p_id q) (p_version q)) (\<lambda>_. ok None)
                     else ok ex)) (\<lambda>existing.
      if existing = None \<and> previous \<noteq> None
      then and_then (run_db (remove_membership feed (p_id q) (p_version q))) (\<lambda>_. ok (existing, None))
      else ok (existing, previous))))
     (\<lambda>(ex, _) w. safe w \<and> ?named ex) (\<lambda>_. safe)" (is "hoare _ ?m _ _") for ex
  proof (rule hoareI)
    fix w r w' assume w: "safe w \<and> ?named ex" and run: "?m w = (r, w')"
    have "keeps safe ?m"
      unfolding safe_def by (intro keeping purge)
    moreover have "answers (\<lambda>(ex, _). ?named ex) ?m"
      by (rule answers_then, rule answers_bind [where R = ?named])
        (use w in \<open>auto intro!: answering simp: named_def\<close>)
    ultimately show "case r of Inr a \<Rightarrow> (case a of (ex, _) \<Rightarrow> \<lambda>w. safe w \<and> ?named ex) w' | Inl _ \<Rightarrow> safe w'"
      using w keepsD run answersD by (cases r) fastforce+
  qed
  show ?thesis
    unfolding finish_purge_def Let_def by (rule hoare_bind [OF data rest])
qed

lemma spared_push:
  fixes digest :: "string \<Rightarrow> string" and pkg :: package
  assumes "files_apart i v p (p_id (in_package inc)) (p_version (in_package inc))" "fits inc" "staged temp"
  defines "safe \<equiv> on_state (secured digest i v pkg p)"
  shows "keeps safe (index_new feed temp opts inc)"
    "keeps safe (index_shared lib feed temp opts inc existing seen)"
    "package_key existing = package_key (in_package inc) \<Longrightarrow>
     keeps safe (index_again lib feed temp opts inc existing previous seen)"
proof -
  note files = spared_files [OF assms(1)] spared_storing [OF assms(1,3)] spared_purge [OF assms(1)]
  have add: "keeps (on_state (secured digest i v pkg p)) (run_db_at (\<lambda>now. add_version now q m))" for q m
    by (rule keeps_secured_db_at) (rule kept_add_version)
  show "keeps safe (index_new feed temp opts inc)"
    unfolding index_new_def Let_def safe_def by (intro keeping add files assms(3))
  show "keeps safe (index_shared lib feed temp opts inc existing seen)"
    unfolding index_shared_def Let_def safe_def by (intro keeping add files assms(3))
  assume key: "package_key existing = package_key (in_package inc)"
  let ?m = "replaced_membership feed opts inc previous"
  have "keeps safe (swap_replace sw existing (?m b))"
    "keeps safe (overwrite temp (in_package inc) existing (?m b) sc sw)" for sw b sc
    unfolding safe_def
    by (rule spared_swap [OF assms(1) replaced_joins [OF assms(2)] key],
        rule spared_overwrite [OF assms(1) replaced_joins [OF assms(2)] assms(3)])
  moreover have "keeps safe (may_overwrite lib opts inc existing previous b)" for b
    unfolding safe_def by (rule keeps_may_overwrite)
  moreover have "keeps safe (delete_unreferenced_blobs fs)" for fs
    unfolding safe_def delete_unreferenced_blobs_def by (intro keeping files)
  ultimately show "keeps safe (index_again lib feed temp opts inc existing previous seen)"
    unfolding index_again_def Let_def
    by (intro keeping) (auto simp: safe_def intro!: keeping files assms(3))
qed

lemma hoare_pure: "(\<phi> \<Longrightarrow> keeps P m) \<Longrightarrow> hoare (\<lambda>w. P w \<and> \<phi>) m (\<lambda>_. P) (\<lambda>_. P)"
  by (cases \<phi>) (simp_all add: hoare_keeps hoare_false)

lemma spared_incoming:
  assumes "files_apart i v p (p_id (in_package inc)) (p_version (in_package inc))" "fits inc" "staged temp"
  shows "hoare (on_state (\<lambda>d fs. secured digest i v pkg p d fs \<and> legible d))
     (index_incoming lib feed temp opts inc)
     (\<lambda>_. on_state (secured digest i v pkg p)) (\<lambda>_. on_state (secured digest i v pkg p))"
  unfolding index_incoming_def Let_def
proof (rule hoare_bind [OF spared_finish [OF assms(1)]])
  fix found :: "package option \<times> membership option"
  obtain ex prev where found: "found = (ex, prev)" by (cases found)
  let ?m = "case ex of None \<Rightarrow> index_new feed temp opts inc
      | Some existing \<Rightarrow> and_then (package_exists (p_id (in_package inc)) (normalized (p_version (in_package inc))))
          (\<lambda>seen. case prev of None \<Rightarrow> index_shared lib feed temp opts inc existing seen
             | Some previous \<Rightarrow> index_again lib feed temp opts inc existing previous seen)"
  have "keeps (on_state (secured digest i v pkg p)) ?m" if "named (package_key (in_package inc)) ex"
    using that spared_push [OF assms] spared_files(10) [OF assms(1)]
    by (auto simp: named_def intro!: keeping split: option.splits)
  then show "hoare (case found of (ex, _) \<Rightarrow> \<lambda>w. on_state (secured digest i v pkg p) w \<and>
        named (package_key (in_package inc)) ex)
      (case found of (None, _) \<Rightarrow> index_new feed temp opts inc
        | (Some existing, previous) \<Rightarrow> and_then (package_exists (p_id (in_package inc)) (normalized (p_version (in_package inc))))
          (\<lambda>seen. case previous of None \<Rightarrow> index_shared lib feed temp opts inc existing seen
             | Some previous \<Rightarrow> index_again lib feed temp opts inc existing previous seen))
      (\<lambda>_. on_state (secured digest i v pkg p)) (\<lambda>_. on_state (secured digest i v pkg p))"
    by (cases ex) (simp_all add: found hoare_pure)
qed


section \<open>A push of the version itself\<close>

text \<open>Steps that change neither rows nor files.\<close>

definition quiet :: "'a io \<Rightarrow> bool" where
  "quiet m \<longleftrightarrow> (\<forall>w. let w' = snd (m w) in w_db w' = w_db w \<and> w_files w' = w_files w \<and> w_fresh w' = w_fresh w)"

lemma quietD: "quiet m \<Longrightarrow> m w = (r, w') \<Longrightarrow> w_db w' = w_db w \<and> w_files w' = w_files w \<and> w_fresh w' = w_fresh w"
  unfolding quiet_def Let_def by (metis snd_conv)

lemma db_fault_quiet: "db_fault w = (b, w') \<Longrightarrow> w_db w' = w_db w \<and> w_files w' = w_files w \<and> w_fresh w' = w_fresh w"
  by (auto simp: db_fault_def split: list.splits)

lemma quiet_query: "quiet (query_result q)" "quiet (query q')"
  unfolding query_def query_result_def quiet_def run_db_def Let_def
  using db_fault_quiet by (auto split: prod.splits sum.splits simp: result_ok)

lemma quiet_exists: "quiet (fs_exists q)"
  by (auto simp: quiet_def fs_exists_def fs_call_def no_trace_def and_then_def attempt_def ok_def look_def
      fs_fault_def split: prod.splits option.splits sum.splits list.splits)

lemma quiet_package_exists: "quiet (package_exists i x)"
  by (cases "package_path i x") (simp_all add: package_exists_def quiet_exists, simp add: quiet_def ok_def)

lemma quiet_pure: "quiet (ok a)" "quiet (fail e)" "quiet (lift_result r)" "quiet (look f)"
  by (simp_all add: quiet_def io_simps)

lemma quiet_read: "quiet (fs_read q)"
  by (auto simp: quiet_def fs_read_def fs_call_def no_trace_def fs_fault_def
      split: prod.splits option.splits list.splits)

lemma quiet_and_then:
  assumes "quiet m" "\<And>a. quiet (f a)"
  shows "quiet (and_then m f)"
  unfolding quiet_def Let_def
proof
  fix w
  obtain r1 w1 where m: "m w = (r1, w1)" by (cases "m w")
  show "w_db (snd (and_then m f w)) = w_db w \<and> w_files (snd (and_then m f w)) = w_files w \<and>
      w_fresh (snd (and_then m f w)) = w_fresh w"
    using quietD [OF assms(1) m] quietD [OF assms(2)] m
    by (cases r1) (simp_all add: and_then_def, metis prod.collapse)
qed

lemma quiet_read_incoming: "quiet (read_incoming lib temp summary opts)"
  unfolding read_incoming_def read_archive_at_def extract_sidecar_def Let_def
  by (intro quiet_and_then quiet_read quiet_pure)
    (auto intro!: quiet_and_then quiet_read quiet_pure split: option.splits)

text \<open>
  The pushed file is of the same version: its digest is what the upload measured, and the
  names the store will stage under are free.
\<close>

definition waiting ::
    "(string \<Rightarrow> string) \<Rightarrow> string \<Rightarrow> nuget_version \<Rightarrow> package \<Rightarrow> path \<Rightarrow> path \<Rightarrow> string \<Rightarrow> world \<Rightarrow> bool" where
  "waiting digest i v pkg p temp up w \<longleftrightarrow>
     on_state (secured digest i v pkg p) w \<and> file_at_path w temp = Some up \<and> fresh_ok w"

lemma waiting_quiet:
  "w_db w' = w_db w \<and> w_files w' = w_files w \<and> w_fresh w' = w_fresh w \<Longrightarrow>
   waiting digest i v pkg p temp up w' = waiting digest i v pkg p temp up w"
  by (simp add: waiting_def on_state_def file_at_path_def [abs_def] fresh_ok_def)

lemma keeps_waiting: "quiet m \<Longrightarrow> keeps (waiting digest i v pkg p temp up) m"
  unfolding keeps_def using waiting_quiet quietD by (metis prod.collapse)

lemma hoare_waiting_query:
  "hoare (waiting digest i v pkg p temp up) (query_result q)
     (\<lambda>a w. waiting digest i v pkg p temp up w \<and> q (w_db w) = Inr a) (\<lambda>_. waiting digest i v pkg p temp up)"
proof (rule hoareI)
  fix w r w' assume w: "waiting digest i v pkg p temp up w" and run: "query_result q w = (r, w')"
  from w waiting_quiet [OF quietD [OF quiet_query(1) run]] have "waiting digest i v pkg p temp up w'" by blast
  moreover have "q (w_db w') = Inr a" if "r = Inr a" for a
    using run [unfolded query_result_def]
    by (cases rule: run_db_cases) (use that in \<open>auto simp: result_ok\<close>)
  ultimately show "case r of Inr a \<Rightarrow> waiting digest i v pkg p temp up w' \<and> q (w_db w') = Inr a
      | Inl _ \<Rightarrow> waiting digest i v pkg p temp up w'"
    by (cases r) auto
qed

lemma same_place:
  assumes "version_key j u = version_key i v" "validate_package_id j = Inr ()" "validate_package_id i = Inr ()"
    "package_path i (normalized v) = Inr p"
  shows "package_path j (normalized u) = Inr p"
proof -
  have "safe_segment j = Inr j" "safe_segment i = Inr i"
    using assms(2,3) safe_segment_plain validate_package_id_plain(1) by blast+
  moreover have "to_ascii_lowercase j = to_ascii_lowercase i" "normalized u = normalized v"
    using assms(1) by (auto simp: version_key_def canonical_id_def)
  ultimately show ?thesis
    using assms(4) by (simp add: package_path_def version_dir_def versioned_name_def)
qed

lemma keyed_reads:
  assumes "version_key j u = version_key i v"
  shows "get_package_data j u d = get_package_data i v d" "approved_in j u d = approved_in i v d"
    "feed_count j u d = feed_count i v d"
  using assms by (simp_all add: get_package_data_def approved_in_def feed_count_def)

lemma approved_held: "approved_in i v d \<noteq> [] \<Longrightarrow> feed_count i v d \<noteq> 0"
  by (auto simp: approved_in_iff feed_count_def count_rows_0)

lemma hoare_fact: "(\<phi> \<Longrightarrow> hoare P m Q E) \<Longrightarrow> hoare (\<lambda>w. P w \<and> \<phi>) m Q E"
  by (cases \<phi>) (simp_all add: hoare_false)

lemma hoare_never: "\<not> \<phi> \<Longrightarrow> hoare (\<lambda>w. P w \<and> \<phi>) m Q E"
  by (rule hoare_fact) simp

lemma waiting_finish:
  fixes digest :: "string \<Rightarrow> string" and pkg :: package and p temp :: path and up :: string
  assumes "version_key (p_id q) (p_version q) = version_key i v"
  defines "W \<equiv> waiting digest i v pkg p temp up"
  shows "hoare W (finish_purge feed q) (\<lambda>(ex, _) w. W w \<and> ex = Some pkg) (\<lambda>_. W)"
proof -
  note reads = keyed_reads [OF assms(1)]
  have W: "W w \<Longrightarrow> get_package_data i v (w_db w) = Inr (Some pkg) \<and> feed_count i v (w_db w) \<noteq> 0" for w
    using approved_held by (auto simp: W_def waiting_def on_state_def secured_def)
  have data: "hoare W (query_result (get_package_data i v)) (\<lambda>ex w. W w \<and> ex = Some pkg) (\<lambda>_. W)"
    unfolding W_def
    by (rule hoare_weaken [OF hoare_waiting_query]) (use W in \<open>auto simp: W_def\<close>)
  have held: "hoare W (query (feed_count i v)) (\<lambda>n w. W w \<and> n \<noteq> 0) (\<lambda>_. W)"
    unfolding W_def query_def
    by (rule hoare_weaken [OF hoare_waiting_query]) (use W in \<open>auto simp: W_def\<close>)
  have prev: "hoare W (query (get_membership feed (p_id q) (p_version q))) (\<lambda>_. W) (\<lambda>_. W)"
    unfolding W_def by (rule hoare_keeps [OF keeps_waiting [OF quiet_query(2)]])
  have kept: "hoare W (and_then (query (feed_count i v)) (\<lambda>n.
      if n = 0 then and_then (purge_global_data (p_id q) (p_version q)) (\<lambda>_. ok None) else ok (Some pkg)))
      (\<lambda>ex w. W w \<and> ex = Some pkg) (\<lambda>_. W)"
    by (rule hoare_bind [OF held]) (auto intro!: hoare_fact hoare_ok hoare_false)
  have last: "hoare (\<lambda>w. W w \<and> ex = Some pkg) (if ex = None \<and> b then m else ok (ex, prev))
      (\<lambda>(ex, _) w. W w \<and> ex = Some pkg) (\<lambda>_. W)" for ex b prev and m :: "(package option \<times> membership option) io"
    by (rule hoare_fact) (auto intro!: hoare_ok)
  show ?thesis
    unfolding finish_purge_def Let_def reads
  proof (rule hoare_bind [OF data], rule hoare_fact)
    fix ex assume ex: "ex = Some pkg"
    show "hoare W (and_then (query (get_membership feed (p_id q) (p_version q))) (\<lambda>previous.
      and_then (if ex = None then ok ex
                else and_then (query (feed_count i v)) (\<lambda>n.
                     if n = 0 then and_then (purge_global_data (p_id q) (p_version q)) (\<lambda>_. ok None)
                     else ok ex)) (\<lambda>existing.
      if existing = None \<and> previous \<noteq> None
      then and_then (run_db (remove_membership feed (p_id q) (p_version q))) (\<lambda>_. ok (existing, None))
      else ok (existing, previous))))
      (\<lambda>(ex, _) w. W w \<and> ex = Some pkg) (\<lambda>_. W)"
      unfolding ex by (rule hoare_bind [OF prev], rule hoare_bind [OF _ last]) (simp add: kept)
  qed
qed

text \<open>Under a mode that does not overwrite, the push stops there for a feed that has it.\<close>

lemma waiting_refused:
  fixes digest :: "string \<Rightarrow> string" and pkg :: package and p temp :: path and up :: string
  assumes "version_key (p_id (in_package inc)) (p_version (in_package inc)) = version_key i v"
    and "served_versions_are_immutable (io_overwrite opts)"
  defines "W \<equiv> waiting digest i v pkg p temp up"
  shows "hoare W (may_overwrite lib opts inc existing previous same) (\<lambda>_ _. False) (\<lambda>_. W)"
  unfolding may_overwrite_def Let_def keyed_reads [OF assms(1)]
proof (rule hoare_bind [where R = "\<lambda>_ _. False"])
  have approved: "hoare W (query (approved_in i v)) (\<lambda>a w. W w \<and> a \<noteq> []) (\<lambda>_. W)"
    unfolding W_def query_def
    by (rule hoare_weaken [OF hoare_waiting_query])
      (auto simp: W_def waiting_def on_state_def secured_def)
  show "hoare W (if io_overwrite opts = Overwrite_Pending
      then and_then (query (approved_in i v)) (\<lambda>approved.
           if approved \<noteq> [] then fail (VersionExists (approved_refusal existing approved)) else ok ())
      else if \<not> overwrite_allows (io_overwrite opts) (is_prerelease (p_version (in_package inc)))
      then and_then (look w_now) (\<lambda>now. fail (VersionExists (already_here lib (p_id (in_package inc))
             (p_version (in_package inc)) (Some previous) (io_overwrite opts) now)))
      else ok ()) (\<lambda>_ _. False) (\<lambda>_. W)"
    using assms(2)
    by (auto simp: served_versions_are_immutable_def overwrite_allows_def
        intro!: hoare_bind [OF approved] hoare_fact hoare_fail hoare_look)
qed (rule hoare_false)

lemma aux_place:
  assumes "package_path i x = Inr p"
  shows "aux_path j y kind \<noteq> Inr p"
proof -
  have "last (last p) = CHR ''g''"
    using assms by (auto simp: package_path_def result_ok versioned_name_def)
  moreover have "last (last q) \<noteq> CHR ''g''" if "aux_path j y kind = Inr q" for q
    using that by (cases kind) (auto simp: aux_path_def result_ok)
  ultimately show ?thesis by blast
qed

lemma waiting_stored:
  fixes digest :: "string \<Rightarrow> string" and pkg :: package and p temp :: path and up :: string
  assumes "package_path j x = Inr p" "staged temp" "digest up = p_package_hash pkg"
  shows "hoare (waiting digest i v pkg p temp up) (store_payload j x temp sc)
     (\<lambda>_. on_state (secured digest i v pkg p)) (\<lambda>_. on_state (secured digest i v pkg p))"
  unfolding store_payload_def
proof (rule hoare_bind)
  show "hoare (waiting digest i v pkg p temp up) (store_package j x temp)
     (\<lambda>_. on_state (secured digest i v pkg p)) (\<lambda>_. on_state (secured digest i v pkg p))"
  proof (rule hoareI)
    fix w r w' assume w: "waiting digest i v pkg p temp up w" and run: "store_package j x temp w = (r, w')"
    have "temp \<noteq> p" by (rule staged_place [OF assms(1,2)])
    then have "whole_or_old p up r w w' \<and> w_db w' = w_db w"
      using payload.put_contract [of w temp up "(j, x)" p r w'] w run assms(1) by (auto simp: waiting_def)
    then have "on_state (secured digest i v pkg p) w'"
      using w assms(3) by (auto simp: waiting_def on_state_def secured_def whole_or_old_def split: if_splits)
    then show "case r of Inr _ \<Rightarrow> on_state (secured digest i v pkg p) w' | Inl _ \<Rightarrow> on_state (secured digest i v pkg p) w'"
      by (cases r) auto
  qed
  have "keeps (on_state (secured digest i v pkg p)) (store_aux j x kind b)" for kind b
    unfolding store_aux_def
    by (intro keeps_secured_files touching_lift touching)
      (use aux_place [OF assms(1)] staged_place [OF assms(1)] in auto)
  then show "hoare (on_state (secured digest i v pkg p)) (store_sidecars j x sc)
     (\<lambda>_. on_state (secured digest i v pkg p)) (\<lambda>_. on_state (secured digest i v pkg p))" for u :: nat
    unfolding store_sidecars_def store_optional_def by (intro hoare_keeps keeping)
qed

lemma waiting_incoming:
  fixes digest :: "string \<Rightarrow> string" and pkg :: package and p temp :: path and up :: string
  assumes "version_key (p_id (in_package inc)) (p_version (in_package inc)) = version_key i v"
    and "served_versions_are_immutable (io_overwrite opts)"
    and "package_path i (normalized v) = Inr p" "validate_package_id i = Inr ()" "fits inc" "staged temp"
    and "digest up = p_package_hash (in_package inc)"
  shows "hoare (waiting digest i v pkg p temp up) (index_incoming lib feed temp opts inc)
     (\<lambda>_. on_state (secured digest i v pkg p)) (\<lambda>_. on_state (secured digest i v pkg p))"
proof -
  define W S where "W = waiting digest i v pkg p temp up" and "S = on_state (secured digest i v pkg p)"
  let ?j = "p_id (in_package inc)" and ?x = "normalized (p_version (in_package inc))"
  have WS: "W w \<Longrightarrow> S w" for w by (simp add: W_def S_def waiting_def)
  have place: "package_path ?j ?x = Inr p"
    using same_place [OF assms(1) _ assms(4,3)] assms(5) by (simp add: fits_def)
  have keepW: "keeps W m" if "quiet m" for m :: "'b io" unfolding W_def by (rule keeps_waiting [OF that])
  have again: "hoare W (index_again lib feed temp opts inc existing previous seen) (\<lambda>_. S) (\<lambda>_. S)"
    for existing previous seen
    unfolding index_again_def Let_def
    by (rule hoare_bind [OF hoare_weaken [OF waiting_refused [OF assms(1,2)]] hoare_false])
      (auto simp: W_def WS)
  have stored: "hoare W (store_payload ?j ?x temp sc) (\<lambda>_. S) (\<lambda>_. S)" if "p_package_hash pkg = p_package_hash (in_package inc)" for sc
    unfolding W_def S_def by (rule waiting_stored [OF place assms(6)]) (simp add: that assms(7))
  have rm: "keeps S (ignoring (fs_remove_file temp))"
    unfolding S_def
    by (intro keeping keeps_secured_files touching staged_place [OF assms(3,6)])
  have place_kept: "hoare W (if seen then ignoring (fs_remove_file temp) else store_payload ?j ?x temp sc) (\<lambda>_. S) (\<lambda>_. S)"
    if "p_package_hash pkg = p_package_hash (in_package inc)" for seen sc
    by (rule hoare_if, rule hoare_weaken [OF hoare_keeps [OF rm]]) (auto simp: WS stored that)
  have add: "keeps S (run_db_at (\<lambda>now. add_version now pkg m))" for m
    unfolding S_def by (rule keeps_secured_db_at) (rule kept_add_version)
  have shared: "hoare W (index_shared lib feed temp opts inc pkg seen) (\<lambda>_. S) (\<lambda>_. S)" for seen
    unfolding index_shared_def Let_def
    by (rule hoare_if, rule hoare_look, rule hoare_fail, erule WS,
        rule hoare_bind [OF place_kept], simp, rule keeps_then [OF add], rule hoare_ok)
  have finish: "hoare W (finish_purge feed (in_package inc)) (\<lambda>(ex, _) w. W w \<and> ex = Some pkg) (\<lambda>_. S)"
    unfolding W_def S_def
    by (rule hoare_weaken [OF waiting_finish [OF assms(1)]]) (auto simp: waiting_def)
  show ?thesis
    unfolding index_incoming_def Let_def W_def [symmetric] S_def [symmetric]
  proof (rule hoare_bind [OF finish])
    fix found :: "package option \<times> membership option"
    obtain ex prev where found: "found = (ex, prev)" by (cases found)
    have "hoare W (and_then (package_exists ?j ?x) (\<lambda>seen. case prev of
        None \<Rightarrow> index_shared lib feed temp opts inc pkg seen
      | Some previous \<Rightarrow> index_again lib feed temp opts inc pkg previous seen)) (\<lambda>_. S) (\<lambda>_. S)"
      by (rule hoare_bind [where R = "\<lambda>_. W"],
          rule hoare_weaken [OF hoare_keeps [OF keepW [OF quiet_package_exists]]])
        (auto simp: WS shared again split: option.splits)
    then show "hoare (case found of (ex, _) \<Rightarrow> \<lambda>w. W w \<and> ex = Some pkg)
        (case found of (None, _) \<Rightarrow> index_new feed temp opts inc
         | (Some existing, previous) \<Rightarrow> and_then (package_exists ?j ?x) (\<lambda>seen. case previous of
             None \<Rightarrow> index_shared lib feed temp opts inc existing seen
           | Some previous \<Rightarrow> index_again lib feed temp opts inc existing previous seen))
        (\<lambda>_. S) (\<lambda>_. S)"
      by (auto simp: found intro!: hoare_fact)
  qed
qed

section \<open>Served versions are immutable\<close>

text \<open>
  C2: a served version never changes. Take a version some feed has approved, whose payload
  has the digest its row records, and any upload, measured correctly. In a mode that does not
  replace served versions, whichever version the upload is of and whatever fails on the way,
  the version's row reads as before, it is still approved, and its payload has the digest the
  row records.
\<close>
theorem served_versions_immutable:
  fixes digest :: "string \<Rightarrow> string"
  assumes "on_state (secured digest i v pkg p) w" and "legible (w_db w)" and "fresh_ok w"
    and "package_path i (normalized v) = Inr p" and "validate_package_id i = Inr ()"
    and "served_versions_are_immutable (io_overwrite opts)"
    and "staged temp" and "file_at_path w temp = Some up" and "ss_sha512 summary = digest up"
    and "index_package lib feed temp summary opts w = (r, w')"
  shows "on_state (secured digest i v pkg p) w'"
proof -
  let ?S = "on_state (secured digest i v pkg p)"
  have rm: "keeps ?S (ignoring (fs_remove_file temp))"
    by (intro keeping keeps_secured_files touching staged_place [OF assms(4,7)])
  obtain r1 w1 where read: "read_incoming lib temp summary opts w = (r1, w1)"
    by (cases "read_incoming lib temp summary opts w")
  have same: "w_db w1 = w_db w" "file_at_path w1 = file_at_path w"
    using only_touchesD [OF read_incoming_reads read] by (auto simp: fun_eq_iff)
  obtain r2 w2 where inner: "index_inner lib feed temp summary opts w = (r2, w2)"
    by (cases "index_inner lib feed temp summary opts w")
  have "?S w2"
  proof (cases r1)
    case (Inl e)
    then have "w2 = w1" using inner read by (simp add: index_inner_def and_then_def)
    then show ?thesis using assms(1) same by (simp add: on_state_def)
  next
    case (Inr inc)
    then have run: "index_incoming lib feed temp opts inc w1 = (r2, w2)"
      using inner read by (simp add: index_inner_def and_then_def)
    have fits: "fits inc" "digest up = p_package_hash (in_package inc)"
      using answersD [OF read_incoming_fits] read Inr assms(9) by (auto simp: fits_upload_def)
    show ?thesis
    proof (cases "version_key (p_id (in_package inc)) (p_version (in_package inc)) = version_key i v")
      case True
      have "waiting digest i v pkg p temp up w1"
        using assms(1,3,8) same quietD [OF quiet_read_incoming read] by (simp add: waiting_def on_state_def fresh_ok_def)
      from hoareD [OF waiting_incoming [where digest = digest and up = up, OF True assms(6,4,5) fits(1) assms(7) fits(2)] this run]
      show ?thesis by (cases r2) auto
    next
      case False
      then have "files_apart i v p (p_id (in_package inc)) (p_version (in_package inc))"
        using assms(4,5) by (simp add: files_apart_def)
      moreover have "on_state (\<lambda>d fs. secured digest i v pkg p d fs \<and> legible d) w1"
        using assms(1,2) same by (simp add: on_state_def)
      ultimately show ?thesis
        using hoareD [OF spared_incoming [OF _ fits(1) assms(7)] _ run] by (cases r2) auto
    qed
  qed
  then show ?thesis
    using assms(10) inner keepsD [OF rm]
    by (cases r2) (auto simp: index_package_def on_err_def attempt_def and_then_def ok_def fail_def
        split: prod.splits sum.splits)
qed

definition sealed_world :: world where
  "sealed_world = empty_world\<lparr>w_db := sample_db,
     w_files := [([''pkg'', ''1.2.0-rc.1'', ''pkg.1.2.0-rc.1.nupkg''], ''payload''),
                 (pushed_file, one_record_archive)],
     w_fs_faults := [None, Some (Io_OtherKind, 0)]\<rparr>"

lemma served_versions_immutable_witness:
  "on_state (secured (\<lambda>s. if s = ''payload'' then ''hash'' else s) ''Pkg'' sample_lower
       (sample_package ''Pkg'' sample_lower) [''pkg'', ''1.2.0-rc.1'', ''pkg.1.2.0-rc.1.nupkg''])
     (snd (index_package push_libraries ''main'' pushed_file
        \<lparr>ss_size = 68, ss_sha512 = one_record_archive\<rparr> push_options sealed_world))"
    (is "on_state (secured ?digest _ _ _ ?p) (snd ?run)")
proof -
  have name: "normalized sample_lower = ''1.2.0-rc.1''"
    by (simp add: sample_lower_def version_eval char_eval number_eval)
  have place: "package_path ''Pkg'' (normalized sample_lower) = Inr ?p"
    by (simp add: name package_path_def version_dir_def versioned_name_def safe_segment_def char_eval
        is_windows_device_name_def ends_with_any_def to_ascii_uppercase_def Let_def starts_with_def
        trim_end_graphic is_graphic_def ascii_upper_def is_ascii_lowercase_def char_of_eq_iff take_bit_eq_mod)
  have id: "validate_package_id ''Pkg'' = Inr ()"
    by (simp add: validate_package_id_def max_id_length_def is_word_def is_sep_def is_windows_device_name_def
        trim_end_alphanumeric to_ascii_uppercase_def starts_with_def char_eval ascii_upper_def
        char_of_eq_iff take_bit_eq_mod)
  have key: "package_key (sample_package ''Pkg'' sample_lower) = version_key ''Pkg'' sample_lower"
    by (simp add: package_key_def version_key_def lower_id_def normalized_version_def sample_package_def)
  have same: "(sample_package ''Pkg'' sample_lower)\<lparr>p_listed := True, p_enabled := True, p_downloads := 0\<rparr> =
      sample_package ''Pkg'' sample_lower"
    by (simp add: sample_package_def)
  have row: "get_package_data ''Pkg'' sample_lower sample_db = Inr (Some (sample_package ''Pkg'' sample_lower))"
    using build_bound [OF sample_parsed, of "''Pkg''" True True 0]
    by (simp add: get_package_data_def sample_db_fields row_at_def key row_to_package_def same)
  have "approved_in ''Pkg'' sample_lower sample_db \<noteq> []"
    using sample_row_key by (simp add: approved_in_iff sample_db_fields sample_row_def member_row_of_def
        membership.extend_def active_membership_def)
  then have secured: "on_state (secured ?digest ''Pkg'' sample_lower (sample_package ''Pkg'' sample_lower) ?p) sealed_world"
    by (simp add: on_state_def secured_def row sealed_world_def empty_world_def file_at_path_def)
      (simp add: sample_package_def)
  have legible: "legible (w_db sealed_world)"
    by (simp add: legible_def sample_db_ok sample_db_fields sample_parsed bind_package_def sealed_world_def)
  have upload: "fresh_ok sealed_world" "file_at_path sealed_world pushed_file = Some one_record_archive"
    "staged pushed_file" "one_record_archive = ?digest one_record_archive"
    by (auto simp: fresh_ok_def sealed_world_def empty_world_def file_at_path_def pushed_file_def staging_dir_def
        staged_def under_def one_record_archive_def central_header_signature_def)
  have mode: "served_versions_are_immutable (io_overwrite push_options)"
    by (simp add: served_versions_are_immutable_def push_options_def)
  obtain r w' where run: "?run = (r, w')" by (cases ?run)
  show ?thesis
    using served_versions_immutable [OF secured legible upload(1) place id mode upload(3,2) _ run] upload(4)
    by (simp add: run)
qed

section \<open>An overwrite that fails after its rename\<close>

text \<open>
  The store renames the new payload into place and then asks for its length. When that last
  call fails, the overwrite takes the whole store to have failed: it drops the old build it had
  kept aside and answers the error, with the new bytes under rows that describe the old ones.
\<close>

definition stat_fails :: world where
  "stat_fails = empty_world\<lparr>w_db := sample_db,
     w_files := [([''pkg'', ''1.2.0-rc.1'', ''pkg.1.2.0-rc.1.nupkg''], ''payload''),
                 (pushed_file, ''new bytes'')],
     w_fs_faults := [None, None, None, None, None, Some (Io_OtherKind, 0)]\<rparr>"

lemma sample_place:
  "version_dir ''Pkg'' ''1.2.0-rc.1'' = Inr [''pkg'', ''1.2.0-rc.1'']"
  "package_path ''Pkg'' ''1.2.0-rc.1'' = Inr [''pkg'', ''1.2.0-rc.1'', ''pkg.1.2.0-rc.1.nupkg'']"
  "aux_path ''Pkg'' ''1.2.0-rc.1'' aux_file.Nuspec = Inr [''pkg'', ''1.2.0-rc.1'', ''manifest.nuspec'']"
  by (simp_all add: package_path_def aux_path_def version_dir_def versioned_name_def safe_segment_def char_eval
      is_windows_device_name_def ends_with_any_def to_ascii_uppercase_def Let_def starts_with_def
      trim_end_graphic is_graphic_def ascii_upper_def is_ascii_lowercase_def char_of_eq_iff take_bit_eq_mod)

lemma failed_overwrite_keeps_new_bytes:
  "\<exists>w'. overwrite pushed_file (sample_package ''Pkg'' sample_lower) (sample_package ''Pkg'' sample_lower) m sc sw
       stat_fails = (Inl (Io Io_OtherKind), w') \<and>
     w_db w' = w_db stat_fails \<and>
     file_at_path w' [''pkg'', ''1.2.0-rc.1'', ''pkg.1.2.0-rc.1.nupkg''] = Some ''new bytes'' \<and>
     ''payload'' \<notin> snd ` set (w_files w')"
proof -
  have name: "normalized_version (sample_package ''Pkg'' sample_lower) = ''1.2.0-rc.1''"
    "p_id (sample_package ''Pkg'' sample_lower) = ''Pkg''"
    "\<not> p_has_readme (sample_package ''Pkg'' sample_lower)"
    "\<not> p_has_embedded_icon (sample_package ''Pkg'' sample_lower)"
    by (simp_all add: normalized_version_def sample_package_def sample_lower_def version_eval char_eval number_eval)
  have digits: "show_nat 0 = ''0''" by (simp add: number_eval)
  show ?thesis
    by (simp add: overwrite_def name keep_aside_def get_package_def get_aux_def sample_place
        ok_or_none_def read_when_def store_package_def move_into_place_def drop_backup_def
        get_if_exists_def fs_exists_def fs_call_def fs_fault_def no_trace_def file_at_path_def put_file_def
        drop_file_def stat_fails_def empty_world_def look_def ok_def fail_def fresh_name_def fs_hard_link_def
        pushed_file_def staging_dir_def and_then_def attempt_def ignoring_def on_err_def fs_read_def
        fs_create_dirs_def fs_rename_def fs_metadata_len_def fs_remove_file_def digits is_ok_def Let_def lift_result_def)
qed

end
