(* ===== verification/Admin.thy ===== *)
theory Admin
  imports Publish Immutable
begin

text \<open>
  The admin area's actions (\<open>src/src/web/admin.rs\<close>, \<open>src/src/web/forms.rs\<close>): the gate in front
  of every admin route, the check that a change was asked for from an admin page, enabling,
  pinning, approving, deleting, copying, moving and promoting versions, the selection form over
  many versions, and the cleanup an admin confirms. The pages themselves are not modelled.
\<close>

section \<open>Forms\<close>

definition decode_form_value :: "(string \<Rightarrow> string) \<Rightarrow> string \<Rightarrow> string" where
  "decode_form_value decode raw = decode (map (\<lambda>c. if c = CHR ''+'' then CHR '' '' else c) raw)"

definition form_fields :: "(string \<Rightarrow> string) \<Rightarrow> string \<Rightarrow> string \<Rightarrow> string list" where
  "form_fields decode body name =
     List.map_filter (\<lambda>pair. case split_once CHR ''='' pair of
         None \<Rightarrow> None
       | Some (k, v) \<Rightarrow> if decode_form_value decode k = name then Some (decode_form_value decode v) else None)
       (split CHR ''&'' body)"

definition form_field :: "(string \<Rightarrow> string) \<Rightarrow> string \<Rightarrow> string \<Rightarrow> string option" where
  "form_field decode body name = (case form_fields decode body name of [] \<Rightarrow> None | v # _ \<Rightarrow> Some v)"

section \<open>The gate and the form token\<close>

text \<open>The error's own answer is in \<open>Errors\<close>; here only its cache header is added.\<close>

definition admin_gate ::
    "server \<Rightarrow> headers \<Rightarrow> (error \<Rightarrow> file_response) \<Rightarrow> (world \<Rightarrow> file_response \<times> world) \<Rightarrow>
     world \<Rightarrow> file_response \<times> world" where
  "admin_gate sv hs answer_error go w =
     (let (r, w) = (if admin_check_headers (sv_crypto sv) (fc_admin (sv_feed sv)) hs then go w
                    else (answer_error AdminUnauthorized, w))
      in (insert_header ''cache-control'' ''no-store'' r, w))"

definition csrf_header :: string where
  "csrf_header = ''x-csrf-token''"

definition csrf_field :: string where
  "csrf_field = ''_csrf''"

definition require_admin_action :: "server \<Rightarrow> headers \<Rightarrow> string \<Rightarrow> unit io" where
  "require_admin_action sv hs body =
     (if (case header_get hs ''sec-fetch-site'' of
            None \<Rightarrow> False | Some site \<Rightarrow> \<not> (trim site = ''same-origin'' \<or> trim site = ''none''))
      then fail (BadRequest (Msg ''cross-site admin requests are refused'' []))
      else
      let presented = (case map_option trim (header_get hs csrf_header) of
                         Some v \<Rightarrow> Some v | None \<Rightarrow> form_field (sv_percent_decode sv) body csrf_field)
      in and_then (look w_now) (\<lambda>now.
         if check_csrf_at (sv_crypto sv) (sv_csrf_secret sv) (fc_admin (sv_feed sv)) presented (nat now)
         then ok ()
         else fail (BadRequest (Msg ''missing, expired or invalid {} token (reload the page)'' [csrf_field]))))"

definition redirect_to :: "string \<Rightarrow> file_response" where
  "redirect_to url = \<lparr>fr_status = 303, fr_headers = [(''location'', url)], fr_body = []\<rparr>"

definition admin_package_url :: "string \<Rightarrow> string \<Rightarrow> string" where
  "admin_package_url prefix i = prefix @ ''/admin/packages/'' @ to_ascii_lowercase i"

text \<open>Back to the package's page.\<close>

definition to_package_page :: "server \<Rightarrow> string \<Rightarrow> file_response" where
  "to_package_page sv i = redirect_to (admin_package_url (fc_prefix (sv_feed sv)) i)"

section \<open>Copying and moving a version\<close>

definition transfer_targets :: "server \<Rightarrow> headers \<Rightarrow> feed_meta list" where
  "transfer_targets sv hs =
     filter (\<lambda>m. fe_name m \<noteq> sv_name sv \<and>
                 (admin_check_headers (sv_crypto sv) (fe_admin m) hs \<or>
                  fc_promotes_to (sv_feed sv) = Some (fe_name m)))
       (ho_feeds (sv_hosting sv))"

datatype transfer = Transfer_Copy | Transfer_Move

datatype arrival = Added | Arrived_Pending | Already_There

definition transferred :: "feed_meta \<Rightarrow> transfer \<Rightarrow> package \<Rightarrow> policy_outcome \<Rightarrow> membership \<Rightarrow> membership" where
  "transferred target mode p outcome here =
     (active_membership (fe_name target) p)
       \<lparr>m_pending := fe_requires_approval target \<or> m_pending here,
        m_flagged := (po_violation outcome \<noteq> None), m_flag_reason := po_violation outcome,
        m_listed := m_listed here, m_listing_set := m_listing_set here, m_enabled := m_enabled here,
        m_pinned := (mode = Transfer_Move \<and> m_pinned here)\<rparr>"

definition arrival_of :: "membership \<Rightarrow> unit result \<Rightarrow> arrival io" where
  "arrival_of m r =
     (case r of
        Inr _ \<Rightarrow> ok (if m_pending m then Arrived_Pending else Added)
      | Inl e \<Rightarrow> if e = PackageAlreadyExists then ok Already_There else fail e)"

definition transfer_locked ::
    "string \<Rightarrow> feed_meta \<Rightarrow> string \<Rightarrow> nuget_version \<Rightarrow> transfer \<Rightarrow> arrival io" where
  "transfer_locked feed target i v mode =
     and_then (query_result (get_package_data i v)) (\<lambda>data. case data of
       None \<Rightarrow> fail PackageNotFound
     | Some p \<Rightarrow>
     let outcome = evaluate_license (fe_license_policy target) p in
     if \<not> po_allowed outcome
     then fail (PolicyViolation (Msg ''{} rejects this package: {}''
            [fe_name target, case po_violation outcome of Some why \<Rightarrow> why | None \<Rightarrow> ''license policy'']))
     else
     and_then (query (get_membership feed i v)) (\<lambda>found. case found of
       None \<Rightarrow> fail PackageNotFound
     | Some here \<Rightarrow>
     and_then (query (package_data_exists i v)) (\<lambda>there.
     if \<not> there then fail PackageNotFound
     else
     let m = transferred target mode p outcome here in
     and_then (attempt (run_db_at (\<lambda>now. add_membership now m))) (\<lambda>r.
     and_then (arrival_of m r) (\<lambda>arrival.
     and_then (if mode = Transfer_Move
               then and_then (run_db (remove_membership_for_good feed i v)) (\<lambda>_. ok ())
               else ok ()) (\<lambda>_. ok arrival))))))"

definition transfer_version ::
    "string \<Rightarrow> feed_meta \<Rightarrow> string \<Rightarrow> nuget_version \<Rightarrow> transfer \<Rightarrow> arrival io" where
  "transfer_version feed target i v mode =
     and_then (query (member_exists feed i v)) (\<lambda>there.
     if \<not> there then fail PackageNotFound else transfer_locked feed target i v mode)"

record tally =
  tl_added :: nat
  tl_pending :: nat
  tl_present :: nat

definition no_tally :: tally where
  "no_tally = \<lparr>tl_added = 0, tl_pending = 0, tl_present = 0\<rparr>"

definition tally_count :: "arrival \<Rightarrow> tally \<Rightarrow> tally" where
  "tally_count a t =
     (case a of
        Added \<Rightarrow> t\<lparr>tl_added := tl_added t + 1\<rparr>
      | Arrived_Pending \<Rightarrow> t\<lparr>tl_pending := tl_pending t + 1\<rparr>
      | Already_There \<Rightarrow> t\<lparr>tl_present := tl_present t + 1\<rparr>)"

datatype transfer_op = Op_Promote | Op_Copy | Op_Move

definition transfer_op_str :: "transfer_op \<Rightarrow> string" where
  "transfer_op_str oper = (case oper of Op_Promote \<Rightarrow> ''promote'' | Op_Copy \<Rightarrow> ''copy'' | Op_Move \<Rightarrow> ''move'')"

definition transfer_report_url ::
    "(string \<Rightarrow> string) \<Rightarrow> string \<Rightarrow> string \<Rightarrow> transfer_op \<Rightarrow> string \<Rightarrow> nuget_version option \<Rightarrow> tally \<Rightarrow> string" where
  "transfer_report_url encode prefix i oper target version t =
     admin_package_url prefix i @ ''?done='' @ transfer_op_str oper @ ''&to='' @ encode target @
     ''&added='' @ show_nat (tl_added t) @ ''&pending='' @ show_nat (tl_pending t) @
     ''&present='' @ show_nat (tl_present t) @
     (case version of None \<Rightarrow> [] | Some v \<Rightarrow> ''&v='' @ encode (normalized v))"

section \<open>Approvals\<close>

text \<open>What the form says of a version: the rest of the first field that names it.\<close>

definition shown_for :: "string list \<Rightarrow> string \<Rightarrow> string option" where
  "shown_for shown version =
     (case List.map_filter (\<lambda>b. case split_once CHR '':'' b of
               None \<Rightarrow> None
             | Some (sv, rest) \<Rightarrow> if eq_ignore_ascii_case sv version then Some rest else None) shown of
        [] \<Rightarrow> None | x # _ \<Rightarrow> Some x)"

fun check_builds :: "string list \<Rightarrow> string \<Rightarrow> nuget_version list \<Rightarrow> unit io" where
  "check_builds shown i [] = ok ()"
| "check_builds shown i (v # vs) =
     (case shown_for shown (normalized v) of
        None \<Rightarrow> check_builds shown i vs
      | Some hash \<Rightarrow>
          and_then (query_result (get_package_data i v)) (\<lambda>data. case data of
            None \<Rightarrow> fail PackageNotFound
          | Some current \<Rightarrow>
              if p_package_hash current \<noteq> hash
              then fail (Conflict (Msg ''{id} {normalized} was replaced by a new build after this page was loaded; reload the page and review the new build before approving it''
                     [i, normalized v]))
              else check_builds shown i vs))"

fun check_files :: "(string \<Rightarrow> string) \<Rightarrow> string list \<Rightarrow> string \<Rightarrow> nuget_version list \<Rightarrow> unit io" where
  "check_files sha256_hex shown i [] = ok ()"
| "check_files sha256_hex shown i (v # vs) =
     (case shown_for shown (normalized v) of
        None \<Rightarrow> check_files sha256_hex shown i vs
      | Some digest \<Rightarrow>
          and_then (query (files_for i v)) (\<lambda>files.
            if files_fingerprint sha256_hex files \<noteq> digest
            then fail (Conflict (Msg ''the files attached to {id} {normalized} changed after this page was loaded; reload the page and review them before approving it''
                   [i, normalized v]))
            else check_files sha256_hex shown i vs))"

definition check_shown_builds :: "server \<Rightarrow> string \<Rightarrow> string \<Rightarrow> nuget_version list \<Rightarrow> unit io" where
  "check_shown_builds sv body i vs =
     and_then (check_builds (form_fields (sv_percent_decode sv) body ''build'') i vs) (\<lambda>_.
     check_files (ho_sha256_hex (sv_hosting sv)) (form_fields (sv_percent_decode sv) body ''files'') i vs)"

definition admin_approve :: "server \<Rightarrow> headers \<Rightarrow> string \<Rightarrow> string \<Rightarrow> string \<Rightarrow> file_response io" where
  "admin_approve sv hs i raw_version body =
     and_then (lift_result (check_id i)) (\<lambda>_.
     and_then (require_admin_action sv hs body) (\<lambda>_.
     and_then (lift_result (request_version raw_version)) (\<lambda>v.
     and_then (check_shown_builds sv body i [v]) (\<lambda>_.
     and_then (run_db (approve_membership (sv_name sv) i v)) (\<lambda>found.
     if \<not> found then fail PackageNotFound else ok (to_package_page sv i))))))"

section \<open>One version\<close>

definition admin_set_enabled ::
    "server \<Rightarrow> headers \<Rightarrow> string \<Rightarrow> string \<Rightarrow> string \<Rightarrow> bool \<Rightarrow> file_response io" where
  "admin_set_enabled sv hs body i raw_version enabled =
     and_then (lift_result (check_id i)) (\<lambda>_.
     and_then (require_admin_action sv hs body) (\<lambda>_.
     and_then (lift_result (request_version raw_version)) (\<lambda>v.
     and_then (run_db (set_enabled (sv_name sv) i v enabled)) (\<lambda>found.
     if \<not> found then fail PackageNotFound else ok (to_package_page sv i)))))"

definition admin_set_pinned ::
    "server \<Rightarrow> headers \<Rightarrow> string \<Rightarrow> string \<Rightarrow> string \<Rightarrow> bool \<Rightarrow> file_response io" where
  "admin_set_pinned sv hs body i raw_version pinned =
     and_then (lift_result (check_id i)) (\<lambda>_.
     and_then (require_admin_action sv hs body) (\<lambda>_.
     and_then (lift_result (request_version raw_version)) (\<lambda>v.
     and_then (run_db (set_pinned (sv_name sv) i v pinned)) (\<lambda>found.
     if \<not> found then fail PackageNotFound else ok (to_package_page sv i)))))"

definition admin_file_delete ::
    "server \<Rightarrow> headers \<Rightarrow> string \<Rightarrow> string \<Rightarrow> string \<Rightarrow> string \<Rightarrow> file_response io" where
  "admin_file_delete sv hs i raw_version name body =
     and_then (lift_result (check_id i)) (\<lambda>_.
     and_then (require_admin_action sv hs body) (\<lambda>_.
     and_then (lift_result (request_version raw_version)) (\<lambda>v.
     and_then (detach (sv_hosting sv) i v name (for_request (sv_hosting sv) hs)) (\<lambda>_.
     ok (to_package_page sv i)))))"

text \<open>To the package's page while this feed holds any of it, else to the list.\<close>

definition to_what_remains :: "server \<Rightarrow> string \<Rightarrow> file_response \<Rightarrow> file_response io" where
  "to_what_remains sv i page =
     and_then (query_result (find_all_versions (sv_name sv) i)) (\<lambda>remaining.
     ok (if remaining = [] then redirect_to (fc_prefix (sv_feed sv) @ ''/admin'') else page))"

definition admin_delete :: "server \<Rightarrow> headers \<Rightarrow> string \<Rightarrow> string \<Rightarrow> string \<Rightarrow> file_response io" where
  "admin_delete sv hs i raw_version body =
     and_then (lift_result (check_id i)) (\<lambda>_.
     and_then (require_admin_action sv hs body) (\<lambda>_.
     and_then (lift_result (request_version raw_version)) (\<lambda>v.
     and_then (purge_version (sv_name sv) i v) (\<lambda>removed.
     if \<not> removed then fail PackageNotFound else to_what_remains sv i (to_package_page sv i)))))"

definition admin_promote :: "server \<Rightarrow> headers \<Rightarrow> string \<Rightarrow> string \<Rightarrow> string \<Rightarrow> file_response io" where
  "admin_promote sv hs i raw_version body =
     and_then (lift_result (check_id i)) (\<lambda>_.
     and_then (require_admin_action sv hs body) (\<lambda>_.
     case fc_promotes_to (sv_feed sv) of
       None \<Rightarrow> fail (BadRequest (Msg ''this feed has no promotion target'' []))
     | Some target \<Rightarrow>
     and_then (lift_result (request_version raw_version)) (\<lambda>v.
     case find (\<lambda>m. fe_name m = target) (ho_feeds (sv_hosting sv)) of
       None \<Rightarrow> fail (BadRequest (Msg ''unknown promotion target {target:?}'' [target]))
     | Some meta \<Rightarrow>
     and_then (transfer_version (sv_name sv) meta i v Transfer_Copy) (\<lambda>arrival.
     ok (redirect_to (transfer_report_url (sv_percent_encode sv) (fc_prefix (sv_feed sv)) i Op_Promote
                        target (Some v) (tally_count arrival no_tally)))))))"

section \<open>The selection form\<close>

datatype bulk_op = Bulk_Enable | Bulk_Disable | Bulk_Approve | Bulk_Pin | Bulk_Unpin | Bulk_Delete | Bulk_Copy | Bulk_Move

definition parse_bulk_op :: "string \<Rightarrow> bulk_op option" where
  "parse_bulk_op value =
     (if value = ''enable'' then Some Bulk_Enable
      else if value = ''disable'' then Some Bulk_Disable
      else if value = ''approve'' then Some Bulk_Approve
      else if value = ''pin'' then Some Bulk_Pin
      else if value = ''unpin'' then Some Bulk_Unpin
      else if value = ''delete'' then Some Bulk_Delete
      else if value = ''copy'' then Some Bulk_Copy
      else if value = ''move'' then Some Bulk_Move
      else None)"

definition bulk_change :: "bulk_op \<Rightarrow> membership_change option" where
  "bulk_change oper =
     (case oper of
        Bulk_Enable \<Rightarrow> Some (Set_Enabled True)
      | Bulk_Disable \<Rightarrow> Some (Set_Enabled False)
      | Bulk_Approve \<Rightarrow> Some Approve
      | Bulk_Pin \<Rightarrow> Some (Set_Pinned True)
      | Bulk_Unpin \<Rightarrow> Some (Set_Pinned False)
      | _ \<Rightarrow> None)"

definition all_held :: "string \<Rightarrow> string \<Rightarrow> nuget_version list \<Rightarrow> unit io" where
  "all_held feed i =
     for_each (\<lambda>v. and_then (query (member_exists feed i v)) (\<lambda>there.
       if there then ok () else fail PackageNotFound))"

definition all_admitted :: "feed_meta \<Rightarrow> string \<Rightarrow> nuget_version list \<Rightarrow> unit io" where
  "all_admitted target i =
     for_each (\<lambda>v. and_then (query_result (get_package_data i v)) (\<lambda>data. case data of
         None \<Rightarrow> fail PackageNotFound
       | Some p \<Rightarrow>
           let outcome = evaluate_license (fe_license_policy target) p in
           if po_allowed outcome then ok ()
           else fail (PolicyViolation (Msg ''{} rejects {} {}: {}''
                  [fe_name target, p_id p, normalized v,
                   case po_violation outcome of Some why \<Rightarrow> why | None \<Rightarrow> ''license policy'']))))"

fun transfer_all ::
    "string \<Rightarrow> feed_meta \<Rightarrow> string \<Rightarrow> transfer \<Rightarrow> nuget_version list \<Rightarrow> tally \<Rightarrow> tally io" where
  "transfer_all feed target i mode [] t = ok t"
| "transfer_all feed target i mode (v # vs) t =
     and_then (transfer_version feed target i v mode) (\<lambda>a.
     transfer_all feed target i mode vs (tally_count a t))"

text \<open>What the operation does beyond the flags, and the page that reports it.\<close>

definition bulk_apply ::
    "server \<Rightarrow> headers \<Rightarrow> string \<Rightarrow> string \<Rightarrow> bulk_op \<Rightarrow> nuget_version list \<Rightarrow> file_response io" where
  "bulk_apply sv hs i body oper vs =
     (if oper = Bulk_Delete
      then and_then (for_each (\<lambda>v. and_then (purge_version (sv_name sv) i v) (\<lambda>_. ok ())) vs) (\<lambda>_.
           ok (to_package_page sv i))
      else if oper = Bulk_Copy \<or> oper = Bulk_Move
      then
        let name = (case form_field (sv_percent_decode sv) body ''target'' of Some n \<Rightarrow> n | None \<Rightarrow> [])
        in (case find (\<lambda>m. fe_name m = name) (transfer_targets sv hs) of
              None \<Rightarrow> fail (BadRequest (Msg ''{name:?} is not a feed these credentials may add versions to'' [name]))
            | Some target \<Rightarrow>
                and_then (all_admitted target i vs) (\<lambda>_.
                let mode = (if oper = Bulk_Move then Transfer_Move else Transfer_Copy)
                in and_then (transfer_all (sv_name sv) target i mode vs no_tally) (\<lambda>t.
                   ok (redirect_to (transfer_report_url (sv_percent_encode sv) (fc_prefix (sv_feed sv)) i
                         (if mode = Transfer_Move then Op_Move else Op_Copy) (fe_name target) None t)))))
      else ok (to_package_page sv i))"

definition admin_bulk :: "server \<Rightarrow> headers \<Rightarrow> string \<Rightarrow> string \<Rightarrow> file_response io" where
  "admin_bulk sv hs i body =
     and_then (lift_result (check_id i)) (\<lambda>_.
     and_then (require_admin_action sv hs body) (\<lambda>_.
     case Option.bind (form_field (sv_percent_decode sv) body ''op'') parse_bulk_op of
       None \<Rightarrow> fail (BadRequest (Msg ''unknown or missing action'' []))
     | Some oper \<Rightarrow>
     and_then (lift_result (collect_results (map request_version (form_fields (sv_percent_decode sv) body ''v'')))) (\<lambda>vs.
     if vs = [] then ok (to_package_page sv i)
     else
     and_then (all_held (sv_name sv) i vs) (\<lambda>_.
     and_then (if oper = Bulk_Approve then check_shown_builds sv body i vs else ok ()) (\<lambda>_.
     and_then (case bulk_change oper of
                 None \<Rightarrow> ok ()
               | Some ch \<Rightarrow> and_then (run_db (update_memberships (sv_name sv) i vs ch)) (\<lambda>_. ok ())) (\<lambda>_.
     and_then (bulk_apply sv hs i body oper vs) (to_what_remains sv i)))))))"

section \<open>The cleanup an admin confirms\<close>

definition admin_retention_run ::
    "server \<Rightarrow> headers \<Rightarrow> string \<Rightarrow> retention_state \<Rightarrow> (file_response \<times> retention_state) io" where
  "admin_retention_run sv hs body st =
     and_then (require_admin_action sv hs body) (\<lambda>_.
     let rules = fc_retention (sv_feed sv); policy = policy_of_config rules in
     if \<not> rc_enabled rules \<or> \<not> has_limits policy
     then fail (BadRequest (Msg ''retention is not enabled for this feed'' []))
     else
     let fingerprint = (case form_field (sv_percent_decode sv) body ''plan'' of Some p \<Rightarrow> p | None \<Rightarrow> []);
         page = fc_prefix (sv_feed sv) @ ''/admin/retention''
     in and_then (run_shown (sv_days_before sv) (sv_plan_digest sv) (sv_name sv) policy fingerprint st) (\<lambda>(result, st).
        ok (redirect_to (case result of
              None \<Rightarrow> page @ ''?busy=1''
            | Some (Inl _) \<Rightarrow> page @ ''?changed=1''
            | Some (Inr oc) \<Rightarrow> page @ ''?deleted='' @ show_nat (oc_deleted oc) @ ''&freed='' @ show_nat (oc_freed oc) @
                             ''&errors='' @ show_nat (oc_errors oc)), st)))"

section \<open>What a transfer leaves in either feed\<close>

text \<open>The target has the new membership, or what it had; nothing else is changed.\<close>

definition filled :: "string \<Rightarrow> key \<Rightarrow> membership \<Rightarrow> db \<Rightarrow> db \<Rightarrow> bool" where
  "filled t k m d0 d \<longleftrightarrow>
     d = d0\<lparr>db_members := db_members d\<rparr> \<and>
     (if members_of d0 (t, k) = None
      then \<exists>row. membership.truncate row = m \<and> members_of d = (members_of d0)((t, k) \<mapsto> row)
      else d = d0)"

definition permitted :: "feed_meta \<Rightarrow> string \<Rightarrow> string \<Rightarrow> nuget_version \<Rightarrow> db \<Rightarrow> package \<Rightarrow> membership \<Rightarrow> bool" where
  "permitted target feed i v d p here \<longleftrightarrow>
     get_package_data i v d = Inr (Some p) \<and> po_allowed (evaluate_license (fe_license_policy target) p) \<and>
     get_membership feed i v d = Some here"

definition transfer_stops ::
    "string \<Rightarrow> feed_meta \<Rightarrow> string \<Rightarrow> nuget_version \<Rightarrow> transfer \<Rightarrow> db \<Rightarrow> db \<Rightarrow> bool" where
  "transfer_stops feed target i v mode d0 d \<longleftrightarrow>
     d = d0 \<or>
     (\<exists>p here. permitted target feed i v d0 p here \<and>
        filled (fe_name target) (version_key i v)
          (transferred target mode p (evaluate_license (fe_license_policy target) p) here) d0 d)"

definition transfer_ends ::
    "string \<Rightarrow> feed_meta \<Rightarrow> string \<Rightarrow> nuget_version \<Rightarrow> transfer \<Rightarrow> db \<Rightarrow> arrival \<Rightarrow> db \<Rightarrow> bool" where
  "transfer_ends feed target i v mode d0 a d \<longleftrightarrow>
     (\<exists>p here d1. permitted target feed i v d0 p here \<and>
        filled (fe_name target) (version_key i v)
          (transferred target mode p (evaluate_license (fe_license_policy target) p) here) d0 d1 \<and>
        a = (if get_membership (fe_name target) i v d0 \<noteq> None then Already_There
             else if fe_requires_approval target \<or> m_pending here then Arrived_Pending else Added) \<and>
        (if mode = Transfer_Move then \<exists>x. remove_membership_for_good feed i v d1 = Inr (x, d) else d = d1))"

lemma get_membership_members:
  "get_membership feed i v d = map_option membership.truncate (members_of d (feed, version_key i v))"
  by (simp add: get_membership_def members_of_def)

lemma transferred_row:
  assumes "package_key p = version_key i v"
  shows "member_key (member_row_of now (transferred target mode p outcome here) 0) = (fe_name target, version_key i v)"
    "membership.truncate (member_row_of now (transferred target mode p outcome here) 0) = transferred target mode p outcome here"
  using assms
  by (simp_all add: member_key_def member_version_def member_row_of_def membership.defs transferred_def
      active_membership_def package_key_def)

lemma add_filled:
  assumes "package_key p = version_key i v" and "m = transferred target mode p outcome here"
    and "add_membership now m d = Inr (x, d')"
  shows "get_membership (fe_name target) i v d = None \<and> filled (fe_name target) (version_key i v) m d d'"
proof -
  note row = transferred_row [OF assms(1), where now = now and target = target and mode = mode and outcome = outcome and here = here,
    folded assms(2)]
  from members_of_insert [of now m d] assms(3) row have
    "members_of d (fe_name target, version_key i v) = None"
    "members_of d' = (members_of d)((fe_name target, version_key i v) \<mapsto> member_row_of now m 0)"
    by (auto simp: observe_def Let_def split: if_splits)
  moreover have "d' = d\<lparr>db_members := db_members d'\<rparr>"
    using assms(3) by (auto simp: add_membership_def insert_membership_def Let_def split: if_splits)
  ultimately show ?thesis using row by (auto simp: filled_def get_membership_members)
qed

lemma add_present:
  assumes "package_key p = version_key i v" and "m = transferred target mode p outcome here"
    and "add_membership now m d = Inl PackageAlreadyExists"
  shows "get_membership (fe_name target) i v d \<noteq> None \<and> filled (fe_name target) (version_key i v) m d d"
proof -
  note row = transferred_row [OF assms(1), where now = now and target = target and mode = mode and outcome = outcome and here = here,
    folded assms(2)]
  from members_of_insert [of now m d] assms(3) row have "members_of d (fe_name target, version_key i v) \<noteq> None"
    by (auto simp: Let_def split: if_splits)
  then show ?thesis by (auto simp: filled_def get_membership_members)
qed

text \<open>A question asked of the very database it is known to be.\<close>

lemma hoare_asked:
  assumes "\<And>a. q d0 = a \<Longrightarrow> hoare (on_state (\<lambda>d fs. d = d0 \<and> fs = fs0)) (f a) Q E"
    and "\<And>e w. on_state (\<lambda>d fs. d = d0 \<and> fs = fs0) w \<Longrightarrow> E e w"
  shows "hoare (on_state (\<lambda>d fs. d = d0 \<and> fs = fs0)) (and_then (query q) f) Q E"
proof (rule hoareI)
  fix w r w' assume w: "on_state (\<lambda>d fs. d = d0 \<and> fs = fs0) w" and run: "and_then (query q) f w = (r, w')"
  obtain r1 w1 where q: "query q w = (r1, w1)" by (cases "query q w")
  have w1: "on_state (\<lambda>d fs. d = d0 \<and> fs = fs0) w1"
    using w stillD [OF still_query q] by (simp add: on_state_def)
  show "case r of Inr a \<Rightarrow> Q a w' | Inl e \<Rightarrow> E e w'"
  proof (cases r1)
    case (Inl e)
    with run q assms(2) [OF w1] show ?thesis by (auto simp: and_then_def)
  next
    case (Inr a)
    then have "q d0 = a" using query_Inr [of q w a w1] q w by (simp add: on_state_def)
    from hoareD [OF assms(1) [OF this] w1] run q Inr show ?thesis by (auto simp: and_then_def)
  qed
qed

lemma hoare_asked_result:
  assumes "\<And>a. q d0 = Inr a \<Longrightarrow> hoare (on_state (\<lambda>d fs. d = d0 \<and> fs = fs0)) (f a) Q E"
    and "\<And>e w. on_state (\<lambda>d fs. d = d0 \<and> fs = fs0) w \<Longrightarrow> E e w"
  shows "hoare (on_state (\<lambda>d fs. d = d0 \<and> fs = fs0)) (and_then (query_result q) f) Q E"
proof (rule hoareI)
  fix w r w' assume w: "on_state (\<lambda>d fs. d = d0 \<and> fs = fs0) w" and run: "and_then (query_result q) f w = (r, w')"
  obtain r1 w1 where q: "query_result q w = (r1, w1)" by (cases "query_result q w")
  have w1: "on_state (\<lambda>d fs. d = d0 \<and> fs = fs0) w1"
    using w stillD [OF still_query_result q] by (simp add: on_state_def)
  show "case r of Inr a \<Rightarrow> Q a w' | Inl e \<Rightarrow> E e w'"
  proof (cases r1)
    case (Inl e)
    with run q assms(2) [OF w1] show ?thesis by (auto simp: and_then_def)
  next
    case (Inr a)
    have "q d0 = Inr a"
      using q [unfolded query_result_def] w Inr
      by (cases rule: run_db_cases) (auto simp: on_state_def result_ok)
    from hoareD [OF assms(1) [OF this] w1] run q Inr show ?thesis by (auto simp: and_then_def)
  qed
qed

text \<open>The insertion, whatever it answers.\<close>

lemma arrival_filled:
  fixes target mode p here
  defines "m \<equiv> transferred target mode p (evaluate_license (fe_license_policy target) p) here"
  assumes named: "package_key p = version_key i v" and may: "permitted target feed i v d0 p here"
  shows "hoare (on_state (\<lambda>d fs. d = d0 \<and> fs = fs0))
     (and_then (attempt (run_db_at (\<lambda>now. add_membership now m))) (arrival_of m))
     (\<lambda>a. on_state (\<lambda>d fs. fs = fs0 \<and> filled (fe_name target) (version_key i v) m d0 d \<and>
        a = (if get_membership (fe_name target) i v d0 \<noteq> None then Already_There
             else if fe_requires_approval target \<or> m_pending here then Arrived_Pending else Added)))
     (\<lambda>_. on_state (\<lambda>d fs. fs = fs0 \<and> d = d0))"
    (is "hoare ?P _ ?Q ?E")
proof (rule hoareI)
  fix w r w'
  assume w: "?P w" and run: "and_then (attempt (run_db_at (\<lambda>now. add_membership now m))) (arrival_of m) w = (r, w')"
  obtain r1 w1 where add: "run_db (add_membership (w_now w) m) w = (r1, w1)"
    by (cases "run_db (add_membership (w_now w) m) w")
  have r: "arrival_of m r1 w1 = (r, w')"
    using run add by (simp add: run_db_at_def and_then_def attempt_def look_def)
  have pending: "m_pending m = (fe_requires_approval target \<or> m_pending here)"
    by (simp add: m_def transferred_def)
  show "case r of Inr a \<Rightarrow> ?Q a w' | Inl e \<Rightarrow> ?E e w'"
  proof (cases rule: run_db_cases [OF add])
    case 1
    with r w show ?thesis by (auto simp: arrival_of_def fail_def on_state_def)
  next
    case (2 e)
    have "?Q Already_There w1" if "e = PackageAlreadyExists"
      using add_present [OF named refl, of "w_now w" target mode _ here "w_db w"] 2 w that
      by (auto simp: on_state_def m_def)
    with 2 r w show ?thesis
      by (cases "e = PackageAlreadyExists") (auto simp: arrival_of_def fail_def ok_def intro!: on_stateI simp: on_state_def [of _ w])
  next
    case (3 a)
    have "?Q (if m_pending m then Arrived_Pending else Added) w1"
      using add_filled [OF named refl, of "w_now w" target mode _ here "w_db w" a "w_db w1"] 3 w
      by (auto simp: on_state_def m_def pending [unfolded m_def])
    with 3 r show ?thesis by (auto simp: arrival_of_def ok_def)
  qed
qed

lemma transfer_locked_ends:
  assumes "legible d0"
  shows "hoare (on_state (\<lambda>d fs. d = d0 \<and> fs = fs0)) (transfer_locked feed target i v mode)
     (\<lambda>a. on_state (\<lambda>d fs. fs = fs0 \<and> transfer_ends feed target i v mode d0 a d))
     (\<lambda>_. on_state (\<lambda>d fs. fs = fs0 \<and> transfer_stops feed target i v mode d0 d))"
    (is "hoare ?P _ ?Q ?E")
proof -
  have stop: "?E e w" if "?P w" for e w using that by (simp add: on_state_def transfer_stops_def)
  have moved: "hoare (on_state (\<lambda>d fs. d = d0 \<and> fs = fs0)) (and_then (attempt (run_db_at (\<lambda>now. add_membership now m))) (\<lambda>r.
        and_then (arrival_of m r) (\<lambda>arrival.
        and_then (if mode = Transfer_Move
                  then and_then (run_db (remove_membership_for_good feed i v)) (\<lambda>_. ok ())
                  else ok ()) (\<lambda>_. ok arrival)))) ?Q ?E"
    if m: "m = transferred target mode p (evaluate_license (fe_license_policy target) p) here"
      and may: "permitted target feed i v d0 p here" for m p here
  proof -
    let ?R = "\<lambda>a d fs. fs = fs0 \<and> filled (fe_name target) (version_key i v) m d0 d \<and>
        a = (if get_membership (fe_name target) i v d0 \<noteq> None then Already_There
             else if fe_requires_approval target \<or> m_pending here then Arrived_Pending else Added)"
    have "named (version_key i v) (Some p)"
      using data_named [OF assms] may by (simp add: permitted_def)
    then have named: "package_key p = version_key i v" by (simp add: named_def)
    have halted: "transfer_stops feed target i v mode d0 d" if "?R a d fs" for a d fs
      using may that unfolding m transfer_stops_def by blast
    have ended: "transfer_ends feed target i v mode d0 a d"
      if "?R a d1 fs" "if mode = Transfer_Move then \<exists>x. remove_membership_for_good feed i v d1 = Inr (x, d) else d = d1"
      for a d1 d fs
      using may that unfolding m transfer_ends_def by blast
    have last: "hoare (on_state (?R a)) (and_then (if mode = Transfer_Move
                  then and_then (run_db (remove_membership_for_good feed i v)) (\<lambda>_. ok ())
                  else ok ()) (\<lambda>_. ok a)) ?Q ?E" for a
    proof (cases "mode = Transfer_Move")
      case True
      have "hoare (on_state (?R a)) (run_db (remove_membership_for_good feed i v))
          (\<lambda>x. on_state (\<lambda>d fs. fs = fs0 \<and> transfer_ends feed target i v mode d0 a d)) ?E"
      proof (rule hoare_run_db)
        fix d fs x d' assume "?R a d fs" "remove_membership_for_good feed i v d = Inr (x, d')"
        with ended [where a = a and ?d1.0 = d and fs = fs and d = d'] True show "fs = fs0 \<and> transfer_ends feed target i v mode d0 a d'" by auto
      qed (use halted in blast)
      then show ?thesis
        unfolding if_P [OF True] and_then_assoc and_then_ok
        by (rule hoare_bind) (rule hoare_ok)
    next
      case False
      have "?R a d fs \<Longrightarrow> transfer_ends feed target i v mode d0 a d" for d fs
        using ended [where a = a and ?d1.0 = d and fs = fs and d = d] False by simp
      with False show ?thesis by (auto intro!: hoare_ok simp: on_state_def)
    qed
    have first: "hoare ?P (and_then (attempt (run_db_at (\<lambda>now. add_membership now m))) (arrival_of m))
        (\<lambda>a. on_state (?R a)) ?E"
      unfolding m by (rule hoare_weaken [OF arrival_filled [OF named may, where mode = mode]])
        (auto simp: on_state_def transfer_stops_def)
    show ?thesis
      unfolding and_then_assoc [symmetric] by (rule hoare_bind [OF first last])
  qed
  show ?thesis
    unfolding transfer_locked_def
  proof (rule hoare_asked_result, goal_cases)
    case (1 data)
    show ?case
    proof (cases data)
      case (Some p)
      show ?thesis
        unfolding Some option.case Let_def
      proof (rule hoare_if, rule hoare_fail, erule stop, rule hoare_asked, goal_cases)
        case (1 found)
        show ?case
        proof (cases found)
          case here: (Some here)
          then have "permitted target feed i v d0 p here"
            using Some \<open>get_package_data i v d0 = Inr data\<close> 1 by (simp add: permitted_def)
          from moved [OF refl this] show ?thesis
            unfolding here option.case
            by (intro hoare_asked hoare_if hoare_fail) (auto simp: stop)
        qed (auto intro!: hoare_fail simp: stop)
      qed (simp add: stop)
    qed (auto intro!: hoare_fail simp: stop)
  qed (simp add: stop)
qed

lemma transfer_version_ends:
  assumes "legible d0"
  shows "hoare (on_state (\<lambda>d fs. d = d0 \<and> fs = fs0)) (transfer_version feed target i v mode)
     (\<lambda>a. on_state (\<lambda>d fs. fs = fs0 \<and> transfer_ends feed target i v mode d0 a d))
     (\<lambda>_. on_state (\<lambda>d fs. fs = fs0 \<and> transfer_stops feed target i v mode d0 d))"
  unfolding transfer_version_def
  by (rule hoare_asked, rule hoare_if, rule hoare_fail)
    (simp_all add: transfer_locked_ends [OF assms], simp_all add: on_state_def transfer_stops_def)

lemma filled_elsewhere:
  assumes "filled t k m d0 d"
  shows "x \<noteq> (t, k) \<Longrightarrow> members_of d x = members_of d0 x"
    "map_option membership.truncate (members_of d (t, k)) =
       (case members_of d0 (t, k) of None \<Rightarrow> Some m | Some there \<Rightarrow> Some (membership.truncate there))"
  using assms by (auto simp: filled_def split: if_splits option.splits)

lemma removed_for_good:
  assumes "remove_membership_for_good feed i v d = Inr (x, d')"
  shows "members_of d' = (members_of d)((feed, version_key i v) := None)"
    "d' = d\<lparr>db_members := db_members d', db_tombstones := db_tombstones d'\<rparr>"
    "members_of d (feed, version_key i v) \<noteq> None \<Longrightarrow> is_tombstoned feed i v d'"
proof -
  let ?k = "(feed, version_key i v)"
  let ?d = "d\<lparr>db_members := delete_rows (\<lambda>m. member_key m = ?k) (db_members d)\<rparr>"
  have d': "d' = (if members_of d ?k \<noteq> None then insert_tombstone feed i v ?d else ?d)"
    using assms
    by (simp add: remove_membership_for_good_def remove_membership_def bind_result_def member_at_key
        list_ex_key members_of_def split: if_splits)
  then show "members_of d' = (members_of d)(?k := None)"
    by (cases "members_of d ?k = None") (simp_all only: members_of_delete members_of_tombstone if_True if_False simp_thms)
  show "d' = d\<lparr>db_members := db_members d', db_tombstones := db_tombstones d'\<rparr>"
    by (simp add: d' insert_tombstone_def Let_def)
  show "is_tombstoned feed i v d'" if "members_of d ?k \<noteq> None"
    using that by (simp add: d' insert_tombstone_def Let_def is_tombstoned_def)
qed

lemma servable_members:
  assumes "db_ok d"
  shows "is_servable feed i v d \<longleftrightarrow>
    (case get_membership feed i v d of None \<Rightarrow> False | Some m \<Rightarrow> m_enabled m \<and> \<not> m_pending m)"
  using assms list_ex_row_at [of member_key "db_members d" "(feed, version_key i v)" "\<lambda>m. m_enabled m \<and> \<not> m_pending m"]
  by (simp add: is_servable_def member_at_key get_membership_def db_ok_defs membership.truncate_def
      split: option.splits)

lemma keeps_ok_transfer [keeping]:
  "keeps (on_state (\<lambda>d fs. db_ok d)) (transfer_version feed target i v mode)"
  unfolding transfer_version_def transfer_locked_def Let_def arrival_of_def run_db_at_def
  by (intro keeping keeps_run_db)
    (auto simp: add_membership_def dest: db_ok_insert_membership db_ok_remove_for_good)


text \<open>A version of one feed, promoted into a feed with an approval gate.\<close>

definition gated_feed :: feed_meta where
  "gated_feed =
     \<lparr>fe_name = ''stable'', fe_prefix = ''/stable'', fe_requires_approval = True,
      fe_allow_overwrite = Overwrite_Disabled, fe_license_policy = default_license_policy,
      fe_admin = \<lparr>ad_expected = Some ''other key''\<rparr>\<rparr>"

definition shared_world :: world where
  "shared_world = empty_world\<lparr>w_db := sample_db\<rparr>"

lemma sample_legible: "legible sample_db"
  by (simp add: legible_def sample_db_ok sample_db_fields bind_package_def sample_parsed)


section \<open>Approvals are of what was shown\<close>

text \<open>The request is not from another site and carries a token of this feed's admin pages.\<close>

definition asked_for :: "server \<Rightarrow> headers \<Rightarrow> string \<Rightarrow> time \<Rightarrow> bool" where
  "asked_for sv hs body now \<longleftrightarrow>
     (case header_get hs ''sec-fetch-site'' of
        None \<Rightarrow> True | Some site \<Rightarrow> trim site = ''same-origin'' \<or> trim site = ''none'') \<and>
     check_csrf_at (sv_crypto sv) (sv_csrf_secret sv) (fc_admin (sv_feed sv))
       (case header_get hs csrf_header of
          Some v \<Rightarrow> Some (trim v) | None \<Rightarrow> form_field (sv_percent_decode sv) body csrf_field) (nat now)"

lemma require_admin_action_asked:
  "asked_for sv hs body (w_now w) \<Longrightarrow> and_then (require_admin_action sv hs body) f w = f () w"
  "\<not> asked_for sv hs body (w_now w) \<Longrightarrow> \<exists>e. and_then (require_admin_action sv hs body) f w = (Inl e, w)"
  by (auto simp: asked_for_def require_admin_action_def Let_def io_simps split: option.splits)

text \<open>What the form says of a version's build and files is so in the database.\<close>

definition build_current :: "string list \<Rightarrow> string \<Rightarrow> nuget_version \<Rightarrow> db \<Rightarrow> bool" where
  "build_current shown i v d \<longleftrightarrow>
     (\<forall>hash. shown_for shown (normalized v) = Some hash \<longrightarrow>
        (\<exists>p. get_package_data i v d = Inr (Some p) \<and> p_package_hash p = hash))"

definition files_current :: "(string \<Rightarrow> string) \<Rightarrow> string list \<Rightarrow> string \<Rightarrow> nuget_version \<Rightarrow> db \<Rightarrow> bool" where
  "files_current sha256_hex shown i v d \<longleftrightarrow>
     (\<forall>digest. shown_for shown (normalized v) = Some digest \<longrightarrow>
        files_fingerprint sha256_hex (files_for i v d) = digest)"

definition shown_current :: "server \<Rightarrow> string \<Rightarrow> string \<Rightarrow> db \<Rightarrow> nuget_version \<Rightarrow> bool" where
  "shown_current sv body i d v \<longleftrightarrow>
     build_current (form_fields (sv_percent_decode sv) body ''build'') i v d \<and>
     files_current (ho_sha256_hex (sv_hosting sv)) (form_fields (sv_percent_decode sv) body ''files'') i v d"

lemma checked_builds:
  "hoare (on_state (\<lambda>d fs. d = d0 \<and> fs = fs0)) (check_builds shown i vs)
     (\<lambda>_ w. on_state (\<lambda>d fs. d = d0 \<and> fs = fs0) w \<and> (\<forall>v \<in> set vs. build_current shown i v d0))
     (\<lambda>_. on_state (\<lambda>d fs. d = d0 \<and> fs = fs0))"
proof (induction vs)
  case (Cons v vs)
  show ?case
  proof (cases "shown_for shown (normalized v)")
    case None
    with Cons show ?thesis by (simp add: build_current_def)
  next
    case (Some hash)
    have "hoare (on_state (\<lambda>d fs. d = d0 \<and> fs = fs0)) (check_builds shown i vs)
        (\<lambda>_ w. on_state (\<lambda>d fs. d = d0 \<and> fs = fs0) w \<and> (\<forall>u \<in> set (v # vs). build_current shown i u d0))
        (\<lambda>_. on_state (\<lambda>d fs. d = d0 \<and> fs = fs0))"
      if "get_package_data i v d0 = Inr (Some p)" "p_package_hash p = hash" for p
      by (rule hoare_weaken [OF Cons.IH]) (use that Some in \<open>auto simp: build_current_def\<close>)
    with Some show ?thesis
      by (auto intro!: hoare_asked_result hoare_fail split: option.splits)
  qed
qed (simp add: hoare_ok)

lemma checked_files:
  "hoare (on_state (\<lambda>d fs. d = d0 \<and> fs = fs0)) (check_files sha256_hex shown i vs)
     (\<lambda>_ w. on_state (\<lambda>d fs. d = d0 \<and> fs = fs0) w \<and> (\<forall>v \<in> set vs. files_current sha256_hex shown i v d0))
     (\<lambda>_. on_state (\<lambda>d fs. d = d0 \<and> fs = fs0))"
proof (induction vs)
  case (Cons v vs)
  show ?case
  proof (cases "shown_for shown (normalized v)")
    case None
    with Cons show ?thesis by (simp add: files_current_def)
  next
    case (Some digest)
    have "hoare (on_state (\<lambda>d fs. d = d0 \<and> fs = fs0)) (check_files sha256_hex shown i vs)
        (\<lambda>_ w. on_state (\<lambda>d fs. d = d0 \<and> fs = fs0) w \<and> (\<forall>u \<in> set (v # vs). files_current sha256_hex shown i u d0))
        (\<lambda>_. on_state (\<lambda>d fs. d = d0 \<and> fs = fs0))"
      if "files_fingerprint sha256_hex (files_for i v d0) = digest"
      by (rule hoare_weaken [OF Cons.IH]) (use that Some in \<open>auto simp: files_current_def\<close>)
    with Some show ?thesis
      by (auto intro!: hoare_asked hoare_fail)
  qed
qed (simp add: hoare_ok)

lemma checked_shown:
  "hoare (on_state (\<lambda>d fs. d = d0 \<and> fs = fs0)) (check_shown_builds sv body i vs)
     (\<lambda>_ w. on_state (\<lambda>d fs. d = d0 \<and> fs = fs0) w \<and> (\<forall>v \<in> set vs. shown_current sv body i d0 v))
     (\<lambda>_. on_state (\<lambda>d fs. d = d0 \<and> fs = fs0))"
  unfolding check_shown_builds_def
proof (rule hoare_bind [OF checked_builds])
  fix u
  let ?P = "on_state (\<lambda>d fs. d = d0 \<and> fs = fs0)"
    and ?B = "\<forall>v \<in> set vs. build_current (form_fields (sv_percent_decode sv) body ''build'') i v d0"
    and ?m = "check_files (ho_sha256_hex (sv_hosting sv)) (form_fields (sv_percent_decode sv) body ''files'') i vs"
  show "hoare (\<lambda>w. ?P w \<and> ?B) ?m (\<lambda>_ w. ?P w \<and> (\<forall>v \<in> set vs. shown_current sv body i d0 v)) (\<lambda>_. ?P)"
    by (rule hoare_fact, rule hoare_weaken [OF checked_files]) (auto simp: shown_current_def)
qed

text \<open>The approvals of these versions in this feed, which were as shown, and nothing else.\<close>

definition approves :: "server \<Rightarrow> string \<Rightarrow> string \<Rightarrow> nuget_version list \<Rightarrow> db \<Rightarrow> db \<Rightarrow> bool" where
  "approves sv body i vs d d' \<longleftrightarrow>
     (\<forall>v \<in> set vs. shown_current sv body i d v) \<and>
     d' = d\<lparr>db_members := db_members d'\<rparr> \<and>
     members_of d' = change_all (sv_name sv) i vs Approve (members_of d)"

definition approved_or_not :: "server \<Rightarrow> string \<Rightarrow> string \<Rightarrow> nuget_version list \<Rightarrow> db \<Rightarrow> db \<Rightarrow> files_view \<Rightarrow> bool" where
  "approved_or_not sv body i vs d d' fs \<longleftrightarrow> d' = d \<or> approves sv body i vs d d'"

lemma hoare_then_still:
  assumes "hoare P m (\<lambda>_. on_state R) (\<lambda>_. on_state R)" and "\<And>a. still (f a)"
  shows "hoare P (and_then m f) (\<lambda>_. on_state R) (\<lambda>_. on_state R)"
  by (rule hoare_bind [OF assms(1) hoare_keeps [OF keeps_still [OF assms(2)]]])

lemma approve_checked:
  assumes "\<And>x d'. oper d0 = Inr (x, d') \<Longrightarrow>
      d' = d0\<lparr>db_members := db_members d'\<rparr> \<and> members_of d' = change_all (sv_name sv) i vs Approve (members_of d0)"
  shows "hoare (on_state (\<lambda>d fs. d = d0)) (and_then (check_shown_builds sv body i vs) (\<lambda>_. run_db oper))
     (\<lambda>_. on_state (approved_or_not sv body i vs d0)) (\<lambda>_. on_state (approved_or_not sv body i vs d0))"
proof (rule hoareI)
  let ?m = "and_then (check_shown_builds sv body i vs) (\<lambda>_. run_db oper)"
  fix w r w' assume w: "on_state (\<lambda>d fs. d = d0) w" and run: "?m w = (r, w')"
  let ?P = "on_state (\<lambda>d fs. d = d0 \<and> fs = file_at_path w)" and ?R = "on_state (approved_or_not sv body i vs d0)"
  have weak: "?P w \<Longrightarrow> ?R w" for w by (simp add: on_state_def approved_or_not_def)
  have approving: "approved_or_not sv body i vs d0 d' fs"
    if "oper d0 = Inr (x, d')" "\<forall>v \<in> set vs. shown_current sv body i d0 v" for x d' fs
    using assms [OF that(1)] that(2) by (simp add: approved_or_not_def approves_def)
  have last: "hoare (\<lambda>w. ?P w \<and> (\<forall>v \<in> set vs. shown_current sv body i d0 v)) (run_db oper) (\<lambda>_. ?R) (\<lambda>_. ?R)"
    by (rule hoare_fact, rule hoare_run_db) (auto simp: approving, simp add: approved_or_not_def)
  have "hoare ?P ?m (\<lambda>_. ?R) (\<lambda>_. ?R)"
    by (rule hoare_bind [OF hoare_weaken [OF checked_shown] last]) (auto intro: weak)
  moreover have "?P w" using w by (simp add: on_state_def)
  ultimately show "case r of Inr a \<Rightarrow> ?R w' | Inl e \<Rightarrow> ?R w'"
    using hoareD run by blast
qed

lemma approve_one:
  assumes "db_ok d0" and "approve_membership feed i v d0 = Inr (x, d')"
  shows "d' = d0\<lparr>db_members := db_members d'\<rparr> \<and> members_of d' = change_all feed i [v] Approve (members_of d0)"
proof
  show "d' = d0\<lparr>db_members := db_members d'\<rparr>"
    using assms(2) by (auto simp: approve_membership_def update_member_def Let_def)
  show "members_of d' = change_all feed i [v] Approve (members_of d0)"
    using members_of_update_member [OF assms(1), of "\<lambda>m. m\<lparr>m_pending := False\<rparr>" feed i v "\<lambda>_. True"] assms(2)
    by (simp add: approve_membership_def observe_def apply_change.simps [abs_def] change_all_def fun_eq_iff)
qed

lemma approve_many:
  assumes "db_ok d0" and "update_memberships feed i vs Approve d0 = Inr (x, d')"
  shows "d' = d0\<lparr>db_members := db_members d'\<rparr> \<and> members_of d' = change_all feed i vs Approve (members_of d0)"
  using update_each_spec [OF assms(1), of feed i vs Approve 0] assms(2) update_each_frame [of feed i vs Approve 0 d0 x d']
  by (simp add: update_memberships_def)

lemma still_require [stilling]: "still (require_admin_action sv hs body)"
  unfolding require_admin_action_def Let_def by (intro stilling)

lemma still_what_remains [stilling]: "still (to_what_remains sv i page)"
  unfolding to_what_remains_def by (intro stilling)

lemma still_for_each [stilling]: "(\<And>x. still (f x)) \<Longrightarrow> still (for_each f xs)"
  by (induction xs) (auto intro!: stilling)

lemma still_all_held [stilling]: "still (all_held feed i vs)"
  unfolding all_held_def by (intro stilling)

lemma asked_first:
  "and_then (require_admin_action sv hs body) f w = (r, w') \<Longrightarrow> w_db w' \<noteq> w_db w \<Longrightarrow> asked_for sv hs body (w_now w)"
  using require_admin_action_asked(2) [of sv hs body w f] by auto

lemma approve_runs:
  assumes "db_ok (w_db w)" and run: "admin_approve sv hs i raw body w = (r, w')" and "w_db w' \<noteq> w_db w"
  shows "asked_for sv hs body (w_now w) \<and> (\<exists>v. request_version raw = Inr v \<and> approves sv body i [v] (w_db w) (w_db w'))"
proof -
  from run assms(3) have id: "check_id i = Inr ()"
    by (cases "check_id i") (auto simp: admin_approve_def and_then_def lift_result_def)
  then have asked: "asked_for sv hs body (w_now w)"
    using run assms(3) by (auto simp: admin_approve_def and_then_lift intro: asked_first)
  with run assms(3) id obtain v where v: "request_version raw = Inr v"
    by (cases "request_version raw")
      (auto simp: admin_approve_def and_then_lift require_admin_action_asked(1) and_then_def [of "lift_result _"] lift_result_def fail_def)
  let ?R = "on_state (approved_or_not sv body i [v] (w_db w))"
  have "hoare (on_state (\<lambda>d fs. d = w_db w))
      (and_then (and_then (check_shown_builds sv body i [v]) (\<lambda>_. run_db (approve_membership (sv_name sv) i v)))
         (\<lambda>found. if \<not> found then fail PackageNotFound else ok (to_package_page sv i))) (\<lambda>_. ?R) (\<lambda>_. ?R)"
    by (rule hoare_then_still [OF approve_checked [OF approve_one [OF assms(1)]]]) (auto intro: stilling)
  moreover have "on_state (\<lambda>d fs. d = w_db w) w" by (simp add: on_state_def)
  moreover have "and_then (and_then (check_shown_builds sv body i [v]) (\<lambda>_. run_db (approve_membership (sv_name sv) i v)))
      (\<lambda>found. if \<not> found then fail PackageNotFound else ok (to_package_page sv i)) w = (r, w')"
    using run by (simp add: admin_approve_def and_then_lift id v require_admin_action_asked(1) [OF asked] and_then_assoc)
  ultimately have "?R w'" using hoareD by (fastforce split: sum.splits)
  with assms(3) asked v show ?thesis by (auto simp: on_state_def approved_or_not_def)
qed

lemma bulk_approve_runs:
  assumes "db_ok (w_db w)" and oper: "form_field (sv_percent_decode sv) body ''op'' = Some ''approve''"
    and run: "admin_bulk sv hs i body w = (r, w')" and "w_db w' \<noteq> w_db w"
  shows "asked_for sv hs body (w_now w) \<and>
    (\<exists>vs. collect_results (map request_version (form_fields (sv_percent_decode sv) body ''v'')) = Inr vs \<and>
       approves sv body i vs (w_db w) (w_db w'))"
proof -
  let ?parsed = "collect_results (map request_version (form_fields (sv_percent_decode sv) body ''v''))"
  have approve: "Option.bind (form_field (sv_percent_decode sv) body ''op'') parse_bulk_op = Some Bulk_Approve"
    by (simp add: oper parse_bulk_op_def)
  from run assms(4) have id: "check_id i = Inr ()"
    by (cases "check_id i") (auto simp: admin_bulk_def and_then_def lift_result_def)
  then have asked: "asked_for sv hs body (w_now w)"
    using run assms(4) by (auto simp: admin_bulk_def and_then_lift intro: asked_first)
  note go = admin_bulk_def and_then_lift id require_admin_action_asked(1) [OF asked] approve option.case bulk_change_def
    bulk_op.case bulk_apply_def
  from run assms(4) obtain vs where vs: "?parsed = Inr vs" "vs \<noteq> []"
    by (cases ?parsed) (auto simp: go and_then_def [of "lift_result _"] lift_result_def ok_def fail_def split: if_splits)
  let ?R = "on_state (approved_or_not sv body i vs (w_db w))" and ?P = "on_state (\<lambda>d fs. d = w_db w)"
  let ?update = "and_then (check_shown_builds sv body i vs) (\<lambda>_. run_db (update_memberships (sv_name sv) i vs Approve))"
  have "hoare ?P ?update (\<lambda>_. ?R) (\<lambda>_. ?R)"
    by (rule approve_checked [OF approve_many [OF assms(1)]])
  then have "hoare ?P (and_then ?update (\<lambda>_. to_what_remains sv i (to_package_page sv i))) (\<lambda>_. ?R) (\<lambda>_. ?R)"
    by (rule hoare_then_still) (intro stilling)
  then have "hoare ?P (and_then (all_held (sv_name sv) i vs)
      (\<lambda>_. and_then ?update (\<lambda>_. to_what_remains sv i (to_package_page sv i)))) (\<lambda>_. ?R) (\<lambda>_. ?R)"
    by (rule_tac keeps_then_weak [OF keeps_still [OF still_all_held]])
      (simp_all add: on_state_def approved_or_not_def)
  moreover have "?P w" by (simp add: on_state_def)
  moreover have "and_then (all_held (sv_name sv) i vs)
      (\<lambda>_. and_then ?update (\<lambda>_. to_what_remains sv i (to_package_page sv i))) w = (r, w')"
    using run vs by (simp add: go and_then_assoc)
  ultimately have "?R w'" using hoareD by (fastforce split: sum.splits)
  with assms(4) asked vs show ?thesis by (auto simp: on_state_def approved_or_not_def)
qed

text \<open>
  C11: an approval is of what its reviewer saw. Whatever fails on the way, approving a version, or
  many from the selection form, changes the database only for a request that is not from another
  site and carries a current token of this feed's admin pages, and only while every build and
  every set of files that the form says was shown is the one stored; the change is that these
  versions, in this feed alone, are no longer pending.
\<close>
theorem approvals_are_of_what_was_shown:
  assumes "db_ok (w_db w)"
  shows "(\<forall>r w'. admin_approve sv hs i raw body w = (r, w') \<longrightarrow> w_db w' \<noteq> w_db w \<longrightarrow>
      asked_for sv hs body (w_now w) \<and>
      (\<exists>v. request_version raw = Inr v \<and> approves sv body i [v] (w_db w) (w_db w')))
    \<and> (\<forall>r w'. form_field (sv_percent_decode sv) body ''op'' = Some ''approve'' \<longrightarrow>
      admin_bulk sv hs i body w = (r, w') \<longrightarrow> w_db w' \<noteq> w_db w \<longrightarrow>
      asked_for sv hs body (w_now w) \<and>
      (\<exists>vs. collect_results (map request_version (form_fields (sv_percent_decode sv) body ''v'')) = Inr vs \<and>
         approves sv body i vs (w_db w) (w_db w')))"
  using approve_runs [OF assms] bulk_approve_runs [OF assms] by blast

text \<open>A pending version, approved with the page's token and the build it showed.\<close>

lemma fresh_token_accepted:
  assumes "crypto_ok cr" and "ad_expected a = Some key"
    and token_def: "token = show_nat 0 @ ''.'' @ cr_base64url_encode cr (csrf_mac cr secret key 0)"
  shows "trim token = token" and "check_csrf_at cr secret a (Some token) 0"
proof -
  have "list_all is_graphic token"
    using assms(1) set_show_nat graphic_digit
    by (auto simp: token_def crypto_ok_def list_all_iff is_graphic_def)
  then show trim: "trim token = token" by (simp add: trim_graphic list_all_iff)
  have "CHR ''.'' \<notin> set (show_nat 0)" using set_show_nat by (fastforce simp: is_ascii_digit_def)
  then have split: "split_once CHR ''.'' token = Some (show_nat 0, cr_base64url_encode cr (csrf_mac cr secret key 0))"
    by (simp add: token_def split_once_append)
  have u64: "parse_u64 (show_nat 0) = Some 0" by (rule parse_u64_show_nat) simp
  show "check_csrf_at cr secret a (Some token) 0"
    using assms(1,2) length_csrf_mac [OF assms(1)]
    by (simp add: check_csrf_at_def trim split u64 crypto_ok_def digests_eq_iff Let_def)
qed

definition approving_server :: server where
  "approving_server =
     \<lparr>sv_hosting = sample_hosting\<lparr>ho_feed := keyed_feed\<lparr>fc_admin := \<lparr>ad_expected = Some ''key''\<rparr>\<rparr>\<rparr>,
      sv_libraries = push_libraries, sv_max_package_size = None, sv_multipart = (\<lambda>hs body. No_Field),
      sv_sha512_base64 = (\<lambda>s. s), sv_days_before = (\<lambda>d t. None), sv_plan_digest = (\<lambda>s. s),
      sv_csrf_secret = ''secret'', sv_percent_decode = (\<lambda>s. s), sv_percent_encode = (\<lambda>s. s)\<rparr>"

definition page_token :: string where
  "page_token = show_nat 0 @ ''.'' @ cr_base64url_encode sample_crypto (csrf_mac sample_crypto ''secret'' ''key'' 0)"

definition pending_world :: world where
  "pending_world = empty_world\<lparr>w_db := pending_db\<rparr>"

lemma page_asked: "asked_for approving_server [(''x-csrf-token'', Some page_token)] body 0"
proof -
  have "ad_expected \<lparr>ad_expected = Some ''key''\<rparr> = Some ''key''" by simp
  note token = fresh_token_accepted [OF sample_crypto_ok this page_token_def]
  then show ?thesis
    by (simp add: asked_for_def approving_server_def sample_hosting_def header_get_def header_get_all_def csrf_header_def)
qed

lemma shown_build: "form_fields (\<lambda>s. s) ''build=1.2.0-rc.1:hash'' ''build'' = [''1.2.0-rc.1:hash'']"
    "form_fields (\<lambda>s. s) ''build=1.2.0-rc.1:hash'' ''files'' = []"
    "shown_for [''1.2.0-rc.1:hash''] ''1.2.0-rc.1'' = Some ''hash''"
  by (simp_all add: form_fields_def decode_form_value_def shown_for_def map_filter_simps
      eq_ignore_ascii_case_def)

lemma approvals_are_of_what_was_shown_witness:
  "\<exists>r w'. admin_approve approving_server [(''x-csrf-token'', Some page_token)] ''Pkg'' ''1.2.0-rc.1''
       ''build=1.2.0-rc.1:hash'' pending_world = (r, w') \<and> w_db w' \<noteq> w_db pending_world \<and>
     approves approving_server ''build=1.2.0-rc.1:hash'' ''Pkg'' [sample_lower] (w_db pending_world) (w_db w')"
proof -
  let ?hs = "[(''x-csrf-token'', Some page_token)]" and ?body = "''build=1.2.0-rc.1:hash''"
  have id: "check_id ''Pkg'' = Inr ()"
    by (simp add: check_id_def validate_package_id_def max_id_length_def is_word_def is_sep_def is_windows_device_name_def
        trim_end_alphanumeric to_ascii_uppercase_def starts_with_def char_eval ascii_upper_def
        char_of_eq_iff take_bit_eq_mod)
  have v: "request_version ''1.2.0-rc.1'' = Inr sample_lower" by (simp add: request_version_def parse_sample_lower)
  have name: "normalized sample_lower = ''1.2.0-rc.1''" by (simp add: sample_lower_def version_eval char_eval number_eval)
  have calm: "w_db_faults pending_world = []" "w_db pending_world = pending_db" "w_now pending_world = 0"
    by (simp_all add: pending_world_def empty_world_def)
  let ?p = "sample_package ''Pkg'' sample_lower"
  have key: "package_key ?p = version_key ''Pkg'' sample_lower"
    by (simp add: package_key_def version_key_def lower_id_def normalized_version_def sample_package_def)
  have data: "\<exists>p. get_package_data ''Pkg'' sample_lower pending_db = Inr (Some p) \<and> p_package_hash p = ''hash''"
    using build_bound [OF sample_parsed, of "''Pkg''" True True 0]
    by (simp add: get_package_data_def pending_db_def sample_db_fields row_at_def key row_to_package_def)
      (simp add: sample_package_def)
  have ok: "db_ok pending_db"
  proof -
    have "member_key (member_row_of 5 sample_pending 0) = (''main'', version_key ''Pkg'' sample_lower)"
      using pending_row_key by (simp add: member_key_parts)
    with sample_db_ok show ?thesis
      by (simp add: db_ok_defs pending_db_def sample_db_fields pending_row_key has_row_def key)
  qed
  obtain d where approve: "approve_membership ''main'' ''Pkg'' sample_lower pending_db = Inr (True, d)" "d \<noteq> pending_db"
  proof -
    have "member_at ''main'' ''Pkg'' sample_lower (member_row_of 5 sample_pending 0)"
      using pending_row_key by (simp add: member_at_def member_key_parts)
    moreover have "member_row_of 5 sample_pending 0 \<noteq> (member_row_of 5 sample_pending 0)\<lparr>m_pending := False\<rparr>"
      using pending_row_key(2) [of 5 0] by (metis membership.select_convs(7) membership.update_convs(7) membership.surjective)
    then have "sample_db\<lparr>db_members := [(member_row_of 5 sample_pending 0)\<lparr>m_pending := False\<rparr>]\<rparr> \<noteq> pending_db"
      by (auto simp: pending_db_def dest: arg_cong [where f = db_members])
    ultimately show ?thesis
      using that by (simp add: approve_membership_def update_member_def update_rows_def pending_db_def)
  qed
  have "\<exists>r. admin_approve approving_server ?hs ''Pkg'' ''1.2.0-rc.1'' ?body pending_world = (r, pending_world\<lparr>w_db := d\<rparr>)"
  proof -
    have fields: "sv_percent_decode approving_server = (\<lambda>s. s)" "sv_name approving_server = ''main''"
      by (simp_all add: approving_server_def sample_hosting_def keyed_feed_def)
    have same: "pending_world\<lparr>w_db := pending_db\<rparr> = pending_world" by (simp add: pending_world_def empty_world_def)
    obtain p where p: "get_package_data ''Pkg'' sample_lower pending_db = Inr (Some p)" "p_package_hash p = ''hash''"
      using data by blast
    have "check_shown_builds approving_server ?body ''Pkg'' [sample_lower] pending_world = (Inr (), pending_world)"
      by (simp add: check_shown_builds_def fields shown_build name run_calm calm p same shown_for_def map_filter_simps)
    moreover have "and_then (require_admin_action approving_server ?hs ?body) f pending_world = f () pending_world" for f :: "unit \<Rightarrow> file_response io"
      by (rule require_admin_action_asked) (simp add: calm page_asked)
    ultimately show ?thesis
      unfolding admin_approve_def id v and_then_lift
      by (simp add: and_then_def [of "check_shown_builds _ _ _ _"] and_then_def [of "run_db _"] db_faultless calm fields
          approve(1) ok_def)
  qed
  then obtain r where run: "admin_approve approving_server ?hs ''Pkg'' ''1.2.0-rc.1'' ?body pending_world = (r, pending_world\<lparr>w_db := d\<rparr>)"
    by blast
  moreover from approvals_are_of_what_was_shown [of pending_world approving_server ?hs "''Pkg''" "''1.2.0-rc.1''" ?body] ok run approve(2)
  have "approves approving_server ?body ''Pkg'' [sample_lower] pending_db d"
    by (auto simp: calm v)
  ultimately show ?thesis using approve(2) by (auto simp: calm)
qed

end
