(* ===== verification/Closure.thy ===== *)
theory Closure
  imports Version_Range Errors
begin

text \<open>
  The dependency closure of a package (\<open>src/crates/yanuget-internalize/src/closure.rs\<close>): a
  backtracking search for one version of every package the root needs, over what the source
  has been asked so far, and the loop that asks it for what the search lacks. The source (the
  upstream) is a parameter; it is asked at most once about a thing.
\<close>

section \<open>What a source tells\<close>

record dependency_ref =
  dr_id :: string
  dr_range :: "string option"

record package_info =
  pi_id :: string
  pi_version :: nuget_version
  pi_listed :: bool
  pi_hash :: "string option"
  pi_size :: "nat option"
  pi_dependencies :: "dependency_ref list"
  pi_download_url :: string

record source =
  src_versions :: "string \<Rightarrow> string + package_info list"
  src_dependencies :: "package_info \<Rightarrow> string + dependency_ref list"

datatype closure_error = Upstream string | Unresolvable message

definition max_packages :: nat where
  "max_packages = 500"

definition max_steps :: nat where
  "max_steps = 100000"

definition max_lookups :: nat where
  "max_lookups = 2000"

definition cli_package :: string where
  "cli_package = ''chocolatey''"

record resolved =
  rs_info :: package_info
  rs_required_by :: "string list"

record package_closure =
  cl_packages :: "resolved list"
  cl_provided :: "(string \<times> string) list"

section \<open>Edges\<close>

record edge =
  ed_id :: string
  ed_key :: string
  ed_range :: version_range

definition is_valid_id :: "string \<Rightarrow> bool" where
  "is_valid_id i \<longleftrightarrow>
     i \<noteq> [] \<and> length i \<le> 100 \<and>
     list_all (\<lambda>part. part \<noteq> [] \<and> list_all (\<lambda>b. is_ascii_alphanumeric b \<or> b = CHR ''_'') part)
       (concat (map (split CHR ''-'') (split CHR ''.'' i)))"

definition info_name :: "package_info \<Rightarrow> string" where
  "info_name info = pi_id info @ '' '' @ normalized (pi_version info)"

definition edge_new :: "package_info \<Rightarrow> dependency_ref \<Rightarrow> closure_error + edge" where
  "edge_new from' dep =
     (if \<not> is_valid_id (dr_id dep)
      then Inl (Unresolvable (Msg ''{id} {version} lists a dependency {:?} that is not a package id''
                  [pi_id from', normalized (pi_version from'), dr_id dep]))
      else case parse_range (case dr_range dep of None \<Rightarrow> [] | Some r \<Rightarrow> r) of
             Inl e \<Rightarrow> Inl (Unresolvable (Msg ''{id} {version} lists a dependency on {} with a range that does not parse''
                        [pi_id from', normalized (pi_version from'), dr_id dep]))
           | Inr bounds \<Rightarrow>
               Inr \<lparr>ed_id = dr_id dep, ed_key = to_ascii_lowercase (dr_id dep), ed_range = bounds\<rparr>)"

definition describe_edge :: "edge \<Rightarrow> string" where
  "describe_edge e =
     (if range_normalized (ed_range e) = [] then ''any version'' else range_normalized (ed_range e))"

definition pins :: "version_range \<Rightarrow> nuget_version \<Rightarrow> bool" where
  "pins bounds v \<longleftrightarrow>
     (case (r_min bounds, r_max bounds) of
        (Some lo, Some hi) \<Rightarrow> b_inclusive lo \<and> b_inclusive hi \<and>
          eq_version (b_version lo) v \<and> eq_version (b_version hi) v
      | _ \<Rightarrow> False)"

section \<open>What is known\<close>

text \<open>Two hash maps: versions by lower-case id, dependencies by lower-case id and version.\<close>

record known =
  kn_versions :: "(string \<times> package_info list) list"
  kn_dependencies :: "((string \<times> nuget_version) \<times> edge list) list"

definition nothing_known :: known where
  "nothing_known = \<lparr>kn_versions = [], kn_dependencies = []\<rparr>"

definition same_key :: "string \<times> nuget_version \<Rightarrow> string \<times> nuget_version \<Rightarrow> bool" where
  "same_key a b \<longleftrightarrow> fst a = fst b \<and> eq_version (snd a) (snd b)"

definition info_key :: "package_info \<Rightarrow> string \<times> nuget_version" where
  "info_key info = (to_ascii_lowercase (pi_id info), pi_version info)"

definition deps_of :: "known \<Rightarrow> package_info \<Rightarrow> edge list option" where
  "deps_of kn info =
     map_option snd (find (\<lambda>(k, _). same_key k (info_key info)) (kn_dependencies kn))"

definition learn_versions :: "string \<Rightarrow> package_info list \<Rightarrow> known \<Rightarrow> known" where
  "learn_versions i versions kn =
     kn\<lparr>kn_versions := (to_ascii_lowercase i, versions) #
          filter (\<lambda>(k, _). k \<noteq> to_ascii_lowercase i) (kn_versions kn)\<rparr>"

definition learn_dependencies :: "package_info \<Rightarrow> edge list \<Rightarrow> known \<Rightarrow> known" where
  "learn_dependencies info edges kn =
     kn\<lparr>kn_dependencies := (info_key info, edges) #
          filter (\<lambda>(k, _). \<not> same_key k (info_key info)) (kn_dependencies kn)\<rparr>"

section \<open>The search\<close>

datatype need = Need_Versions string | Need_Dependencies package_info

datatype stop = Stop_Need need | Stop_Fail message

record solver =
  sv_steps :: nat
  sv_conflict :: "message option"

definition note_clash :: "message \<Rightarrow> solver \<Rightarrow> solver" where
  "note_clash why sv = (case sv_conflict sv of None \<Rightarrow> sv\<lparr>sv_conflict := Some why\<rparr> | Some _ \<Rightarrow> sv)"

text \<open>The dependencies of everything chosen, or whose are missing.\<close>

fun open_edges :: "known \<Rightarrow> package_info list \<Rightarrow> package_info + (package_info \<times> edge) list" where
  "open_edges kn [] = Inr []"
| "open_edges kn (parent # rest) =
     (case deps_of kn parent of
        None \<Rightarrow> Inl parent
      | Some deps \<Rightarrow>
          map_result (\<lambda>edges. map (Pair parent) (filter (\<lambda>e. ed_key e \<noteq> cli_package) deps) @ edges)
            (open_edges kn rest))"

definition chosen_as :: "package_info list \<Rightarrow> string \<Rightarrow> package_info option" where
  "chosen_as chosen k = find (\<lambda>c. eq_ignore_ascii_case (pi_id c) k) chosen"

definition clashes :: "package_info list \<Rightarrow> package_info \<times> edge \<Rightarrow> bool" where
  "clashes chosen pe =
     (case chosen_as chosen (ed_key (snd pe)) of
        None \<Rightarrow> False | Some c \<Rightarrow> \<not> range_contains (ed_range (snd pe)) (pi_version c))"

definition candidates ::
    "bool \<Rightarrow> (package_info \<times> edge) list \<Rightarrow> package_info list \<Rightarrow> package_info list" where
  "candidates pre on_it versions =
     (let fit = filter (\<lambda>v.
            list_all (\<lambda>(_, e). range_contains (ed_range e) (pi_version v)) on_it \<and>
            (list_ex (\<lambda>(_, e). pins (ed_range e) (pi_version v)) on_it \<or> pre \<or>
             \<not> is_prerelease (pi_version v))) (rev versions)
      in filter pi_listed fit @ filter (\<lambda>v. \<not> pi_listed v) fit)"

text \<open>
  One call of \<open>search\<close> up to its loop: it ends the search, or leaves candidates for the next
  package. \<open>None\<close> is a dead end, \<open>Some\<close> what was chosen.
\<close>

type_synonym verdict = "stop + package_info list option"

definition next_choice ::
    "known \<Rightarrow> bool \<Rightarrow> package_info list \<Rightarrow> solver \<Rightarrow> (verdict + package_info list) \<times> solver" where
  "next_choice kn pre chosen sv =
     (let sv = sv\<lparr>sv_steps := sv_steps sv + 1\<rparr> in
      if max_steps < sv_steps sv
      then (Inl (Inl (Stop_Fail (Msg ''the dependencies of {} need more than {MAX_STEPS} tries to resolve''
              [info_name (hd chosen)]))), sv)
      else case open_edges kn chosen of
        Inl info \<Rightarrow> (Inl (Inl (Stop_Need (Need_Dependencies info))), sv)
      | Inr edges \<Rightarrow>
      (case find (clashes chosen) edges of
        Some (parent, e) \<Rightarrow>
          (Inl (Inr None), note_clash (Msg ''{} needs {} {}, not {}''
             [info_name parent, ed_id e, describe_edge e,
              case chosen_as chosen (ed_key e) of None \<Rightarrow> [] | Some c \<Rightarrow> normalized (pi_version c)]) sv)
      | None \<Rightarrow>
      (case find (\<lambda>(_, e). chosen_as chosen (ed_key e) = None) edges of
        None \<Rightarrow> (Inl (Inr (Some chosen)), sv)
      | Some (_, wanted) \<Rightarrow>
          if max_packages \<le> length chosen
          then (Inl (Inl (Stop_Fail (Msg ''the closure of {} holds more than {MAX_PACKAGES} packages''
                  [info_name (hd chosen)]))), sv)
          else case map_of (kn_versions kn) (ed_key wanted) of
            None \<Rightarrow> (Inl (Inl (Stop_Need (Need_Versions (ed_id wanted)))), sv)
          | Some versions \<Rightarrow>
              let on_it = filter (\<lambda>(_, e). ed_key e = ed_key wanted) edges;
                  found = candidates pre on_it versions
              in if found = []
                 then (Inl (Inr None), note_clash
                        (Msg (if versions = [] then ''{} is not on the upstream ({wanted})''
                              else ''no version of {} fits ({wanted})'')
                           (ed_id wanted # map (\<lambda>(p, e). info_name p @ '' needs '' @ describe_edge e) on_it)) sv)
                 else (Inr found, sv))))"

function search :: "known \<Rightarrow> bool \<Rightarrow> package_info list \<Rightarrow> solver \<Rightarrow> verdict \<times> solver"
  and try_each :: "known \<Rightarrow> bool \<Rightarrow> package_info list \<Rightarrow> package_info list \<Rightarrow> solver \<Rightarrow> verdict \<times> solver" where
  "search kn pre chosen sv =
     (case next_choice kn pre chosen sv of
        (Inl r, sv) \<Rightarrow> (r, sv)
      | (Inr found, sv) \<Rightarrow> try_each kn pre chosen found sv)"
| "try_each kn pre chosen [] sv = (Inr None, sv)"
| "try_each kn pre chosen (c # cs) sv =
     (case search kn pre (chosen @ [c]) sv of
        (Inl s, sv) \<Rightarrow> (Inl s, sv)
      | (Inr (Some all), sv) \<Rightarrow> (Inr (Some all), sv)
      | (Inr None, sv) \<Rightarrow> try_each kn pre chosen cs sv)"
  by pat_completeness auto

text \<open>A call counts a step before anything else, and the count never goes down.\<close>

lemma next_choice_steps:
  "next_choice kn pre chosen sv = (r, sv') \<Longrightarrow>
     sv_steps sv' = sv_steps sv + 1 \<and> (\<forall>found. r = Inr found \<longrightarrow> sv_steps sv < max_steps)"
  by (auto simp: next_choice_def note_clash_def Let_def split: if_splits option.splits sum.splits prod.splits)

lemma steps_grow:
  "search_try_each_dom (Inl (kn, pre, chosen, sv)) \<Longrightarrow> sv_steps sv < sv_steps (snd (search kn pre chosen sv))"
  "search_try_each_dom (Inr (kn, pre, chosen, cs, sv)) \<Longrightarrow> sv_steps sv \<le> sv_steps (snd (try_each kn pre chosen cs sv))"
proof (induction kn pre chosen sv and kn pre chosen cs sv rule: search_try_each.pinduct)
  case (1 kn pre chosen sv)
  then show ?case
    by (fastforce simp: search.psimps dest: next_choice_steps split: prod.splits sum.splits)
next
  case (3 kn pre chosen c cs sv)
  then show ?case
    by (fastforce simp: try_each.psimps split: prod.splits sum.splits option.splits)
qed (simp add: try_each.psimps)

lemma choice_measure:
  assumes "next_choice kn pre chosen sv = (Inr found, sv')"
  shows "Suc max_steps - sv_steps sv' < Suc max_steps - sv_steps sv"
  using next_choice_steps [OF assms] by auto

lemma dead_end_measure:
  assumes "search_try_each_dom (Inl (kn, pre, chosen, sv))" and "search kn pre chosen sv = (r, sv')"
  shows "Suc max_steps - sv_steps sv' \<le> Suc max_steps - sv_steps sv"
  using steps_grow(1) [OF assms(1)] assms(2) by simp

termination search
proof (relation "inv_image (less_than <*lex*> less_than)
    (\<lambda>x. case x of Inl (kn, pre, chosen, sv) \<Rightarrow> (Suc max_steps - sv_steps sv, 0)
                 | Inr (kn, pre, chosen, cs, sv) \<Rightarrow> (Suc max_steps - sv_steps sv, Suc (length cs)))")
qed (auto dest: choice_measure dead_end_measure simp: eq_commute [of "(_, _)"] le_eq_less_or_eq)

declare search.simps [simp del] try_each.simps [simp del]

text \<open>The packages found, and who needs each of them.\<close>

definition require :: "string \<Rightarrow> edge \<Rightarrow> resolved list \<Rightarrow> resolved list" where
  "require name e packages =
     (case chosen_as (map rs_info packages) (ed_id e) of
        None \<Rightarrow> packages
      | Some q \<Rightarrow>
          (let n = length (takeWhile (\<lambda>p. \<not> eq_ignore_ascii_case (pi_id (rs_info p)) (ed_id e)) packages)
           in packages[n := (packages ! n)\<lparr>rs_required_by := rs_required_by (packages ! n) @ [name]\<rparr>]))"

fun add_edges :: "string \<Rightarrow> edge list \<Rightarrow> package_closure \<Rightarrow> package_closure" where
  "add_edges name [] cl = cl"
| "add_edges name (e # es) cl =
     add_edges name es
       (if ed_key e = cli_package then cl\<lparr>cl_provided := cl_provided cl @ [(name, describe_edge e)]\<rparr>
        else cl\<lparr>cl_packages := require name e (cl_packages cl)\<rparr>)"

definition closure_of :: "known \<Rightarrow> package_info list \<Rightarrow> package_closure" where
  "closure_of kn chosen =
     foldl (\<lambda>cl parent. add_edges (info_name parent)
              (case deps_of kn parent of None \<Rightarrow> [] | Some deps \<Rightarrow> deps) cl)
       \<lparr>cl_packages = map (\<lambda>info. \<lparr>rs_info = info, rs_required_by = []\<rparr>) chosen, cl_provided = []\<rparr> chosen"

definition solve :: "known \<Rightarrow> package_info \<Rightarrow> stop + package_closure" where
  "solve kn root =
     (case search kn (is_prerelease (pi_version root)) [root] \<lparr>sv_steps = 0, sv_conflict = None\<rparr> of
        (Inl s, _) \<Rightarrow> Inl s
      | (Inr None, sv) \<Rightarrow>
          Inl (Stop_Fail (Msg ''no set of versions fits the dependencies of {}''
                 [info_name root, case sv_conflict sv of None \<Rightarrow> [] | Some (Msg t _) \<Rightarrow> t]))
      | (Inr (Some chosen), _) \<Rightarrow> Inr (closure_of kn chosen))"

section \<open>Asking the source\<close>

fun edges_new :: "package_info \<Rightarrow> dependency_ref list \<Rightarrow> closure_error + edge list" where
  "edges_new info [] = Inr []"
| "edges_new info (d # ds) =
     bind_result (edge_new info d) (\<lambda>e. map_result ((#) e) (edges_new info ds))"

definition answer_need :: "source \<Rightarrow> need \<Rightarrow> known \<Rightarrow> closure_error + known" where
  "answer_need src n kn =
     (case n of
        Need_Versions i \<Rightarrow>
          bind_result (map_err Upstream (src_versions src i)) (\<lambda>versions. Inr (learn_versions i versions kn))
      | Need_Dependencies info \<Rightarrow>
          bind_result (map_err Upstream (src_dependencies src info)) (\<lambda>deps.
          bind_result (edges_new info deps) (\<lambda>edges. Inr (learn_dependencies info edges kn))))"

fun resolve_within :: "nat \<Rightarrow> source \<Rightarrow> package_info \<Rightarrow> known \<Rightarrow> closure_error + package_closure" where
  "resolve_within 0 src root kn =
     Inl (Unresolvable (Msg ''the closure of {} needs more than {MAX_LOOKUPS} lookups'' [info_name root]))"
| "resolve_within (Suc n) src root kn =
     (case solve kn root of
        Inr cl \<Rightarrow> Inr cl
      | Inl (Stop_Fail why) \<Rightarrow> Inl (Unresolvable why)
      | Inl (Stop_Need need) \<Rightarrow> bind_result (answer_need src need kn) (resolve_within n src root))"

definition resolve :: "source \<Rightarrow> package_info \<Rightarrow> closure_error + package_closure" where
  "resolve src root = resolve_within max_lookups src root nothing_known"

section \<open>The search stays within its budget\<close>

text \<open>What a need asks for is not known yet.\<close>

definition unknown :: "known \<Rightarrow> need \<Rightarrow> bool" where
  "unknown kn n =
     (case n of
        Need_Versions i \<Rightarrow> map_of (kn_versions kn) (to_ascii_lowercase i) = None
      | Need_Dependencies info \<Rightarrow> deps_of kn info = None)"

text \<open>The edges of a known package are keyed by their ids.\<close>

definition keyed :: "known \<Rightarrow> bool" where
  "keyed kn \<longleftrightarrow> (\<forall>(k, edges) \<in> set (kn_dependencies kn). \<forall>e \<in> set edges. ed_key e = to_ascii_lowercase (ed_id e))"

definition within_budget :: "known \<Rightarrow> package_info list \<Rightarrow> verdict \<Rightarrow> bool" where
  "within_budget kn chosen r =
     (case r of
        Inl (Stop_Need n) \<Rightarrow> keyed kn \<longrightarrow> unknown kn n
      | Inr (Some all) \<Rightarrow> length all \<le> max (length chosen) max_packages
      | _ \<Rightarrow> True)"

lemma deps_of_keyed: "keyed kn \<Longrightarrow> deps_of kn p = Some edges \<Longrightarrow> e \<in> set edges \<Longrightarrow> ed_key e = to_ascii_lowercase (ed_id e)"
  by (fastforce simp: keyed_def deps_of_def find_Some_iff in_set_conv_nth)

lemma open_edges_Inr:
  assumes "open_edges kn chosen = Inr edges"
  shows "(p, e) \<in> set edges \<longleftrightarrow>
    p \<in> set chosen \<and> ed_key e \<noteq> cli_package \<and> (\<exists>deps. deps_of kn p = Some deps \<and> e \<in> set deps)"
  using assms
proof (induction chosen arbitrary: edges)
  case (Cons c rest)
  then obtain deps more where "deps_of kn c = Some deps" "open_edges kn rest = Inr more"
      "edges = map (Pair c) (filter (\<lambda>e. ed_key e \<noteq> cli_package) deps) @ more"
    by (auto simp: map_result_def split: option.splits sum.splits)
  with Cons.IH [of more] show ?case by auto
qed simp

lemma open_edges_known: "open_edges kn chosen = Inr edges \<Longrightarrow> p \<in> set chosen \<Longrightarrow> deps_of kn p \<noteq> None"
  by (induction chosen arbitrary: edges) (auto simp: map_result_def split: option.splits sum.splits)

lemma open_edges_Inl: "open_edges kn chosen = Inl info \<Longrightarrow> deps_of kn info = None \<and> info \<in> set chosen"
  by (induction chosen) (auto simp: map_result_def split: option.splits sum.splits)

text \<open>The ways one call ends, or goes on.\<close>

lemma next_choice_cases:
  assumes "next_choice kn pre chosen sv = (r, sv')"
  obtains (failed) why where "r = Inl (Inl (Stop_Fail why))"
  | (asks) info where "r = Inl (Inl (Stop_Need (Need_Dependencies info)))" "deps_of kn info = None"
  | (clash) edges p e where "r = Inl (Inr None)" "open_edges kn chosen = Inr edges" "(p, e) \<in> set edges"
      "clashes chosen (p, e)"
  | (complete) edges where "r = Inl (Inr (Some chosen))" "open_edges kn chosen = Inr edges"
      "\<forall>pe \<in> set edges. \<not> clashes chosen pe" "\<forall>(p, e) \<in> set edges. chosen_as chosen (ed_key e) \<noteq> None"
  | (lists) edges p e where "r = Inl (Inl (Stop_Need (Need_Versions (ed_id e))))" "open_edges kn chosen = Inr edges"
      "(p, e) \<in> set edges" "map_of (kn_versions kn) (ed_key e) = None"
  | (choice) edges p e versions found where "r = (if found = [] then Inl (Inr None) else Inr found)"
      "open_edges kn chosen = Inr edges" "(p, e) \<in> set edges" "chosen_as chosen (ed_key e) = None"
      "map_of (kn_versions kn) (ed_key e) = Some versions" "length chosen < max_packages"
      "found = candidates pre (filter (\<lambda>(_, e'). ed_key e' = ed_key e) edges) versions"
proof -
  have in_set: "x \<in> set xs \<and> P x" if "find P xs = Some x" for P x and xs :: "(package_info \<times> edge) list"
    using that by (auto simp: find_Some_iff)
  let ?n = "sv_steps sv + 1"
  show ?thesis
  proof (cases "max_steps < ?n")
    case True
    with assms failed show ?thesis by (auto simp: next_choice_def)
  next
    case calm: False
    show ?thesis
    proof (cases "open_edges kn chosen")
      case (Inl info)
      with assms calm asks [of info] open_edges_Inl [OF Inl] show ?thesis by (auto simp: next_choice_def)
    next
      case open': (Inr edges)
      show ?thesis
      proof (cases "find (clashes chosen) edges")
        case (Some pe)
        with assms calm open' in_set [OF Some] clash [of edges "fst pe" "snd pe"] show ?thesis
          by (cases pe) (auto simp: next_choice_def)
      next
        case fits: None
        show ?thesis
        proof (cases "find (\<lambda>(_, e). chosen_as chosen (ed_key e) = None) edges")
          case None
          then have "\<forall>(p, e) \<in> set edges. chosen_as chosen (ed_key e) \<noteq> None"
            by (fastforce simp: find_None_iff)
          moreover from fits have "\<forall>pe \<in> set edges. \<not> clashes chosen pe" by (auto simp: find_None_iff)
          moreover have "r = Inl (Inr (Some chosen))"
            using assms calm open' fits None by (simp add: next_choice_def)
          ultimately show ?thesis using open' complete [of edges] by blast
        next
          case (Some pe)
          obtain p e where pe: "pe = (p, e)" by (cases pe)
          note wanted = in_set [OF Some [unfolded pe]]
          let ?on_it = "filter (\<lambda>(_, e'). ed_key e' = ed_key e) edges"
          show ?thesis
          proof (cases "max_packages \<le> length chosen")
            case True
            with assms calm open' fits Some pe failed show ?thesis by (auto simp: next_choice_def)
          next
            case room: False
            show ?thesis
            proof (cases "map_of (kn_versions kn) (ed_key e)")
              case None
              with assms calm open' fits Some pe room wanted lists [of e edges p] show ?thesis
                by (auto simp: next_choice_def)
            next
              case versions: (Some versions)
              with assms calm open' fits Some pe room wanted
                choice [of "candidates pre ?on_it versions" edges p e versions] show ?thesis
                by (cases "candidates pre ?on_it versions = []") (auto simp: next_choice_def Let_def)
            qed
          qed
        qed
      qed
    qed
  qed
qed

lemma within_budget_search:
  shows "sv_steps sv \<le> max_steps \<Longrightarrow> case search kn pre chosen sv of (r, sv') \<Rightarrow>
      within_budget kn chosen r \<and> sv_steps sv' \<le> Suc max_steps \<and> (\<forall>found. r = Inr found \<longrightarrow> sv_steps sv' \<le> max_steps)"
    and "sv_steps sv \<le> max_steps \<Longrightarrow> length chosen < max_packages \<Longrightarrow>
      case try_each kn pre chosen cs sv of (r, sv') \<Rightarrow>
      within_budget kn chosen r \<and> sv_steps sv' \<le> Suc max_steps \<and> (\<forall>found. r = Inr found \<longrightarrow> sv_steps sv' \<le> max_steps)"
proof (induction kn pre chosen sv and kn pre chosen cs sv rule: search_try_each.induct)
  case (1 kn pre chosen sv)
  obtain r sv1 where choice: "next_choice kn pre chosen sv = (r, sv1)" by (cases "next_choice kn pre chosen sv")
  note steps = next_choice_steps [OF choice]
  have ended: "sv_steps sv1 \<le> max_steps" if "r = Inl (Inr found)" for found
    using choice that by (auto simp: next_choice_def note_clash_def Let_def split: if_splits option.splits sum.splits prod.splits)
  show ?case
    using choice
  proof (cases rule: next_choice_cases)
    case (choice edges p e versions found)
    show ?thesis
    proof (cases "found = []")
      case True
      with choice ended show ?thesis by (simp add: search.simps \<open>next_choice _ _ _ _ = _\<close> within_budget_def)
    next
      case False
      with choice have "r = Inr found" by simp
      with "1.IH" [OF \<open>next_choice _ _ _ _ = _\<close> [symmetric] this] steps choice(6) "1.prems" show ?thesis
        by (simp add: search.simps \<open>next_choice _ _ _ _ = _\<close>)
    qed
  next
    case (lists edges p e)
    have "ed_key e = to_ascii_lowercase (ed_id e)" if "keyed kn"
      using lists open_edges_Inr [OF lists(2)] deps_of_keyed [OF that] by auto
    with lists steps "1.prems" show ?thesis
      by (auto simp: search.simps \<open>next_choice _ _ _ _ = _\<close> within_budget_def unknown_def)
  qed (use steps ended "1.prems" in \<open>simp_all add: search.simps \<open>next_choice _ _ _ _ = _\<close> within_budget_def unknown_def\<close>)
next
  case (2 kn pre chosen sv)
  then show ?case by (simp add: try_each.simps within_budget_def)
next
  case (3 kn pre chosen c cs sv)
  obtain r sv1 where run: "search kn pre (chosen @ [c]) sv = (r, sv1)" by (cases "search kn pre (chosen @ [c]) sv")
  have first: "within_budget kn (chosen @ [c]) r \<and> sv_steps sv1 \<le> Suc max_steps \<and>
      (\<forall>found. r = Inr found \<longrightarrow> sv_steps sv1 \<le> max_steps)"
    using "3.IH"(1) "3.prems" run by simp
  then have kept: "within_budget kn chosen r" 
    using "3.prems"(2) by (auto simp: within_budget_def split: sum.splits option.splits stop.splits)
  show ?case
  proof (cases r)
    case (Inl s)
    with first kept show ?thesis by (simp add: try_each.simps run)
  next
    case (Inr found)
    show ?thesis
    proof (cases found)
      case None
      with "3.IH"(2) [OF run [symmetric]] Inr first "3.prems" show ?thesis by (simp add: try_each.simps run)
    next
      case (Some all)
      with Inr first kept show ?thesis by (simp add: try_each.simps run)
    qed
  qed
qed

section \<open>The loop asks about each thing once\<close>

text \<open>The questions one resolution asks, in order.\<close>

fun questions :: "nat \<Rightarrow> source \<Rightarrow> package_info \<Rightarrow> known \<Rightarrow> need list" where
  "questions 0 src root kn = []"
| "questions (Suc n) src root kn =
     (case solve kn root of
        Inl (Stop_Need need) \<Rightarrow>
          need # (case answer_need src need kn of Inl _ \<Rightarrow> [] | Inr kn' \<Rightarrow> questions n src root kn')
      | _ \<Rightarrow> [])"

definition same_need :: "need \<Rightarrow> need \<Rightarrow> bool" where
  "same_need a b =
     (case (a, b) of
        (Need_Versions i, Need_Versions j) \<Rightarrow> to_ascii_lowercase i = to_ascii_lowercase j
      | (Need_Dependencies p, Need_Dependencies q) \<Rightarrow> same_key (info_key p) (info_key q)
      | _ \<Rightarrow> False)"

lemma same_key_trans: "same_key a b \<Longrightarrow> same_key b c \<Longrightarrow> same_key a c"
  unfolding same_key_def using eq_version_trans by metis

lemma same_key_sym: "same_key a b \<Longrightarrow> same_key b a"
  unfolding same_key_def using eq_version_sym by metis

lemma same_key_refl [simp]: "same_key a a"
  by (simp add: same_key_def)

lemma find_filter_other:
  "(\<And>x. x \<in> set xs \<Longrightarrow> P x \<Longrightarrow> Q x) \<Longrightarrow> find P (filter Q xs) = find P xs"
  by (induction xs) auto

lemma deps_of_learn_dependencies:
  "deps_of (learn_dependencies info edges kn) q =
     (if same_key (info_key info) (info_key q) then Some edges else deps_of kn q)"
proof -
  have "find (\<lambda>(k, _). same_key k (info_key q))
      (filter (\<lambda>(k, _). \<not> same_key k (info_key info)) (kn_dependencies kn)) =
      find (\<lambda>(k, _). same_key k (info_key q)) (kn_dependencies kn)"
    if "\<not> same_key (info_key info) (info_key q)"
  proof (rule find_filter_other)
    fix x assume "case x of (k, _) \<Rightarrow> same_key k (info_key q)"
    then have "same_key (fst x) (info_key q)" by (simp add: case_prod_beta)
    then have "\<not> same_key (fst x) (info_key info)"
      using that same_key_trans [OF same_key_sym, of "fst x" "info_key info" "info_key q"] by blast
    then show "case x of (k, _) \<Rightarrow> \<not> same_key k (info_key info)" by (simp add: case_prod_beta)
  qed
  then show ?thesis by (simp add: deps_of_def learn_dependencies_def)
qed

lemma map_of_filter_other: "k \<noteq> j \<Longrightarrow> map_of (filter (\<lambda>(k, _). k \<noteq> j) xs) k = map_of xs k"
  by (induction xs) auto

lemma learned [simp]:
  "map_of (kn_versions (learn_versions i vs kn)) k =
     (if k = to_ascii_lowercase i then Some vs else map_of (kn_versions kn) k)"
  "deps_of (learn_versions i vs kn) = deps_of kn"
  "kn_versions (learn_dependencies info edges kn) = kn_versions kn"
  by (auto simp: learn_versions_def learn_dependencies_def deps_of_def [abs_def] map_of_filter_other)

lemma edges_new_edges:
  "edges_new info deps = Inr edges \<Longrightarrow> e \<in> set edges \<Longrightarrow>
     \<exists>d \<in> set deps. ed_id e = dr_id d \<and> ed_key e = to_ascii_lowercase (dr_id d) \<and>
       parse_range (case dr_range d of None \<Rightarrow> [] | Some r \<Rightarrow> r) = Inr (ed_range e)"
  by (induction deps arbitrary: edges)
    (fastforce simp: edge_new_def bind_result_def map_result_def split: sum.splits if_splits)+

lemma edges_new_complete:
  "edges_new info deps = Inr edges \<Longrightarrow> d \<in> set deps \<Longrightarrow>
     \<exists>e \<in> set edges. ed_id e = dr_id d \<and> ed_key e = to_ascii_lowercase (dr_id d) \<and>
       parse_range (case dr_range d of None \<Rightarrow> [] | Some r \<Rightarrow> r) = Inr (ed_range e)"
  by (induction deps arbitrary: edges)
    (fastforce simp: edge_new_def bind_result_def map_result_def split: sum.splits if_splits)+

lemma answer_need_learns:
  assumes "answer_need src n kn = Inr kn'"
  shows "unknown kn' m \<longleftrightarrow> unknown kn m \<and> \<not> same_need n m"
  using assms
  by (cases n; cases m)
    (auto simp: answer_need_def bind_result_def map_err_def unknown_def same_need_def deps_of_learn_dependencies
      split: sum.splits if_splits)

lemma answer_need_keyed: "answer_need src n kn = Inr kn' \<Longrightarrow> keyed kn \<Longrightarrow> keyed kn'"
  by (cases n) (fastforce simp: answer_need_def bind_result_def map_err_def keyed_def learn_versions_def
      learn_dependencies_def dest: edges_new_edges split: sum.splits)+

lemma solve_need_unknown:
  assumes "keyed kn" and "solve kn root = Inl (Stop_Need n)"
  shows "unknown kn n"
proof -
  have "sv_steps \<lparr>sv_steps = 0, sv_conflict = None\<rparr> \<le> max_steps" by simp
  from within_budget_search(1) [OF this, where kn = kn and pre = "is_prerelease (pi_version root)" and chosen = "[root]"] assms show ?thesis
    by (auto simp: solve_def within_budget_def split: prod.splits sum.splits option.splits)
qed

lemma questions_apart:
  "keyed kn \<Longrightarrow> sorted_wrt (\<lambda>a b. \<not> same_need a b) (questions n src root kn) \<and>
     (\<forall>q \<in> set (questions n src root kn). unknown kn q) \<and> length (questions n src root kn) \<le> n"
proof (induction n arbitrary: kn)
  case (Suc n)
  show ?case
  proof (cases "\<exists>m. solve kn root = Inl (Stop_Need m)")
    case True
    then obtain m where m: "solve kn root = Inl (Stop_Need m)" by blast
    note fresh = solve_need_unknown [OF Suc.prems m]
    show ?thesis
    proof (cases "answer_need src m kn")
      case (Inl e)
      with m fresh show ?thesis by simp
    next
      case (Inr kn')
      with Suc.IH [OF answer_need_keyed [OF Inr Suc.prems]] answer_need_learns [OF Inr] m fresh
      show ?thesis by auto
    qed
  next
    case False
    then show ?thesis by (auto split: sum.splits stop.splits)
  qed
qed simp

text \<open>The questions are those of the resolution: it depends on nothing else of the source.\<close>

definition source_answers :: "source \<Rightarrow> source \<Rightarrow> need \<Rightarrow> bool" where
  "source_answers src src' n =
     (case n of
        Need_Versions i \<Rightarrow> src_versions src i = src_versions src' i
      | Need_Dependencies info \<Rightarrow> src_dependencies src info = src_dependencies src' info)"

lemma answer_need_cong: "source_answers src src' n \<Longrightarrow> answer_need src n kn = answer_need src' n kn"
  by (cases n) (simp_all add: source_answers_def answer_need_def)

lemma resolve_within_questions:
  "list_all (source_answers src src') (questions n src root kn) \<Longrightarrow>
     resolve_within n src root kn = resolve_within n src' root kn"
proof (induction n arbitrary: kn)
  case (Suc n)
  show ?case
  proof (cases "\<exists>m. solve kn root = Inl (Stop_Need m)")
    case True
    then obtain m where m: "solve kn root = Inl (Stop_Need m)" by blast
    with Suc.prems have "answer_need src m kn = answer_need src' m kn" by (auto intro: answer_need_cong)
    with m Suc show ?thesis by (cases "answer_need src' m kn") (simp_all add: bind_result_def)
  next
    case False
    then show ?thesis by (auto split: sum.splits stop.splits)
  qed
qed simp

text \<open>
  C25: resolving a closure ends. One search makes at most 100,001 calls of itself and chooses at
  most 500 packages; the loop asks the source at most 2,000 questions, no two of them about the
  same version list or the same package's dependencies, and no other answer of the source
  matters to the result.
\<close>
theorem resolution_ends:
  "length (questions max_lookups src root nothing_known) \<le> max_lookups \<and>
   sorted_wrt (\<lambda>a b. \<not> same_need a b) (questions max_lookups src root nothing_known) \<and>
   (if list_all (source_answers src src') (questions max_lookups src root nothing_known)
    then resolve src' root = resolve src root else True) \<and>
   (case search kn pre [root] \<lparr>sv_steps = 0, sv_conflict = None\<rparr> of
      (r, sv) \<Rightarrow> sv_steps sv \<le> Suc max_steps \<and>
        (case r of Inr (Some all) \<Rightarrow> length all \<le> max_packages | _ \<Rightarrow> True))"
proof -
  have "keyed nothing_known" by (simp add: keyed_def nothing_known_def)
  note asked = questions_apart [OF this, of max_lookups src root]
  have "sv_steps \<lparr>sv_steps = 0, sv_conflict = None\<rparr> \<le> max_steps" by simp
  from within_budget_search(1) [OF this, where kn = kn and pre = pre and chosen = "[root]"]
  have "case search kn pre [root] \<lparr>sv_steps = 0, sv_conflict = None\<rparr> of
      (r, sv) \<Rightarrow> sv_steps sv \<le> Suc max_steps \<and>
        (case r of Inr (Some all) \<Rightarrow> length all \<le> max_packages | _ \<Rightarrow> True)"
    by (auto simp: within_budget_def max_packages_def split: prod.splits sum.splits option.splits)
  with asked resolve_within_questions [of src src' max_lookups root nothing_known] show ?thesis
    by (auto simp: resolve_def)
qed

section \<open>What a closure is\<close>

definition asked_range :: "dependency_ref \<Rightarrow> range_parse_error + version_range" where
  "asked_range d = parse_range (case dr_range d of None \<Rightarrow> [] | Some r \<Rightarrow> r)"

text \<open>Some package of the set is what a dependency asks for.\<close>

definition met :: "package_info set \<Rightarrow> dependency_ref \<Rightarrow> bool" where
  "met S d \<longleftrightarrow>
     (\<exists>q \<in> S. \<exists>b. eq_ignore_ascii_case (pi_id q) (dr_id d) \<and> asked_range d = Inr b \<and> range_contains b (pi_version q))"

definition closed_set :: "source \<Rightarrow> package_info set \<Rightarrow> bool" where
  "closed_set src S \<longleftrightarrow>
     (\<forall>p \<in> S. \<exists>deps. src_dependencies src p = Inr deps \<and>
        (\<forall>d \<in> set deps. to_ascii_lowercase (dr_id d) \<noteq> cli_package \<longrightarrow> met S d))"

definition one_version :: "package_info set \<Rightarrow> bool" where
  "one_version S \<longleftrightarrow> (\<forall>p \<in> S. \<forall>q \<in> S. eq_ignore_ascii_case (pi_id p) (pi_id q) \<longrightarrow> p = q)"

definition offered :: "source \<Rightarrow> package_info \<Rightarrow> bool" where
  "offered src q \<longleftrightarrow> (\<exists>i vs. src_versions src i = Inr vs \<and> q \<in> set vs)"

definition pinned :: "source \<Rightarrow> package_info set \<Rightarrow> package_info \<Rightarrow> bool" where
  "pinned src S q \<longleftrightarrow>
     (\<exists>p \<in> S. \<exists>deps. src_dependencies src p = Inr deps \<and>
        (\<exists>d \<in> set deps. \<exists>b. asked_range d = Inr b \<and> pins b (pi_version q)))"

text \<open>A closure without a pre-release, unless the root is one.\<close>

definition fits :: "source \<Rightarrow> package_info \<Rightarrow> package_info set \<Rightarrow> bool" where
  "fits src root S \<longleftrightarrow>
     root \<in> S \<and> one_version S \<and> closed_set src S \<and>
     (\<forall>q \<in> S. q = root \<or> offered src q \<and> (is_prerelease (pi_version root) \<or> \<not> is_prerelease (pi_version q)))"

text \<open>
  What is documented of a source: a version list holds the id asked for, and answers do not
  depend on how an id is capitalised or a version is written.
\<close>

definition source_ok :: "source \<Rightarrow> bool" where
  "source_ok src \<longleftrightarrow>
     (\<forall>i vs. src_versions src i = Inr vs \<longrightarrow> (\<forall>v \<in> set vs. eq_ignore_ascii_case (pi_id v) i)) \<and>
     (\<forall>i j. eq_ignore_ascii_case i j \<longrightarrow> src_versions src i = src_versions src j) \<and>
     (\<forall>p q. same_key (info_key p) (info_key q) \<longrightarrow> src_dependencies src p = src_dependencies src q)"

definition learned_from :: "source \<Rightarrow> known \<Rightarrow> bool" where
  "learned_from src kn \<longleftrightarrow>
     (\<forall>k vs. map_of (kn_versions kn) k = Some vs \<longrightarrow>
        (\<exists>i. to_ascii_lowercase i = k \<and> src_versions src i = Inr vs)) \<and>
     (\<forall>p edges. deps_of kn p = Some edges \<longrightarrow>
        (\<exists>deps info. src_dependencies src p = Inr deps \<and> edges_new info deps = Inr edges))"

lemma learned_from_nothing: "learned_from src nothing_known"
  by (simp add: learned_from_def nothing_known_def deps_of_def)

lemma learned_from_answer:
  assumes "source_ok src" and "learned_from src kn" and "answer_need src n kn = Inr kn'"
  shows "learned_from src kn'"
proof (cases n)
  case (Need_Versions i)
  with assms show ?thesis
    by (auto simp: answer_need_def bind_result_def map_err_def learned_from_def split: sum.splits if_splits)
next
  case (Need_Dependencies info)
  with assms(3) obtain deps edges where "src_dependencies src info = Inr deps" "edges_new info deps = Inr edges"
      "kn' = learn_dependencies info edges kn"
    by (auto simp: answer_need_def bind_result_def map_err_def split: sum.splits)
  moreover from this have "src_dependencies src p = Inr deps" if "same_key (info_key info) (info_key p)" for p
    using assms(1) that unfolding source_ok_def by metis
  ultimately show ?thesis
    using assms(2) by (auto simp: learned_from_def deps_of_learn_dependencies)
qed

lemma known_edge:
  assumes "learned_from src kn" and "deps_of kn p = Some edges" and "e \<in> set edges"
  obtains deps d where "src_dependencies src p = Inr deps" "d \<in> set deps" "asked_range d = Inr (ed_range e)"
    "ed_key e = to_ascii_lowercase (dr_id d)"
  using assms edges_new_edges unfolding learned_from_def asked_range_def by metis

lemma learned_keyed: "ed_key e = to_ascii_lowercase i \<Longrightarrow> eq_ignore_ascii_case j (ed_key e) \<longleftrightarrow> eq_ignore_ascii_case j i"
  by (simp add: eq_ignore_ascii_case_def)

section \<open>A dead end has no closure beyond it\<close>

lemma edge_met:
  assumes "learned_from src kn" and "fits src root S" and "p \<in> S" and "deps_of kn p = Some edges" and "e \<in> set edges"
    and "ed_key e \<noteq> cli_package"
  obtains q where "q \<in> S" "eq_ignore_ascii_case (pi_id q) (ed_key e)" "range_contains (ed_range e) (pi_version q)"
proof -
  obtain deps d where d: "src_dependencies src p = Inr deps" "d \<in> set deps" "asked_range d = Inr (ed_range e)"
      "ed_key e = to_ascii_lowercase (dr_id d)"
    using known_edge [OF assms(1,4,5)] .
  from assms(2,3) d(1,2,4) assms(6) have "met S d" unfolding fits_def closed_set_def by fastforce
  with d(3) that learned_keyed [OF d(4)] show ?thesis unfolding met_def by auto
qed

lemma open_edge_met:
  assumes "learned_from src kn" and "fits src root S" and "set chosen \<subseteq> S"
    and opened: "open_edges kn chosen = Inr edges" "(p, e) \<in> set edges"
  shows "\<exists>q \<in> S. eq_ignore_ascii_case (pi_id q) (ed_key e) \<and> range_contains (ed_range e) (pi_version q)"
proof -
  from open_edges_Inr [OF opened(1), of p e] opened(2) obtain deps where
    "p \<in> set chosen" "ed_key e \<noteq> cli_package" "deps_of kn p = Some deps" "e \<in> set deps" by blast
  with assms(1-3) edge_met [of src kn root S p deps e] show ?thesis by blast
qed

lemma edge_in_listed:
  assumes src: "source_ok src" and kn: "learned_from src kn" and fits: "fits src root S"
    and q: "q \<in> S" "q \<noteq> root" "eq_ignore_ascii_case (pi_id q) k" and k: "map_of (kn_versions kn) k = Some versions"
  shows "q \<in> set versions"
proof -
  from fits q obtain i vs where i: "src_versions src i = Inr vs" "q \<in> set vs"
    unfolding fits_def offered_def by blast
  from kn k obtain j where j: "to_ascii_lowercase j = k" "src_versions src j = Inr versions"
    unfolding learned_from_def by blast
  have "eq_ignore_ascii_case (pi_id q) i" using src i unfolding source_ok_def by blast
  with q(3) j(1) have "eq_ignore_ascii_case i j" by (auto simp: eq_ignore_ascii_case_def)
  with src i(1) j(2) have "vs = versions" unfolding source_ok_def by (metis sum.inject(2))
  with i(2) show ?thesis by simp
qed

lemma chosen_as_Some: "chosen_as chosen k = Some c \<Longrightarrow> c \<in> set chosen \<and> eq_ignore_ascii_case (pi_id c) k"
  by (auto simp: chosen_as_def find_Some_iff)

lemma chosen_as_None: "chosen_as chosen k = None \<longleftrightarrow> (\<forall>c \<in> set chosen. \<not> eq_ignore_ascii_case (pi_id c) k)"
  by (auto simp: chosen_as_def find_None_iff)

lemma in_candidates:
  "v \<in> set (candidates pre on_it versions) \<longleftrightarrow> v \<in> set versions \<and>
     (\<forall>(p, e) \<in> set on_it. range_contains (ed_range e) (pi_version v)) \<and>
     ((\<exists>(p, e) \<in> set on_it. pins (ed_range e) (pi_version v)) \<or> pre \<or> \<not> is_prerelease (pi_version v))"
  by (auto simp: candidates_def Let_def list_all_iff list_ex_iff)

lemma fits_candidate:
  assumes src: "source_ok src" "learned_from src kn" and fits: "fits src root S" "set chosen \<subseteq> S" "root \<in> set chosen"
    and opened: "open_edges kn chosen = Inr edges" "(p, e) \<in> set edges" "chosen_as chosen (ed_key e) = None"
    and versions: "map_of (kn_versions kn) (ed_key e) = Some versions"
  shows "\<exists>q \<in> S. q \<in> set (candidates (is_prerelease (pi_version root))
     (filter (\<lambda>(_, e'). ed_key e' = ed_key e) edges) versions)"
proof -
  obtain q where q: "q \<in> S" "eq_ignore_ascii_case (pi_id q) (ed_key e)"
    using open_edge_met [OF src(2) fits(1,2) opened(1,2)] by blast
  from opened(3) have "\<forall>c \<in> set chosen. \<not> eq_ignore_ascii_case (pi_id c) (ed_key e)"
    unfolding chosen_as_None .
  with q(2) fits(3) have "q \<noteq> root" by blast
  have "range_contains (ed_range e') (pi_version q)" if asks: "(p', e') \<in> set edges" "ed_key e' = ed_key e" for p' e'
  proof -
    obtain q' where q': "q' \<in> S" "eq_ignore_ascii_case (pi_id q') (ed_key e')" "range_contains (ed_range e') (pi_version q')"
      using open_edge_met [OF src(2) fits(1,2) opened(1) asks(1)] by blast
    with q asks(2) have "eq_ignore_ascii_case (pi_id q) (pi_id q')" by (auto simp: eq_ignore_ascii_case_def)
    with q(1) q'(1) fits(1) have "q = q'" unfolding fits_def one_version_def by blast
    with q'(3) show ?thesis by simp
  qed
  moreover have "q \<in> set versions"
    using edge_in_listed [OF src fits(1) q(1) \<open>q \<noteq> root\<close> q(2) versions] .
  moreover have "is_prerelease (pi_version root) \<or> \<not> is_prerelease (pi_version q)"
    using fits(1) q(1) \<open>q \<noteq> root\<close> unfolding fits_def by blast
  ultimately show ?thesis using q(1) by (auto simp: in_candidates)
qed

lemma clash_has_no_closure:
  assumes src: "source_ok src" "learned_from src kn" and fits: "fits src root S" "set chosen \<subseteq> S"
    and opened: "open_edges kn chosen = Inr edges" "(p, e) \<in> set edges"
  shows "\<not> clashes chosen (p, e)"
proof
  assume "clashes chosen (p, e)"
  then obtain c where c: "chosen_as chosen (ed_key e) = Some c" "\<not> range_contains (ed_range e) (pi_version c)"
    by (auto simp: clashes_def split: option.splits)
  obtain q where q: "q \<in> S" "eq_ignore_ascii_case (pi_id q) (ed_key e)" "range_contains (ed_range e) (pi_version q)"
    using open_edge_met [OF src(2) fits(1,2) opened] by blast
  have "c \<in> S" "eq_ignore_ascii_case (pi_id c) (pi_id q)"
    using chosen_as_Some [OF c(1)] fits(2) q(2) by (auto simp: eq_ignore_ascii_case_def)
  with q(1) fits(1) have "c = q" unfolding fits_def one_version_def by blast
  with c(2) q(3) show False by simp
qed

lemma dead_end:
  assumes src: "source_ok src"
  shows "learned_from src kn \<Longrightarrow> pre = is_prerelease (pi_version root) \<Longrightarrow> root \<in> set chosen \<Longrightarrow>
      fits src root S \<Longrightarrow> set chosen \<subseteq> S \<Longrightarrow> fst (search kn pre chosen sv) \<noteq> Inr None"
    and "learned_from src kn \<Longrightarrow> pre = is_prerelease (pi_version root) \<Longrightarrow> root \<in> set chosen \<Longrightarrow>
      fits src root S \<Longrightarrow> set chosen \<subseteq> S \<Longrightarrow> set cs \<inter> S \<noteq> {} \<Longrightarrow> fst (try_each kn pre chosen cs sv) \<noteq> Inr None"
proof (induction kn pre chosen sv and kn pre chosen cs sv rule: search_try_each.induct)
  case (1 kn pre chosen sv)
  obtain r sv1 where choice: "next_choice kn pre chosen sv = (r, sv1)" by (cases "next_choice kn pre chosen sv")
  show ?case
    using choice
  proof (cases rule: next_choice_cases)
    case (clash edges p e)
    with clash_has_no_closure [OF src "1.prems"(1,4,5)] show ?thesis by blast
  next
    case (choice edges p e versions found)
    obtain q where q: "q \<in> S" "q \<in> set found"
      using fits_candidate [OF src "1.prems"(1,4,5,3) choice(2-5)] choice(7) "1.prems"(2) by blast
    then have "r = Inr found" and "set found \<inter> S \<noteq> {}" using choice(1) by auto
    with "1.IH" [OF \<open>next_choice _ _ _ _ = _\<close> [symmetric] _ "1.prems"] show ?thesis
      by (simp add: search.simps \<open>next_choice _ _ _ _ = _\<close>)
  qed (simp_all add: search.simps \<open>next_choice _ _ _ _ = _\<close>)
next
  case (3 kn pre chosen x cs sv)
  obtain r sv1 where run: "search kn pre (chosen @ [x]) sv = (r, sv1)" by (cases "search kn pre (chosen @ [x]) sv")
  show ?case
  proof (cases "r = Inr None")
    case True
    have "x \<notin> S"
    proof
      assume "x \<in> S"
      with "3.IH"(1) "3.prems" run True show False by simp
    qed
    with "3.prems"(6) have "set cs \<inter> S \<noteq> {}" by auto
    with "3.IH"(2) [OF run [symmetric] True refl "3.prems"(1-5)] True show ?thesis
      by (simp add: try_each.simps run)
  next
    case False
    then show ?thesis by (auto simp: try_each.simps run split: sum.splits option.splits)
  qed
qed simp

section \<open>What the search finds is closed\<close>

definition pinned_by :: "known \<Rightarrow> package_info list \<Rightarrow> package_info \<Rightarrow> bool" where
  "pinned_by kn chosen q \<longleftrightarrow>
     (\<exists>p \<in> set chosen. \<exists>deps. deps_of kn p = Some deps \<and> (\<exists>e \<in> set deps. pins (ed_range e) (pi_version q)))"

definition proper_choice :: "known \<Rightarrow> bool \<Rightarrow> package_info \<Rightarrow> package_info list \<Rightarrow> bool" where
  "proper_choice kn pre root chosen \<longleftrightarrow>
     chosen \<noteq> [] \<and> hd chosen = root \<and> distinct (map (\<lambda>p. to_ascii_lowercase (pi_id p)) chosen) \<and>
     (\<forall>q \<in> set chosen. q = root \<or>
        (\<exists>k vs. map_of (kn_versions kn) k = Some vs \<and> q \<in> set vs) \<and>
        (pre \<or> \<not> is_prerelease (pi_version q) \<or> pinned_by kn chosen q))"

definition settled :: "known \<Rightarrow> package_info list \<Rightarrow> bool" where
  "settled kn chosen \<longleftrightarrow>
     (\<exists>edges. open_edges kn chosen = Inr edges \<and> (\<forall>pe \<in> set edges. \<not> clashes chosen pe) \<and>
        (\<forall>(p, e) \<in> set edges. chosen_as chosen (ed_key e) \<noteq> None))"

lemma listed_ids:
  assumes "source_ok src" and "learned_from src kn" and "map_of (kn_versions kn) k = Some vs" and "v \<in> set vs"
  shows "to_ascii_lowercase (pi_id v) = k"
proof -
  from assms(2,3) obtain i where "to_ascii_lowercase i = k" "src_versions src i = Inr vs"
    unfolding learned_from_def by blast
  moreover from this assms(1,4) have "eq_ignore_ascii_case (pi_id v) i" unfolding source_ok_def by blast
  ultimately show ?thesis by (simp add: eq_ignore_ascii_case_def)
qed

lemma proper_choice_extended:
  assumes src: "source_ok src" "learned_from src kn" "keyed kn" and proper: "proper_choice kn pre root chosen"
    and opened: "open_edges kn chosen = Inr edges" "(p, e) \<in> set edges" "chosen_as chosen (ed_key e) = None"
    and versions: "map_of (kn_versions kn) (ed_key e) = Some versions"
    and c: "c \<in> set (candidates pre (filter (\<lambda>(_, e'). ed_key e' = ed_key e) edges) versions)"
  shows "proper_choice kn pre root (chosen @ [c])"
proof -
  have c': "c \<in> set versions" using c by (simp add: in_candidates)
  have id: "to_ascii_lowercase (pi_id c) = ed_key e" using listed_ids [OF src(1,2) versions c'] .
  then have fresh: "to_ascii_lowercase (pi_id c) \<notin> (\<lambda>p. to_ascii_lowercase (pi_id p)) ` set chosen"
    using opened(3) by (fastforce simp: chosen_as_None eq_ignore_ascii_case_def simp flip: id)
  have grown: "pinned_by kn (chosen @ [c]) q" if "pinned_by kn chosen q" for q
    using that by (auto simp: pinned_by_def)
  have "pinned_by kn (chosen @ [c]) c" if "(p', e') \<in> set edges" "pins (ed_range e') (pi_version c)" for p' e'
  proof -
    from open_edges_Inr [OF opened(1), of p' e'] that(1) obtain deps where
      "p' \<in> set chosen" "deps_of kn p' = Some deps" "e' \<in> set deps" by blast
    with that(2) show ?thesis unfolding pinned_by_def by auto
  qed
  then have "pre \<or> \<not> is_prerelease (pi_version c) \<or> pinned_by kn (chosen @ [c]) c"
    using c by (auto simp: in_candidates)
  with proper fresh c' versions grown show ?thesis
    unfolding proper_choice_def by auto
qed

lemma search_sound:
  assumes src: "source_ok src"
  shows "learned_from src kn \<Longrightarrow> keyed kn \<Longrightarrow> proper_choice kn pre root chosen \<Longrightarrow>
      fst (search kn pre chosen sv) = Inr (Some all) \<Longrightarrow> proper_choice kn pre root all \<and> settled kn all"
    and "learned_from src kn \<Longrightarrow> keyed kn \<Longrightarrow> (\<forall>c \<in> set cs. proper_choice kn pre root (chosen @ [c])) \<Longrightarrow>
      fst (try_each kn pre chosen cs sv) = Inr (Some all) \<Longrightarrow> proper_choice kn pre root all \<and> settled kn all"
proof (induction kn pre chosen sv and kn pre chosen cs sv rule: search_try_each.induct)
  case (1 kn pre chosen sv)
  obtain r sv1 where choice: "next_choice kn pre chosen sv = (r, sv1)" by (cases "next_choice kn pre chosen sv")
  show ?case
    using choice
  proof (cases rule: next_choice_cases)
    case (complete edges)
    with "1.prems" show ?thesis
      by (auto simp: search.simps \<open>next_choice _ _ _ _ = _\<close> settled_def)
  next
    case (choice edges p e versions found)
    show ?thesis
    proof (cases "found = []")
      case True
      with choice(1) "1.prems"(4) show ?thesis by (simp add: search.simps \<open>next_choice _ _ _ _ = _\<close>)
    next
      case False
      then have r: "r = Inr found" using choice(1) by simp
      have "\<forall>c \<in> set found. proper_choice kn pre root (chosen @ [c])"
        using proper_choice_extended [OF src "1.prems"(1-3) choice(2-5)] choice(7) by blast
      with "1.IH" [OF \<open>next_choice _ _ _ _ = _\<close> [symmetric] r "1.prems"(1,2)] "1.prems"(4) r show ?thesis
        by (simp add: search.simps \<open>next_choice _ _ _ _ = _\<close>)
    qed
  qed (use "1.prems"(4) in \<open>simp_all add: search.simps \<open>next_choice _ _ _ _ = _\<close>\<close>)
next
  case (3 kn pre chosen x cs sv)
  obtain r sv1 where run: "search kn pre (chosen @ [x]) sv = (r, sv1)" by (cases "search kn pre (chosen @ [x]) sv")
  show ?case
  proof (cases "r = Inr None")
    case True
    with "3.IH"(2) [OF run [symmetric] True refl "3.prems"(1,2)] "3.prems"(3,4) show ?thesis
      by (simp add: try_each.simps run)
  next
    case False
    with "3.prems"(4) have "r = Inr (Some all)"
      by (auto simp: try_each.simps run split: sum.splits option.splits)
    with "3.IH"(1) "3.prems"(1-3) run show ?thesis by simp
  qed
qed (simp add: try_each.simps)

text \<open>Who needs a package is written down without changing what was chosen.\<close>

lemma require_infos [simp]: "map rs_info (require name e packages) = map rs_info packages"
proof -
  have "n < length packages \<Longrightarrow> map rs_info (packages[n := (packages ! n)\<lparr>rs_required_by := x\<rparr>]) = map rs_info packages"
    for n x by (simp add: map_update list_update_same_conv)
  then show ?thesis
    by (cases "length (takeWhile (\<lambda>p. \<not> eq_ignore_ascii_case (pi_id (rs_info p)) (ed_id e)) packages) < length packages")
      (auto simp: require_def Let_def list_update_beyond split: option.splits)
qed

lemma closure_of_infos: "map rs_info (cl_packages (closure_of kn chosen)) = chosen"
proof -
  have one: "map rs_info (cl_packages (add_edges name es cl)) = map rs_info (cl_packages cl)" for name es cl
    by (induction es arbitrary: cl) auto
  have "map rs_info (cl_packages (foldl (\<lambda>cl parent. add_edges (info_name parent)
              (case deps_of kn parent of None \<Rightarrow> [] | Some deps \<Rightarrow> deps) cl) cl parents)) = map rs_info (cl_packages cl)"
    for parents cl
    by (induction parents arbitrary: cl) (simp_all add: one)
  then show ?thesis by (simp add: closure_of_def comp_def)
qed

definition sound_closure :: "source \<Rightarrow> package_info \<Rightarrow> package_info list \<Rightarrow> bool" where
  "sound_closure src root chosen \<longleftrightarrow>
     chosen \<noteq> [] \<and> hd chosen = root \<and> distinct chosen \<and> one_version (set chosen) \<and> closed_set src (set chosen) \<and>
     (\<forall>q \<in> set chosen. q = root \<or> offered src q \<and>
        (is_prerelease (pi_version root) \<or> \<not> is_prerelease (pi_version q) \<or> pinned src (set chosen) q))"

lemma settled_closed:
  assumes "learned_from src kn" and "settled kn chosen"
  shows "closed_set src (set chosen)"
  unfolding closed_set_def
proof
  fix p assume p: "p \<in> set chosen"
  from assms(2) obtain edges where opened: "open_edges kn chosen = Inr edges"
      and calm: "\<forall>pe \<in> set edges. \<not> clashes chosen pe" "\<forall>(p, e) \<in> set edges. chosen_as chosen (ed_key e) \<noteq> None"
    unfolding settled_def by blast
  from open_edges_known [OF opened p] obtain es where es: "deps_of kn p = Some es" by blast
  with assms(1) obtain deps info where deps: "src_dependencies src p = Inr deps" "edges_new info deps = Inr es"
    unfolding learned_from_def by blast
  have "met (set chosen) d" if d: "d \<in> set deps" "to_ascii_lowercase (dr_id d) \<noteq> cli_package" for d
  proof -
    obtain e where e: "e \<in> set es" "ed_key e = to_ascii_lowercase (dr_id d)" "asked_range d = Inr (ed_range e)"
      using edges_new_complete [OF deps(2) d(1)] by (auto simp: asked_range_def)
    with es p d(2) have "(p, e) \<in> set edges" by (simp add: open_edges_Inr [OF opened])
    with calm obtain c where c: "chosen_as chosen (ed_key e) = Some c" "range_contains (ed_range e) (pi_version c)"
      by (fastforce simp: clashes_def)
    with chosen_as_Some [OF c(1)] e(2,3) show ?thesis
      by (auto simp: met_def eq_ignore_ascii_case_def)
  qed
  with deps(1) show "\<exists>deps. src_dependencies src p = Inr deps \<and>
      (\<forall>d \<in> set deps. to_ascii_lowercase (dr_id d) \<noteq> cli_package \<longrightarrow> met (set chosen) d)" by blast
qed

lemma found_is_sound:
  assumes src: "source_ok src" "learned_from src kn"
    and proper: "proper_choice kn (is_prerelease (pi_version root)) root chosen" and settled: "settled kn chosen"
  shows "sound_closure src root chosen"
proof -
  have ids: "distinct (map (\<lambda>p. to_ascii_lowercase (pi_id p)) chosen)" using proper by (simp add: proper_choice_def)
  then have "distinct chosen" "one_version (set chosen)"
    by (auto simp: one_version_def eq_ignore_ascii_case_def distinct_map inj_on_def)
  moreover have "offered src q" if "map_of (kn_versions kn) k = Some vs" "q \<in> set vs" for q k vs
    using src(2) that unfolding learned_from_def offered_def by blast
  moreover have "pinned src (set chosen) q" if "pinned_by kn chosen q" for q
  proof -
    from that obtain p deps e where "p \<in> set chosen" "deps_of kn p = Some deps" "e \<in> set deps"
        "pins (ed_range e) (pi_version q)"
      unfolding pinned_by_def by blast
    with known_edge [OF src(2), of p deps e] show ?thesis unfolding pinned_def by metis
  qed
  ultimately show ?thesis
    using proper settled_closed [OF src(2) settled] unfolding sound_closure_def proper_choice_def by blast
qed

definition no_set_fits :: string where
  "no_set_fits = ''no set of versions fits the dependencies of {}''"

lemma next_choice_text:
  "next_choice kn pre chosen sv = (Inl (Inl (Stop_Fail (Msg t args))), sv') \<Longrightarrow> t \<noteq> no_set_fits"
  by (auto simp: next_choice_def no_set_fits_def Let_def split: if_splits option.splits sum.splits prod.splits)

lemma search_text:
  "fst (search kn pre chosen sv) = Inl (Stop_Fail (Msg t args)) \<Longrightarrow> t \<noteq> no_set_fits"
  "fst (try_each kn pre chosen cs sv) = Inl (Stop_Fail (Msg t args)) \<Longrightarrow> t \<noteq> no_set_fits"
proof (induction kn pre chosen sv and kn pre chosen cs sv rule: search_try_each.induct)
  case (1 kn pre chosen sv)
  obtain r sv1 where choice: "next_choice kn pre chosen sv = (r, sv1)" by (cases "next_choice kn pre chosen sv")
  show ?case
  proof (cases r)
    case (Inl v)
    with "1.prems" choice next_choice_text show ?thesis by (auto simp: search.simps)
  next
    case (Inr found)
    with "1.IH" [OF choice [symmetric] Inr] "1.prems" choice show ?thesis by (simp add: search.simps)
  qed
next
  case (3 kn pre chosen x cs sv)
  obtain r sv1 where run: "search kn pre (chosen @ [x]) sv = (r, sv1)" by (cases "search kn pre (chosen @ [x]) sv")
  show ?case
  proof (cases "r = Inr None")
    case True
    with "3.IH"(2) [OF run [symmetric] True refl] "3.prems" show ?thesis by (simp add: try_each.simps run)
  next
    case False
    with "3.IH"(1) "3.prems" run show ?thesis by (auto simp: try_each.simps run split: sum.splits option.splits)
  qed
qed (simp add: try_each.simps)

definition resolution_ok :: "source \<Rightarrow> package_info \<Rightarrow> closure_error + package_closure \<Rightarrow> bool" where
  "resolution_ok src root r =
     (case r of
        Inr cl \<Rightarrow> sound_closure src root (map rs_info (cl_packages cl))
      | Inl (Unresolvable (Msg t _)) \<Rightarrow> (if t = no_set_fits then \<not> (\<exists>S. fits src root S) else True)
      | Inl (Upstream _) \<Rightarrow> True)"

lemma solve_ok:
  assumes src: "source_ok src" "learned_from src kn" "keyed kn"
  shows "(\<forall>cl. solve kn root = Inr cl \<longrightarrow> sound_closure src root (map rs_info (cl_packages cl))) \<and>
     (\<forall>t args. solve kn root = Inl (Stop_Fail (Msg t args)) \<longrightarrow> t = no_set_fits \<longrightarrow> \<not> (\<exists>S. fits src root S))"
proof -
  let ?pre = "is_prerelease (pi_version root)" and ?sv = "\<lparr>sv_steps = 0, sv_conflict = None\<rparr>"
  obtain r sv where run: "search kn ?pre [root] ?sv = (r, sv)" by (cases "search kn ?pre [root] ?sv")
  have proper: "proper_choice kn ?pre root [root]" by (simp add: proper_choice_def)
  show ?thesis
  proof (cases r)
    case (Inl s)
    have "t \<noteq> no_set_fits" if "s = Stop_Fail (Msg t args)" for t args
      using search_text(1) [of kn ?pre "[root]" ?sv t args] run Inl that by simp
    with Inl run show ?thesis by (auto simp: solve_def)
  next
    case (Inr found)
    show ?thesis
    proof (cases found)
      case None
      have "\<not> fits src root S" for S
        using dead_end(1) [OF src(1,2), of ?pre root "[root]" S ?sv] run Inr None by (auto simp: fits_def)
      with Inr None run show ?thesis by (auto simp: solve_def)
    next
      case (Some all)
      with search_sound(1) [OF src proper, of ?sv all] run Inr found_is_sound [OF src(1,2), of root all]
      show ?thesis by (simp add: solve_def closure_of_infos)
    qed
  qed
qed

lemma edges_new_text: "edges_new info deps = Inl (Unresolvable (Msg t args)) \<Longrightarrow> t \<noteq> no_set_fits"
  by (induction deps) (auto simp: bind_result_def map_result_def edge_new_def no_set_fits_def
      split: sum.splits if_splits)

lemma answer_need_text: "answer_need src n kn = Inl (Unresolvable (Msg t args)) \<Longrightarrow> t \<noteq> no_set_fits"
  by (cases n) (auto simp: answer_need_def bind_result_def map_err_def dest: edges_new_text split: sum.splits)

lemma resolve_within_ok:
  assumes "source_ok src"
  shows "learned_from src kn \<Longrightarrow> keyed kn \<Longrightarrow> resolution_ok src root (resolve_within n src root kn)"
proof (induction n arbitrary: kn)
  case 0
  show ?case by (simp add: resolution_ok_def no_set_fits_def)
next
  case (Suc n)
  note solved = solve_ok [OF assms Suc.prems, of root]
  show ?case
  proof (cases "solve kn root")
    case (Inr cl)
    with solved show ?thesis by (simp add: resolution_ok_def)
  next
    case (Inl s)
    show ?thesis
    proof (cases s)
      case (Stop_Fail why)
      with Inl solved show ?thesis by (cases why) (auto simp: resolution_ok_def)
    next
      case (Stop_Need need)
      show ?thesis
      proof (cases "answer_need src need kn")
        case error: (Inl e)
        then have "resolution_ok src root (Inl e)"
          using answer_need_text [of src need kn]
          by (cases e) (auto simp: resolution_ok_def split: message.splits)
        with Inl Stop_Need error show ?thesis by (simp add: bind_result_def)
      next
        case (Inr kn')
        with Suc.IH [OF learned_from_answer [OF assms Suc.prems(1) Inr] answer_need_keyed [OF Inr Suc.prems(2)]]
          Inl Stop_Need
        show ?thesis by (simp add: bind_result_def)
      qed
    qed
  qed
qed


text \<open>A source of one package with one dependency.\<close>

definition plain_version :: "nat \<Rightarrow> string list \<Rightarrow> nuget_version" where
  "plain_version n pre =
     \<lparr>v_major = n, v_minor = 0, v_patch = 0, v_revision = 0, v_pre = pre, v_metadata = None, v_original = []\<rparr>"

definition listed_info :: "string \<Rightarrow> nuget_version \<Rightarrow> package_info" where
  "listed_info i v = \<lparr>pi_id = i, pi_version = v, pi_listed = True, pi_hash = None, pi_size = None,
     pi_dependencies = [], pi_download_url = []\<rparr>"

definition two_packages :: source where
  "two_packages =
     \<lparr>src_versions = (\<lambda>i. Inr (if to_ascii_lowercase i = ''lib'' then [listed_info ''lib'' (plain_version 1 [])] else [])),
      src_dependencies = (\<lambda>p. Inr (if to_ascii_lowercase (pi_id p) = ''app''
                                   then [\<lparr>dr_id = ''lib'', dr_range = None\<rparr>] else []))\<rparr>"

lemma two_packages_ok: "source_ok two_packages"
  by (auto simp: source_ok_def two_packages_def eq_ignore_ascii_case_def same_key_def info_key_def listed_info_def
      char_eval split: if_splits)

lemma two_packages_resolved:
  "\<exists>cl. resolve two_packages (listed_info ''app'' (plain_version 2 [])) = Inr cl \<and>
     map rs_info (cl_packages cl) = [listed_info ''app'' (plain_version 2 []), listed_info ''lib'' (plain_version 1 [])]"
proof -
  have "\<exists>cl. resolve_within (Suc (Suc (Suc (Suc n)))) two_packages (listed_info ''app'' (plain_version 2 []))
       nothing_known = Inr cl \<and>
     map rs_info (cl_packages cl) = [listed_info ''app'' (plain_version 2 []), listed_info ''lib'' (plain_version 1 [])]" for n
    by (simp add: solve_def search.simps try_each.simps next_choice_def nothing_known_def deps_of_def
      answer_need_def bind_result_def map_err_def map_result_def two_packages_def listed_info_def plain_version_def
      learn_versions_def learn_dependencies_def edge_new_def is_valid_id_def parse_range_def Let_def max_steps_def
      info_key_def same_key_def char_eval cli_package_def chosen_as_def eq_ignore_ascii_case_def max_packages_def
      candidates_def clashes_def is_prerelease_def range_any_def range_contains_def closure_of_infos)
  moreover have "max_lookups = Suc (Suc (Suc (Suc 1996)))" by (simp add: max_lookups_def)
  ultimately show ?thesis unfolding resolve_def by metis
qed


section \<open>A pin that comes late\<close>

text \<open>
  Only the ranges of what is already chosen make a pre-release a candidate, so whether a pin
  counts depends on the order in which the root lists its dependencies.
\<close>

definition pre_lib :: package_info where
  "pre_lib = listed_info ''lib'' (plain_version 1 [''rc''])"

definition any_edge :: "string \<Rightarrow> edge" where
  "any_edge i = \<lparr>ed_id = i, ed_key = i, ed_range = range_any\<rparr>"

definition pinning :: "edge list \<Rightarrow> known" where
  "pinning edges =
     \<lparr>kn_versions = [(''lib'', [pre_lib]), (''tool'', [listed_info ''tool'' (plain_version 1 [])])],
      kn_dependencies = [((''app'', plain_version 1 []), edges),
        ((''tool'', plain_version 1 []),
          [\<lparr>ed_id = ''lib'', ed_key = ''lib'', ed_range = range_exact (plain_version 1 [''rc''])\<rparr>]),
        ((''lib'', plain_version 1 [''rc'']), [])]\<rparr>"

lemma late_pin_missed:
  "fst (search (pinning [any_edge ''lib'', any_edge ''tool'']) False [listed_info ''app'' (plain_version 1 [])]
     \<lparr>sv_steps = 0, sv_conflict = None\<rparr>) = Inr None"
  "fst (search (pinning [any_edge ''tool'', any_edge ''lib'']) False [listed_info ''app'' (plain_version 1 [])]
     \<lparr>sv_steps = 0, sv_conflict = None\<rparr>) =
     Inr (Some [listed_info ''app'' (plain_version 1 []), listed_info ''tool'' (plain_version 1 []), pre_lib])"
  by (simp_all add: search.simps try_each.simps next_choice_def pinning_def any_edge_def deps_of_def map_result_def
      listed_info_def plain_version_def pre_lib_def Let_def max_steps_def info_key_def same_key_def char_eval
      cli_package_def chosen_as_def eq_ignore_ascii_case_def max_packages_def candidates_def clashes_def
      is_prerelease_def range_any_def range_exact_def range_contains_def note_clash_def pins_def eq_version_def
      cmp_version_def cmp_core_def cmp_pre_def compare_pre_identifiers_def compare_identifier_def number_eval cmp_str_def)

end
