(* ===== verification/Spec2Isabelle.thy ===== *)
theory Spec2Isabelle
  imports Version_Range Request_Guard Database_Spec Purge_Safety Policy Archive Admin Closure
begin

text \<open>
  Verification of YANuget, a NuGet server in Rust.

  \<^bold>\<open>The program.\<close> The server (\<open>src/src/\<close>) keeps packages in feeds. A version's rows are in a
  SQLite index (\<open>database/\<close>), its payload and sidecars in a directory store (\<open>storage/\<close>); a feed
  holds a version by a membership row, so that several feeds share one stored version. A push
  (\<open>indexing.rs\<close>) reads the uploaded archive and its manifest (\<open>crates/yanuget-pkg\<close>), holds it to
  the feed's license policy and writes files and rows; retention (\<open>retention.rs\<close>) and the purges
  take versions away again; the web layer (\<open>web/\<close>) checks keys, answers downloads and takes
  uploads, files attached to a version among them, in one request or resumable. A tool of its
  own (\<open>crates/yanuget-internalize\<close>) brings packages with their dependencies from an upstream.

  \<^bold>\<open>The shape of the model.\<close> Pure functions are functions; a string is its UTF-8 bytes, one
  character for each; integers are naturals with the bounds the code checks, and saturation or
  wrap-around written out where the code relies on it. Errors are the constructors of
  \<open>Errors.error\<close>, a message its format string and arguments. An operation on the database or the
  store is a function from a world (\<open>World\<close>) to its result and the world it leaves. A world holds
  a schedule of faults, of which nothing is assumed: each call that can fail asks it, so a
  theorem that does not mention the schedule holds whatever fails and wherever. What a
  third-party library or the operating system does is a parameter with its documented behaviour
  as a named predicate (\<open>crypto_ok\<close>, \<open>http_ok\<close>, \<open>source_ok\<close>).

  \<^bold>\<open>The theories,\<close> each over the ones before it:

  \<^item> \<open>Prelude\<close>, \<open>Rust_Text\<close>: comparison results and the locale \<open>total_cmp\<close> with sorting and
    maxima, interpreted for versions (\<open>version_order\<close>) and retention candidates (\<open>ranking\<close>); the
    part of \<open>str\<close> and \<open>u8\<close> the sources use.
  \<^item> \<open>Version\<close>, \<open>Version_Range\<close> (\<open>yanuget-pkg/src/version.rs\<close>, \<open>range.rs\<close>): parsing, normal form,
    order and hash, intervals and the best match. The normal form identifies exactly the equal
    versions, and printing and parsing are inverse.
  \<^item> \<open>Errors\<close> (\<open>error.rs\<close>), \<open>Package_Names\<close> (\<open>validation.rs\<close>, \<open>yanuget-pkg/src/files.rs\<close>, the path
    functions of \<open>storage/filesystem.rs\<close>): no answer reveals an internal error; every store path
    stays inside the store, and two accepted pushes share one only as the same version.
  \<^item> \<open>Ip_Address\<close>, \<open>Request_Guard\<close> (\<open>yanuget-pkg/src/address.rs\<close>, \<open>proxy.rs\<close>, \<open>ratelimit.rs\<close>,
    \<open>web/middleware.rs\<close>): which addresses a fetch may reach, whose forwarding headers count, and
    the rate limiter.
  \<^item> \<open>Domain\<close>, \<open>Database\<close>, \<open>Memberships\<close>, \<open>File_Tables\<close>, \<open>Feed_Reads\<close> (\<open>models.rs\<close>, \<open>database/\<close>):
    the records and the operations on each table. \<open>Database_Invariant\<close> shows that every operation
    keeps keys unique and references whole; \<open>Database_Spec\<close> has the step relation \<open>db_step\<close>, the
    invariant of every reachable database, the refinement of memberships by a finite map, and
    what transactions promise.
  \<^item> \<open>World\<close>, \<open>Store\<close> (\<open>storage/\<close>): effects and faults, and the file store. The locale
    \<open>placed_file\<close> is the contract of every way to store a file, whole or not at all; it is
    interpreted for payloads, symbol packages, symbol files and sidecars.
  \<^item> \<open>Retention\<close>, \<open>Purge\<close>, \<open>Purge_Safety\<close> (\<open>retention.rs\<close>): the plan, acting on it, and that
    nothing a feed still holds is lost whatever fails in between.
  \<^item> \<open>Policy\<close> (\<open>policy.rs\<close>), \<open>Nuspec\<close>, \<open>Archive\<close> (\<open>yanuget-pkg/src/nuspec.rs\<close>, \<open>nupkg.rs\<close>): the
    license verdict against the meaning of an expression; the manifest reader as a state machine
    over the events of an XML reader; the check that an archive's directory can be read in one
    way only.
  \<^item> \<open>Indexing\<close>, \<open>Index_Safety\<close>, \<open>Push\<close>, \<open>Immutable\<close> (\<open>indexing.rs\<close>): the push on every branch,
    triples over faulty runs, that a push leaves every feed served, and that no push changes an
    approved version under a mode that keeps them.
  \<^item> \<open>Auth\<close>, \<open>File_Response\<close>, \<open>Downloads\<close> (\<open>auth.rs\<close>, \<open>web/files.rs\<close>, \<open>web/state.rs\<close>,
    \<open>web/protocol.rs\<close>): keys and form tokens, ranges and conditional requests, who is given bytes.
  \<^item> \<open>Upload_Streams\<close>, \<open>Hosted\<close>, \<open>Resumable\<close> (\<open>space.rs\<close>, \<open>streaming.rs\<close>, \<open>web/hosted.rs\<close>): promised
    space, bodies on their way to disk, attached files and the tus protocol. \<open>Resumable\<close> has the
    relation \<open>interrupted\<close> of what can come between an upload and its end, its invariant, and
    that one undisturbed request ends the upload.
  \<^item> \<open>Publish\<close>, \<open>Admin\<close> (\<open>web/publish.rs\<close>, \<open>web/admin.rs\<close>, \<open>web/forms.rs\<close>): the handlers around
    these operations, each with its checks: push, delete and relist, and what an admin's forms ask
    for, one version or many at a time. An approval is of what its reviewer saw, and a copy or a
    move between feeds keeps to the rules of both.
  \<^item> \<open>Closure\<close> (\<open>yanuget-internalize/src/closure.rs\<close>): the dependency search, its termination,
    soundness and completeness.
\<close>

text \<open>
  \<^bold>\<open>Bounds and recursion.\<close> No definition needs fuel the code does not have. The search of
  \<open>Closure\<close> ends by its own budget of 100,000 steps, and \<open>resolve_within\<close> counts the 2,000 rounds
  of the code's loop. The other loops recurse on what they consume: the bytes of a central
  directory, the text left to trim or split, the bytes left to hash. A fault schedule is a
  finite list, and an exhausted one has no more faults, which is how the undisturbed requests
  of \<open>Resumable\<close> are stated; runs with faults are every other schedule.

  \<^bold>\<open>What the model leaves out of the parts it has.\<close>

  \<^item> Concurrency: an operation runs alone. That is what the code's version and blob locks
    (\<open>locks.rs\<close>) provide for one version and one blob; races between versions, and a request
    cancelled elsewhere than in the body of a resumable upload, are not modelled. \<open>Downloads\<close>
    takes what others do at the awaits of one handler as arguments, and \<open>Hosted\<close> whether another
    request writes an upload.
  \<^item> SQLite folds only ASCII case and the ids are ASCII; lower-casing elsewhere is ASCII too,
    Unicode's being a parameter where the code applies it to free text. Counters are naturals,
    where the columns hold signed 64-bit integers.
  \<^item> Directories have no existence of their own, and syncing them has no effect. A write is one
    call, with the bytes it got to when it fails. Times are whole seconds.
  \<^item> Log lines and metrics.

  \<^bold>\<open>Not modelled.\<close> Full-text search and the SQL it composes; schema migrations of older releases;
  the JSON documents (registration, search, service index) and the HTML pages; the mirror client
  and everything over HTTP; symbol packages and the PDB and PE readers; backup, restore, data migration, the inbox,
  TLS, configuration files, the command lines and the server's wiring; rewriting packages, and
  the internalizer apart from the closure. These are formatting, parsing by libraries, network
  and process I/O, or SQL run by the engine, and a model would have to make up the library they
  stand on. What they decide and hand on, such as settings, keys or a mirror's answer, is an
  argument of the definitions that use it.

  \<^bold>\<open>What modelling showed.\<close> Some lemmas show where the code departs from what it says or means:
  \<open>failed_symbol_removal_reported_done\<close> (\<open>Purge_Safety\<close>), \<open>unknown_exception_not_admitted\<close> (\<open>Policy\<close>),
  \<open>second_root_accepted\<close> and \<open>unclosed_manifest_accepted\<close> (\<open>Nuspec\<close>), \<open>long_nuspec_cut_short\<close> and
  \<open>last_signature_without_room\<close> (\<open>Archive\<close>), \<open>failed_overwrite_keeps_new_bytes\<close> (\<open>Immutable\<close>),
  \<open>overwrite_in_progress_unnoticed\<close> (\<open>Downloads\<close>), \<open>unreadable_if_range_honoured\<close>
  (\<open>File_Response\<close>), \<open>finished_upload_lost\<close> (\<open>Resumable\<close>) and \<open>late_pin_missed\<close> (\<open>Closure\<close>).
\<close>

end
